(* ===== verification/XPrelude.thy ===== *)
theory XPrelude
  imports Main "HOL-Library.Word" "HOL-Library.Monad_Syntax"
begin

text \<open>
  Shared vocabulary of the development: C's size type, memory blocks as lists
  with \<open>memcpy\<close> and \<open>memmove\<close>, the outcome of an allocation, and the
  window of a ring buffer read as a list. The lemmas about windows are what the queue,
  chunk and buffer theories rest on.
\<close>

named_theorems ring_simps \<open>windows of a ring buffer\<close>
named_theorems blit_simps \<open>block copies\<close>

section \<open>C types and memory\<close>

text \<open>
  A \<open>size_t\<close> is a natural number. An addition of values the caller chooses is
  written with \<open>size_add\<close>, which wraps at 64 bits; index arithmetic bounded by the
  length of an allocated array stays below \<open>2 ^ 64\<close> and is plain addition.
\<close>

type_synonym size_t = nat

definition size_max :: size_t where
  "size_max = 2 ^ 64 - 1"

definition size_add :: "size_t \<Rightarrow> size_t \<Rightarrow> size_t" where
  "size_add a b = (a + b) mod 2 ^ 64"

lemma size_add_small [simp]: "a + b \<le> size_max \<Longrightarrow> size_add a b = a + b"
  by (simp add: size_add_def size_max_def)

definition size_sub :: "size_t \<Rightarrow> size_t \<Rightarrow> size_t" where
  "size_sub a b = (if b \<le> a then a - b else a + 2 ^ 64 - b)"

definition size_mul :: "size_t \<Rightarrow> size_t \<Rightarrow> size_t" where
  "size_mul a b = (a * b) mod 2 ^ 64"

lemma size_mul_small [simp]: "a * b \<le> size_max \<Longrightarrow> size_mul a b = a * b"
  by (simp add: size_mul_def size_max_def)

lemma size_sub_le [simp]: "b \<le> a \<Longrightarrow> size_sub a b = a - b"
  by (simp add: size_sub_def)

type_synonym byte = "8 word"

text \<open>
  The outcome of an allocation request: \<open>None\<close> is the NULL pointer, \<open>Some b\<close> a
  fresh block of the requested length whose contents are whatever the memory held.
\<close>

type_synonym 'a heap_alloc = "size_t \<Rightarrow> 'a list option"

definition malloc_ok :: "'a heap_alloc \<Rightarrow> bool" where
  "malloc_ok mem \<longleftrightarrow> (\<forall>n b. mem n = Some b \<longrightarrow> length b = n)"

lemma malloc_okD: "malloc_ok mem \<Longrightarrow> mem n = Some b \<Longrightarrow> length b = n"
  by (simp add: malloc_ok_def)

lemma malloc_ok_replicate [simp, intro]: "malloc_ok (\<lambda>n. Some (replicate n x))"
  by (simp add: malloc_ok_def)

lemma malloc_ok_fail [simp, intro]: "malloc_ok (\<lambda>n. None)"
  by (simp add: malloc_ok_def)

text \<open>\<open>memcpy(xs + off, ys, length ys)\<close> on a block, and an overlapping move inside it.\<close>

definition memcpy_at :: "'a list \<Rightarrow> nat \<Rightarrow> 'a list \<Rightarrow> 'a list" where
  "memcpy_at xs off ys = take off xs @ ys @ drop (off + length ys) xs"

definition memmove_in :: "'a list \<Rightarrow> nat \<Rightarrow> nat \<Rightarrow> nat \<Rightarrow> 'a list" where
  "memmove_in xs dst src n = memcpy_at xs dst (take n (drop src xs))"

lemma length_memcpy_at [simp]:
  "off + length ys \<le> length xs \<Longrightarrow> length (memcpy_at xs off ys) = length xs"
  by (simp add: memcpy_at_def)

lemma nth_memcpy_at [blit_simps]:
  assumes "off + length ys \<le> length xs" and "i < length xs"
  shows "memcpy_at xs off ys ! i =
    (if off \<le> i \<and> i < off + length ys then ys ! (i - off) else xs ! i)"
  using assms by (auto simp: memcpy_at_def nth_append min_def)

lemma memcpy_at_nil [simp]: "off \<le> length xs \<Longrightarrow> memcpy_at xs off [] = xs"
  by (simp add: memcpy_at_def)

lemma length_memmove_in [simp]:
  "dst + n \<le> length xs \<Longrightarrow> src + n \<le> length xs \<Longrightarrow> length (memmove_in xs dst src n) = length xs"
  by (simp add: memmove_in_def)

lemma nth_memmove_in [blit_simps]:
  assumes "dst + n \<le> length xs" and "src + n \<le> length xs" and "i < length xs"
  shows "memmove_in xs dst src n ! i =
    (if dst \<le> i \<and> i < dst + n then xs ! (src + (i - dst)) else xs ! i)"
  using assms by (auto simp: memmove_in_def nth_memcpy_at)

section \<open>Concatenations with one element changed\<close>

lemma concat_update_last:
  assumes "i < length xs" and "\<And>j. i < j \<Longrightarrow> j < length xs \<Longrightarrow> f (xs ! j) = []"
  shows "concat (map f (xs[i := c])) = concat (map f (take i xs)) @ f c"
proof -
  have "\<forall>x\<in>set (drop (Suc i) xs). f x = []"
    using assms(2) by (auto simp: in_set_conv_nth)
  then have "concat (map f (drop (Suc i) xs)) = []" by simp
  then show ?thesis using assms(1) by (simp add: upd_conv_take_nth_drop)
qed

lemma concat_update_first:
  assumes "i < length xs" and "\<And>j. j < i \<Longrightarrow> f (xs ! j) = []"
  shows "concat (map f (xs[i := c])) = f c @ concat (map f (drop (Suc i) xs))"
proof -
  have "\<forall>x\<in>set (take i xs). f x = []"
    using assms by (auto simp: in_set_conv_nth)
  then have "concat (map f (take i xs)) = []" by simp
  then show ?thesis using assms(1) by (simp add: upd_conv_take_nth_drop)
qed

section \<open>The window of a ring\<close>

text \<open>
  \<open>ring xs h n\<close> is the list of the \<open>n\<close> slots that start at slot \<open>h\<close> and wrap
  round the end of the block \<open>xs\<close>.
\<close>

definition ring :: "'a list \<Rightarrow> nat \<Rightarrow> nat \<Rightarrow> 'a list" where
  "ring xs h n = map (\<lambda>i. xs ! ((h + i) mod length xs)) [0..<n]"

text \<open>The number of slots from \<open>h\<close> up to, and not including, \<open>t\<close>.\<close>

definition ring_dist :: "nat \<Rightarrow> nat \<Rightarrow> nat \<Rightarrow> nat" where
  "ring_dist c h t = (if h \<le> t then t - h else t + c - h)"

lemma length_ring [simp]: "length (ring xs h n) = n"
  by (simp add: ring_def)

lemma nth_ring [simp]: "i < n \<Longrightarrow> ring xs h n ! i = xs ! ((h + i) mod length xs)"
  by (simp add: ring_def)

lemma ring_0 [simp]: "ring xs h 0 = []"
  by (simp add: ring_def)

lemma ring_eq_Nil_iff [simp]: "ring xs h n = [] \<longleftrightarrow> n = 0"
  by (simp add: ring_def)

lemma ring_eqI:
  assumes "length ys = n" and "\<And>i. i < n \<Longrightarrow> ys ! i = xs ! ((h + i) mod length xs)"
  shows "ring xs h n = ys"
  using assms by (intro nth_equalityI) auto

lemma ring_snoc [ring_simps]:
  "ring xs h (Suc n) = ring xs h n @ [xs ! ((h + n) mod length xs)]"
  by (simp add: ring_def)

lemma ring_cons [ring_simps]:
  assumes "h < length xs"
  shows "ring xs h (Suc n) = xs ! h # ring xs ((h + 1) mod length xs) n"
  using assms by (intro ring_eqI) (auto simp: nth_Cons mod_add_left_eq split: nat.splits)

lemma drop_ring [ring_simps]:
  "k \<le> n \<Longrightarrow> drop k (ring xs h n) = ring xs ((h + k) mod length xs) (n - k)"
  by (rule sym, rule ring_eqI) (auto simp: mod_add_left_eq add.assoc)

lemma take_ring [ring_simps]: "k \<le> n \<Longrightarrow> take k (ring xs h n) = ring xs h k"
  by (rule sym, rule ring_eqI) auto

lemma ring_mod_start [ring_simps]: "ring xs (h mod length xs) n = ring xs h n"
  by (rule ring_eqI) (auto simp: mod_add_left_eq)

lemma ring_linear: "h + n \<le> length xs \<Longrightarrow> ring xs h n = take n (drop h xs)"
  by (rule ring_eqI) auto

lemma ring_wrap:
  assumes "h < length xs" and "n \<le> length xs" and "length xs \<le> h + n"
  shows "ring xs h n = drop h xs @ take (n - (length xs - h)) xs"
proof (rule ring_eqI)
  show "length (drop h xs @ take (n - (length xs - h)) xs) = n" using assms by auto
next
  fix i assume "i < n"
  with assms show "(drop h xs @ take (n - (length xs - h)) xs) ! i = xs ! ((h + i) mod length xs)"
    by (auto simp: nth_append le_mod_geq not_less add.commute)
qed

lemma wrapped_position:
  assumes "w < c" and "c - w \<le> n"
  shows "(n - (c - w)) mod c = (w + n) mod (c :: nat)"
proof -
  have "w + n = n - (c - w) + c" using assms by simp
  then show ?thesis by (metis mod_add_self2)
qed

text \<open>Distances.\<close>

lemma ring_next_less [simp]: "h < c \<Longrightarrow> Suc h mod c < c"
  by (cases c) auto

lemma ring_step_less [simp]: "h < c \<Longrightarrow> (h + k) mod c < (c :: nat)"
  by (rule mod_less_divisor) simp

lemma ring_dist_self [simp]: "ring_dist c h h = 0"
  by (simp add: ring_dist_def)

lemma ring_dist_less: "h < c \<Longrightarrow> t < c \<Longrightarrow> ring_dist c h t < c"
  by (auto simp: ring_dist_def)

lemma ring_dist_0_iff: "h < c \<Longrightarrow> t < c \<Longrightarrow> ring_dist c h t = 0 \<longleftrightarrow> h = t"
  by (auto simp: ring_dist_def)

lemma ring_dist_end: "h < c \<Longrightarrow> t < c \<Longrightarrow> (h + ring_dist c h t) mod c = t"
  by (auto simp: ring_dist_def le_mod_geq)

lemma ring_dist_add:
  "h < c \<Longrightarrow> n < c \<Longrightarrow> ring_dist c h ((h + n) mod c) = n"
  by (cases "h + n < c") (auto simp: ring_dist_def le_mod_geq)

lemma ring_dist_tail:
  assumes "h < c" and "t < c" and "ring_dist c h t + k < c"
  shows "ring_dist c h ((t + k) mod c) = ring_dist c h t + k"
proof -
  have "(t + k) mod c = (h + (ring_dist c h t + k)) mod c"
    using ring_dist_end [OF assms(1,2)] by (metis add.assoc mod_add_left_eq)
  then show ?thesis using ring_dist_add [of h c] assms by simp
qed

lemma ring_dist_head:
  assumes "h < c" and "t < c" and "k \<le> ring_dist c h t"
  shows "ring_dist c ((h + k) mod c) t = ring_dist c h t - k"
proof -
  have "t = ((h + k) mod c + (ring_dist c h t - k)) mod c"
    using ring_dist_end [OF assms(1,2)] assms(3)
    by (metis add.assoc le_add_diff_inverse mod_add_left_eq)
  moreover have "(h + k) mod c < c" using assms by simp
  moreover have "ring_dist c h t - k < c" using ring_dist_less [OF assms(1,2)] by simp
  ultimately show ?thesis using ring_dist_add by metis
qed

text \<open>The slot a window of fewer than \<open>length xs\<close> slots ends at is outside the window.\<close>

lemma ring_slot_inj:
  assumes "i < c" and "j < c" and "(h + i) mod c = (h + j) mod (c::nat)"
  shows "i = j"
proof -
  have "h mod c < c" using assms(1) by (cases c) auto
  then have "ring_dist c (h mod c) ((h mod c + i) mod c) = i"
    and "ring_dist c (h mod c) ((h mod c + j) mod c) = j"
    using assms(1,2) by (auto intro: ring_dist_add)
  then show ?thesis using assms(3) by (simp add: mod_add_left_eq)
qed

text \<open>
  Writing a list round the end of the block, and reading a window, in the two pieces a program
  copies.
\<close>

definition ring_put :: "'a list \<Rightarrow> nat \<Rightarrow> 'a list \<Rightarrow> 'a list" where
  "ring_put xs t ys =
     (if length ys < length xs - t then memcpy_at xs t ys
      else memcpy_at (memcpy_at xs t (take (length xs - t) ys)) 0 (drop (length xs - t) ys))"

lemma length_ring_put [simp]:
  "t < length xs \<Longrightarrow> length ys \<le> length xs \<Longrightarrow> length (ring_put xs t ys) = length xs"
  by (simp add: ring_put_def)

lemma nth_ring_put:
  assumes "t < length xs" and "length ys \<le> length xs" and "s < length xs"
  shows "ring_put xs t ys ! s =
    (if ring_dist (length xs) t s < length ys then ys ! ring_dist (length xs) t s else xs ! s)"
  using assms by (auto simp: ring_put_def ring_dist_def nth_memcpy_at add.commute)

lemma ring_ring_put:
  assumes h: "h < length xs" and room: "n + length ys < length xs"
  shows "ring (ring_put xs ((h + n) mod length xs) ys) h (n + length ys) = ring xs h n @ ys"
proof (rule ring_eqI)
  let ?c = "length xs" and ?t = "(h + n) mod length xs"
  have t: "?t < ?c" using h by simp
  fix i assume i: "i < n + length ys"
  have len: "length (ring_put xs ?t ys) = ?c" using t room by simp
  show "(ring xs h n @ ys) ! i = ring_put xs ?t ys ! ((h + i) mod length (ring_put xs ?t ys))"
  proof (cases "i < n")
    case True
    have "h + n + (?c - n + i) = h + i + ?c" using True room by simp
    then have "(?t + (?c - n + i)) mod ?c = (h + i) mod ?c"
      by (metis mod_add_left_eq mod_add_self2)
    then have "ring_dist ?c ?t ((h + i) mod ?c) = ?c - n + i"
      using ring_dist_add [OF t, of "?c - n + i"] True room by simp
    moreover have "\<not> ?c - n + i < length ys" using room by linarith
    moreover have "(h + i) mod ?c < ?c" using h by simp
    ultimately show ?thesis using True room t by (simp only: len nth_ring_put [OF t]) (simp add: len nth_ring_put nth_append)
  next
    case False
    then have "h + n + (i - n) = h + i" by simp
    then have "(?t + (i - n)) mod ?c = (h + i) mod ?c" by (metis mod_add_left_eq)
    then have "ring_dist ?c ?t ((h + i) mod ?c) = i - n"
      using ring_dist_add [OF t, of "i - n"] i room by simp
    moreover have "i - n < length ys" using False i by linarith
    ultimately show ?thesis using False i room t h by (simp add: len nth_ring_put nth_append)
  qed
qed simp

lemma ring_two_pieces:
  assumes "h < length xs" and "n \<le> length xs"
  shows "ring xs h n =
    (if n < length xs - h then take n (drop h xs)
     else take (length xs - h) (drop h xs) @ take (n - (length xs - h)) xs)"
  using assms ring_linear [of h n xs] ring_wrap [of h xs n] by auto

lemma ring_ring_put_inside:
  assumes "h < length xs" and "n < length xs" and "length ys \<le> n"
  shows "ring (ring_put xs h ys) h n = ys @ drop (length ys) (ring xs h n)"
proof (rule ring_eqI)
  fix i assume i: "i < n"
  have "ring_dist (length xs) h ((h + i) mod length xs) = i"
    using ring_dist_add [OF assms(1), of i] i assms(2) by simp
  then show "(ys @ drop (length ys) (ring xs h n)) ! i =
      ring_put xs h ys ! ((h + i) mod length (ring_put xs h ys))"
    using assms i by (auto simp: nth_ring_put nth_append)
qed (use assms in simp)

section \<open>Comparison results\<close>

text \<open>\<open>XCompare_Less\<close>, \<open>XCompare_Equality\<close>, \<open>XCompare_Greater\<close>; \<open>XCompare_Come\<close> for \<open>int\<close>.\<close>

definition XCompare_Less :: int where "XCompare_Less = -1"
definition XCompare_Equality :: int where "XCompare_Equality = 0"
definition XCompare_Greater :: int where "XCompare_Greater = 1"

definition int_compare :: "int \<Rightarrow> int \<Rightarrow> int" where
  "int_compare lhs rhs =
     (if lhs < rhs then XCompare_Less else if rhs < lhs then XCompare_Greater else XCompare_Equality)"

lemmas XCompare_defs = XCompare_Less_def XCompare_Equality_def XCompare_Greater_def

end
