(* ===== verification/CircularQueue.thy ===== *)
theory CircularQueue
  imports XPrelude
begin

text \<open>
  The circular queue of \<open>XContainer/XQueue/XCircularQueue/XCircularQueue.c\<close>: a block of
  slots with a head index, a tail index and one slot kept free, so that head = tail means empty.

  A slot holds one element (\<open>typeSize\<close> bytes in the code), so byte offsets are slot indices.
  Memory is asked for in bytes: \<open>mem b\<close> is the outcome of a request for \<open>b\<close> bytes, and a block is
  the list of the whole elements it has room for. The product of element size and capacity wraps at 64
  bits as in the code, so a block may have fewer slots than the capacity says.
  The record has the fields of \<open>XContainer\<close> the queue uses and the queue's own. The
  element callbacks are \<open>cq_deinit\<close> (whether a destructor is set; the elements it is called
  on are returned as a log) and \<open>cq_compare\<close>. A result of \<open>None\<close> is the C program not
  returning one: a division by zero, a NULL buffer dereferenced, a slot accessed outside the block or a
  loop that does not end.
\<close>

section \<open>State\<close>

definition slots_ok :: "size_t \<Rightarrow> 'a heap_alloc \<Rightarrow> bool" where
  "slots_ok typeSize mem \<longleftrightarrow> (\<forall>bytes b. mem bytes = Some b \<longrightarrow> length b = bytes div typeSize)"

lemma slots_okD: "slots_ok typeSize mem \<Longrightarrow> mem bytes = Some b \<Longrightarrow> length b = bytes div typeSize"
  by (simp add: slots_ok_def)

lemma slots_ok_product:
  assumes "slots_ok typeSize mem" and "mem (size_mul typeSize n) = Some b" and "0 < typeSize"
    and "typeSize * n < 2 ^ 64"
  shows "length b = n"
  using slots_okD [OF assms(1,2)] assms(3,4) by (simp add: size_mul_def)

record 'a XCircularQueue =
  cq_data :: "'a list option"
  cq_size :: size_t
  cq_capacity :: size_t
  cq_typeSize :: size_t
  cq_deinit :: bool
  cq_compare :: "('a \<Rightarrow> 'a \<Rightarrow> int) option"
  cq_autoExpansion :: bool
  cq_head :: size_t
  cq_tail :: size_t

section \<open>Operations\<close>

definition cq_getCapacity :: "'a XCircularQueue \<Rightarrow> size_t" where
  "cq_getCapacity q = cq_size q"

definition VXCircularQueue_isEmpty :: "'a XCircularQueue \<Rightarrow> bool" where
  "VXCircularQueue_isEmpty q \<longleftrightarrow> cq_head q = cq_tail q"

text \<open>\<open>% capacity\<close> with capacity 0 (a queue moved from or deinitialised) traps.\<close>

definition VXCircularQueue_isFull :: "'a XCircularQueue \<Rightarrow> bool option" where
  "VXCircularQueue_isFull q =
     (let capacity = cq_getCapacity q in
      if capacity = 0 then None else Some ((cq_tail q + 1) mod capacity = cq_head q))"

definition VXCircularQueue_size :: "'a XCircularQueue \<Rightarrow> size_t" where
  "VXCircularQueue_size q =
     (let capacity = cq_getCapacity q in
      if capacity = 0 then 0
      else if cq_head q \<le> cq_tail q then cq_tail q - cq_head q
      else cq_tail q + capacity - cq_head q)"

text \<open>
  The loop of \<open>clear\<close> and \<open>deinit\<close> that runs the destructor from \<open>current\<close> up to the
  tail; the elements it destroys are appended to \<open>log\<close>.
\<close>

partial_function (option) cq_destroy_loop ::
  "'a list \<Rightarrow> size_t \<Rightarrow> size_t \<Rightarrow> size_t \<Rightarrow> 'a list \<Rightarrow> 'a list option" where
  "cq_destroy_loop buf capacity tail current log =
     (if current = tail then Some log
      else if capacity = 0 \<or> \<not> current < length buf then None
      else cq_destroy_loop buf capacity tail ((current + 1) mod capacity) (log @ [buf ! current]))"

definition VXCircularQueue_clear ::
  "'a XCircularQueue \<Rightarrow> ('a list \<times> 'a XCircularQueue) option" where
  "VXCircularQueue_clear q =
     (case cq_data q of
        None \<Rightarrow> Some ([], q)
      | Some buf \<Rightarrow> do {
          log \<leftarrow> (if cq_deinit q
                 then cq_destroy_loop buf (cq_getCapacity q) (cq_tail q) (cq_head q) []
                 else Some []);
          Some (log, q\<lparr>cq_head := 0, cq_tail := 0\<rparr>)
        })"

text \<open>
  The copying loop shared by \<open>enlargeCapacity\<close> and \<open>VXClass_copy\<close>: slot \<open>i\<close> of the
  new block gets slot \<open>src_index\<close> of the old one, for \<open>n\<close> more elements.
\<close>

primrec cq_copy_loop ::
  "'a list \<Rightarrow> size_t \<Rightarrow> size_t \<Rightarrow> size_t \<Rightarrow> 'a list \<Rightarrow> nat \<Rightarrow> 'a list option" where
  "cq_copy_loop old capacity src_index i new 0 = Some new"
| "cq_copy_loop old capacity src_index i new (Suc n) =
     (if src_index < length old \<and> i < length new then
        cq_copy_loop old capacity ((src_index + 1) mod capacity) (i + 1) (new[i := old ! src_index]) n
      else None)"

text \<open>
  \<open>(size_t)(old_capacity * 1.5)\<close> is exact in a double for capacities below \<open>2 ^ 51\<close>,
  where it is \<open>3 * old_capacity div 2\<close>.
\<close>

definition enlargeCapacity ::
  "'a heap_alloc \<Rightarrow> 'a XCircularQueue \<Rightarrow> (bool \<times> 'a XCircularQueue) option" where
  "enlargeCapacity mem q =
     (let old_capacity = cq_getCapacity q;
          scaled = 3 * old_capacity div 2;
          new_capacity = (if scaled < size_add old_capacity 1 then size_add old_capacity 1 else scaled);
          typeSize = cq_typeSize q;
          count = VXCircularQueue_size q
      in case mem (size_mul typeSize new_capacity) of
           None \<Rightarrow> Some (False, q)
         | Some newData \<Rightarrow> do {
             copied \<leftarrow> cq_copy_loop (case cq_data q of None \<Rightarrow> [] | Some b \<Rightarrow> b)
                        old_capacity (cq_head q) 0 newData count;
             Some (True, q\<lparr>cq_data := Some copied, cq_size := new_capacity, cq_capacity := new_capacity,
                            cq_head := 0, cq_tail := count\<rparr>)
           })"

text \<open>
  \<open>pvValue\<close> is the value pointed to, \<open>None\<close> for NULL. \<open>dataCreatMethod\<close> builds the
  element in the zeroed slot from the value; without one the value's bytes are copied.
\<close>

definition VXCircularQueue_push ::
  "'a heap_alloc \<Rightarrow> 'a XCircularQueue \<Rightarrow> 'a option \<Rightarrow> ('a \<Rightarrow> 'a) option
     \<Rightarrow> (bool \<times> 'a XCircularQueue) option" where
  "VXCircularQueue_push mem q pvValue dataCreatMethod =
     (case pvValue of
        None \<Rightarrow> Some (False, q)
      | Some value \<Rightarrow> do {
          full \<leftarrow> VXCircularQueue_isFull q;
          (room, q1) \<leftarrow> (if \<not> full then Some (True, q)
                        else if \<not> cq_autoExpansion q then Some (False, q)
                        else enlargeCapacity mem q);
          if \<not> room then Some (False, q1)
          else do {
            buffer \<leftarrow> cq_data q1;
            let stored = (case dataCreatMethod of Some creat \<Rightarrow> creat value | None \<Rightarrow> value);
            if cq_tail q1 < length buffer then
              Some (True, q1\<lparr>cq_data := Some (buffer[cq_tail q1 := stored]),
                             cq_tail := (cq_tail q1 + 1) mod cq_getCapacity q1\<rparr>)
            else None
          }
        })"

definition VXCircularQueue_pop :: "'a XCircularQueue \<Rightarrow> ('a list \<times> 'a XCircularQueue) option" where
  "VXCircularQueue_pop q =
     (if VXCircularQueue_isEmpty q then Some ([], q)
      else if cq_getCapacity q = 0 then None
      else do {
        log \<leftarrow> (if cq_deinit q then do {
                   buffer \<leftarrow> cq_data q;
                   if cq_head q < length buffer then Some [buffer ! cq_head q] else None
                 }
                 else Some []);
        Some (log, q\<lparr>cq_head := (cq_head q + 1) mod cq_getCapacity q\<rparr>)
      })"

text \<open>The element at the head, or NULL.\<close>

definition VXCircularQueue_top :: "'a XCircularQueue \<Rightarrow> 'a option" where
  "VXCircularQueue_top q =
     (if VXCircularQueue_isEmpty q then None
      else map_option (\<lambda>buffer. buffer ! cq_head q) (cq_data q))"

text \<open>
  \<open>out\<close> says whether \<open>pvBuffer\<close> is a buffer (not NULL). The result has the value
  written there (\<open>None\<close> with the return value false) and the elements destroyed.
\<close>

definition VXCircularQueue_receive ::
  "'a XCircularQueue \<Rightarrow> bool \<Rightarrow> ('a option \<times> 'a list \<times> 'a XCircularQueue) option" where
  "VXCircularQueue_receive q out =
     (if \<not> out \<or> VXCircularQueue_isEmpty q then Some (None, [], q)
      else if cq_getCapacity q = 0 then None
      else do {
        buffer \<leftarrow> cq_data q;
        pvTop \<leftarrow> (if cq_head q < length buffer then Some (buffer ! cq_head q) else None);
        let log = (if cq_deinit q then [pvTop] else []);
        Some (Some pvTop, log, q\<lparr>cq_head := (cq_head q + 1) mod cq_getCapacity q\<rparr>)
      })"

definition cq_deinit_queue :: "'a XCircularQueue \<Rightarrow> ('a list \<times> 'a XCircularQueue) option" where
  "cq_deinit_queue q = do {
     log \<leftarrow> (case cq_data q of
              None \<Rightarrow> Some []
            | Some buf \<Rightarrow>
                if cq_deinit q
                then cq_destroy_loop buf (cq_getCapacity q) (cq_tail q) (cq_head q) []
                else Some []);
     Some (log, q\<lparr>cq_data := None, cq_autoExpansion := False, cq_head := 0, cq_tail := 0,
                  cq_size := 0, cq_capacity := 0\<rparr>)
   }"

text \<open>\<open>XContainer_init\<close>: the container's fields are zeroed, the queue's own are not touched.\<close>

definition XContainer_init :: "'a XCircularQueue \<Rightarrow> size_t \<Rightarrow> 'a XCircularQueue" where
  "XContainer_init q typeSize =
     (if typeSize = 0 then q
      else q\<lparr>cq_data := None, cq_size := 0, cq_capacity := 0, cq_typeSize := typeSize,
              cq_deinit := False, cq_compare := None\<rparr>)"

definition XCircularQueue_init_with_memory ::
  "'a heap_alloc \<Rightarrow> 'a XCircularQueue \<Rightarrow> size_t \<Rightarrow> size_t \<Rightarrow> 'a XCircularQueue" where
  "XCircularQueue_init_with_memory mem q typeSize count =
     (if typeSize = 0 \<or> count = 0 then q
      else let q1 = XContainer_init q typeSize; capacity = size_add count 1 in
        case mem (size_mul typeSize capacity) of
          None \<Rightarrow> q1
        | Some buffer \<Rightarrow>
            q1\<lparr>cq_data := Some buffer, cq_size := capacity, cq_capacity := capacity,
               cq_autoExpansion := False, cq_head := 0, cq_tail := 0\<rparr>)"

definition XCircularQueue_init ::
  "'a heap_alloc \<Rightarrow> 'a XCircularQueue \<Rightarrow> size_t \<Rightarrow> size_t \<Rightarrow> 'a XCircularQueue" where
  "XCircularQueue_init mem q typeSize count = XCircularQueue_init_with_memory mem q typeSize count"

text \<open>
  \<open>create_ex\<close>: the object's own allocation is \<open>obj\<close>, the raw memory it gets
  (\<open>None\<close> when it fails).
\<close>

definition XCircularQueue_create_ex ::
  "'a heap_alloc \<Rightarrow> 'a XCircularQueue option \<Rightarrow> size_t \<Rightarrow> size_t \<Rightarrow> 'a XCircularQueue option" where
  "XCircularQueue_create_ex mem obj typeSize count =
     (if typeSize = 0 \<or> count = 0 then None
      else map_option (\<lambda>q. XCircularQueue_init_with_memory mem q typeSize count) obj)"

definition XCircularQueue_setAutoExpansion ::
  "'a XCircularQueue \<Rightarrow> bool \<Rightarrow> 'a XCircularQueue" where
  "XCircularQueue_setAutoExpansion q autoExpansion = q\<lparr>cq_autoExpansion := autoExpansion\<rparr>"

text \<open>
  Copy: \<open>uninit\<close> is \<open>XClassIsVtableNull(object)\<close>. An initialised target is
  deinitialised first (its elements are the log). The element slots are copied bytewise.
\<close>

definition cq_copy_into ::
  "'a heap_alloc \<Rightarrow> bool \<Rightarrow> 'a XCircularQueue \<Rightarrow> 'a XCircularQueue
     \<Rightarrow> ('a list \<times> 'a XCircularQueue) option" where
  "cq_copy_into mem uninit obj src = (
     let typeSize = cq_typeSize src; capacity = cq_getCapacity src;
         count = VXCircularQueue_size src;
         finish = (\<lambda>log obj.
           (let obj1 = obj\<lparr>cq_deinit := cq_deinit src\<rparr> in
            if count = 0 then
              Some (log, obj1\<lparr>cq_autoExpansion := cq_autoExpansion src, cq_head := 0, cq_tail := 0\<rparr>)
            else do {
              srcBuffer \<leftarrow> cq_data src;
              dstBuffer \<leftarrow> cq_data obj1;
              copied \<leftarrow> cq_copy_loop srcBuffer capacity (cq_head src) 0 dstBuffer count;
              Some (log, obj1\<lparr>cq_data := Some copied, cq_autoExpansion := cq_autoExpansion src,
                              cq_head := 0, cq_tail := count\<rparr>)
            }))
     in if uninit then
          finish [] (XCircularQueue_init_with_memory mem obj typeSize
                       (if 0 < capacity then capacity - 1 else 0))
        else do {
          (log, obj1) \<leftarrow> cq_deinit_queue obj;
          let obj2 = XContainer_init obj1 typeSize;
          (case mem (size_mul typeSize capacity) of
             None \<Rightarrow> Some (log, obj2)
           | Some buffer \<Rightarrow>
               finish log (obj2\<lparr>cq_data := Some buffer, cq_size := capacity,
                                cq_capacity := capacity\<rparr>))
        })"

text \<open>Move: the target gets every field of the source, the source is left empty.\<close>

definition cq_move_into ::
  "bool \<Rightarrow> 'a XCircularQueue \<Rightarrow> 'a XCircularQueue
     \<Rightarrow> ('a list \<times> 'a XCircularQueue \<times> 'a XCircularQueue) option" where
  "cq_move_into uninit obj src = do {
     (log, obj1) \<leftarrow> (if uninit then Some ([], XContainer_init obj (cq_typeSize src))
                    else cq_deinit_queue obj);
     Some (log, src,
           src\<lparr>cq_data := None, cq_capacity := 0, cq_size := 0, cq_head := 0, cq_tail := 0,
               cq_autoExpansion := False\<rparr>)
   }"

text \<open>
  \<open>XCircularQueue_remove\<close>, its search loop: the slots of the elements that compare equal
  to \<open>value\<close>, from the head on, at most \<open>max_to_remove\<close>. The index array has
  \<open>entries\<close> entries.
\<close>

primrec cq_find_loop ::
  "('a \<Rightarrow> 'a \<Rightarrow> int) \<Rightarrow> 'a \<Rightarrow> 'a list \<Rightarrow> size_t \<Rightarrow> nat \<Rightarrow> nat \<Rightarrow> size_t \<Rightarrow> size_t list \<Rightarrow> nat
     \<Rightarrow> size_t list option" where
  "cq_find_loop compare value buf capacity max_to_remove entries current indices 0 = Some indices"
| "cq_find_loop compare value buf capacity max_to_remove entries current indices (Suc n) =
     (if length indices < max_to_remove then
        (if \<not> current < length buf then None
         else if compare (buf ! current) value = 0 then
           (if length indices < entries then
              cq_find_loop compare value buf capacity max_to_remove entries ((current + 1) mod capacity)
                (indices @ [current]) n
            else None)
         else cq_find_loop compare value buf capacity max_to_remove entries ((current + 1) mod capacity)
                indices n)
      else Some indices)"

text \<open>
  The body of its deletion loop: the element at slot \<open>idx\<close> is destroyed and the gap
  closed by moving the elements behind it, across the end of the block when they wrap.
\<close>

definition cq_delete_at :: "'a XCircularQueue \<Rightarrow> size_t \<Rightarrow> 'a XCircularQueue" where
  "cq_delete_at q idx = (
     let count = VXCircularQueue_size q; capacity = cq_getCapacity q;
         head = cq_head q; tail = cq_tail q;
         buf = (case cq_data q of None \<Rightarrow> [] | Some b \<Rightarrow> b)
     in if count = 1 then q\<lparr>cq_head := 0, cq_tail := 0\<rparr>
        else if idx = head then q\<lparr>cq_head := (head + 1) mod capacity\<rparr>
        else if (if tail = 0 then capacity else tail) - 1 = idx then q\<lparr>cq_tail := idx\<rparr>
        else if \<not> tail < head then
          (let after = tail - idx - 1 in
           q\<lparr>cq_data := Some (memmove_in buf idx (idx + 1) after), cq_tail := tail - 1\<rparr>)
        else if head \<le> idx then
          (let after_first = capacity - idx - 1;
               buf1 = memmove_in buf idx (idx + 1) after_first
           in if 0 < tail then
                q\<lparr>cq_data := Some (memmove_in (buf1[capacity - 1 := buf1 ! 0]) 0 1 (tail - 1)),
                  cq_tail := tail - 1\<rparr>
              else q\<lparr>cq_data := Some buf1, cq_tail := capacity - 1\<rparr>)
        else
          (let after_second = tail - idx - 1 in
           q\<lparr>cq_data := Some (memmove_in buf idx (idx + 1) after_second), cq_tail := tail - 1\<rparr>))"

text \<open>Whether those moves stay inside the block.\<close>

definition cq_delete_inside :: "'a XCircularQueue \<Rightarrow> size_t \<Rightarrow> bool" where
  "cq_delete_inside q idx = (
     let capacity = cq_getCapacity q; head = cq_head q; tail = cq_tail q;
         slots = (case cq_data q of None \<Rightarrow> 0 | Some b \<Rightarrow> length b)
     in VXCircularQueue_size q = 1 \<or> idx = head \<or> (if tail = 0 then capacity else tail) - 1 = idx \<or>
        (if tail < head \<and> head \<le> idx then capacity \<le> slots else tail \<le> slots))"

primrec cq_delete_loop ::
  "'a XCircularQueue \<Rightarrow> size_t list \<Rightarrow> 'a list \<Rightarrow> ('a list \<times> 'a XCircularQueue) option" where
  "cq_delete_loop q [] log = Some (log, q)"
| "cq_delete_loop q (idx # idxs) log =
     (if cq_delete_inside q idx then
        cq_delete_loop (cq_delete_at q idx) idxs
          (if cq_deinit q then log @ [(case cq_data q of None \<Rightarrow> [] | Some b \<Rightarrow> b) ! idx] else log)
      else None)"

text \<open>
  \<open>indices_ok\<close> is whether the index array could be allocated; its size in bytes wraps too. The
  deletion loop goes through it from the last index to the first.
\<close>

definition XCircularQueue_remove ::
  "bool \<Rightarrow> 'a XCircularQueue \<Rightarrow> 'a option \<Rightarrow> nat \<Rightarrow> (nat \<times> 'a list \<times> 'a XCircularQueue) option" where
  "XCircularQueue_remove indices_ok q value n =
     (case value of None \<Rightarrow> Some (0, [], q) | Some v \<Rightarrow>
      if VXCircularQueue_isEmpty q then Some (0, [], q)
      else case cq_compare q of None \<Rightarrow> Some (0, [], q) | Some compare \<Rightarrow>
      (let count = VXCircularQueue_size q; capacity = cq_getCapacity q in
       if count = 0 \<or> \<not> indices_ok then Some (0, [], q)
       else do {
         buffer \<leftarrow> cq_data q;
         let max_to_remove = (if n = 0 then count else n);
         indices \<leftarrow> cq_find_loop compare v buffer capacity max_to_remove (size_mul count 8 div 8)
                      (cq_head q) [] count;
         if indices = [] then Some (0, [], q)
         else do {
           (log, q') \<leftarrow> cq_delete_loop q (rev indices) [];
           Some (length indices, log, q')
         }
       }))"

section \<open>Well-formed queues and the list they hold\<close>

definition cq_inv :: "'a XCircularQueue \<Rightarrow> bool" where
  "cq_inv q \<longleftrightarrow> (case cq_data q of None \<Rightarrow> False | Some buf \<Rightarrow>
     length buf = cq_size q \<and> cq_capacity q = cq_size q \<and>
     cq_head q < cq_size q \<and> cq_tail q < cq_size q)"

definition cq_abs :: "'a XCircularQueue \<Rightarrow> 'a list" where
  "cq_abs q = (case cq_data q of None \<Rightarrow> [] | Some buf \<Rightarrow>
     ring buf (cq_head q) (ring_dist (cq_size q) (cq_head q) (cq_tail q)))"

text \<open>The number of elements a queue holds before it is full.\<close>

definition cq_room :: "'a XCircularQueue \<Rightarrow> nat" where
  "cq_room q = cq_size q - 1"

lemma cq_invE:
  assumes "cq_inv q"
  obtains buf where "cq_data q = Some buf" "length buf = cq_size q" "cq_capacity q = cq_size q"
    "cq_head q < cq_size q" "cq_tail q < cq_size q" "0 < cq_size q"
  using assms by (auto simp: cq_inv_def split: option.splits)

lemma VXCircularQueue_size_dist:
  "cq_inv q \<Longrightarrow> VXCircularQueue_size q = ring_dist (cq_size q) (cq_head q) (cq_tail q)"
  by (auto simp: VXCircularQueue_size_def cq_getCapacity_def ring_dist_def elim!: cq_invE)

lemma VXCircularQueue_size_abs: "cq_inv q \<Longrightarrow> VXCircularQueue_size q = length (cq_abs q)"
  by (auto simp: VXCircularQueue_size_dist cq_abs_def elim!: cq_invE)

lemma VXCircularQueue_isEmpty_abs: "cq_inv q \<Longrightarrow> VXCircularQueue_isEmpty q \<longleftrightarrow> cq_abs q = []"
  by (auto simp: VXCircularQueue_isEmpty_def cq_abs_def ring_dist_0_iff elim!: cq_invE)

lemma cq_abs_room: "cq_inv q \<Longrightarrow> length (cq_abs q) \<le> cq_room q"
  using ring_dist_less [of "cq_head q" "cq_size q" "cq_tail q"]
  by (auto simp: cq_abs_def cq_room_def elim!: cq_invE)

lemma ring_dist_full_iff:
  assumes "h < c" and "t < c"
  shows "Suc t mod c = h \<longleftrightarrow> ring_dist c h t = c - Suc 0"
  using assms by (cases "Suc t = c") (auto simp: ring_dist_def)

lemma VXCircularQueue_isFull_abs:
  "cq_inv q \<Longrightarrow> VXCircularQueue_isFull q = Some (length (cq_abs q) = cq_room q)"
  by (auto simp: VXCircularQueue_isFull_def cq_getCapacity_def cq_abs_def cq_room_def
      ring_dist_full_iff Let_def elim!: cq_invE)

section \<open>The loops\<close>

lemma cq_destroy_loop_ring:
  assumes "h < length buf" and "t < length buf"
  shows "cq_destroy_loop buf (length buf) t h log =
    Some (log @ ring buf h (ring_dist (length buf) h t))"
  using assms(1)
proof (induction "ring_dist (length buf) h t" arbitrary: h log)
  case 0
  then have "h = t" using assms(2) by (simp add: ring_dist_0_iff)
  then show ?case by (subst cq_destroy_loop.simps) simp
next
  case (Suc d)
  let ?h = "(h + 1) mod length buf"
  have ne: "h \<noteq> t" using Suc.hyps(2) by auto
  have d: "ring_dist (length buf) ?h t = d"
    using ring_dist_head [OF Suc.prems assms(2), of 1] Suc.hyps(2) by simp
  have "?h < length buf" using Suc.prems by simp
  from Suc.hyps(1) [OF d [symmetric] this]
  have IH: "cq_destroy_loop buf (length buf) t ?h (log @ [buf ! h]) =
      Some ((log @ [buf ! h]) @ ring buf ?h d)"
    using d by simp
  have "ring buf h (ring_dist (length buf) h t) = buf ! h # ring buf ?h d"
    using Suc.hyps(2) ring_cons [OF Suc.prems, of d] by simp
  with IH ne Suc.prems show ?case by (subst cq_destroy_loop.simps) auto
qed

lemma cq_copy_loop_nth:
  assumes "src < length old" and "i + n \<le> length new"
  shows "\<exists>r. cq_copy_loop old (length old) src i new n = Some r \<and> length r = length new \<and>
    (\<forall>j < length new. r ! j =
       (if i \<le> j \<and> j < i + n then old ! ((src + (j - i)) mod length old) else new ! j))"
  using assms
proof (induction n arbitrary: src i new)
  case 0
  then show ?case by auto
next
  case (Suc n)
  let ?new = "new[i := old ! src]"
  have "(src + 1) mod length old < length old" using Suc.prems(1) by simp
  moreover have "i + 1 + n \<le> length ?new" using Suc.prems(2) by simp
  ultimately have IH: "\<exists>r. cq_copy_loop old (length old) ((src + 1) mod length old) (i + 1) ?new n = Some r \<and>
      length r = length ?new \<and>
    (\<forall>j < length ?new. r ! j =
       (if i + 1 \<le> j \<and> j < i + 1 + n
        then old ! (((src + 1) mod length old + (j - (i + 1))) mod length old) else ?new ! j))"
    by (rule Suc.IH)
  have step: "(Suc src mod length old + j - Suc i) mod length old = (src + j - i) mod length old"
    if "i < j" for j
  proof -
    have "Suc src mod length old + j - Suc i = Suc src mod length old + (j - Suc i)"
      and "src + j - i = Suc src + (j - Suc i)"
      using that by simp_all
    then show ?thesis by (metis mod_add_left_eq)
  qed
  show ?case using IH Suc.prems by (auto simp: step nth_list_update Suc_le_eq)
qed

lemma cq_copy_loop_ring:
  assumes "src < length old" and "n < length new"
  obtains r where "cq_copy_loop old (length old) src 0 new n = Some r" "length r = length new"
    "ring r 0 n = ring old src n"
proof -
  obtain r where r: "cq_copy_loop old (length old) src 0 new n = Some r" "length r = length new"
    "\<forall>j < length new. r ! j = (if 0 \<le> j \<and> j < 0 + n then old ! ((src + (j - 0)) mod length old) else new ! j)"
    using cq_copy_loop_nth [of src old 0 n new] assms by auto
  have "ring r 0 n = ring old src n" by (rule ring_eqI [symmetric]) (use r assms in auto)
  then show ?thesis by (rule that [OF r(1,2)])
qed

section \<open>Each operation refines its list counterpart\<close>

lemma ring_update_end:
  assumes "h < length xs" and "n < length xs"
  shows "ring (xs[(h + n) mod length xs := v]) h (Suc n) = ring xs h n @ [v]"
proof (rule ring_eqI)
  fix i assume i: "i < Suc n"
  have "(h + i) mod length xs = (h + n) mod length xs \<longleftrightarrow> i = n"
    using ring_slot_inj [of i "length xs" n h] assms i by auto
  then show "(ring xs h n @ [v]) ! i =
      xs[(h + n) mod length xs := v] ! ((h + i) mod length (xs[(h + n) mod length xs := v]))"
    using i assms by (auto simp: nth_append nth_list_update)
qed simp

definition cq_store :: "'a XCircularQueue \<Rightarrow> 'a \<Rightarrow> 'a XCircularQueue" where
  "cq_store q v = q\<lparr>cq_data := map_option (\<lambda>b. b[cq_tail q := v]) (cq_data q),
                    cq_tail := (cq_tail q + 1) mod cq_size q\<rparr>"

lemma cq_store_abs:
  assumes inv: "cq_inv q" and room: "length (cq_abs q) < cq_room q"
  shows "cq_inv (cq_store q v)" and "cq_abs (cq_store q v) = cq_abs q @ [v]"
    and "cq_room (cq_store q v) = cq_room q"
proof -
  obtain buf where q: "cq_data q = Some buf" "length buf = cq_size q" "cq_capacity q = cq_size q"
    "cq_head q < cq_size q" "cq_tail q < cq_size q" "0 < cq_size q"
    using cq_invE [OF inv] .
  let ?n = "ring_dist (cq_size q) (cq_head q) (cq_tail q)"
  have n: "Suc ?n < cq_size q" using room q by (simp add: cq_abs_def cq_room_def)
  show "cq_inv (cq_store q v)" using q by (simp add: cq_inv_def cq_store_def)
  have "ring_dist (cq_size q) (cq_head q) ((cq_tail q + 1) mod cq_size q) = Suc ?n"
    using ring_dist_tail [of "cq_head q" "cq_size q" "cq_tail q" 1] q n by simp
  moreover have "cq_tail q = (cq_head q + ?n) mod length buf"
    using ring_dist_end [of "cq_head q" "cq_size q" "cq_tail q"] q by simp
  ultimately show "cq_abs (cq_store q v) = cq_abs q @ [v]"
    using ring_update_end [of "cq_head q" buf ?n v] q n by (simp add: cq_abs_def cq_store_def)
  show "cq_room (cq_store q v) = cq_room q" by (simp add: cq_room_def cq_store_def)
qed

definition cq_grown :: "'a XCircularQueue \<Rightarrow> size_t" where
  "cq_grown q = max (cq_size q + 1) (3 * cq_size q div 2)"

lemma new_capacity:
  assumes "cq_typeSize q * cq_grown q < 2 ^ 64" and "0 < cq_typeSize q"
  shows "(if 3 * cq_size q div 2 < size_add (cq_size q) 1 then size_add (cq_size q) 1 else 3 * cq_size q div 2)
    = cq_grown q"
proof -
  have "cq_grown q \<le> cq_typeSize q * cq_grown q" using assms(2) by simp
  then have "cq_grown q < 2 ^ 64" using assms(1) by linarith
  then have "size_add (cq_size q) 1 = cq_size q + 1" by (simp add: size_add_def cq_grown_def)
  then show ?thesis by (simp add: cq_grown_def max_def)
qed

lemma enlargeCapacity_eq:
  assumes "cq_typeSize q * cq_grown q < 2 ^ 64" and "0 < cq_typeSize q"
  shows "enlargeCapacity mem q = (case mem (cq_typeSize q * cq_grown q) of None \<Rightarrow> Some (False, q)
    | Some newData \<Rightarrow> do {
        copied \<leftarrow> cq_copy_loop (case cq_data q of None \<Rightarrow> [] | Some b \<Rightarrow> b)
                   (cq_size q) (cq_head q) 0 newData (VXCircularQueue_size q);
        Some (True, q\<lparr>cq_data := Some copied, cq_size := cq_grown q, cq_capacity := cq_grown q,
                       cq_head := 0, cq_tail := VXCircularQueue_size q\<rparr>)
      })"
proof -
  have "size_mul (cq_typeSize q) (cq_grown q) = cq_typeSize q * cq_grown q"
    using assms(1) by (simp add: size_max_def)
  then show ?thesis
    by (simp only: enlargeCapacity_def cq_getCapacity_def Let_def new_capacity [OF assms])
qed

lemma enlargeCapacity_abs:
  assumes inv: "cq_inv q" and mem: "slots_ok (cq_typeSize q) mem" and ts: "0 < cq_typeSize q"
    and fits: "cq_typeSize q * cq_grown q < 2 ^ 64"
  shows "case mem (cq_typeSize q * cq_grown q) of None \<Rightarrow> enlargeCapacity mem q = Some (False, q)
    | Some b \<Rightarrow> \<exists>q'. enlargeCapacity mem q = Some (True, q') \<and> cq_inv q' \<and> cq_abs q' = cq_abs q \<and>
        cq_room q < cq_room q' \<and> cq_compare q' = cq_compare q \<and> cq_deinit q' = cq_deinit q \<and>
        cq_autoExpansion q' = cq_autoExpansion q \<and> cq_typeSize q' = cq_typeSize q"
proof (cases "mem (cq_typeSize q * cq_grown q)")
  case None
  then show ?thesis by (simp add: enlargeCapacity_eq [OF fits ts])
next
  case (Some nd)
  obtain buf where q: "cq_data q = Some buf" "length buf = cq_size q" "cq_capacity q = cq_size q"
    "cq_head q < cq_size q" "cq_tail q < cq_size q" "0 < cq_size q"
    using cq_invE [OF inv] .
  let ?c = "cq_size q" and ?n = "VXCircularQueue_size q" and ?c' = "cq_grown q"
  have c': "?c < ?c'" by (simp add: cq_grown_def)
  have prod: "size_mul (cq_typeSize q) ?c' = cq_typeSize q * ?c'" using fits by (simp add: size_max_def)
  have len: "length nd = ?c'" using slots_ok_product [OF mem _ ts fits] Some prod by simp
  have n: "?n < ?c"
    using VXCircularQueue_size_dist [OF inv] ring_dist_less q by simp
  obtain r where r: "cq_copy_loop buf ?c (cq_head q) 0 nd ?n = Some r" "length r = ?c'"
    "ring r 0 ?n = ring buf (cq_head q) ?n"
    by (rule cq_copy_loop_ring [of "cq_head q" buf ?n nd]) (use q len n c' in simp_all)
  define q' where "q' = q\<lparr>cq_data := Some r, cq_size := ?c', cq_capacity := ?c', cq_head := 0, cq_tail := ?n\<rparr>"
  have "enlargeCapacity mem q = Some (True, q')"
    using Some r(1) q(1) by (simp add: enlargeCapacity_eq [OF fits ts] q'_def)
  moreover have "cq_inv q'" using r(2) c' n by (simp add: q'_def cq_inv_def)
  moreover have "ring_dist ?c' 0 ?n = ?n" by (simp add: ring_dist_def)
  then have "cq_abs q' = cq_abs q"
    using r(3) VXCircularQueue_size_dist [OF inv] q by (simp add: q'_def cq_abs_def)
  moreover have "cq_room q < cq_room q'" using c' q by (simp add: q'_def cq_room_def)
  ultimately show ?thesis using Some by (simp add: q'_def)
qed

text \<open>Dropping the head element, the step \<open>pop\<close> and \<open>receive\<close> share.\<close>

definition cq_advance :: "'a XCircularQueue \<Rightarrow> 'a XCircularQueue" where
  "cq_advance q = q\<lparr>cq_head := (cq_head q + 1) mod cq_size q\<rparr>"

lemma cq_advance_abs:
  assumes inv: "cq_inv q" and ab: "cq_abs q = x # xs"
  shows "cq_inv (cq_advance q)" and "cq_abs (cq_advance q) = xs"
    and "the (cq_data q) ! cq_head q = x"
proof -
  obtain buf where q: "cq_data q = Some buf" "length buf = cq_size q" "cq_capacity q = cq_size q"
    "cq_head q < cq_size q" "cq_tail q < cq_size q" "0 < cq_size q"
    using cq_invE [OF inv] .
  show "cq_inv (cq_advance q)" using q by (simp add: cq_inv_def cq_advance_def)
  let ?n = "ring_dist (cq_size q) (cq_head q) (cq_tail q)"
  obtain m where m: "?n = Suc m" using ab q by (cases ?n) (auto simp: cq_abs_def)
  have "ring buf (cq_head q) (Suc m) = buf ! cq_head q # ring buf ((cq_head q + 1) mod cq_size q) m"
    using ring_cons [of "cq_head q" buf m] q by simp
  moreover have "ring_dist (cq_size q) ((cq_head q + 1) mod cq_size q) (cq_tail q) = m"
    using ring_dist_head [of "cq_head q" "cq_size q" "cq_tail q" 1] q m by simp
  ultimately show "cq_abs (cq_advance q) = xs" and "the (cq_data q) ! cq_head q = x"
    using ab q m by (simp_all add: cq_abs_def cq_advance_def)
qed

text \<open>Deleting one slot deletes one list position and leaves the slots before it in place.\<close>

lemma ring_slot_if:
  "h < c \<Longrightarrow> k < c \<Longrightarrow> (h + k) mod c = (if h + k < c then h + k else h + k - (c::nat))"
  by (auto simp: le_mod_geq)

lemma list_del_nth_eqI:
  assumes "Suc (length ys) = length xs" and "i < length xs"
    and "\<And>k. k < length ys \<Longrightarrow> ys ! k = (if k < i then xs ! k else xs ! Suc k)"
  shows "ys = take i xs @ drop (Suc i) xs"
  using assms by (intro nth_equalityI) (auto simp: nth_append min_def)

text \<open>The three block moves that close a gap in the upper part of a wrapped queue.\<close>

lemma close_gap_wrapped:
  assumes "idx < c" and "0 < t" and "t \<le> idx" and "length buf = c"
  shows "length (memmove_in ((memmove_in buf idx (idx + 1) (c - idx - 1))
      [c - 1 := memmove_in buf idx (idx + 1) (c - idx - 1) ! 0]) 0 1 (t - 1)) = c"
    and "s < c \<Longrightarrow> memmove_in ((memmove_in buf idx (idx + 1) (c - idx - 1))
      [c - 1 := memmove_in buf idx (idx + 1) (c - idx - 1) ! 0]) 0 1 (t - 1) ! s =
      (if s = c - 1 then buf ! 0
       else if s < t - 1 \<or> idx \<le> s then buf ! (s + 1) else buf ! s)"
  using assms by (auto simp: nth_memmove_in nth_list_update)

lemma close_gap_linear:
  assumes "idx + 1 + m \<le> length buf"
  shows "length (memmove_in buf idx (idx + 1) m) = length buf"
    and "s < length buf \<Longrightarrow> memmove_in buf idx (idx + 1) m ! s =
      (if idx \<le> s \<and> s < idx + m then buf ! Suc s else buf ! s)"
  using assms by (auto simp: nth_memmove_in)

lemma cq_delete_inside_inv: "cq_inv q \<Longrightarrow> cq_delete_inside q idx"
  by (auto simp: cq_delete_inside_def cq_getCapacity_def Let_def elim!: cq_invE)

lemma cq_delete_at_abs:
  assumes inv: "cq_inv q" and i: "i < length (cq_abs q)"
    and idx: "idx = (cq_head q + i) mod cq_size q"
  shows "cq_inv (cq_delete_at q idx) \<and>
    cq_abs (cq_delete_at q idx) = take i (cq_abs q) @ drop (Suc i) (cq_abs q) \<and>
    cq_size (cq_delete_at q idx) = cq_size q \<and> cq_deinit (cq_delete_at q idx) = cq_deinit q \<and>
    (0 < i \<longrightarrow> cq_head (cq_delete_at q idx) = cq_head q)"
proof -
  obtain buf where q: "cq_data q = Some buf" "length buf = cq_size q" "cq_capacity q = cq_size q"
    "cq_head q < cq_size q" "cq_tail q < cq_size q" "0 < cq_size q"
    using cq_invE [OF inv] .
  let ?c = "cq_size q" and ?h = "cq_head q" and ?t = "cq_tail q"
  define n where "n = ring_dist ?c ?h ?t"
  have abs: "cq_abs q = ring buf ?h n" using q by (simp add: cq_abs_def n_def)
  have n: "i < n" "n < ?c" using i ring_dist_less q by (auto simp: abs n_def)
  have size: "VXCircularQueue_size q = n" by (simp add: VXCircularQueue_size_dist [OF inv] n_def)
  have idx': "idx = (if ?h + i < ?c then ?h + i else ?h + i - ?c)"
    using ring_slot_if [of ?h ?c i] q n idx by simp
  have tail: "?t = (if ?h + n < ?c then ?h + n else ?h + n - ?c)"
    using ring_slot_if [of ?h ?c n] ring_dist_end [of ?h ?c ?t] q n by (simp add: n_def)
  let ?q' = "cq_delete_at q idx"
  consider "n = 1" | "n \<noteq> 1" "idx = ?h" | "n \<noteq> 1" "idx \<noteq> ?h" by blast
  then show ?thesis
  proof cases
    case 1
    then have "length (cq_abs q) = 1" by (simp add: abs)
    moreover have "cq_inv ?q' \<and> cq_abs ?q' = [] \<and> cq_size ?q' = ?c \<and> cq_deinit ?q' = cq_deinit q"
      using 1 q by (simp add: cq_delete_at_def size cq_inv_def cq_abs_def Let_def)
    ultimately show ?thesis using i by simp
  next
    case 2
    then have i0: "i = 0" using idx' n q by (auto split: if_splits)
    have e: "?q' = cq_advance q"
      using 2 by (simp add: cq_delete_at_def size cq_advance_def cq_getCapacity_def Let_def)
    obtain x xs where "cq_abs q = x # xs" using i by (cases "cq_abs q") auto
    then show ?thesis using cq_advance_abs [OF inv] i0 by (simp add: e) (simp add: cq_advance_def)
  next
    case 3
    then have i0: "0 < i" using idx q by (cases i) auto
    have slot: "(?h + k) mod ?c = (if ?h + k < ?c then ?h + k else ?h + k - ?c)" if "k \<le> n" for k
      using ring_slot_if [of ?h ?c k] q n that by simp
    obtain buf' where q': "cq_data ?q' = Some buf'" "length buf' = ?c"
        "cq_tail ?q' = (?h + (n - 1)) mod ?c"
      and nth: "\<And>k. k < n - 1 \<Longrightarrow>
        buf' ! ((?h + k) mod ?c) = buf ! ((?h + (if k < i then k else Suc k)) mod ?c)"
    proof -
      have last_iff: "(if ?t = 0 then ?c else ?t) - 1 = idx \<longleftrightarrow> i = n - 1"
        using idx' tail n q i0 by (auto split: if_splits)
      have d: "?q' = (if i = n - 1 then q\<lparr>cq_tail := idx\<rparr>
          else if \<not> ?t < ?h then
            q\<lparr>cq_data := Some (memmove_in buf idx (idx + 1) (?t - idx - 1)), cq_tail := ?t - 1\<rparr>
          else if ?h \<le> idx then
            (if 0 < ?t then
               q\<lparr>cq_data := Some (memmove_in ((memmove_in buf idx (idx + 1) (?c - idx - 1))
                   [?c - 1 := memmove_in buf idx (idx + 1) (?c - idx - 1) ! 0]) 0 1 (?t - 1)),
                 cq_tail := ?t - 1\<rparr>
             else q\<lparr>cq_data := Some (memmove_in buf idx (idx + 1) (?c - idx - 1)), cq_tail := ?c - 1\<rparr>)
          else q\<lparr>cq_data := Some (memmove_in buf idx (idx + 1) (?t - idx - 1)), cq_tail := ?t - 1\<rparr>)"
        using 3 by (simp only: cq_delete_at_def size cq_getCapacity_def Let_def last_iff q(1)
            option.case if_False)
      note concl = that
      have linear: thesis
        if e: "?q' = q\<lparr>cq_data := Some (memmove_in buf idx (idx + 1) m), cq_tail := t'\<rparr>"
          and t': "t' = (?h + (n - 1)) mod ?c" and m: "idx + 1 + m \<le> ?c"
          and moved: "\<And>k. k < n - 1 \<Longrightarrow>
            (idx \<le> (?h + k) mod ?c \<and> (?h + k) mod ?c < idx + m \<longleftrightarrow> i \<le> k) \<and>
            (i \<le> k \<longrightarrow> (?h + Suc k) mod ?c = Suc ((?h + k) mod ?c))"
        for m t'
      proof (rule concl [of "memmove_in buf idx (idx + 1) m"])
        fix k assume k: "k < n - 1"
        have "(?h + k) mod ?c < ?c" using q by simp
        then show "memmove_in buf idx (idx + 1) m ! ((?h + k) mod ?c) =
            buf ! ((?h + (if k < i then k else Suc k)) mod ?c)"
          using close_gap_linear(2) [of idx m buf "(?h + k) mod ?c"] moved [OF k] m q by auto
      qed (use e t' m q close_gap_linear(1) [of idx m buf] in simp_all)
      consider (last) "i = n - 1" | (lin) "i < n - 1" "\<not> ?t < ?h"
        | (wrap1) "i < n - 1" "?t < ?h" "?h \<le> idx" "0 < ?t"
        | (wrap0) "i < n - 1" "?t < ?h" "?h \<le> idx" "?t = 0"
        | (wrap2) "i < n - 1" "?t < ?h" "idx < ?h"
        using n by linarith
      then show thesis
      proof cases
        case last
        then have e: "?q' = q\<lparr>cq_tail := idx\<rparr>" by (simp add: d)
        show thesis
          by (rule that [of buf]) (use e q idx last n in auto)
      next
        case lin
        then have e: "?q' = q\<lparr>cq_data := Some (memmove_in buf idx (idx + 1) (?t - idx - 1)),
            cq_tail := ?t - 1\<rparr>"
          by (simp add: d)
        show thesis
          by (rule linear [OF e]) (use lin idx' tail n q in \<open>auto split: if_splits\<close>)
      next
        case wrap1
        then have e: "?q' = q\<lparr>cq_data := Some (memmove_in ((memmove_in buf idx (idx + 1) (?c - idx - 1))
              [?c - 1 := memmove_in buf idx (idx + 1) (?c - idx - 1) ! 0]) 0 1 (?t - 1)),
            cq_tail := ?t - 1\<rparr>"
          by (simp add: d)
        have gap: "idx < ?c" "0 < ?t" "?t \<le> idx" "length buf = ?c"
          using wrap1 idx' tail n q by (auto split: if_splits)
        have "?t - 1 = (?h + (n - 1)) mod ?c"
          using wrap1 idx' tail n q slot [of "n - 1"] by (auto split: if_splits)
        then have tail': "cq_tail ?q' = (?h + (n - 1)) mod ?c" by (simp add: e)
        have data': "cq_data ?q' = Some (memmove_in ((memmove_in buf idx (idx + 1) (?c - idx - 1))
              [?c - 1 := memmove_in buf idx (idx + 1) (?c - idx - 1) ! 0]) 0 1 (?t - 1))"
          by (simp add: e)
        show thesis
        proof (rule that [OF data' close_gap_wrapped(1) [OF gap] tail'])
          fix k assume k: "k < n - 1"
          have "(?h + k) mod ?c < ?c" using q by simp
          moreover have "idx \<le> (?h + k) mod ?c \<or> (?h + k) mod ?c < ?t - 1 \<longleftrightarrow> i \<le> k"
            and "(?h + k) mod ?c \<noteq> ?c - 1 \<Longrightarrow> (?h + Suc k) mod ?c = (?h + k) mod ?c + 1"
            and "(?h + k) mod ?c = ?c - 1 \<Longrightarrow> (?h + Suc k) mod ?c = 0 \<and> i \<le> k"
            using k idx' tail n q wrap1 slot [of k] slot [of "Suc k"] by (auto split: if_splits)
          ultimately show "memmove_in ((memmove_in buf idx (idx + 1) (?c - idx - 1))
              [?c - 1 := memmove_in buf idx (idx + 1) (?c - idx - 1) ! 0]) 0 1 (?t - 1) !
              ((?h + k) mod ?c) = buf ! ((?h + (if k < i then k else Suc k)) mod ?c)"
            using close_gap_wrapped(2) [OF gap, of "(?h + k) mod ?c"] by auto
        qed
      next
        case wrap0
        then have e: "?q' = q\<lparr>cq_data := Some (memmove_in buf idx (idx + 1) (?c - idx - 1)),
            cq_tail := ?c - 1\<rparr>"
          by (simp add: d)
        show thesis
        proof (rule linear [OF e])
          fix k assume "k < n - 1"
          then show "(idx \<le> (?h + k) mod ?c \<and> (?h + k) mod ?c < idx + (?c - idx - 1) \<longleftrightarrow> i \<le> k) \<and>
              (i \<le> k \<longrightarrow> (?h + Suc k) mod ?c = Suc ((?h + k) mod ?c))"
            using wrap0 idx' tail n q by (auto split: if_splits)
        qed (use wrap0 idx' tail n q in \<open>auto split: if_splits\<close>)
      next
        case wrap2
        have "?t - 1 = (?h + (n - 1)) mod ?c"
          using wrap2 idx' tail n q slot [of "n - 1"] by (auto split: if_splits)
        moreover have "idx + 1 + (?t - idx - 1) \<le> ?c"
          using wrap2 idx' tail n q by (auto split: if_splits)
        ultimately show thesis
        proof (rule linear [where m = "?t - idx - 1" and t' = "?t - 1", rotated])
          fix k assume k: "k < n - 1"
          have "?h + i = idx + ?c" and "?h + n = ?t + ?c"
            using wrap2 idx' tail q by (auto split: if_splits)
          moreover obtain m where "?t = idx + 1 + m"
            using calculation n by (auto dest: less_imp_add_positive intro!: that [of "n - i - 1"])
          moreover have "?h + k < ?c \<and> (?h + k) mod ?c = ?h + k
              \<or> ?c \<le> ?h + k \<and> (?h + k) mod ?c + ?c = ?h + k"
            using slot [of k] k by (auto split: if_splits)
          moreover have "?h + Suc k < ?c \<and> (?h + Suc k) mod ?c = ?h + Suc k
              \<or> ?c \<le> ?h + Suc k \<and> (?h + Suc k) mod ?c + ?c = ?h + Suc k"
            using slot [of "Suc k"] k by (auto split: if_splits)
          ultimately show "(idx \<le> (?h + k) mod ?c \<and> (?h + k) mod ?c < idx + (?t - idx - 1) \<longleftrightarrow> i \<le> k) \<and>
              (i \<le> k \<longrightarrow> (?h + Suc k) mod ?c = Suc ((?h + k) mod ?c))"
            using k wrap2(2,3) by - (elim disjE; safe; linarith)
        next
          show "?q' = q\<lparr>cq_data := Some (memmove_in buf idx (idx + 1) (?t - idx - 1)), cq_tail := ?t - 1\<rparr>"
            using wrap2 by (simp add: d)
        qed
      qed
    qed
    have frame: "cq_head ?q' = ?h \<and> cq_size ?q' = ?c \<and> cq_capacity ?q' = ?c \<and> cq_deinit ?q' = cq_deinit q"
      using 3 q by (simp add: cq_delete_at_def size cq_getCapacity_def Let_def)
    have "ring_dist ?c ?h ((?h + (n - 1)) mod ?c) = n - 1"
      using ring_dist_add [of ?h ?c "n - 1"] q n by simp
    then have "cq_abs ?q' = ring buf' ?h (n - 1)"
      using q' frame by (simp add: cq_abs_def)
    moreover have "ring buf' ?h (n - 1) = take i (cq_abs q) @ drop (Suc i) (cq_abs q)"
    proof (rule list_del_nth_eqI)
      fix k assume "k < length (ring buf' ?h (n - 1))"
      then show "ring buf' ?h (n - 1) ! k = (if k < i then cq_abs q ! k else cq_abs q ! Suc k)"
        using nth [of k] q q' n by (auto simp: abs)
    qed (use n in \<open>auto simp: abs\<close>)
    ultimately show ?thesis using q' q frame by (simp add: cq_inv_def)
  qed
qed

end
