(* ===== verification/FifoQueue.thy ===== *)
theory FifoQueue
  imports XPrelude
begin

text \<open>
  The interface of a first-in first-out queue (\<open>XQueueBase.h\<close>: push and receive) as a
  locale. An operation may refuse (the flag of \<open>enq\<close>, the \<open>None\<close> of \<open>deq\<close>); the
  outer option is the program's own: \<open>None\<close> would be a trap. The client lemma is
  conservation and order over any script of operations.
\<close>

datatype 'a queue_op = Enq 'a | Deq

primrec queue_run ::
  "('q \<Rightarrow> 'a \<Rightarrow> (bool \<times> 'q) option) \<Rightarrow> ('q \<Rightarrow> ('a option \<times> 'd \<times> 'q) option)
     \<Rightarrow> 'q \<Rightarrow> 'a queue_op list \<Rightarrow> ('a list \<times> 'a list \<times> 'q) option" where
  "queue_run enq deq q [] = Some ([], [], q)"
| "queue_run enq deq q (oper # ops) =
     (case oper of
        Enq v \<Rightarrow> do {
          (ok, q1) \<leftarrow> enq q v;
          (accepted, delivered, q2) \<leftarrow> queue_run enq deq q1 ops;
          Some ((if ok then v # accepted else accepted), delivered, q2)
        }
      | Deq \<Rightarrow> do {
          (result, log, q1) \<leftarrow> deq q;
          (accepted, delivered, q2) \<leftarrow> queue_run enq deq q1 ops;
          Some (accepted, (case result of None \<Rightarrow> delivered | Some v \<Rightarrow> v # delivered), q2)
        })"

locale fifo_queue =
  fixes enq :: "'q \<Rightarrow> 'a \<Rightarrow> (bool \<times> 'q) option"
    and deq :: "'q \<Rightarrow> ('a option \<times> 'd \<times> 'q) option"
    and contents :: "'q \<Rightarrow> 'a list"
    and invar :: "'q \<Rightarrow> bool"
  assumes enq_total: "invar q \<Longrightarrow> \<exists>ok q'. enq q v = Some (ok, q')"
    and enq_invar: "invar q \<Longrightarrow> enq q v = Some (ok, q') \<Longrightarrow> invar q'"
    and enq_contents:
      "invar q \<Longrightarrow> enq q v = Some (ok, q') \<Longrightarrow> contents q' = contents q @ (if ok then [v] else [])"
    and deq_total: "invar q \<Longrightarrow> \<exists>r log q'. deq q = Some (r, log, q')"
    and deq_invar: "invar q \<Longrightarrow> deq q = Some (r, log, q') \<Longrightarrow> invar q'"
    and deq_contents:
      "invar q \<Longrightarrow> deq q = Some (r, log, q') \<Longrightarrow>
         contents q = (case r of None \<Rightarrow> contents q' | Some v \<Rightarrow> v # contents q')"
begin

lemma run_conserves:
  "invar q \<Longrightarrow> \<exists>accepted delivered q'. queue_run enq deq q ops = Some (accepted, delivered, q') \<and>
     invar q' \<and> contents q @ accepted = delivered @ contents q'"
proof (induction ops arbitrary: q)
  case Nil
  then show ?case by simp
next
  case (Cons oper ops)
  show ?case
  proof (cases oper)
    case (Enq v)
    obtain ok q1 where e: "enq q v = Some (ok, q1)" using enq_total [OF Cons.prems] by blast
    obtain a d q2 where r: "queue_run enq deq q1 ops = Some (a, d, q2)" "invar q2"
      "contents q1 @ a = d @ contents q2"
      using Cons.IH [OF enq_invar [OF Cons.prems e]] by blast
    then show ?thesis using enq_contents [OF Cons.prems e] e Enq by auto
  next
    case Deq
    obtain res log q1 where e: "deq q = Some (res, log, q1)" using deq_total [OF Cons.prems] by blast
    obtain a d q2 where r: "queue_run enq deq q1 ops = Some (a, d, q2)" "invar q2"
      "contents q1 @ a = d @ contents q2"
      using Cons.IH [OF deq_invar [OF Cons.prems e]] by blast
    then show ?thesis using deq_contents [OF Cons.prems e] e Deq by (cases res) auto
  qed
qed

lemma run_from_empty:
  assumes "invar q" and "contents q = []"
    and "queue_run enq deq q ops = Some (accepted, delivered, q')"
  shows "accepted = delivered @ contents q'"
  using run_conserves [OF assms(1), of ops] assms(2,3) by auto

end

end
