(* ===== verification/CircularQueueProps.thy ===== *)
theory CircularQueueProps
  imports CircularQueue FifoQueue
begin

text \<open>
  What the circular queue promises: each operation, on every branch, against the list of the
  elements it holds, and the interface of a bounded first-in first-out queue it provides.
\<close>

section \<open>Whole operations\<close>

abbreviation cq_stored :: "('a \<Rightarrow> 'a) option \<Rightarrow> 'a \<Rightarrow> 'a" where
  "cq_stored f v \<equiv> (case f of Some creat \<Rightarrow> creat v | None \<Rightarrow> v)"

lemma push_cases:
  assumes inv: "cq_inv q"
  shows "VXCircularQueue_push mem q (Some v) f =
     (if length (cq_abs q) < cq_room q then Some (True, cq_store q (cq_stored f v))
      else if \<not> cq_autoExpansion q then Some (False, q)
      else do {
        (room, q1) \<leftarrow> enlargeCapacity mem q;
        if \<not> room then Some (False, q1)
        else do {
          buffer \<leftarrow> cq_data q1;
          if cq_tail q1 < length buffer then Some (True, cq_store q1 (cq_stored f v)) else None
        }
      })"
proof -
  have "length (cq_abs q) \<le> cq_room q" using cq_abs_room [OF inv] .
  then show ?thesis using inv
    by (cases "enlargeCapacity mem q")
      (auto simp: VXCircularQueue_push_def VXCircularQueue_isFull_abs cq_store_def
        cq_getCapacity_def Let_def split: prod.splits option.splits Option.bind_splits elim!: cq_invE)
qed

text \<open>an enqueue on every branch: room left, full and fixed, full and growing, out of memory.\<close>

theorem push_refines_enqueue:
  assumes inv: "cq_inv q" and mem: "slots_ok (cq_typeSize q) mem" and ts: "0 < cq_typeSize q"
    and fits: "\<not> cq_autoExpansion q \<or> cq_typeSize q * cq_grown q < 2 ^ 64"
  shows "\<exists>ok q'. VXCircularQueue_push mem q (Some v) f = Some (ok, q') \<and> cq_inv q' \<and>
    cq_abs q' = cq_abs q @ (if ok then [cq_stored f v] else []) \<and>
    (ok \<longleftrightarrow> length (cq_abs q) < cq_room q \<or>
      cq_autoExpansion q \<and> mem (cq_typeSize q * cq_grown q) \<noteq> None) \<and>
    (if length (cq_abs q) < cq_room q \<or> \<not> ok then cq_room q' = cq_room q
     else cq_room q < cq_room q') \<and>
    cq_typeSize q' = cq_typeSize q \<and> cq_autoExpansion q' = cq_autoExpansion q"
proof (cases "length (cq_abs q) < cq_room q")
  case True
  then show ?thesis using cq_store_abs [OF inv True] by (auto simp: push_cases [OF inv] cq_store_def)
next
  case full: False
  show ?thesis
  proof (cases "cq_autoExpansion q")
    case False
    then show ?thesis using full inv
      by (intro exI [of _ False] exI [of _ q]) (simp add: push_cases [OF inv])
  next
    case auto: True
    then have fits: "cq_typeSize q * cq_grown q < 2 ^ 64" using fits by simp
    note en = enlargeCapacity_abs [OF inv mem ts fits]
    show ?thesis
    proof (cases "mem (cq_typeSize q * cq_grown q)")
      case None
      then show ?thesis using full auto inv en by (auto simp: push_cases [OF inv])
    next
      case (Some b)
      then obtain q1 where q1: "enlargeCapacity mem q = Some (True, q1)" "cq_inv q1" "cq_abs q1 = cq_abs q"
        "cq_room q < cq_room q1" "cq_autoExpansion q1 = cq_autoExpansion q" "cq_typeSize q1 = cq_typeSize q"
        using en by auto
      obtain buf where "cq_data q1 = Some buf" "cq_tail q1 < length buf" using cq_invE [OF q1(2)] by metis
      moreover have "length (cq_abs q1) < cq_room q1" using cq_abs_room [OF inv] q1 by simp
      ultimately show ?thesis
        using full auto Some q1 cq_store_abs [OF q1(2)]
        by (auto simp: push_cases [OF inv] cq_store_def)
    qed
  qed
qed

lemma receive_cases:
  assumes inv: "cq_inv q"
  shows "VXCircularQueue_receive q out =
    (case cq_abs q of [] \<Rightarrow> Some (None, [], q)
     | x # xs \<Rightarrow> if out then Some (Some x, if cq_deinit q then [x] else [], cq_advance q)
                else Some (None, [], q))"
proof (cases "cq_abs q")
  case Nil
  then show ?thesis using VXCircularQueue_isEmpty_abs [OF inv] by (simp add: VXCircularQueue_receive_def)
next
  case (Cons x xs)
  then show ?thesis
    using cq_advance_abs(3) [OF inv Cons] inv VXCircularQueue_isEmpty_abs [OF inv]
    by (auto simp: VXCircularQueue_receive_def cq_getCapacity_def cq_advance_def Let_def elim!: cq_invE)
qed

lemma pop_cases:
  assumes inv: "cq_inv q"
  shows "VXCircularQueue_pop q =
    (case cq_abs q of [] \<Rightarrow> Some ([], q)
     | x # xs \<Rightarrow> Some (if cq_deinit q then [x] else [], cq_advance q))"
proof (cases "cq_abs q")
  case Nil
  then show ?thesis using VXCircularQueue_isEmpty_abs [OF inv] by (simp add: VXCircularQueue_pop_def)
next
  case (Cons x xs)
  then show ?thesis
    using cq_advance_abs(3) [OF inv Cons] inv VXCircularQueue_isEmpty_abs [OF inv]
    by (auto simp: VXCircularQueue_pop_def cq_getCapacity_def cq_advance_def Let_def elim!: cq_invE)
qed

lemma top_abs:
  "cq_inv q \<Longrightarrow> VXCircularQueue_top q = (case cq_abs q of [] \<Rightarrow> None | x # _ \<Rightarrow> Some x)"
  using VXCircularQueue_isEmpty_abs [of q] cq_advance_abs(3) [of q]
  by (auto simp: VXCircularQueue_top_def split: list.splits elim!: cq_invE)

text \<open>a receive takes the oldest element, hands it out and destroys the slot's copy.\<close>

theorem receive_refines_dequeue:
  assumes "cq_inv q"
  shows "\<exists>result log q'. VXCircularQueue_receive q True = Some (result, log, q') \<and> cq_inv q' \<and>
    result = (case cq_abs q of [] \<Rightarrow> None | x # _ \<Rightarrow> Some x) \<and>
    log = (if cq_deinit q then take 1 (cq_abs q) else []) \<and>
    cq_abs q' = tl (cq_abs q) \<and> cq_room q' = cq_room q \<and>
    cq_typeSize q' = cq_typeSize q \<and> cq_autoExpansion q' = cq_autoExpansion q"
  using assms cq_advance_abs [OF assms]
  by (cases "cq_abs q") (auto simp: receive_cases cq_advance_def cq_room_def)

lemma cq_destroy_abs:
  "cq_inv q \<Longrightarrow> cq_data q = Some buf \<Longrightarrow>
    cq_destroy_loop buf (cq_getCapacity q) (cq_tail q) (cq_head q) [] = Some (cq_abs q)"
  using cq_destroy_loop_ring [of "cq_head q" buf "cq_tail q" "[]"]
  by (auto simp: cq_abs_def cq_getCapacity_def elim!: cq_invE)

lemma clear_cases:
  assumes "cq_inv q"
  shows "VXCircularQueue_clear q =
    Some (if cq_deinit q then cq_abs q else [], q\<lparr>cq_head := 0, cq_tail := 0\<rparr>)"
proof -
  obtain buf where "cq_data q = Some buf" using cq_invE [OF assms] .
  then show ?thesis using cq_destroy_abs [OF assms] by (simp add: VXCircularQueue_clear_def)
qed

lemma deinit_cases:
  assumes "cq_inv q"
  shows "cq_deinit_queue q = Some (if cq_deinit q then cq_abs q else [],
     q\<lparr>cq_data := None, cq_autoExpansion := False, cq_head := 0, cq_tail := 0,
       cq_size := 0, cq_capacity := 0\<rparr>)"
proof -
  obtain buf where "cq_data q = Some buf" using cq_invE [OF assms] .
  then show ?thesis using cq_destroy_abs [OF assms] by (simp add: cq_deinit_queue_def)
qed

text \<open>
  clear ends on every well-formed queue, destroys each element once and in order, and leaves
  an empty queue of the same room.
\<close>

theorem clear_destroys_all:
  assumes "cq_inv q"
  shows "\<exists>log q'. VXCircularQueue_clear q = Some (log, q') \<and> cq_inv q' \<and> cq_abs q' = [] \<and>
    cq_room q' = cq_room q \<and> log = (if cq_deinit q then cq_abs q else [])"
  using assms by (auto simp: clear_cases cq_inv_def cq_abs_def cq_room_def split: option.splits)

section \<open>Creation\<close>


text \<open>When the product of element size and capacity wraps, the block has too few slots.\<close>

lemma wrapped_product_small:
  fixes c :: nat
  assumes "2 ^ 64 \<le> typeSize * (c + 1)" and "typeSize < 2 ^ 64" and "0 < typeSize"
  shows "size_mul typeSize (c + 1) div typeSize < c"
proof -
  have "size_mul typeSize (c + 1) = (typeSize * (c + 1) - 2 ^ 64) mod 2 ^ 64"
    using assms(1) by (simp add: size_mul_def le_mod_geq)
  also have "\<dots> \<le> typeSize * (c + 1) - 2 ^ 64" by (rule mod_less_eq_dividend)
  also have "\<dots> < typeSize * c" using assms by simp
  finally show ?thesis using assms(3) by (simp add: less_mult_imp_div_less mult.commute)
qed

lemma init_wrapped:
  assumes "slots_ok typeSize mem" and "0 < typeSize" and "typeSize < 2 ^ 64" and "0 < count" and "count < size_max"
    and "2 ^ 64 \<le> typeSize * (count + 1)" and "mem (size_mul typeSize (count + 1)) \<noteq> None"
  obtains b where "cq_data (XCircularQueue_init mem q typeSize count) = Some b" "length b < count"
    "cq_size (XCircularQueue_init mem q typeSize count) = count + 1"
    "cq_head (XCircularQueue_init mem q typeSize count) = 0"
    "cq_tail (XCircularQueue_init mem q typeSize count) = 0"
proof -
  obtain b where b: "mem (size_mul typeSize (count + 1)) = Some b" using assms(7) by auto
  have "size_add count 1 = count + 1" using assms(5) by simp
  then have e: "XCircularQueue_init mem q typeSize count =
      (XContainer_init q typeSize)\<lparr>cq_data := Some b, cq_size := count + 1, cq_capacity := count + 1,
        cq_autoExpansion := False, cq_head := 0, cq_tail := 0\<rparr>"
    using assms(2,4) b by (simp add: XCircularQueue_init_def XCircularQueue_init_with_memory_def Let_def)
  have "length b < count"
    using slots_okD [OF assms(1) b] wrapped_product_small [OF assms(6,3,2)] by simp
  then show ?thesis by (intro that [of b]) (simp_all add: e)
qed

text \<open>Pushing runs over the end of a block that has fewer slots than the capacity says.\<close>

lemma short_block_traps:
  assumes "cq_data q = Some b" and "length b < count" and "cq_size q = count + 1" and "cq_head q = 0"
    and "cq_tail q \<le> length b" and "length b < cq_tail q + length vs"
  shows "queue_run (\<lambda>q v. VXCircularQueue_push mem q (Some v) None) recv q (map Enq vs) = None"
  using assms
proof (induction vs arbitrary: q b)
  case Nil
  then show ?case by simp
next
  case (Cons v vs)
  have notfull: "VXCircularQueue_isFull q = Some False"
    using Cons.prems by (simp add: VXCircularQueue_isFull_def cq_getCapacity_def)
  show ?case
  proof (cases "cq_tail q < length b")
    case False
    then show ?thesis using Cons.prems notfull by (simp add: VXCircularQueue_push_def Let_def)
  next
    case True
    define q1 where "q1 = q\<lparr>cq_data := Some (b[cq_tail q := v]), cq_tail := cq_tail q + 1\<rparr>"
    have "(cq_tail q + 1) mod (count + 1) = cq_tail q + 1" using True Cons.prems by simp
    then have "VXCircularQueue_push mem q (Some v) None = Some (True, q1)"
      using True Cons.prems notfull
      by (simp add: VXCircularQueue_push_def Let_def q1_def cq_getCapacity_def)
    moreover have "queue_run (\<lambda>q v. VXCircularQueue_push mem q (Some v) None) recv q1 (map Enq vs) = None"
      by (rule Cons.IH [of q1 "b[cq_tail q := v]"]) (use True Cons.prems in \<open>simp_all add: q1_def\<close>)
    ultimately show ?thesis by simp
  qed
qed

section \<open>The queue interface\<close>



section \<open>Copy and move\<close>

lemma copy_loop_abs:
  assumes inv: "cq_inv src" and len: "length dst = cq_size src" and data: "cq_data src = Some buf"
  obtains r where "cq_copy_loop buf (cq_size src) (cq_head src) 0 dst (VXCircularQueue_size src) = Some r"
    "length r = cq_size src" "ring r 0 (VXCircularQueue_size src) = cq_abs src"
    "VXCircularQueue_size src < cq_size src"
proof -
  have n: "VXCircularQueue_size src < cq_size src" "length buf = cq_size src" "cq_head src < cq_size src"
    using VXCircularQueue_size_dist [OF inv] ring_dist_less inv data by (auto elim!: cq_invE)
  obtain r where r: "cq_copy_loop buf (cq_size src) (cq_head src) 0 dst (VXCircularQueue_size src) = Some r"
    "length r = cq_size src" "ring r 0 (VXCircularQueue_size src) = ring buf (cq_head src) (VXCircularQueue_size src)"
    by (rule cq_copy_loop_ring [of "cq_head src" buf "VXCircularQueue_size src" dst]) (use n len in simp_all)
  have "ring r 0 (VXCircularQueue_size src) = cq_abs src"
    using r(3) data VXCircularQueue_size_dist [OF inv] by (simp add: cq_abs_def)
  then show ?thesis using that [OF r(1,2)] n by simp
qed

lemma linear_queue_abs:
  assumes "cq_data q = Some b" "length b = c" "cq_size q = c" "cq_capacity q = c"
    "cq_head q = 0" "cq_tail q = n" "n < c"
  shows "cq_inv q" and "cq_abs q = ring b 0 n"
  using assms by (auto simp: cq_inv_def cq_abs_def ring_dist_def)

text \<open>
  copying into an initialised queue destroys what it held, ends with the source's elements in
  a block of the source's capacity, and loses the comparison callback.
\<close>

theorem copy_into_initialised:
  assumes obj: "cq_inv obj" and src: "cq_inv src" and ts: "0 < cq_typeSize src"
    and mem: "slots_ok (cq_typeSize src) mem" and fits: "cq_typeSize src * cq_size src < 2 ^ 64"
    and room: "mem (cq_typeSize src * cq_size src) \<noteq> None"
  shows "\<exists>log q'. cq_copy_into mem False obj src = Some (log, q') \<and> cq_inv q' \<and>
    cq_abs q' = cq_abs src \<and> cq_room q' = cq_room src \<and> cq_deinit q' = cq_deinit src \<and>
    cq_autoExpansion q' = cq_autoExpansion src \<and> cq_compare q' = None \<and>
    log = (if cq_deinit obj then cq_abs obj else [])"
proof -
  have prod: "size_mul (cq_typeSize src) (cq_size src) = cq_typeSize src * cq_size src"
    using fits by (simp add: size_mul_def)
  obtain b where b: "mem (size_mul (cq_typeSize src) (cq_size src)) = Some b" using room prod by auto
  have len: "length b = cq_size src" using slots_ok_product [OF mem b ts fits] .
  obtain buf where buf: "cq_data src = Some buf" using cq_invE [OF src] .
  let ?n = "VXCircularQueue_size src"
  obtain d where d: "cq_copy_loop buf (cq_size src) (cq_head src) 0 b ?n = Some d"
    "length d = cq_size src" "ring d 0 ?n = cq_abs src" "?n < cq_size src"
    by (rule copy_loop_abs [OF src len buf])
  define q1 where "q1 = (XContainer_init (snd (the (cq_deinit_queue obj))) (cq_typeSize src))
    \<lparr>cq_data := Some (if ?n = 0 then b else d), cq_size := cq_size src, cq_capacity := cq_size src,
     cq_deinit := cq_deinit src, cq_autoExpansion := cq_autoExpansion src,
     cq_head := 0, cq_tail := ?n\<rparr>"
  have e: "cq_copy_into mem False obj src = Some (if cq_deinit obj then cq_abs obj else [], q1)"
    using b buf d(1) by (simp add: cq_copy_into_def deinit_cases [OF obj] cq_getCapacity_def Let_def q1_def)
  have "cq_inv q1" and "cq_abs q1 = cq_abs src"
    using linear_queue_abs [of q1 "if ?n = 0 then b else d" "cq_size src" ?n] d len
    by (auto simp: q1_def)
  then show ?thesis using e ts
    by (auto simp: q1_def cq_room_def XContainer_init_def)
qed

text \<open>Moving hands the whole queue over and leaves one that holds no block.\<close>

lemma move_abs:
  assumes "cq_inv obj"
  shows "cq_move_into False obj src = Some (if cq_deinit obj then cq_abs obj else [], src,
     src\<lparr>cq_data := None, cq_capacity := 0, cq_size := 0, cq_head := 0, cq_tail := 0,
         cq_autoExpansion := False\<rparr>)"
  by (simp add: cq_move_into_def deinit_cases [OF assms])

text \<open>
  after a move the source has capacity 0, and the next push of a value divides by zero: the
  fullness test takes a remainder by the capacity before anything checks it.
\<close>

theorem push_after_move_traps:
  assumes "cq_move_into uninit obj src = Some (log, dst, src')"
  shows "VXCircularQueue_push mem src' (Some v) f = None"
  using assms by (auto simp: cq_move_into_def VXCircularQueue_push_def VXCircularQueue_isFull_def
      cq_getCapacity_def split: Option.bind_splits)

section \<open>Removal\<close>

text \<open>The list without the first \<open>n\<close> elements that satisfy \<open>p\<close>.\<close>

primrec remove_first :: "('a \<Rightarrow> bool) \<Rightarrow> nat \<Rightarrow> 'a list \<Rightarrow> 'a list" where
  "remove_first p n [] = []"
| "remove_first p n (x # xs) =
     (if p x \<and> 0 < n then remove_first p (n - 1) xs else x # remove_first p n xs)"

text \<open>The list positions of those elements.\<close>

primrec match_positions :: "('a \<Rightarrow> bool) \<Rightarrow> nat \<Rightarrow> nat \<Rightarrow> 'a list \<Rightarrow> nat list" where
  "match_positions p n i [] = []"
| "match_positions p n i (x # xs) =
     (if p x \<and> 0 < n then i # match_positions p (n - 1) (Suc i) xs
      else match_positions p n (Suc i) xs)"

lemma match_positions_0 [simp]: "match_positions p 0 i xs = []"
  by (induction xs arbitrary: i) auto

lemma remove_first_0 [simp]: "remove_first p 0 xs = xs"
  by (induction xs) auto

lemma match_positions_Suc: "match_positions p n (Suc i) xs = map Suc (match_positions p n i xs)"
  by (induction xs arbitrary: n i) auto

lemma match_positions_props:
  "sorted_wrt (<) (match_positions p n i xs) \<and> (\<forall>j \<in> set (match_positions p n i xs). i \<le> j \<and> j < i + length xs)"
proof (induction xs arbitrary: n i)
  case Nil
  then show ?case by simp
next
  case (Cons x xs)
  show ?case using Cons.IH [of "n - 1" "Suc i"] Cons.IH [of n "Suc i"] by auto
qed

lemma map_match_positions:
  "map ((!) xs) (match_positions p n 0 xs) = take n (filter p xs)"
proof (induction xs arbitrary: n)
  case Nil
  then show ?case by simp
next
  case (Cons x xs)
  have "map ((!) (x # xs)) (match_positions p m (Suc 0) xs) = take m (filter p xs)" for m
    using Cons.IH by (simp add: match_positions_Suc [of p m 0] comp_def)
  then show ?case by (cases n) auto
qed

definition del_nth :: "'a list \<Rightarrow> nat \<Rightarrow> 'a list" where
  "del_nth xs i = take i xs @ drop (Suc i) xs"

lemma foldl_del_nth_Cons:
  "foldl del_nth (x # xs) (map Suc ds) = x # foldl del_nth xs ds"
  by (induction ds arbitrary: xs) (auto simp: del_nth_def)

lemma remove_first_positions:
  "foldl del_nth xs (rev (match_positions p n 0 xs)) = remove_first p n xs"
proof (induction xs arbitrary: n)
  case Nil
  then show ?case by simp
next
  case (Cons x xs)
  have "foldl del_nth (x # xs) (rev (match_positions p m (Suc 0) xs)) = x # remove_first p m xs" for m
    using Cons.IH [of m] by (simp add: match_positions_Suc [of p m 0] rev_map foldl_del_nth_Cons)
  then show ?case by (simp add: del_nth_def [of _ 0])
qed

lemma find_loop_positions:
  assumes "h < length buf" and "length idxs \<le> m" and "length idxs + n \<le> entries"
  shows "cq_find_loop cmp v buf (length buf) m entries ((h + i) mod length buf) idxs n =
    Some (idxs @ map (\<lambda>j. (h + j) mod length buf)
      (match_positions (\<lambda>x. cmp x v = 0) (m - length idxs) i (ring buf ((h + i) mod length buf) n)))"
  using assms(2,3)
proof (induction n arbitrary: i idxs)
  case 0
  then show ?case by simp
next
  case (Suc n)
  have lt: "(h + i) mod length buf < length buf" using assms(1) by simp
  have next_slot: "((h + i) mod length buf + 1) mod length buf = (h + Suc i) mod length buf"
    using mod_add_left_eq [of "h + i" "length buf" 1] by simp
  show ?case
  proof (cases "length idxs < m")
    case True
    then show ?thesis
      using Suc.IH [of "idxs @ [(h + i) mod length buf]" "Suc i"] Suc.IH [of idxs "Suc i"] next_slot lt Suc.prems
      by (simp add: ring_cons [OF lt] Suc_diff_Suc)
  next
    case False
    then show ?thesis using Suc.prems by simp
  qed
qed

lemma nth_del_nth: "j < i \<Longrightarrow> i < length xs \<Longrightarrow> del_nth xs i ! j = xs ! j"
  by (simp add: del_nth_def nth_append)

lemma delete_loop_abs:
  assumes "cq_inv q" and "sorted_wrt (>) ds" and "\<forall>d \<in> set ds. d < length (cq_abs q)"
  shows "\<exists>q'. cq_delete_loop q (map (\<lambda>j. (cq_head q + j) mod cq_size q) ds) log =
      Some (log @ (if cq_deinit q then map ((!) (cq_abs q)) ds else []), q') \<and>
    cq_inv q' \<and> cq_abs q' = foldl del_nth (cq_abs q) ds \<and> cq_size q' = cq_size q"
  using assms
proof (induction ds arbitrary: q log)
  case Nil
  then show ?case by simp
next
  case (Cons d ds)
  let ?idx = "(cq_head q + d) mod cq_size q"
  let ?q = "cq_delete_at q ?idx"
  let ?log = "if cq_deinit q then log @ [(case cq_data q of None \<Rightarrow> [] | Some b \<Rightarrow> b) ! ?idx] else log"
  have d: "d < length (cq_abs q)" using Cons.prems(3) by simp
  have del: "cq_inv ?q" "cq_abs ?q = del_nth (cq_abs q) d" "cq_size ?q = cq_size q"
    "cq_deinit ?q = cq_deinit q" "0 < d \<Longrightarrow> cq_head ?q = cq_head q"
    using cq_delete_at_abs [OF Cons.prems(1) d refl] by (auto simp: del_nth_def)
  have elem: "(case cq_data q of None \<Rightarrow> [] | Some b \<Rightarrow> b) ! ?idx = cq_abs q ! d"
    using Cons.prems(1) d by (auto simp: cq_abs_def elim!: cq_invE)
  have below: "\<forall>e \<in> set ds. e < d" using Cons.prems(2) by auto
  have slots: "map (\<lambda>j. (cq_head q + j) mod cq_size q) ds =
      map (\<lambda>j. (cq_head ?q + j) mod cq_size ?q) ds"
    using del(3,5) below by (cases ds) auto
  have "\<exists>q'. cq_delete_loop ?q (map (\<lambda>j. (cq_head ?q + j) mod cq_size ?q) ds) ?log =
      Some (?log @ (if cq_deinit ?q then map ((!) (cq_abs ?q)) ds else []), q') \<and>
    cq_inv q' \<and> cq_abs q' = foldl del_nth (cq_abs ?q) ds \<and> cq_size q' = cq_size ?q"
  proof (rule Cons.IH [OF del(1)])
    show "sorted_wrt (>) ds" using Cons.prems(2) by simp
    have "length (cq_abs ?q) = length (cq_abs q) - 1" using d by (simp add: del(2) del_nth_def)
    then show "\<forall>d \<in> set ds. d < length (cq_abs ?q)" using below d by auto
  qed
  then obtain q' where loop: "cq_delete_loop ?q (map (\<lambda>j. (cq_head ?q + j) mod cq_size ?q) ds) ?log =
      Some (?log @ (if cq_deinit ?q then map ((!) (cq_abs ?q)) ds else []), q')"
    and q': "cq_inv q'" "cq_abs q' = foldl del_nth (cq_abs ?q) ds" "cq_size q' = cq_size ?q"
    by blast
  have vals: "map ((!) (del_nth (cq_abs q) d)) ds = map ((!) (cq_abs q)) ds"
    using below d by (auto simp: nth_del_nth)
  have "cq_delete_loop q (map (\<lambda>j. (cq_head q + j) mod cq_size q) (d # ds)) log =
      cq_delete_loop ?q (map (\<lambda>j. (cq_head q + j) mod cq_size q) ds) ?log"
    using cq_delete_inside_inv [OF Cons.prems(1)] by simp
  also have "\<dots> = Some (?log @ (if cq_deinit ?q then map ((!) (cq_abs ?q)) ds else []), q')"
    unfolding slots by (rule loop)
  also have "\<dots> = Some (log @ (if cq_deinit q then map ((!) (cq_abs q)) (d # ds) else []), q')"
    by (simp add: del(2,4) vals elem)
  finally show ?case using q' del(2,3) by simp
qed

text \<open>
  C8: remove takes out the first \<open>n\<close> matching elements (all of them for \<open>n = 0\<close>), keeps
  the order of the others, reports how many went and destroys exactly those, wherever they lie in
  the block and whether or not the queue wraps. When its index array cannot be allocated it changes
  nothing and returns 0, which is also the answer when nothing matches. The bound on the elements held is
  that of the size of the index array in bytes.
\<close>

theorem remove_refines_filter:
  assumes inv: "cq_inv q" and cmp: "cq_compare q = Some compare" and few: "length (cq_abs q) < 2 ^ 61"
  shows "\<exists>removed log q'. XCircularQueue_remove indices_ok q (Some v) n = Some (removed, log, q') \<and>
    (let p = (\<lambda>x. compare x v = 0); k = (if n = 0 then length (cq_abs q) else n) in
     if indices_ok then
       cq_inv q' \<and> cq_abs q' = remove_first p k (cq_abs q) \<and> cq_room q' = cq_room q \<and>
       removed = length (take k (filter p (cq_abs q))) \<and>
       log = (if cq_deinit q then rev (take k (filter p (cq_abs q))) else [])
     else removed = 0 \<and> log = [] \<and> q' = q)"
proof (cases "cq_abs q = []")
  case True
  then show ?thesis using VXCircularQueue_isEmpty_abs [OF inv] inv
    by (simp add: XCircularQueue_remove_def Let_def)
next
  case False
  obtain buf where q: "cq_data q = Some buf" "length buf = cq_size q" "cq_head q < cq_size q"
    using cq_invE [OF inv] by metis
  let ?p = "\<lambda>x. compare x v = 0" and ?xs = "cq_abs q"
  let ?k = "if n = 0 then length ?xs else n"
  define ps where "ps = match_positions ?p ?k 0 ?xs"
  have size: "VXCircularQueue_size q = length ?xs" using VXCircularQueue_size_abs [OF inv] .
  have abs: "?xs = ring buf (cq_head q) (length ?xs)" using q by (simp add: cq_abs_def)
  have "size_mul (length ?xs) 8 div 8 = length ?xs" using few by (simp add: size_mul_def)
  then have find: "cq_find_loop compare v buf (cq_size q) ?k (size_mul (length ?xs) 8 div 8) (cq_head q) [] (length ?xs) =
      Some (map (\<lambda>j. (cq_head q + j) mod cq_size q) ps)"
    using find_loop_positions [of "cq_head q" buf "[]" ?k "length ?xs" "length ?xs" compare v 0] q abs
    by (simp add: ps_def)
  have ps: "sorted_wrt (>) (rev ps)" "\<forall>d \<in> set (rev ps). d < length ?xs"
    using match_positions_props [of ?p ?k 0 ?xs] by (auto simp: ps_def sorted_wrt_rev)
  obtain q' where loop: "cq_delete_loop q (rev (map (\<lambda>j. (cq_head q + j) mod cq_size q) ps)) [] =
      Some (if cq_deinit q then map ((!) ?xs) (rev ps) else [], q')"
    and q': "cq_inv q'" "cq_abs q' = remove_first ?p ?k ?xs" "cq_size q' = cq_size q"
    using delete_loop_abs [OF inv ps, of "[]"] remove_first_positions [of ?xs ?p ?k]
    by (auto simp: ps_def rev_map)
  have taken: "map ((!) ?xs) ps = take ?k (filter ?p ?xs)"
    unfolding ps_def by (rule map_match_positions)
  have "length ps = length (take ?k (filter ?p ?xs))" using taken by (metis length_map)
  moreover have "map ((!) ?xs) (rev ps) = rev (take ?k (filter ?p ?xs))"
    using taken by (metis rev_map)
  ultimately show ?thesis
    using False VXCircularQueue_isEmpty_abs [OF inv] cmp size q loop q' find inv taken
    by (cases "ps = []")
      (auto simp: XCircularQueue_remove_def cq_getCapacity_def cq_room_def Let_def rev_map)
qed

section \<open>Scripts of operations\<close>


text \<open>
  The size of the block in bytes is not checked for wrapping: when the product of element size and
  capacity does not fit in 64 bits and the block of the wrapped size is granted, filling the new queue up to the
  count asked for writes outside the block.
\<close>

theorem queue_product_wraps:
  assumes "slots_ok typeSize mem" and "0 < typeSize" and "typeSize < 2 ^ 64" and "0 < count" and "count < size_max"
    and "2 ^ 64 \<le> typeSize * (count + 1)" and "mem (size_mul typeSize (count + 1)) \<noteq> None" and "length vs = count"
  shows "queue_run (\<lambda>q v. VXCircularQueue_push mem q (Some v) None) (\<lambda>q. VXCircularQueue_receive q True)
      (XCircularQueue_init mem q0 typeSize count) (map Enq vs) = None"
proof -
  obtain b where "cq_data (XCircularQueue_init mem q0 typeSize count) = Some b" "length b < count"
    "cq_size (XCircularQueue_init mem q0 typeSize count) = count + 1"
    "cq_head (XCircularQueue_init mem q0 typeSize count) = 0"
    "cq_tail (XCircularQueue_init mem q0 typeSize count) = 0"
    using init_wrapped [OF assms(1-7), of q0] .
  then show ?thesis using assms(8) by (intro short_block_traps [of _ b count]) simp_all
qed

section \<open>Concrete runs\<close>

text \<open>A wrapped queue of three slots that holds 3 and 1, may grow and has both callbacks.\<close>

definition cq_sample :: "int XCircularQueue" where
  "cq_sample = \<lparr>cq_data = Some [1, 2, 3], cq_size = 3, cq_capacity = 3, cq_typeSize = 4,
     cq_deinit = True, cq_compare = Some int_compare, cq_autoExpansion = True,
     cq_head = 2, cq_tail = 1\<rparr>"

text \<open>Memory for elements of four bytes.\<close>

definition zero_mem :: "int heap_alloc" where
  "zero_mem bytes = Some (replicate (bytes div 4) 0)"

lemma zero_mem_ok [simp]: "slots_ok 4 zero_mem" "zero_mem bytes = Some (replicate (bytes div 4) 0)"
  by (simp_all add: slots_ok_def zero_mem_def)

lemma cq_sample_inv [simp]: "cq_inv cq_sample"
  by (simp add: cq_inv_def cq_sample_def)

lemma cq_sample_abs [simp]: "cq_abs cq_sample = [3, 1]"
  by (simp add: cq_abs_def cq_sample_def ring_dist_def ring_def upt_rec)

lemma cq_sample_fields [simp]: "cq_room cq_sample = 2" "cq_autoExpansion cq_sample"
  "cq_deinit cq_sample" "cq_compare cq_sample = Some int_compare" "cq_typeSize cq_sample = 4"
  "cq_size cq_sample = 3" "cq_grown cq_sample = 4"
  by (simp_all add: cq_room_def cq_sample_def cq_grown_def)

theorem push_refines_enqueue_witness:
  "\<exists>q'. VXCircularQueue_push zero_mem cq_sample (Some 7) None = Some (True, q') \<and>
     cq_abs q' = [3, 1, 7] \<and> 2 < cq_room q'"
  using push_refines_enqueue [of cq_sample zero_mem 7 None] by auto

theorem receive_refines_dequeue_witness:
  "\<exists>q'. VXCircularQueue_receive cq_sample True = Some (Some 3, [3], q') \<and> cq_abs q' = [1]"
  using receive_refines_dequeue [of cq_sample] by auto

theorem clear_destroys_all_witness:
  "\<exists>q'. VXCircularQueue_clear cq_sample = Some ([3, 1], q') \<and> cq_abs q' = []"
  using clear_destroys_all [of cq_sample] by auto

theorem copy_into_initialised_witness:
  "\<exists>q'. cq_copy_into zero_mem False cq_sample cq_sample = Some ([3, 1], q') \<and>
     cq_abs q' = [3, 1] \<and> cq_compare q' = None"
  using copy_into_initialised [of cq_sample cq_sample zero_mem] by auto

theorem push_after_move_traps_witness:
  "\<exists>log dst src'. cq_move_into False cq_sample cq_sample = Some (log, dst, src') \<and>
     cq_abs dst = [3, 1] \<and> VXCircularQueue_push zero_mem src' (Some 7) None = None"
proof -
  obtain src' where e: "cq_move_into False cq_sample cq_sample = Some ([3, 1], cq_sample, src')"
    using move_abs [of cq_sample cq_sample] by simp
  then show ?thesis using push_after_move_traps [OF e, of zero_mem 7 None] by simp
qed

theorem remove_refines_filter_witness:
  "\<exists>q'. XCircularQueue_remove True cq_sample (Some 3) 0 = Some (1, [3], q') \<and> cq_abs q' = [1]"
  using remove_refines_filter [of cq_sample int_compare True 3 0]
  by (auto simp: Let_def int_compare_def XCompare_defs)


text \<open>Elements of \<open>2 ^ 63\<close> bytes, of which the wrapped product has room for none.\<close>

definition no_room_mem :: "int heap_alloc" where
  "no_room_mem bytes = Some (replicate (bytes div 2 ^ 63) 0)"

theorem queue_product_wraps_witness:
  "queue_run (\<lambda>q v. VXCircularQueue_push no_room_mem q (Some v) None) (\<lambda>q. VXCircularQueue_receive q True)
     (XCircularQueue_init no_room_mem cq_sample (2 ^ 63) 3) (map Enq [1, 2, 3]) = None"
  by (rule queue_product_wraps) (simp_all add: slots_ok_def no_room_mem_def size_max_def)

end
