(* ===== verification/RingChunk.thy ===== *)
theory RingChunk
  imports XPrelude
begin

text \<open>
  The byte ring of \<open>XContainer/XRingChunk/XRingChunk.c\<close>: a block of one byte more than
  the capacity it reports (the logical capacity), a read and a write position and the number of
  bytes held.

  A pointer and a length the caller passes in are the list of the bytes pointed to (\<open>None\<close>
  for NULL); the bytes an operation copies out are its result list, whose length is the C
  return value; \<open>buffer\<close> says whether the output pointer is not NULL. A NULL data block is
  the empty list: such a chunk has capacity 0 and no byte of it is accessed.
\<close>

record XRingChunk =
  rk_data :: "byte list"
  rk_capacity :: size_t
  rk_size :: size_t
  rk_readPos :: size_t
  rk_writePos :: size_t
  rk_markPos :: size_t

section \<open>Operations\<close>

definition getPhysicalCapacity :: "XRingChunk \<Rightarrow> size_t" where
  "getPhysicalCapacity chunk = size_add (rk_capacity chunk) 1"

definition isBufferEmpty :: "XRingChunk \<Rightarrow> bool" where
  "isBufferEmpty chunk \<longleftrightarrow> rk_readPos chunk = rk_writePos chunk"

definition isBufferFull :: "XRingChunk \<Rightarrow> bool" where
  "isBufferFull chunk \<longleftrightarrow> (rk_writePos chunk + 1) mod getPhysicalCapacity chunk = rk_readPos chunk"

definition XRingChunk_init_with_memory :: "byte heap_alloc \<Rightarrow> XRingChunk \<Rightarrow> size_t \<Rightarrow> XRingChunk" where
  "XRingChunk_init_with_memory mem chunk logicalCapacity =
     (if logicalCapacity = 0 then chunk
      else let c1 = chunk\<lparr>rk_data := [], rk_size := 0, rk_capacity := logicalCapacity\<rparr> in
        case mem (getPhysicalCapacity c1) of
          None \<Rightarrow> c1\<lparr>rk_capacity := 0, rk_size := 0\<rparr>
        | Some block \<Rightarrow> c1\<lparr>rk_data := block, rk_size := 0, rk_readPos := 0, rk_writePos := 0, rk_markPos := 0\<rparr>)"

definition XRingChunk_init :: "byte heap_alloc \<Rightarrow> XRingChunk \<Rightarrow> size_t \<Rightarrow> XRingChunk" where
  "XRingChunk_init mem chunk logicalCapacity = XRingChunk_init_with_memory mem chunk logicalCapacity"

text \<open>\<open>obj\<close> is the raw object memory, \<open>None\<close> when its allocation fails.\<close>

definition XRingChunk_create_ex ::
  "byte heap_alloc \<Rightarrow> XRingChunk option \<Rightarrow> size_t \<Rightarrow> XRingChunk option" where
  "XRingChunk_create_ex mem obj capacity =
     (if capacity = 0 then None
      else map_option (\<lambda>chunk. XRingChunk_init_with_memory mem chunk capacity) obj)"

definition XRingChunk_write :: "XRingChunk \<Rightarrow> byte list option \<Rightarrow> size_t \<times> XRingChunk" where
  "XRingChunk_write chunk data =
     (case data of None \<Rightarrow> (0, chunk) | Some bytes \<Rightarrow>
      if bytes = [] then (0, chunk)
      else if isBufferFull chunk then (0, chunk)
      else let availableSpace = size_sub (rk_capacity chunk) (rk_size chunk);
               src = take availableSpace bytes; sz = length src
           in if sz = 0 then (0, chunk)
              else let physicalCap = getPhysicalCapacity chunk;
                       firstPart = physicalCap - rk_writePos chunk;
                       buf = rk_data chunk
                   in if sz < firstPart then
                        (sz, chunk\<lparr>rk_data := memcpy_at buf (rk_writePos chunk) src,
                                     rk_writePos := (rk_writePos chunk + sz) mod physicalCap,
                                     rk_size := rk_size chunk + sz\<rparr>)
                      else
                        (sz, chunk\<lparr>rk_data := memcpy_at (memcpy_at buf (rk_writePos chunk) (take firstPart src))
                                                   0 (drop firstPart src),
                                     rk_writePos := (sz - firstPart) mod physicalCap,
                                     rk_size := rk_size chunk + sz\<rparr>))"

text \<open>The copy out of \<open>size\<close> bytes from the read position, in one piece or in two.\<close>

definition rk_copy_out :: "XRingChunk \<Rightarrow> size_t \<Rightarrow> byte list" where
  "rk_copy_out chunk sz =
     (let physicalCap = getPhysicalCapacity chunk; firstPart = physicalCap - rk_readPos chunk in
      if sz < firstPart then take sz (drop (rk_readPos chunk) (rk_data chunk))
      else take firstPart (drop (rk_readPos chunk) (rk_data chunk)) @ take (sz - firstPart) (rk_data chunk))"

definition XRingChunk_read :: "XRingChunk \<Rightarrow> bool \<Rightarrow> size_t \<Rightarrow> byte list \<times> XRingChunk" where
  "XRingChunk_read chunk buffer sz =
     (if \<not> buffer \<or> sz = 0 \<or> isBufferEmpty chunk then ([], chunk)
      else let sz = (if rk_size chunk < sz then rk_size chunk else sz) in
        if sz = 0 then ([], chunk)
        else let physicalCap = getPhysicalCapacity chunk;
                 firstPart = physicalCap - rk_readPos chunk
             in (rk_copy_out chunk sz,
                 chunk\<lparr>rk_readPos := (if sz < firstPart then (rk_readPos chunk + sz) mod physicalCap
                                      else (sz - firstPart) mod physicalCap),
                       rk_size := rk_size chunk - sz\<rparr>))"

definition XRingChunk_peek :: "XRingChunk \<Rightarrow> bool \<Rightarrow> size_t \<Rightarrow> byte list" where
  "XRingChunk_peek chunk buffer sz =
     (if \<not> buffer \<or> sz = 0 \<or> isBufferEmpty chunk then []
      else let sz = (if rk_size chunk < sz then rk_size chunk else sz) in
        if sz = 0 then [] else rk_copy_out chunk sz)"

definition XRingChunk_skip :: "XRingChunk \<Rightarrow> size_t \<Rightarrow> XRingChunk" where
  "XRingChunk_skip chunk sz =
     (if sz = 0 \<or> isBufferEmpty chunk then chunk
      else let sz = (if rk_size chunk < sz then rk_size chunk else sz) in
        if sz = 0 then chunk
        else chunk\<lparr>rk_readPos := (rk_readPos chunk + sz) mod getPhysicalCapacity chunk,
                   rk_size := rk_size chunk - sz\<rparr>)"

definition XRingChunk_reset :: "XRingChunk \<Rightarrow> XRingChunk" where
  "XRingChunk_reset chunk = chunk\<lparr>rk_readPos := 0, rk_writePos := 0, rk_size := 0\<rparr>"

definition XRingChunk_available :: "XRingChunk \<Rightarrow> size_t" where
  "XRingChunk_available chunk = rk_size chunk"

definition XRingChunk_mark :: "XRingChunk \<Rightarrow> XRingChunk" where
  "XRingChunk_mark chunk = chunk\<lparr>rk_markPos := rk_readPos chunk\<rparr>"

definition XRingChunk_resetToMark :: "XRingChunk \<Rightarrow> XRingChunk" where
  "XRingChunk_resetToMark chunk =
     (if rk_markPos chunk = rk_readPos chunk then chunk
      else let physicalCap = getPhysicalCapacity chunk;
               bytesToRollback =
                 (if rk_markPos chunk \<le> rk_readPos chunk then rk_readPos chunk - rk_markPos chunk
                  else physicalCap - rk_markPos chunk + rk_readPos chunk)
           in chunk\<lparr>rk_readPos := rk_markPos chunk, rk_size := rk_size chunk + bytesToRollback\<rparr>)"

definition XRingChunk_unget :: "XRingChunk \<Rightarrow> byte list option \<Rightarrow> size_t \<times> XRingChunk" where
  "XRingChunk_unget chunk data =
     (case data of None \<Rightarrow> (0, chunk) | Some bytes \<Rightarrow>
      let sz = length bytes; physicalCap = getPhysicalCapacity chunk in
      if sz = 0 then (0, chunk)
      else if rk_capacity chunk < size_add (rk_size chunk) sz then (0, chunk)
      else if rk_readPos chunk < sz then (0, chunk)
      else let newLogicalReadPos = rk_readPos chunk - sz;
               physicalWritePos = newLogicalReadPos mod physicalCap;
               firstPartLen = physicalCap - physicalWritePos;
               buffer = rk_data chunk
           in (sz, chunk\<lparr>
                 rk_data := (if physicalWritePos + sz \<le> physicalCap
                             then memcpy_at buffer physicalWritePos bytes
                             else memcpy_at (memcpy_at buffer physicalWritePos (take firstPartLen bytes))
                                    0 (drop firstPartLen bytes)),
                 rk_readPos := newLogicalReadPos, rk_size := rk_size chunk + sz\<rparr>))"

definition XRingChunk_resetReadPosOnly :: "XRingChunk \<Rightarrow> XRingChunk" where
  "XRingChunk_resetReadPosOnly chunk =
     (let c1 = chunk\<lparr>rk_readPos := 0\<rparr> in
      c1\<lparr>rk_size := (if rk_readPos c1 \<le> rk_writePos c1 then rk_writePos c1
                     else getPhysicalCapacity c1 - rk_readPos c1 + rk_writePos c1)\<rparr>)"

text \<open>Copy and move; \<open>uninit\<close> is \<open>XClassIsVtableNull(object)\<close>.\<close>

definition rk_copy :: "byte heap_alloc \<Rightarrow> bool \<Rightarrow> XRingChunk \<Rightarrow> XRingChunk \<Rightarrow> XRingChunk" where
  "rk_copy mem uninit obj src =
     (let o1 = (if uninit then XRingChunk_init_with_memory mem obj (rk_capacity src)
                else if rk_size obj \<noteq> 0 then XRingChunk_reset obj else obj);
          srcPhysicalCap = getPhysicalCapacity src; dstPhysicalCap = getPhysicalCapacity o1;
          finish = (\<lambda>ob. ob\<lparr>rk_data := memcpy_at (rk_data ob) 0 (take srcPhysicalCap (rk_data src)),
                            rk_size := rk_size src, rk_readPos := rk_readPos src,
                            rk_writePos := rk_writePos src, rk_markPos := rk_markPos src\<rparr>)
      in if dstPhysicalCap < srcPhysicalCap then
           (case mem srcPhysicalCap of None \<Rightarrow> o1
            | Some newData \<Rightarrow> finish (o1\<lparr>rk_data := newData, rk_capacity := rk_capacity src\<rparr>))
         else finish o1)"

definition rk_move :: "XRingChunk \<Rightarrow> XRingChunk \<Rightarrow> XRingChunk \<times> XRingChunk" where
  "rk_move obj src =
     (src, src\<lparr>rk_data := [], rk_capacity := 0, rk_size := 0, rk_readPos := 0, rk_writePos := 0\<rparr>)"

section \<open>Well-formed chunks and the bytes they hold\<close>

definition rk_inv :: "XRingChunk \<Rightarrow> bool" where
  "rk_inv chunk \<longleftrightarrow> rk_capacity chunk < size_max \<and>
     length (rk_data chunk) = rk_capacity chunk + 1 \<and>
     rk_readPos chunk \<le> rk_capacity chunk \<and> rk_writePos chunk \<le> rk_capacity chunk \<and>
     rk_size chunk = ring_dist (rk_capacity chunk + 1) (rk_readPos chunk) (rk_writePos chunk)"

definition rk_abs :: "XRingChunk \<Rightarrow> byte list" where
  "rk_abs chunk = ring (rk_data chunk) (rk_readPos chunk) (rk_size chunk)"

end
