(* ===== verification/ByteStream.thy ===== *)
theory ByteStream
  imports XPrelude
begin

text \<open>
  The interface of a byte buffer as locales: a stream that is written at one end and read at the
  other, a store that can also be skipped and reset, a buffer that can be inspected, and a bounded
  buffer that accepts bytes exactly up to its capacity. The ring chunk provides the last, the
  growing ring buffer the store (its peek is not that of a buffer). A write has an environment of its own,
  the outcomes of its allocations; \<open>env_ok\<close> are those under which it is required to return.
\<close>

datatype 'e stream_op = Put 'e "byte list" | Get nat

primrec stream_run ::
  "('e \<Rightarrow> 's \<Rightarrow> byte list \<Rightarrow> (nat \<times> 's) option) \<Rightarrow> ('s \<Rightarrow> nat \<Rightarrow> byte list \<times> 's) \<Rightarrow> 's
     \<Rightarrow> 'e stream_op list \<Rightarrow> (byte list \<times> byte list \<times> 's) option" where
  "stream_run swrite sread s [] = Some ([], [], s)"
| "stream_run swrite sread s (oper # ops) =
     (case oper of
        Put e bs \<Rightarrow> do {
          (n, s1) \<leftarrow> swrite e s bs;
          (w, r, s2) \<leftarrow> stream_run swrite sread s1 ops;
          Some (take n bs @ w, r, s2)
        }
      | Get n \<Rightarrow> do {
          let (bs, s1) = sread s n;
          (w, r, s2) \<leftarrow> stream_run swrite sread s1 ops;
          Some (w, bs @ r, s2)
        })"

locale byte_stream =
  fixes swrite :: "'e \<Rightarrow> 's \<Rightarrow> byte list \<Rightarrow> (nat \<times> 's) option"
    and sread :: "'s \<Rightarrow> nat \<Rightarrow> byte list \<times> 's"
    and contents :: "'s \<Rightarrow> byte list"
    and invar :: "'s \<Rightarrow> bool"
    and env_ok :: "'e \<Rightarrow> bool"
  assumes write_step: "invar s \<Longrightarrow> env_ok e \<Longrightarrow> \<exists>n s'. swrite e s bs = Some (n, s') \<and> invar s' \<and>
      contents s' = contents s @ take n bs"
    and read_invar: "invar s \<Longrightarrow> invar (snd (sread s n))"
    and read_result: "invar s \<Longrightarrow> fst (sread s n) = take n (contents s)"
    and read_contents: "invar s \<Longrightarrow> contents (snd (sread s n)) = drop n (contents s)"
begin

lemma run_stream:
  assumes "invar s" and "\<forall>e bs. Put e bs \<in> set ops \<longrightarrow> env_ok e"
  shows "\<exists>w r s'. stream_run swrite sread s ops = Some (w, r, s') \<and> invar s' \<and> contents s @ w = r @ contents s'"
  using assms
proof (induction ops arbitrary: s)
  case Nil
  then show ?case by simp
next
  case (Cons oper ops)
  have env: "\<forall>e bs. Put e bs \<in> set ops \<longrightarrow> env_ok e" using Cons.prems(2) by simp
  show ?case
  proof (cases oper)
    case (Put e bs)
    then have "env_ok e" using Cons.prems(2) by simp
    from write_step [OF Cons.prems(1) this, of bs] obtain n s1
      where s1: "swrite e s bs = Some (n, s1)" "invar s1" "contents s1 = contents s @ take n bs" by blast
    from Cons.IH [OF s1(2) env] obtain w r s' where
      "stream_run swrite sread s1 ops = Some (w, r, s')" "invar s'" "contents s1 @ w = r @ contents s'" by blast
    then show ?thesis using s1 Put by simp
  next
    case (Get n)
    from Cons.IH [OF read_invar [OF Cons.prems(1), of n] env] obtain w r s' where
      run: "stream_run swrite sread (snd (sread s n)) ops = Some (w, r, s')" "invar s'"
        "contents (snd (sread s n)) @ w = r @ contents s'" by blast
    have "contents s @ w = fst (sread s n) @ r @ contents s'"
      using run(3) read_result [OF Cons.prems(1), of n] read_contents [OF Cons.prems(1), of n]
      by (metis append.assoc append_take_drop_id)
    then show ?thesis using run Get by (simp add: case_prod_beta)
  qed
qed

end

locale byte_store = byte_stream +
  fixes skip :: "'s \<Rightarrow> nat \<Rightarrow> 's"
    and available :: "'s \<Rightarrow> nat"
    and reset :: "'s \<Rightarrow> 's"
  assumes skip_invar: "invar s \<Longrightarrow> invar (skip s n)"
    and skip_contents: "invar s \<Longrightarrow> contents (skip s n) = drop n (contents s)"
    and available_length: "invar s \<Longrightarrow> available s = length (contents s)"
    and reset_invar: "invar s \<Longrightarrow> invar (reset s)"
    and reset_contents: "invar s \<Longrightarrow> contents (reset s) = []"
begin

lemma skip_as_read:
  "invar s \<Longrightarrow> contents (skip s n) = contents (snd (sread s n))"
  by (simp add: read_contents skip_contents)

lemma read_amount: "invar s \<Longrightarrow> length (fst (sread s n)) = min n (available s)"
  by (simp add: read_result available_length)

end

locale byte_buffer = byte_store +
  fixes peek :: "'s \<Rightarrow> nat \<Rightarrow> byte list"
  assumes peek_result: "invar s \<Longrightarrow> peek s n = take n (contents s)"
begin

lemma peek_then_skip:
  assumes "invar s"
  shows "peek s n = fst (sread s n)" and "contents (skip s n) = contents (snd (sread s n))"
  using assms by (simp_all add: peek_result read_result skip_as_read)

end

locale bounded_byte_buffer = byte_buffer +
  fixes capacity :: "'s \<Rightarrow> nat"
  assumes write_amount: "invar s \<Longrightarrow> swrite e s bs = Some (n, s') \<Longrightarrow>
      n = min (length bs) (capacity s - length (contents s)) \<and> capacity s' = capacity s"
    and capacity_bound: "invar s \<Longrightarrow> length (contents s) \<le> capacity s"
    and read_capacity: "invar s \<Longrightarrow> capacity (snd (sread s n)) = capacity s"
    and skip_capacity: "invar s \<Longrightarrow> capacity (skip s n) = capacity s"
    and reset_capacity: "invar s \<Longrightarrow> capacity (reset s) = capacity s"
begin

lemma write_fits:
  "invar s \<Longrightarrow> length (contents s) + length bs \<le> capacity s \<Longrightarrow> swrite e s bs = Some (n, s') \<Longrightarrow> n = length bs"
  using write_amount [of s e bs n s'] by simp

lemma write_progress:
  "invar s \<Longrightarrow> bs \<noteq> [] \<Longrightarrow> length (contents s) < capacity s \<Longrightarrow> swrite e s bs = Some (n, s') \<Longrightarrow> 0 < n"
  using write_amount [of s e bs n s'] by (cases bs) auto

end

end
