(* ===== verification/RingChunkProps.thy ===== *)
theory RingChunkProps
  imports RingChunk ByteStream
begin

text \<open>
  What the byte ring promises: every operation against the list of bytes it holds, the bounded
  byte buffer interface, and the transaction operations (mark, roll back, unget).
\<close>

lemma rk_invD:
  assumes "rk_inv c"
  shows "getPhysicalCapacity c = length (rk_data c)" "length (rk_data c) = rk_capacity c + 1"
    "rk_readPos c < length (rk_data c)" "rk_writePos c < length (rk_data c)"
    "rk_size c = ring_dist (length (rk_data c)) (rk_readPos c) (rk_writePos c)"
    "rk_size c \<le> rk_capacity c" "rk_capacity c < size_max"
proof -
  show l: "length (rk_data c) = rk_capacity c + 1" and "rk_capacity c < size_max"
    and r: "rk_readPos c < length (rk_data c)" and w: "rk_writePos c < length (rk_data c)"
    and s: "rk_size c = ring_dist (length (rk_data c)) (rk_readPos c) (rk_writePos c)"
    using assms by (auto simp: rk_inv_def)
  then show "getPhysicalCapacity c = length (rk_data c)" by (simp add: getPhysicalCapacity_def)
  show "rk_size c \<le> rk_capacity c" using ring_dist_less [OF r w] s l by simp
qed

lemma length_rk_abs [simp]: "length (rk_abs c) = rk_size c"
  by (simp add: rk_abs_def)

lemma rk_abs_nil [simp]: "rk_size c = 0 \<Longrightarrow> rk_abs c = []"
  by (simp add: rk_abs_def)

lemma rk_empty_iff: "rk_inv c \<Longrightarrow> isBufferEmpty c \<longleftrightarrow> rk_size c = 0"
  using rk_invD [of c] ring_dist_0_iff by (auto simp: isBufferEmpty_def)

lemma rk_full_iff: "rk_inv c \<Longrightarrow> isBufferFull c \<longleftrightarrow> rk_size c = rk_capacity c"
  using rk_invD [of c] by (cases "Suc (rk_writePos c) = length (rk_data c)")
    (auto simp: isBufferFull_def ring_dist_def)

lemma rk_writePos: "rk_inv c \<Longrightarrow> rk_writePos c = (rk_readPos c + rk_size c) mod length (rk_data c)"
  using rk_invD [of c] ring_dist_end by metis

text \<open>The chunk after \<open>bs\<close> has been stored behind the bytes it holds.\<close>

definition rk_put :: "XRingChunk \<Rightarrow> byte list \<Rightarrow> XRingChunk" where
  "rk_put c bs = c\<lparr>rk_data := ring_put (rk_data c) (rk_writePos c) bs,
     rk_writePos := (rk_writePos c + length bs) mod length (rk_data c),
     rk_size := rk_size c + length bs\<rparr>"

lemma rk_put_abs:
  assumes inv: "rk_inv c" and room: "rk_size c + length bs \<le> rk_capacity c"
  shows "rk_inv (rk_put c bs)" and "rk_abs (rk_put c bs) = rk_abs c @ bs"
proof -
  note I = rk_invD [OF inv]
  have "length (ring_put (rk_data c) (rk_writePos c) bs) = length (rk_data c)"
    using I room by simp
  moreover have "ring_dist (length (rk_data c)) (rk_readPos c)
      ((rk_writePos c + length bs) mod length (rk_data c)) = rk_size c + length bs"
    using ring_dist_tail [OF I(3,4), of "length bs"] I room by simp
  moreover have "(rk_writePos c + length bs) mod length (rk_data c) < length (rk_data c)"
    using I by simp
  ultimately show "rk_inv (rk_put c bs)"
    using I by (simp add: rk_inv_def rk_put_def)
  show "rk_abs (rk_put c bs) = rk_abs c @ bs"
  proof -
    have "rk_size c + length bs < length (rk_data c)" using I(2) room by simp
    then have "ring (ring_put (rk_data c) (rk_writePos c) bs) (rk_readPos c) (rk_size c + length bs)
        = ring (rk_data c) (rk_readPos c) (rk_size c) @ bs"
      using ring_ring_put [OF I(3)] rk_writePos [OF inv] by simp
    then show ?thesis by (simp add: rk_abs_def rk_put_def)
  qed
qed

lemma rk_write_eq:
  assumes inv: "rk_inv c"
  shows "XRingChunk_write c (Some bs) =
    (let src = take (rk_capacity c - rk_size c) bs in
     (length src, if src = [] then c else rk_put c src))"
proof -
  note I = rk_invD [OF inv]
  let ?src = "take (rk_capacity c - rk_size c) bs"
  have "length (rk_data c) - rk_writePos c \<le> length ?src \<Longrightarrow>
      (length ?src - (length (rk_data c) - rk_writePos c)) mod length (rk_data c) =
      (rk_writePos c + length ?src) mod length (rk_data c)"
    using wrapped_position [OF I(4)] by simp
  then show ?thesis
    using I(1,4,6) rk_full_iff [OF inv]
    by (auto simp: XRingChunk_write_def Let_def rk_put_def ring_put_def not_less)
qed

lemma rk_write_None [simp]: "XRingChunk_write c None = (0, c)"
  by (simp add: XRingChunk_write_def)

text \<open>The chunk after its first \<open>n\<close> bytes have been consumed.\<close>

definition rk_drop :: "XRingChunk \<Rightarrow> nat \<Rightarrow> XRingChunk" where
  "rk_drop c n = c\<lparr>rk_readPos := (rk_readPos c + n) mod length (rk_data c), rk_size := rk_size c - n\<rparr>"

lemma rk_drop_abs:
  assumes inv: "rk_inv c" and n: "n \<le> rk_size c"
  shows "rk_inv (rk_drop c n)" and "rk_abs (rk_drop c n) = drop n (rk_abs c)"
proof -
  note I = rk_invD [OF inv]
  have "(rk_readPos c + n) mod length (rk_data c) < length (rk_data c)" using I by simp
  then show "rk_inv (rk_drop c n)"
    using I ring_dist_head [OF I(3,4), of n] n by (simp add: rk_inv_def rk_drop_def)
  show "rk_abs (rk_drop c n) = drop n (rk_abs c)"
    using n by (simp add: rk_abs_def rk_drop_def drop_ring)
qed

lemma rk_copy_out_abs:
  assumes inv: "rk_inv c" and n: "n \<le> rk_size c"
  shows "rk_copy_out c n = take n (rk_abs c)"
proof -
  note I = rk_invD [OF inv]
  have "ring (rk_data c) (rk_readPos c) n = take n (rk_abs c)"
    using n by (simp add: rk_abs_def take_ring)
  moreover have "n \<le> length (rk_data c)" using n I by simp
  ultimately show ?thesis
    using ring_two_pieces [OF I(3), of n] by (simp add: rk_copy_out_def Let_def I(1))
qed

lemma rk_read_eq:
  assumes inv: "rk_inv c"
  shows "XRingChunk_read c True n = (take n (rk_abs c), rk_drop c (min n (rk_size c)))"
proof -
  note I = rk_invD [OF inv]
  let ?n = "min n (rk_size c)"
  have out: "rk_copy_out c ?n = take n (rk_abs c)"
    using rk_copy_out_abs [OF inv, of ?n] by (cases "n \<le> rk_size c") (simp_all add: min_def)
  have pos: "(?n - (length (rk_data c) - rk_readPos c)) mod length (rk_data c) =
      (rk_readPos c + ?n) mod length (rk_data c)" if "length (rk_data c) - rk_readPos c \<le> ?n"
    using wrapped_position [OF I(3) that] .
  show ?thesis
  proof (cases "?n = 0")
    case True
    then show ?thesis using rk_empty_iff [OF inv] I(3)
      by (auto simp: XRingChunk_read_def rk_drop_def)
  next
    case False
    then have "(if rk_size c < n then rk_size c else n) = ?n" by auto
    then show ?thesis using False rk_empty_iff [OF inv] I(1) out pos
      by (auto simp: XRingChunk_read_def rk_drop_def Let_def not_less)
  qed
qed

lemma rk_peek_eq:
  assumes inv: "rk_inv c"
  shows "XRingChunk_peek c True n = take n (rk_abs c)"
proof (cases "rk_size c < n")
  case True
  then show ?thesis using rk_copy_out_abs [OF inv, of "rk_size c"] rk_empty_iff [OF inv]
    by (auto simp: XRingChunk_peek_def Let_def)
next
  case False
  then show ?thesis using rk_copy_out_abs [OF inv, of n] rk_empty_iff [OF inv]
    by (auto simp: XRingChunk_peek_def Let_def)
qed

lemma rk_skip_eq: "rk_inv c \<Longrightarrow> XRingChunk_skip c n = rk_drop c (min n (rk_size c))"
  using rk_empty_iff [of c] rk_invD [of c]
  by (auto simp: XRingChunk_skip_def rk_drop_def Let_def min_def)

lemma rk_reset_abs: "rk_inv c \<Longrightarrow> rk_inv (XRingChunk_reset c) \<and> rk_abs (XRingChunk_reset c) = []"
  by (simp add: rk_inv_def rk_abs_def XRingChunk_reset_def)

lemma rk_capacity_step [simp]:
  "rk_capacity (rk_put c bs) = rk_capacity c" "rk_capacity (rk_drop c n) = rk_capacity c"
  "rk_capacity (XRingChunk_reset c) = rk_capacity c"
  by (simp_all add: rk_put_def rk_drop_def XRingChunk_reset_def)

lemma rk_write_step:
  fixes bs :: "byte list"
  assumes inv: "rk_inv c"
  defines "r \<equiv> XRingChunk_write c (Some bs)"
  shows "fst r = min (length bs) (rk_capacity c - rk_size c)" "rk_inv (snd r)"
    "rk_abs (snd r) = rk_abs c @ take (fst r) bs" "rk_capacity (snd r) = rk_capacity c"
proof -
  have "rk_size c + length (take (rk_capacity c - rk_size c) bs) \<le> rk_capacity c"
    using rk_invD(6) [OF inv] by simp
  note put = rk_put_abs [OF inv this]
  show "fst r = min (length bs) (rk_capacity c - rk_size c)"
    by (simp add: r_def rk_write_eq [OF inv] Let_def)
  show "rk_inv (snd r)" using put inv by (simp add: r_def rk_write_eq [OF inv] Let_def)
  show "rk_abs (snd r) = rk_abs c @ take (fst r) bs" using put(2)
    by (auto simp: r_def rk_write_eq [OF inv] Let_def min_def)
  show "rk_capacity (snd r) = rk_capacity c"
    by (simp add: r_def rk_write_eq [OF inv] Let_def)
qed

lemma rk_min_drop: "rk_inv c \<Longrightarrow> rk_inv (rk_drop c (min n (rk_size c))) \<and>
    rk_abs (rk_drop c (min n (rk_size c))) = drop n (rk_abs c)"
  using rk_drop_abs [of c "min n (rk_size c)"] by (simp add: min_def)

text \<open>The interface of the bounded byte buffer, provided by the chunk.\<close>

interpretation rk: bounded_byte_buffer "\<lambda>(_ :: unit) c bs. Some (XRingChunk_write c (Some bs))"
    "\<lambda>c n. XRingChunk_read c True n" rk_abs rk_inv "\<lambda>_. True" XRingChunk_skip XRingChunk_available
    XRingChunk_reset "\<lambda>c n. XRingChunk_peek c True n" rk_capacity
proof
  fix c bs n m c'
  assume inv: "rk_inv c"
  note W = rk_write_step [OF inv, of bs] and D = rk_min_drop [OF inv, of n]
  show "\<exists>n s'. Some (XRingChunk_write c (Some bs)) = Some (n, s') \<and> rk_inv s' \<and> rk_abs s' = rk_abs c @ take n bs"
    using W by (cases "XRingChunk_write c (Some bs)") auto
  show "m = min (length bs) (rk_capacity c - length (rk_abs c)) \<and> rk_capacity c' = rk_capacity c"
    if "Some (XRingChunk_write c (Some bs)) = Some (m, c')"
    using that W(1,4) by auto
  show "rk_inv (snd (XRingChunk_read c True n))" "fst (XRingChunk_read c True n) = take n (rk_abs c)"
    "rk_abs (snd (XRingChunk_read c True n)) = drop n (rk_abs c)"
    "rk_capacity (snd (XRingChunk_read c True n)) = rk_capacity c"
    using D by (simp_all add: rk_read_eq [OF inv])
  show "rk_inv (XRingChunk_skip c n)" "rk_abs (XRingChunk_skip c n) = drop n (rk_abs c)"
    "rk_capacity (XRingChunk_skip c n) = rk_capacity c"
    using D by (simp_all add: rk_skip_eq [OF inv])
  show "XRingChunk_peek c True n = take n (rk_abs c)" by (rule rk_peek_eq [OF inv])
  show "XRingChunk_available c = length (rk_abs c)" by (simp add: XRingChunk_available_def)
  show "rk_inv (XRingChunk_reset c)" "rk_abs (XRingChunk_reset c) = []"
    using rk_reset_abs [OF inv] by simp_all
  show "length (rk_abs c) \<le> rk_capacity c" using rk_invD(6) [OF inv] by simp
  show "rk_capacity (XRingChunk_reset c) = rk_capacity c" by simp
qed

section \<open>The chunk as a byte stream\<close>

text \<open>A chunk of two bytes whose window wraps, for the examples.\<close>

definition rk_sample :: XRingChunk where
  "rk_sample = \<lparr>rk_data = [1, 2, 3], rk_capacity = 2, rk_size = 1, rk_readPos = 2, rk_writePos = 0, rk_markPos = 0\<rparr>"

lemma rk_sample_inv: "rk_inv rk_sample"
  by (simp add: rk_inv_def rk_sample_def size_max_def ring_dist_def)

text \<open>A chunk is a first-in first-out byte stream: after any sequence of writes and
  reads on an empty chunk, the bytes accepted by the writes are, in order, the bytes delivered by
  the reads followed by the bytes still held; a write accepts as many bytes as fit.\<close>

theorem chunk_stream_fifo:
  assumes "rk_inv c" and "rk_abs c = []"
  shows "\<exists>w r c'. stream_run (\<lambda>(_ :: unit) c bs. Some (XRingChunk_write c (Some bs))) (\<lambda>c n. XRingChunk_read c True n) c ops =
      Some (w, r, c') \<and> rk_inv c' \<and> w = r @ rk_abs c' \<and>
    fst (XRingChunk_write c' (Some bs)) = min (length bs) (rk_capacity c' - length (rk_abs c'))"
  using rk.run_stream [OF assms(1), of ops] assms(2) rk_write_step(1) by fastforce

theorem chunk_stream_fifo_witness:
  "\<exists>w r c'. stream_run (\<lambda>(_ :: unit) c bs. Some (XRingChunk_write c (Some bs))) (\<lambda>c n. XRingChunk_read c True n)
      (XRingChunk_reset rk_sample) [Put () [1, 2, 3], Get 1, Put () [4]] = Some (w, r, c') \<and> w = r @ rk_abs c'"
  using chunk_stream_fifo [of "XRingChunk_reset rk_sample"] rk_reset_abs [OF rk_sample_inv] by blast

section \<open>Mark and roll back\<close>

lemma rk_drop_put_back:
  assumes inv: "rk_inv c" and n: "0 < n" "n \<le> rk_size c" and room: "length bs \<le> rk_capacity c"
    and put: "rk_size c - n + length bs \<le> rk_capacity c"
  shows "XRingChunk_resetToMark (rk_put (rk_drop (XRingChunk_mark c) n) bs) =
    rk_put (XRingChunk_mark c) bs"
proof -
  note I = rk_invD [OF inv]
  let ?d = "length (rk_data c)"
  have np: "n < ?d" using I(2,6) n by simp
  have ne: "(rk_readPos c + n) mod ?d \<noteq> rk_readPos c"
    using ring_dist_add [OF I(3) np] n by (auto simp: ring_dist_def)
  have away: "(if rk_readPos c \<le> (rk_readPos c + n) mod ?d then (rk_readPos c + n) mod ?d - rk_readPos c
      else ?d - rk_readPos c + (rk_readPos c + n) mod ?d) = n"
    using ring_dist_add [OF I(3) np] I(3) by (auto simp: ring_dist_def split: if_splits)
  have cap: "getPhysicalCapacity (rk_put (rk_drop (XRingChunk_mark c) n) bs) = ?d"
    using I(1) by (simp add: getPhysicalCapacity_def rk_put_def rk_drop_def XRingChunk_mark_def)
  have sel: "rk_markPos (rk_put (rk_drop (XRingChunk_mark c) n) bs) = rk_readPos c"
    "rk_readPos (rk_put (rk_drop (XRingChunk_mark c) n) bs) = (rk_readPos c + n) mod ?d"
    by (simp_all add: rk_put_def rk_drop_def XRingChunk_mark_def)
  show ?thesis
    unfolding XRingChunk_resetToMark_def cap Let_def sel away if_not_P [OF ne [symmetric]]
    using n by (simp add: rk_put_def rk_drop_def XRingChunk_mark_def)
qed

lemma rk_mark_inv [simp]:
  "rk_inv (XRingChunk_mark c) = rk_inv c" "rk_abs (XRingChunk_mark c) = rk_abs c"
  "rk_size (XRingChunk_mark c) = rk_size c" "rk_capacity (XRingChunk_mark c) = rk_capacity c"
  by (simp_all add: rk_inv_def rk_abs_def XRingChunk_mark_def)

lemma rk_write_all:
  assumes "rk_inv c" and "rk_size c + length bs \<le> rk_capacity c" and "bs \<noteq> []"
  shows "XRingChunk_write c (Some bs) = (length bs, rk_put c bs)"
  using assms by (simp add: rk_write_eq Let_def)

text \<open>Mark, read, write, roll back: when the bytes held at the mark and the bytes
  written since fit together into the capacity, rolling back to the mark gives a well-formed
  chunk that holds everything it held at the mark followed by everything written since.\<close>

theorem chunk_rollback_restores:
  assumes inv: "rk_inv c" and n: "0 < n" "n \<le> rk_size c"
    and bs: "bs \<noteq> []" and room: "rk_size c + length bs \<le> rk_capacity c"
    and r: "XRingChunk_read (XRingChunk_mark c) True n = (out, c1)"
    and w: "XRingChunk_write c1 (Some bs) = (k, c2)"
  shows "rk_inv (XRingChunk_resetToMark c2) \<and> out = take n (rk_abs c) \<and> k = length bs \<and>
    rk_abs (XRingChunk_resetToMark c2) = rk_abs c @ bs"
proof -
  have inv1: "rk_inv (XRingChunk_mark c)" using inv by simp
  have c1: "out = take n (rk_abs c)" "c1 = rk_drop (XRingChunk_mark c) n"
    using r n by (simp_all add: rk_read_eq [OF inv1] min_def)
  have inv2: "rk_inv c1" using rk_drop_abs(1) [OF inv1] n by (simp add: c1)
  have "rk_size c1 = rk_size c - n" by (simp add: c1 rk_drop_def)
  then have "rk_size c1 + length bs \<le> rk_capacity c1" using room by (simp add: c1)
  then have "k = length bs" "c2 = rk_put c1 bs"
    using w rk_write_all [OF inv2 _ bs] by simp_all
  then show ?thesis using rk_drop_put_back [OF inv n, of bs] rk_put_abs [OF inv1, of bs] room n
    by (simp add: c1)
qed

theorem chunk_rollback_restores_witness:
  "rk_abs (XRingChunk_resetToMark (snd (XRingChunk_write
     (snd (XRingChunk_read (XRingChunk_mark rk_sample) True 1)) (Some [9])))) = [3, 9]"
  using chunk_rollback_restores [OF rk_sample_inv, of 1 "[9]", OF _ _ _ _ surjective_pairing surjective_pairing]
  by (simp add: rk_sample_def rk_abs_def ring_def)

text \<open>The roll back does not check that the marked bytes are still there: when the
  bytes written since the mark fill the chunk, the size after the roll back exceeds the capacity
  by the number of bytes read since the mark.\<close>

theorem chunk_rollback_overflows:
  assumes inv: "rk_inv c" and n: "0 < n" "n \<le> rk_size c"
    and bs: "length bs = rk_capacity c - (rk_size c - n)"
    and r: "XRingChunk_read (XRingChunk_mark c) True n = (out, c1)"
    and w: "XRingChunk_write c1 (Some bs) = (k, c2)"
  shows "rk_size (XRingChunk_resetToMark c2) = rk_capacity c + n \<and> \<not> rk_inv (XRingChunk_resetToMark c2)"
proof -
  have inv1: "rk_inv (XRingChunk_mark c)" using inv by simp
  have c1: "c1 = rk_drop (XRingChunk_mark c) n"
    using r n by (simp add: rk_read_eq [OF inv1] min_def)
  have inv2: "rk_inv c1" using rk_drop_abs(1) [OF inv1] n by (simp add: c1)
  have sz: "rk_size c1 = rk_size c - n" by (simp add: c1 rk_drop_def)
  have cap: "rk_size c \<le> rk_capacity c" by (rule rk_invD(6) [OF inv])
  have "bs \<noteq> []" using bs n cap by auto
  then have "c2 = rk_put c1 bs" using w rk_write_all [OF inv2, of bs] sz bs cap n by (simp add: c1)
  then have "XRingChunk_resetToMark c2 = rk_put (XRingChunk_mark c) bs"
    using rk_drop_put_back [OF inv n, of bs] bs cap by (simp add: c1)
  then have size: "rk_size (XRingChunk_resetToMark c2) = rk_capacity c + n"
    and rcap: "rk_capacity (XRingChunk_resetToMark c2) = rk_capacity c"
    using bs n cap by (simp_all add: rk_put_def)
  have "\<not> rk_inv (XRingChunk_resetToMark c2)"
    using rk_invD(6) [of "XRingChunk_resetToMark c2"] size rcap n by auto
  with size show ?thesis by blast
qed

theorem chunk_rollback_overflows_witness:
  "rk_size (XRingChunk_resetToMark (snd (XRingChunk_write
     (snd (XRingChunk_read (XRingChunk_mark rk_sample) True 1)) (Some [8, 9])))) = 3"
  using chunk_rollback_overflows [OF rk_sample_inv, of 1 "[8, 9]", OF _ _ _ surjective_pairing surjective_pairing]
  by (simp add: rk_sample_def)

section \<open>Unget and copy\<close>

lemma ring_put_before:
  assumes "length bs \<le> h" and "h < length xs" and "length bs + n \<le> length xs"
  shows "ring (memcpy_at xs (h - length bs) bs) (h - length bs) (length bs + n) = bs @ ring xs h n"
proof (rule ring_eqI)
  let ?k = "length bs"
  have len: "length (memcpy_at xs (h - ?k) bs) = length xs" using assms by simp
  fix i assume i: "i < ?k + n"
  show "(bs @ ring xs h n) ! i = memcpy_at xs (h - ?k) bs ! ((h - ?k + i) mod length (memcpy_at xs (h - ?k) bs))"
  proof (cases "i < ?k")
    case True
    have lt: "h - ?k + i < length xs" "h - ?k + i < h - ?k + ?k" "h - ?k + ?k \<le> length xs"
      using True assms by linarith+
    have "memcpy_at xs (h - ?k) bs ! (h - ?k + i) = bs ! i"
      using nth_memcpy_at [OF lt(3,1)] lt(2) by simp
    then show ?thesis using True lt(1) by (simp only: len nth_append if_True mod_less)
  next
    case False
    then have pos: "h - ?k + i = h + (i - ?k)" using assms(1) by simp
    let ?p = "(h + (i - ?k)) mod length xs"
    have p: "?p < length xs" using assms i by (intro mod_less_divisor) auto
    have "\<not> (h - ?k \<le> ?p \<and> ?p < h - ?k + ?k)"
    proof (cases "h + (i - ?k) < length xs")
      case True
      then show ?thesis using assms(1) by simp
    next
      case wrap: False
      have "h + (i - ?k) < length xs + (h - ?k)" using False i assms(1,3) by linarith
      moreover from this have "?p = h + (i - ?k) - length xs"
        using wrap assms(2,3) i by (simp add: le_mod_geq)
      ultimately show ?thesis using wrap by linarith
    qed
    moreover have "h - ?k + ?k \<le> length xs" using assms by simp
    ultimately have "memcpy_at xs (h - ?k) bs ! ?p = xs ! ?p"
      using nth_memcpy_at [of "h - ?k" bs xs ?p] p by (simp only: if_False)
    then show ?thesis using False i by (simp only: len pos nth_append if_False nth_ring)
  qed
qed simp

text \<open>Unget puts bytes back in front of the bytes held exactly when they fit into the
  capacity and lie before the read position without wrapping; in every other case it reports 0
  and leaves the chunk as it is.\<close>

theorem chunk_unget_prepends:
  assumes inv: "rk_inv c" and cap: "2 * rk_capacity c \<le> size_max"
    and u: "XRingChunk_unget c (Some bs) = (k, c')"
  shows "(if bs \<noteq> [] \<and> rk_size c + length bs \<le> rk_capacity c \<and> length bs \<le> rk_readPos c
    then k = length bs \<and> rk_inv c' \<and> rk_abs c' = bs @ rk_abs c else k = 0 \<and> c' = c)"
proof -
  note I = rk_invD [OF inv]
  have add: "size_add (rk_size c) (length bs) = rk_size c + length bs" if "length bs \<le> rk_readPos c"
    using that I cap by (intro size_add_small) linarith
  show ?thesis
  proof (cases "bs \<noteq> [] \<and> rk_size c + length bs \<le> rk_capacity c \<and> length bs \<le> rk_readPos c")
    case True
    let ?p = "rk_readPos c - length bs"
    have p: "?p mod getPhysicalCapacity c = ?p" "?p + length bs = rk_readPos c"
      "rk_readPos c \<le> getPhysicalCapacity c"
      using I True by simp_all
    have eq: "k = length bs" "c' = c\<lparr>rk_data := memcpy_at (rk_data c) ?p bs, rk_readPos := ?p,
        rk_size := rk_size c + length bs\<rparr>"
      using u True add p by (auto simp: XRingChunk_unget_def Let_def)
    have abs: "rk_abs c' = bs @ rk_abs c"
      using ring_put_before [of bs "rk_readPos c" "rk_data c" "rk_size c"] True I
      by (simp add: eq rk_abs_def add.commute)
    have "ring_dist (length (rk_data c)) ?p (rk_writePos c) = rk_size c + length bs"
    proof -
      have "rk_writePos c = (?p + (rk_size c + length bs)) mod length (rk_data c)"
        using rk_writePos [OF inv] True by (simp add: add.commute add.left_commute)
      then show ?thesis using ring_dist_add [of ?p "length (rk_data c)" "rk_size c + length bs"] True I
        by simp
    qed
    then have "rk_inv c'" using I True by (simp add: eq rk_inv_def)
    then show ?thesis using True abs eq(1) by simp
  next
    case False
    then show ?thesis using u add
      by (auto simp: XRingChunk_unget_def Let_def not_le split: if_splits)
  qed
qed

theorem chunk_unget_prepends_witness:
  "rk_abs (snd (XRingChunk_unget rk_sample (Some [7]))) = [7, 3]"
  using chunk_unget_prepends [OF rk_sample_inv _ surjective_pairing, of "[7]"]
  by (simp add: rk_sample_def rk_abs_def ring_def size_max_def)

lemma rk_copy_fields:
  assumes src: "rk_inv src" "0 < rk_capacity src" and mem: "malloc_ok mem"
    and block: "mem (rk_capacity src + 1) \<noteq> None"
    and obj: "uninit \<or> rk_inv obj \<and> rk_capacity obj \<le> rk_capacity src"
  shows "rk_data (rk_copy mem uninit obj src) = rk_data src \<and>
    rk_capacity (rk_copy mem uninit obj src) = rk_capacity src \<and>
    rk_size (rk_copy mem uninit obj src) = rk_size src \<and>
    rk_readPos (rk_copy mem uninit obj src) = rk_readPos src \<and>
    rk_writePos (rk_copy mem uninit obj src) = rk_writePos src"
proof -
  note I = rk_invD [OF src(1)]
  obtain blk where blk: "mem (rk_capacity src + 1) = Some blk" using block by auto
  have phys: "getPhysicalCapacity src = rk_capacity src + 1" using I by simp
  have len: "length blk = rk_capacity src + 1" using malloc_okD [OF mem blk] .
  have all: "memcpy_at xs 0 (rk_data src) = rk_data src" if "length xs = rk_capacity src + 1" for xs
    using that I by (simp add: memcpy_at_def)
  show ?thesis
  proof (cases uninit)
    case True
    then show ?thesis using all [of blk] len I phys src blk
      by (simp add: rk_copy_def XRingChunk_init_with_memory_def Let_def getPhysicalCapacity_def)
  next
    case False
    then have o: "rk_inv obj" "rk_capacity obj \<le> rk_capacity src" using obj by auto
    note J = rk_invD [OF o(1)]
    have p1: "getPhysicalCapacity (obj\<lparr>rk_readPos := 0, rk_writePos := 0, rk_size := 0\<rparr>) = rk_capacity obj + 1"
      "getPhysicalCapacity obj = rk_capacity obj + 1"
      using J by (simp_all add: getPhysicalCapacity_def)
    show ?thesis
      using False all [of blk] all [of "rk_data obj"] len I(2) J(2) o(2) blk
      by (cases "rk_size obj = 0") (simp_all add: rk_copy_def XRingChunk_reset_def p1 phys Let_def)
  qed
qed

text \<open>Copying a chunk into an object that is not initialised, or into a chunk of
  at most its capacity, gives a well-formed chunk with the same capacity and the same bytes.\<close>

theorem chunk_copy_same_bytes:
  assumes src: "rk_inv src" "0 < rk_capacity src" and mem: "malloc_ok mem"
    and block: "mem (rk_capacity src + 1) \<noteq> None"
    and obj: "uninit \<or> rk_inv obj \<and> rk_capacity obj \<le> rk_capacity src"
  shows "let c = rk_copy mem uninit obj src in
    rk_inv c \<and> rk_capacity c = rk_capacity src \<and> rk_abs c = rk_abs src"
  using rk_copy_fields [OF assms] rk_invD [OF src(1)]
  by (simp add: Let_def rk_inv_def rk_abs_def)

theorem chunk_copy_same_bytes_witness:
  "rk_abs (rk_copy (\<lambda>n. Some (replicate n 0)) True rk_sample rk_sample) = [3]"
proof -
  have "0 < rk_capacity rk_sample" "rk_capacity rk_sample + 1 = 3" by (simp_all add: rk_sample_def)
  then have "rk_abs (rk_copy (\<lambda>n. Some (replicate n 0)) True rk_sample rk_sample) = rk_abs rk_sample"
    using chunk_copy_same_bytes [OF rk_sample_inv, of "\<lambda>n. Some (replicate n 0)" True rk_sample]
    by (simp add: Let_def)
  then show ?thesis by (simp add: rk_sample_def rk_abs_def ring_def)
qed

text \<open>A target of larger capacity keeps its own modulus, so that a window that wraps is read wrongly.\<close>

lemma chunk_copy_larger_target:
  defines "c \<equiv> rk_copy (\<lambda>n. None) False
    \<lparr>rk_data = [0, 0, 0, 0], rk_capacity = 3, rk_size = 0, rk_readPos = 0, rk_writePos = 0, rk_markPos = 0\<rparr>
    \<lparr>rk_data = [1, 2, 3], rk_capacity = 2, rk_size = 2, rk_readPos = 2, rk_writePos = 1, rk_markPos = 0\<rparr>"
  shows "rk_abs c = [3, 0] \<and> fst (XRingChunk_read c True 2) = [3, 0]"
  by (simp add: c_def rk_copy_def XRingChunk_read_def rk_copy_out_def getPhysicalCapacity_def
      isBufferEmpty_def size_add_def rk_abs_def ring_def memcpy_at_def Let_def upt_conv_Cons)

end
