(* ===== verification/RingBuffer.thy ===== *)
theory RingBuffer
  imports RingChunk
begin

text \<open>
  The growing byte buffer of \<open>XContainer/XRingBuffer/XRingBuffer.c\<close>: a vector of ring
  chunks that only this buffer owns, the index of the chunk read from and of the chunk written to,
  the total size, and one mark. The vector of chunk pointers is the list of the chunks
  (\<open>None\<close> is the NULL vector of a moved-from, deinitialised or failed buffer).

  The allocations of one call are an argument: \<open>mk k\<close> gives, for the chunk that would
  become number \<open>k\<close>, the memory of its object, the allocator its data block comes from, and
  whether the pointer table has room for it. A call tries each \<open>k\<close> at most once; another call has
  another \<open>mk\<close>.
\<close>

record XRingBuffer =
  rb_chunks :: "XRingChunk list option"
  rb_size :: size_t
  rb_capacity :: size_t
  rb_currentReadChunk :: size_t
  rb_currentWriteChunk :: size_t
  rb_markedReadChunk :: size_t
  rb_markedReadChunkIndex :: size_t
  rb_markedReadPosInChunk :: size_t
  rb_markedTotalSize :: size_t
  rb_hasMark :: bool

type_synonym chunk_alloc = "nat \<Rightarrow> XRingChunk option \<times> byte heap_alloc \<times> bool"

section \<open>The chunk vector\<close>

definition rb_count :: "XRingBuffer \<Rightarrow> size_t" where
  "rb_count buffer = (case rb_chunks buffer of None \<Rightarrow> 0 | Some cs \<Rightarrow> length cs)"

definition rb_at :: "XRingBuffer \<Rightarrow> size_t \<Rightarrow> XRingChunk option" where
  "rb_at buffer i = (case rb_chunks buffer of None \<Rightarrow> None
     | Some cs \<Rightarrow> if i < length cs then Some (cs ! i) else None)"

definition rb_put_at :: "XRingBuffer \<Rightarrow> size_t \<Rightarrow> XRingChunk \<Rightarrow> XRingBuffer" where
  "rb_put_at buffer i c = buffer\<lparr>rb_chunks := map_option (\<lambda>cs. cs[i := c]) (rb_chunks buffer)\<rparr>"

section \<open>Creation\<close>

text \<open>\<open>table\<close> says whether the vector object itself could be allocated.\<close>

definition XRingBuffer_init_with_memory ::
  "chunk_alloc \<Rightarrow> bool \<Rightarrow> XRingBuffer \<Rightarrow> size_t \<Rightarrow> XRingBuffer" where
  "XRingBuffer_init_with_memory mk table buffer chunkSize =
     (if chunkSize = 0 then buffer
      else let b1 = buffer\<lparr>rb_chunks := None, rb_capacity := 0, rb_size := 0,
                           rb_currentReadChunk := 0, rb_currentWriteChunk := 0\<rparr> in
        if \<not> table then b1
        else let b2 = b1\<lparr>rb_markedReadChunk := 0, rb_markedReadChunkIndex := 0,
                         rb_markedReadPosInChunk := 0, rb_markedTotalSize := 0, rb_hasMark := False\<rparr>;
                 (obj, mem, room) = mk 0
             in case XRingChunk_create_ex mem obj chunkSize of
                  None \<Rightarrow> b2
                | Some firstChunk \<Rightarrow> b2\<lparr>rb_chunks := Some (if room then [firstChunk] else [])\<rparr>)"

definition XRingBuffer_init :: "chunk_alloc \<Rightarrow> bool \<Rightarrow> XRingBuffer \<Rightarrow> size_t \<Rightarrow> XRingBuffer" where
  "XRingBuffer_init mk table buffer chunkSize = XRingBuffer_init_with_memory mk table buffer chunkSize"

definition XRingBuffer_create_ex ::
  "chunk_alloc \<Rightarrow> bool \<Rightarrow> XRingBuffer option \<Rightarrow> size_t \<Rightarrow> XRingBuffer option" where
  "XRingBuffer_create_ex mk table obj chunkSize =
     (if chunkSize = 0 then None
      else map_option (\<lambda>buffer. XRingBuffer_init_with_memory mk table buffer chunkSize) obj)"

definition XRingBuffer_addChunk :: "chunk_alloc \<Rightarrow> XRingBuffer \<Rightarrow> size_t \<Rightarrow> bool \<times> XRingBuffer" where
  "XRingBuffer_addChunk mk buffer chunkSize =
     (if chunkSize = 0 then (False, buffer)
      else let (obj, mem, room) = mk (rb_count buffer) in
        case XRingChunk_create_ex mem obj chunkSize of
          None \<Rightarrow> (False, buffer)
        | Some newChunk \<Rightarrow>
            (case rb_chunks buffer of
               None \<Rightarrow> (False, buffer)
             | Some cs \<Rightarrow> if room then (True, buffer\<lparr>rb_chunks := Some (cs @ [newChunk])\<rparr>)
                          else (False, buffer)))"

section \<open>Writing\<close>

text \<open>
  One iteration of the write loop on the bytes that remain; the loop need not end (a run of
  failing data blocks adds chunks of capacity 0 for ever), so it is a partial function.
\<close>

definition rb_firstCapacity :: "XRingBuffer \<Rightarrow> size_t" where
  "rb_firstCapacity buffer = (case rb_at buffer 0 of None \<Rightarrow> 1024 | Some c \<Rightarrow> rk_capacity c)"

definition rb_freeSpace :: "XRingChunk \<Rightarrow> size_t" where
  "rb_freeSpace chunk =
     (let chunkCapacity = rk_capacity chunk; chunkUsed = XRingChunk_available chunk in
      if chunkUsed \<le> chunkCapacity then chunkCapacity - chunkUsed else 0)"

definition rb_ensureChunk :: "chunk_alloc \<Rightarrow> XRingBuffer \<Rightarrow> bool \<times> XRingBuffer" where
  "rb_ensureChunk mk buffer =
     (if rb_count buffer \<le> rb_currentWriteChunk buffer
      then XRingBuffer_addChunk mk buffer (rb_firstCapacity buffer) else (True, buffer))"

partial_function (option) rb_write_loop ::
  "chunk_alloc \<Rightarrow> XRingBuffer \<Rightarrow> byte list \<Rightarrow> size_t \<Rightarrow> (size_t \<times> XRingBuffer) option" where
  "rb_write_loop mk buffer remaining written =
     (if remaining = [] then Some (written, buffer)
      else let (ok, b1) = rb_ensureChunk mk buffer in
        if \<not> ok then Some (written, b1)
        else case rb_at b1 (rb_currentWriteChunk b1) of
          None \<Rightarrow> Some (written, b1)
        | Some chunk \<Rightarrow>
            if rb_freeSpace chunk = 0
            then rb_write_loop mk (b1\<lparr>rb_currentWriteChunk := rb_currentWriteChunk b1 + 1\<rparr>) remaining written
            else let (actuallyWritten, chunk') =
                       XRingChunk_write chunk (Some (take (rb_freeSpace chunk) remaining));
                     b2 = rb_put_at b1 (rb_currentWriteChunk b1) chunk'
                 in if actuallyWritten = 0 then Some (written, b2)
                    else rb_write_loop mk (b2\<lparr>rb_size := rb_size b2 + actuallyWritten\<rparr>)
                           (drop actuallyWritten remaining) (written + actuallyWritten))"

definition XRingBuffer_write ::
  "chunk_alloc \<Rightarrow> XRingBuffer \<Rightarrow> byte list option \<Rightarrow> (size_t \<times> XRingBuffer) option" where
  "XRingBuffer_write mk buffer data =
     (case data of None \<Rightarrow> Some (0, buffer)
      | Some bytes \<Rightarrow> if bytes = [] then Some (0, buffer) else rb_write_loop mk buffer bytes 0)"

definition XRingBuffer_writeable :: "XRingBuffer \<Rightarrow> size_t" where
  "XRingBuffer_writeable buffer =
     (case rb_at buffer (rb_currentWriteChunk buffer) of None \<Rightarrow> 0 | Some chunk \<Rightarrow> rb_freeSpace chunk)"

section \<open>Reading\<close>

definition rb_consume :: "XRingBuffer \<Rightarrow> XRingChunk \<Rightarrow> size_t \<Rightarrow> XRingBuffer" where
  "rb_consume buffer chunk n =
     (rb_put_at buffer (rb_currentReadChunk buffer) chunk)\<lparr>rb_size := size_sub (rb_size buffer) n\<rparr>"

lemma rb_count_consume [simp]: "rb_count (rb_consume b c n) = rb_count b"
  by (simp add: rb_consume_def rb_put_at_def rb_count_def split: option.splits)

lemma rb_read_consume [simp]: "rb_currentReadChunk (rb_consume b c n) = rb_currentReadChunk b"
  by (simp add: rb_consume_def rb_put_at_def)

lemma rb_at_less: "rb_at b i = Some c \<Longrightarrow> i < rb_count b"
  by (simp add: rb_at_def rb_count_def split: option.splits if_splits)

function rb_read_loop :: "XRingBuffer \<Rightarrow> size_t \<Rightarrow> byte list \<times> XRingBuffer" where
  "rb_read_loop buffer remaining =
     (if remaining = 0 \<or> rb_size buffer = 0 then ([], buffer)
      else case rb_at buffer (rb_currentReadChunk buffer) of
        None \<Rightarrow> ([], buffer)
      | Some chunk \<Rightarrow>
          let chunkAvailable = XRingChunk_available chunk;
              toRead = (if remaining < chunkAvailable then remaining else chunkAvailable)
          in if toRead = 0
             then rb_read_loop (buffer\<lparr>rb_currentReadChunk := rb_currentReadChunk buffer + 1\<rparr>) remaining
             else let out = fst (XRingChunk_read chunk True toRead);
                      b1 = rb_consume buffer (snd (XRingChunk_read chunk True toRead)) (length out)
                  in if length out < toRead then (out, b1)
                     else (out @ fst (rb_read_loop b1 (remaining - length out)),
                           snd (rb_read_loop b1 (remaining - length out))))"
  by pat_completeness auto
termination
  by (relation "measures [\<lambda>(b, n). n, \<lambda>(b, n). rb_count b - rb_currentReadChunk b]")
    (auto dest: rb_at_less simp: rb_count_def split: if_splits)

declare rb_read_loop.simps [simp del]

definition XRingBuffer_read :: "XRingBuffer \<Rightarrow> bool \<Rightarrow> size_t \<Rightarrow> byte list \<times> XRingBuffer" where
  "XRingBuffer_read buffer buffer_out sz =
     (if \<not> buffer_out \<or> sz = 0 \<or> rb_size buffer = 0 then ([], buffer) else rb_read_loop buffer sz)"

function rb_peek_loop :: "XRingBuffer \<Rightarrow> size_t \<Rightarrow> size_t \<Rightarrow> byte list" where
  "rb_peek_loop buffer tempReadChunk remaining =
     (if remaining = 0 then []
      else case rb_at buffer tempReadChunk of
        None \<Rightarrow> []
      | Some chunk \<Rightarrow>
          let chunkAvailable = XRingChunk_available chunk;
              toPeek = (if remaining < chunkAvailable then remaining else chunkAvailable)
          in if toPeek = 0 then rb_peek_loop buffer (tempReadChunk + 1) remaining
             else let out = XRingChunk_peek chunk True toPeek
                  in if length out < toPeek then out
                     else out @ rb_peek_loop buffer tempReadChunk (remaining - length out))"
  by pat_completeness auto
termination
  by (relation "measures [\<lambda>(b, t, n). n, \<lambda>(b, t, n). rb_count b - t]")
    (auto dest: rb_at_less split: if_splits)

declare rb_peek_loop.simps [simp del]

definition XRingBuffer_peek :: "XRingBuffer \<Rightarrow> bool \<Rightarrow> size_t \<Rightarrow> byte list" where
  "XRingBuffer_peek buffer buffer_out sz =
     (if \<not> buffer_out \<or> sz = 0 \<or> rb_size buffer = 0 then []
      else rb_peek_loop buffer (rb_currentReadChunk buffer) sz)"

definition XRingBuffer_reset :: "XRingBuffer \<Rightarrow> XRingBuffer" where
  "XRingBuffer_reset buffer =
     buffer\<lparr>rb_chunks := map_option (map XRingChunk_reset) (rb_chunks buffer), rb_size := 0,
            rb_currentReadChunk := 0, rb_currentWriteChunk := 0\<rparr>"

definition VXRingBuffer_clear :: "XRingBuffer \<Rightarrow> XRingBuffer" where
  "VXRingBuffer_clear buffer = XRingBuffer_reset buffer"

function rb_skip_loop :: "XRingBuffer \<Rightarrow> size_t \<Rightarrow> XRingBuffer" where
  "rb_skip_loop buffer remaining =
     (if remaining = 0 \<or> rb_size buffer = 0 then buffer
      else case rb_at buffer (rb_currentReadChunk buffer) of
        None \<Rightarrow> buffer
      | Some chunk \<Rightarrow>
          let chunkAvailable = XRingChunk_available chunk;
              toSkip = (if remaining < chunkAvailable then remaining else chunkAvailable)
          in if toSkip = 0
             then rb_skip_loop (buffer\<lparr>rb_currentReadChunk := rb_currentReadChunk buffer + 1\<rparr>) remaining
             else rb_skip_loop (rb_consume buffer (XRingChunk_skip chunk toSkip) toSkip) (remaining - toSkip))"
  by pat_completeness auto
termination
  by (relation "measures [\<lambda>(b, n). n, \<lambda>(b, n). rb_count b - rb_currentReadChunk b]")
    (auto dest: rb_at_less simp: rb_count_def split: if_splits)

declare rb_skip_loop.simps [simp del]

definition XRingBuffer_skip :: "XRingBuffer \<Rightarrow> size_t \<Rightarrow> XRingBuffer" where
  "XRingBuffer_skip buffer sz =
     (if sz = 0 then buffer
      else if rb_size buffer \<le> sz then XRingBuffer_reset buffer
      else rb_skip_loop buffer sz)"

definition XRingBuffer_available :: "XRingBuffer \<Rightarrow> size_t" where
  "XRingBuffer_available buffer = rb_size buffer"

text \<open>The contiguous bytes behind the returned pointer, and the buffer with its read chunk moved
  past empty chunks; NULL is \<open>None\<close>.\<close>

function rb_seek :: "XRingBuffer \<Rightarrow> XRingBuffer" where
  "rb_seek buffer =
     (case rb_at buffer (rb_currentReadChunk buffer) of
        None \<Rightarrow> buffer
      | Some chunk \<Rightarrow>
          if 0 < XRingChunk_available chunk then buffer
          else rb_seek (buffer\<lparr>rb_currentReadChunk := rb_currentReadChunk buffer + 1\<rparr>))"
  by pat_completeness auto
termination
  by (relation "measure (\<lambda>b. rb_count b - rb_currentReadChunk b)")
    (auto dest: rb_at_less simp: rb_count_def)

declare rb_seek.simps [simp del]

definition XRingBuffer_peekReadPtr :: "XRingBuffer \<Rightarrow> size_t \<Rightarrow> byte list option \<times> XRingBuffer" where
  "XRingBuffer_peekReadPtr buffer sz =
     (if rb_size buffer = 0 \<or> sz = 0 then (None, buffer)
      else let b1 = rb_seek buffer in
        case rb_at b1 (rb_currentReadChunk b1) of
          None \<Rightarrow> (None, b1)
        | Some chunk \<Rightarrow>
            let availableInChunk = XRingChunk_available chunk;
                physicalCap = rk_capacity chunk + 1;
                firstPart = physicalCap - rk_readPos chunk;
                contiguousSize = (if firstPart \<le> availableInChunk then firstPart else availableInChunk);
                n = (if sz < contiguousSize then sz else contiguousSize)
            in (Some (take n (drop (rk_readPos chunk) (rk_data chunk))), b1))"

section \<open>Mark and roll back\<close>

definition XRingBuffer_mark :: "XRingBuffer \<Rightarrow> XRingBuffer" where
  "XRingBuffer_mark buffer =
     (let b1 = buffer\<lparr>rb_markedReadChunkIndex := rb_currentReadChunk buffer\<rparr>;
          b2 = (case rb_at b1 (rb_currentReadChunk b1) of
                  None \<Rightarrow> b1
                | Some chunk \<Rightarrow> b1\<lparr>rb_markedReadPosInChunk := rk_readPos chunk\<rparr>)
      in b2\<lparr>rb_markedTotalSize := rb_size b2, rb_hasMark := True\<rparr>)"

definition rb_rewind :: "size_t \<Rightarrow> XRingChunk \<Rightarrow> XRingChunk" where
  "rb_rewind pos c =
     (let c1 = c\<lparr>rk_readPos := pos\<rparr>; physicalCap = rk_capacity c1 + 1 in
      c1\<lparr>rk_size := (if rk_readPos c1 \<le> rk_writePos c1 then rk_writePos c1 - rk_readPos c1
                     else physicalCap - rk_readPos c1 + rk_writePos c1)\<rparr>)"

definition XRingBuffer_resetToMark :: "XRingBuffer \<Rightarrow> XRingBuffer" where
  "XRingBuffer_resetToMark buffer =
     (if \<not> rb_hasMark buffer then buffer
      else let b1 = buffer\<lparr>rb_size := rb_markedTotalSize buffer,
                           rb_currentReadChunk := rb_markedReadChunkIndex buffer\<rparr>;
               m = rb_markedReadChunkIndex b1;
               b2 = (case rb_at b1 m of None \<Rightarrow> b1
                     | Some c \<Rightarrow> rb_put_at b1 m (rb_rewind (rb_markedReadPosInChunk b1) c))
           in b2\<lparr>rb_chunks := map_option (\<lambda>cs. take (m + 1) cs @ map XRingChunk_resetReadPosOnly (drop (m + 1) cs))
                               (rb_chunks b2)\<rparr>)"

section \<open>Deinitialisation, copy and move\<close>

definition VXRingBuffer_deinit :: "XRingBuffer \<Rightarrow> XRingBuffer" where
  "VXRingBuffer_deinit buffer =
     buffer\<lparr>rb_chunks := None, rb_size := 0, rb_currentReadChunk := 0, rb_currentWriteChunk := 0\<rparr>"

text \<open>\<open>mk2\<close> gives the allocations of the copied chunks: copying stops at nothing, a chunk that
  cannot be created is left out.\<close>

primrec rb_copy_chunks :: "chunk_alloc \<Rightarrow> nat \<Rightarrow> XRingChunk list \<Rightarrow> XRingChunk list" where
  "rb_copy_chunks mk k [] = []"
| "rb_copy_chunks mk k (src # rest) =
     (let (obj, mem, room) = mk k in
      case XRingChunk_create_ex mem obj (rk_capacity src) of
        None \<Rightarrow> rb_copy_chunks mk (k + 1) rest
      | Some newChunk \<Rightarrow>
          let c = rk_copy mem False newChunk src in
          if room then c # rb_copy_chunks mk (k + 1) rest else rb_copy_chunks mk (k + 1) rest)"

definition rb_copy ::
  "chunk_alloc \<Rightarrow> bool \<Rightarrow> chunk_alloc \<Rightarrow> bool \<Rightarrow> XRingBuffer \<Rightarrow> XRingBuffer \<Rightarrow> XRingBuffer" where
  "rb_copy mk table mk2 uninit obj src =
     (let o1 = (if uninit then XRingBuffer_init_with_memory mk table obj (rb_firstCapacity src)
                else if rb_size obj \<noteq> 0 then VXRingBuffer_clear obj else obj);
          srcChunks = (case rb_chunks src of None \<Rightarrow> [] | Some cs \<Rightarrow> cs);
          chunks = map_option (\<lambda>_. rb_copy_chunks mk2 0 srcChunks) (rb_chunks o1)
      in o1\<lparr>rb_chunks := chunks, rb_currentReadChunk := rb_currentReadChunk src,
            rb_currentWriteChunk := rb_currentWriteChunk src, rb_markedReadChunk := rb_markedReadChunk src,
            rb_markedReadChunkIndex := rb_markedReadChunkIndex src,
            rb_markedReadPosInChunk := rb_markedReadPosInChunk src,
            rb_markedTotalSize := rb_markedTotalSize src, rb_hasMark := rb_hasMark src,
            rb_size := rb_size src\<rparr>)"

definition rb_move :: "XRingBuffer \<Rightarrow> XRingBuffer \<Rightarrow> XRingBuffer \<times> XRingBuffer" where
  "rb_move obj src =
     (src, src\<lparr>rb_chunks := None, rb_currentReadChunk := 0, rb_currentWriteChunk := 0,
               rb_capacity := 0, rb_size := 0\<rparr>)"

section \<open>Well-formed buffers and the bytes they hold\<close>

definition rb_list :: "XRingBuffer \<Rightarrow> XRingChunk list" where
  "rb_list buffer = (case rb_chunks buffer of None \<Rightarrow> [] | Some cs \<Rightarrow> cs)"

definition rb_abs :: "XRingBuffer \<Rightarrow> byte list" where
  "rb_abs buffer = concat (map rk_abs (rb_list buffer))"

definition rb_inv :: "XRingBuffer \<Rightarrow> bool" where
  "rb_inv b \<longleftrightarrow> rb_chunks b \<noteq> None \<and> rb_list b \<noteq> [] \<and>
     rb_currentReadChunk b \<le> rb_currentWriteChunk b \<and> rb_currentWriteChunk b \<le> length (rb_list b) \<and>
     (\<forall>i < length (rb_list b). rk_inv (rb_list b ! i) \<and> 0 < rk_capacity (rb_list b ! i) \<and>
        (i < rb_currentReadChunk b \<or> rb_currentWriteChunk b < i \<longrightarrow> rk_size (rb_list b ! i) = 0) \<and>
        (rb_currentReadChunk b < i \<longrightarrow> rk_readPos (rb_list b ! i) = 0)) \<and>
     rb_size b = length (rb_abs b)"

text \<open>
  A chunk whose data block was refused stays in the table with capacity 0 and its positions as the memory
  held them. With \<open>refused\<close> such chunks are allowed among the others.
\<close>

definition rk_refused :: "XRingChunk \<Rightarrow> bool" where
  "rk_refused c \<longleftrightarrow> rk_capacity c = 0 \<and> rk_size c = 0"

definition rb_good :: "bool \<Rightarrow> XRingBuffer \<Rightarrow> bool" where
  "rb_good refused b \<longleftrightarrow> rb_chunks b \<noteq> None \<and> rb_list b \<noteq> [] \<and>
     rb_currentReadChunk b \<le> rb_currentWriteChunk b \<and> rb_currentWriteChunk b \<le> length (rb_list b) \<and>
     (\<forall>i < length (rb_list b).
        (rk_inv (rb_list b ! i) \<and> 0 < rk_capacity (rb_list b ! i) \<or> refused \<and> rk_refused (rb_list b ! i)) \<and>
        (i < rb_currentReadChunk b \<or> rb_currentWriteChunk b < i \<longrightarrow> rk_size (rb_list b ! i) = 0) \<and>
        (rb_currentReadChunk b < i \<longrightarrow> refused \<or> rk_readPos (rb_list b ! i) = 0)) \<and>
     rb_size b = length (rb_abs b)"

lemma rb_inv_good: "rb_inv b \<longleftrightarrow> rb_good False b"
  by (simp add: rb_inv_def rb_good_def)

lemma rb_good_mono: "rb_inv b \<Longrightarrow> rb_good refused b"
  by (auto simp: rb_inv_def rb_good_def)

end
