(* ===== verification/RingBufferProps.thy ===== *)
theory RingBufferProps
  imports RingBuffer RingChunkProps ByteStream
begin

text \<open>
  What the growing buffer promises: each loop against the list of bytes held, the byte buffer
  interface, and marking. The chunk lemmas carry the proofs.
\<close>

lemma rb_goodD:
  assumes "rb_good f b"
  shows "rb_chunks b = Some (rb_list b)" "rb_list b \<noteq> []"
    "rb_currentReadChunk b \<le> rb_currentWriteChunk b" "rb_currentWriteChunk b \<le> length (rb_list b)"
    "rb_size b = length (rb_abs b)"
  using assms by (auto simp: rb_good_def rb_list_def)

lemma rb_good_chunk:
  assumes "rb_good f b" and "i < length (rb_list b)"
  shows "rk_inv (rb_list b ! i) \<and> 0 < rk_capacity (rb_list b ! i) \<or> f \<and> rk_refused (rb_list b ! i)"
    "rk_size (rb_list b ! i) \<noteq> 0 \<Longrightarrow> rk_inv (rb_list b ! i)"
    "i < rb_currentReadChunk b \<Longrightarrow> rk_size (rb_list b ! i) = 0"
    "rb_currentWriteChunk b < i \<Longrightarrow> rk_size (rb_list b ! i) = 0"
    "rb_currentReadChunk b < i \<Longrightarrow> f \<or> rk_readPos (rb_list b ! i) = 0"
  using assms by (auto simp: rb_good_def rk_refused_def)

lemmas rb_invD = rb_goodD [where f = False, folded rb_inv_good]

lemma rb_inv_chunk:
  assumes "rb_inv b" and "i < length (rb_list b)"
  shows "rk_inv (rb_list b ! i)" "0 < rk_capacity (rb_list b ! i)"
    "i < rb_currentReadChunk b \<Longrightarrow> rk_size (rb_list b ! i) = 0"
    "rb_currentWriteChunk b < i \<Longrightarrow> rk_size (rb_list b ! i) = 0"
    "rb_currentReadChunk b < i \<Longrightarrow> rk_readPos (rb_list b ! i) = 0"
  using assms by (auto simp: rb_inv_def)

lemma rb_count_list: "rb_count b = length (rb_list b)"
  by (simp add: rb_count_def rb_list_def split: option.splits)

lemma rb_at_list: "rb_at b i = (if i < length (rb_list b) then Some (rb_list b ! i) else None)"
  by (simp add: rb_at_def rb_list_def split: option.splits)

lemma rb_at_mem: "rb_inv b \<Longrightarrow> rb_at b i = Some c \<Longrightarrow> i < length (rb_list b) \<and> c = rb_list b ! i"
  by (simp add: rb_at_list split: if_splits)

lemma rb_list_put_at [simp]:
  "rb_list (rb_put_at b i c) = (rb_list b)[i := c]"
  by (simp add: rb_list_def rb_put_at_def split: option.splits)

lemma rb_put_at_fields [simp]:
  "rb_size (rb_put_at b i c) = rb_size b" "rb_currentReadChunk (rb_put_at b i c) = rb_currentReadChunk b"
  "rb_currentWriteChunk (rb_put_at b i c) = rb_currentWriteChunk b"
  "rb_chunks (rb_put_at b i c) = map_option (\<lambda>cs. cs[i := c]) (rb_chunks b)"
  by (simp_all add: rb_put_at_def)

lemma rb_list_update_fields [simp]:
  "rb_list (b\<lparr>rb_size := x\<rparr>) = rb_list b" "rb_list (b\<lparr>rb_currentReadChunk := x\<rparr>) = rb_list b"
  "rb_list (b\<lparr>rb_currentWriteChunk := x\<rparr>) = rb_list b" "rb_list (b\<lparr>rb_chunks := Some cs\<rparr>) = cs"
  by (simp_all add: rb_list_def)

lemma rb_abs_update_fields [simp]:
  "rb_abs (b\<lparr>rb_size := x\<rparr>) = rb_abs b" "rb_abs (b\<lparr>rb_currentReadChunk := x\<rparr>) = rb_abs b"
  "rb_abs (b\<lparr>rb_currentWriteChunk := x\<rparr>) = rb_abs b"
  by (simp_all add: rb_abs_def)

lemma rb_abs_write:
  assumes inv: "rb_good f b" and w: "rb_currentWriteChunk b < length (rb_list b)"
    and c: "rk_abs c = rk_abs (rb_list b ! rb_currentWriteChunk b) @ bs"
  shows "concat (map rk_abs ((rb_list b)[rb_currentWriteChunk b := c])) = rb_abs b @ bs"
proof -
  have e: "rk_abs (rb_list b ! j) = []" if "rb_currentWriteChunk b < j" "j < length (rb_list b)" for j
    using rb_good_chunk(4) [OF inv that(2,1)] by simp
  have "rb_abs b = concat (map rk_abs (take (rb_currentWriteChunk b) (rb_list b))) @
      rk_abs (rb_list b ! rb_currentWriteChunk b)"
    using concat_update_last [where f = rk_abs, OF w e, of "rb_list b ! rb_currentWriteChunk b"] by (simp add: rb_abs_def)
  then show ?thesis using concat_update_last [where f = rk_abs, OF w e, of c] c by simp
qed

lemma rb_abs_read:
  assumes inv: "rb_good f b" and r: "rb_currentReadChunk b < length (rb_list b)"
  shows "concat (map rk_abs ((rb_list b)[rb_currentReadChunk b := c])) =
      rk_abs c @ drop (rk_size (rb_list b ! rb_currentReadChunk b)) (rb_abs b)"
    and "take (rk_size (rb_list b ! rb_currentReadChunk b)) (rb_abs b) = rk_abs (rb_list b ! rb_currentReadChunk b)"
proof -
  have e: "rk_abs (rb_list b ! j) = []" if "j < rb_currentReadChunk b" for j
    using rb_good_chunk(3) [OF inv _ that] that r by simp
  have abs: "rb_abs b = rk_abs (rb_list b ! rb_currentReadChunk b) @
      concat (map rk_abs (drop (Suc (rb_currentReadChunk b)) (rb_list b)))"
    using concat_update_first [where f = rk_abs, OF r e, of "rb_list b ! rb_currentReadChunk b"] by (simp add: rb_abs_def)
  then show "concat (map rk_abs ((rb_list b)[rb_currentReadChunk b := c])) =
      rk_abs c @ drop (rk_size (rb_list b ! rb_currentReadChunk b)) (rb_abs b)"
    using concat_update_first [where f = rk_abs, OF r e, of c] by simp
  show "take (rk_size (rb_list b ! rb_currentReadChunk b)) (rb_abs b) = rk_abs (rb_list b ! rb_currentReadChunk b)"
    by (simp add: abs)
qed

lemma rb_abs_holds: "rb_abs b \<noteq> [] \<Longrightarrow> \<exists>i. i < length (rb_list b) \<and> rk_size (rb_list b ! i) \<noteq> 0"
proof (rule ccontr)
  assume "rb_abs b \<noteq> []" and "\<nexists>i. i < length (rb_list b) \<and> rk_size (rb_list b ! i) \<noteq> 0"
  then have "\<forall>c\<in>set (rb_list b). rk_abs c = []" by (auto simp: in_set_conv_nth)
  with \<open>rb_abs b \<noteq> []\<close> show False by (simp add: rb_abs_def)
qed

section \<open>Single steps of the loops\<close>

lemma rb_write_chunk_step:
  assumes inv: "rb_good f b" and w: "rb_currentWriteChunk b < length (rb_list b)"
    and pos: "0 < rk_capacity (rb_list b ! rb_currentWriteChunk b)"
    and c: "rk_inv c" "rk_abs c = rk_abs (rb_list b ! rb_currentWriteChunk b) @ bs"
      "rk_capacity c = rk_capacity (rb_list b ! rb_currentWriteChunk b)"
      "rk_readPos c = rk_readPos (rb_list b ! rb_currentWriteChunk b)"
  defines "b' \<equiv> (rb_put_at b (rb_currentWriteChunk b) c)\<lparr>rb_size := rb_size b + length bs\<rparr>"
  shows "rb_good f b'" and "rb_abs b' = rb_abs b @ bs"
proof -
  show abs: "rb_abs b' = rb_abs b @ bs"
    using rb_abs_write [OF inv w c(2)] by (simp add: b'_def rb_abs_def)
  have "(rk_inv (rb_list b' ! i) \<and> 0 < rk_capacity (rb_list b' ! i) \<or> f \<and> rk_refused (rb_list b' ! i)) \<and>
        (i < rb_currentReadChunk b \<or> rb_currentWriteChunk b < i \<longrightarrow> rk_size (rb_list b' ! i) = 0) \<and>
        (rb_currentReadChunk b < i \<longrightarrow> f \<or> rk_readPos (rb_list b' ! i) = 0)" if "i < length (rb_list b)" for i
    using rb_good_chunk [OF inv that] rb_goodD(3) [OF inv] c w pos
    by (cases "i = rb_currentWriteChunk b") (auto simp: b'_def)
  then show "rb_good f b'"
    using rb_goodD [OF inv] abs by (simp add: rb_good_def b'_def)
qed

lemma rb_write_next_step:
  assumes inv: "rb_good f b" and w: "rb_currentWriteChunk b < length (rb_list b)"
  shows "rb_good f (b\<lparr>rb_currentWriteChunk := Suc (rb_currentWriteChunk b)\<rparr>)"
  using rb_goodD [OF inv] w rb_good_chunk [OF inv] by (auto simp: rb_good_def)

lemma rb_add_step:
  assumes inv: "rb_good f b" and c: "rk_inv c \<and> 0 < rk_capacity c \<or> f \<and> rk_refused c" "rk_size c = 0"
    "f \<or> rk_readPos c = 0"
  defines "b' \<equiv> b\<lparr>rb_chunks := Some (rb_list b @ [c])\<rparr>"
  shows "rb_good f b'" and "rb_abs b' = rb_abs b"
proof -
  show abs: "rb_abs b' = rb_abs b" using c by (simp add: b'_def rb_abs_def)
  have "(rk_inv (rb_list b' ! i) \<and> 0 < rk_capacity (rb_list b' ! i) \<or> f \<and> rk_refused (rb_list b' ! i)) \<and>
        (i < rb_currentReadChunk b \<or> rb_currentWriteChunk b < i \<longrightarrow> rk_size (rb_list b' ! i) = 0) \<and>
        (rb_currentReadChunk b < i \<longrightarrow> f \<or> rk_readPos (rb_list b' ! i) = 0)"
    if "i < Suc (length (rb_list b))" for i
    using rb_good_chunk [OF inv, of i] that c by (cases "i = length (rb_list b)") (auto simp: b'_def nth_append)
  then show "rb_good f b'"
    using rb_goodD [OF inv] abs by (simp add: rb_good_def b'_def)
qed

lemma rb_read_chunk_step:
  assumes inv: "rb_good f b" and r: "rb_currentReadChunk b < length (rb_list b)"
    and c: "rk_inv c" "rk_abs c = drop n (rk_abs (rb_list b ! rb_currentReadChunk b))"
      "rk_capacity c = rk_capacity (rb_list b ! rb_currentReadChunk b)"
    and n: "n \<le> rk_size (rb_list b ! rb_currentReadChunk b)"
  shows "rb_good f (rb_consume b c n)" and "rb_abs (rb_consume b c n) = drop n (rb_abs b)"
proof -
  let ?c = "rb_list b ! rb_currentReadChunk b"
  have size: "rk_size c = rk_size ?c - n"
    using c(2) by (metis length_drop length_rk_abs)
  have pre: "n \<le> length (rb_abs b)" using rb_abs_read(2) [OF inv r] n
    by (metis length_rk_abs length_take min.cobounded1 order.trans)
  show abs: "rb_abs (rb_consume b c n) = drop n (rb_abs b)"
  proof -
    have "rb_abs (rb_consume b c n) = drop n (rk_abs ?c) @ drop (rk_size ?c) (rb_abs b)"
      using rb_abs_read(1) [OF inv r, of c] by (simp add: rb_consume_def rb_abs_def c(2))
    also have "\<dots> = drop n (rk_abs ?c @ drop (rk_size ?c) (rb_abs b))" using n by simp
    finally show ?thesis using rb_abs_read(2) [OF inv r] by (metis append_take_drop_id)
  qed
  have "(rk_inv (rb_list (rb_consume b c n) ! i) \<and> 0 < rk_capacity (rb_list (rb_consume b c n) ! i) \<or>
          f \<and> rk_refused (rb_list (rb_consume b c n) ! i)) \<and>
        (i < rb_currentReadChunk b \<or> rb_currentWriteChunk b < i \<longrightarrow> rk_size (rb_list (rb_consume b c n) ! i) = 0) \<and>
        (rb_currentReadChunk b < i \<longrightarrow> f \<or> rk_readPos (rb_list (rb_consume b c n) ! i) = 0)"
    if "i < length (rb_list b)" for i
    using rb_good_chunk [OF inv that] rb_goodD(3) [OF inv] c size r
    by (cases "i = rb_currentReadChunk b") (auto simp: rb_consume_def rk_refused_def)
  then show "rb_good f (rb_consume b c n)"
    using rb_goodD [OF inv] abs pre by (simp add: rb_good_def rb_consume_def)
qed

lemma rb_read_next_step:
  assumes inv: "rb_good f b" and ne: "rb_abs b \<noteq> []"
    and e: "rb_currentReadChunk b < length (rb_list b) \<Longrightarrow> rk_size (rb_list b ! rb_currentReadChunk b) = 0"
  shows "rb_good f (b\<lparr>rb_currentReadChunk := Suc (rb_currentReadChunk b)\<rparr>)"
    and "rb_currentReadChunk b < length (rb_list b)"
proof -
  obtain i where i: "i < length (rb_list b)" "rk_size (rb_list b ! i) \<noteq> 0"
    using rb_abs_holds [OF ne] by auto
  then have "\<not> i < rb_currentReadChunk b" "\<not> rb_currentWriteChunk b < i" "i \<noteq> rb_currentReadChunk b"
    using rb_good_chunk(3,4) [OF inv i(1)] e by auto
  then have lt: "rb_currentReadChunk b < rb_currentWriteChunk b" "rb_currentReadChunk b < length (rb_list b)"
    using i by auto
  then show "rb_currentReadChunk b < length (rb_list b)" by simp
  have "rk_size (rb_list b ! j) = 0" if "j < Suc (rb_currentReadChunk b)" for j
    using rb_good_chunk(3) [OF inv, of j] e lt that by (cases "j = rb_currentReadChunk b") auto
  then show "rb_good f (b\<lparr>rb_currentReadChunk := Suc (rb_currentReadChunk b)\<rparr>)"
    using rb_goodD [OF inv] rb_good_chunk [OF inv] lt by (auto simp: rb_good_def)
qed

section \<open>The reading loops\<close>

text \<open>What every reading loop meets at the current chunk.\<close>

lemma rb_current:
  assumes inv: "rb_good f b" and ne: "rb_size b \<noteq> 0" and n: "n \<noteq> 0"
  obtains (next_chunk) c where "rb_at b (rb_currentReadChunk b) = Some c" "rk_size c = 0"
      "rb_good f (b\<lparr>rb_currentReadChunk := Suc (rb_currentReadChunk b)\<rparr>)"
    | (bytes) c k where "rb_at b (rb_currentReadChunk b) = Some c" "rk_inv c" "0 < k"
      "(if n < rk_size c then n else rk_size c) = k" "k \<le> n" "k \<le> rk_size c"
      "take k (rk_abs c) = take k (rb_abs b)"
      "rb_good f (rb_consume b (rk_drop c k) k)" "rb_abs (rb_consume b (rk_drop c k) k) = drop k (rb_abs b)"
proof -
  have abs: "rb_abs b \<noteq> []" using ne rb_goodD(5) [OF inv] by auto
  let ?r = "rb_currentReadChunk b" and ?c = "rb_list b ! rb_currentReadChunk b"
  show thesis
  proof (cases "?r < length (rb_list b) \<and> rk_size ?c \<noteq> 0")
    case False
    then have "rk_size ?c = 0" if "?r < length (rb_list b)" using that by simp
    from rb_read_next_step [OF inv abs this] False show thesis
      by (intro next_chunk [of ?c]) (auto simp: rb_at_list)
  next
    case True
    then have r: "?r < length (rb_list b)" by simp
    define k where "k = (if n < rk_size ?c then n else rk_size ?c)"
    have k: "0 < k" "k \<le> n" "k \<le> rk_size ?c" using True n by (auto simp: k_def)
    have ci: "rk_inv ?c" using rb_good_chunk(2) [OF inv r] True by simp
    have "take k (rk_abs ?c) = take k (rb_abs b)"
      using rb_abs_read(2) [OF inv r] k(3) by (metis min.absorb1 take_take)
    moreover note rb_read_chunk_step [OF inv r rk_drop_abs(1) [OF ci k(3)]
          rk_drop_abs(2) [OF ci k(3)] rk_capacity_step(2) k(3)]
    moreover have "rb_at b ?r = Some ?c" using r by (simp add: rb_at_list)
    ultimately show thesis
      using bytes [of ?c k] k ci k_def by blast
  qed
qed

lemmas rb_current_inv = rb_current [where f = False, folded rb_inv_good, consumes 3, case_names next_chunk bytes]
lemmas rb_abs_read_inv = rb_abs_read [where f = False, folded rb_inv_good]






section \<open>Peeking\<close>

text \<open>
  The loop leaves a chunk only when it holds nothing, and peeking consumes nothing: the bytes
  of the first chunk that holds any are delivered over and over.
\<close>

lemma rb_peek_loop_repeat:
  assumes at: "rb_at b t = Some c" and c: "rk_inv c" "rk_size c \<noteq> 0"
  shows "length (rb_peek_loop b t n) = n \<and>
    (\<forall>i<n. rb_peek_loop b t n ! i = rk_abs c ! (i mod rk_size c))"
proof (induction n rule: less_induct)
  case (less n)
  show ?case
  proof (cases "n < rk_size c")
    case True
    then have "rb_peek_loop b t n = take n (rk_abs c)"
      using at c rk_peek_eq [OF c(1), of n] rb_peek_loop.simps [of b t 0]
      by (simp add: rb_peek_loop.simps [of b t n] XRingChunk_available_def Let_def)
    then show ?thesis using True by simp
  next
    case False
    then have eq: "rb_peek_loop b t n = rk_abs c @ rb_peek_loop b t (n - rk_size c)"
      using at c rk_peek_eq [OF c(1), of "rk_size c"]
      by (simp add: rb_peek_loop.simps [of b t n] XRingChunk_available_def Let_def)
    have "n - rk_size c < n" using False c(2) by simp
    note IH = less.IH [OF this]
    have "rb_peek_loop b t n ! i = rk_abs c ! (i mod rk_size c)" if "i < n" for i
      using IH that False by (cases "i < rk_size c") (auto simp: eq nth_append le_mod_geq not_less)
    then show ?thesis using IH False by (simp add: eq)
  qed
qed

lemma rb_peek_loop_next:
  "rb_at b t = Some c \<Longrightarrow> rk_size c = 0 \<Longrightarrow> rb_peek_loop b t n = rb_peek_loop b (Suc t) n"
  using rb_peek_loop.simps [of b "Suc t" 0] rb_peek_loop.simps [of b t 0]
  by (cases "n = 0") (simp_all add: rb_peek_loop.simps [of b t n] XRingChunk_available_def)

text \<open>The first chunk, from the read index on, that holds bytes.\<close>

lemma rb_first_bytes:
  assumes inv: "rb_inv b" and ne: "rb_size b \<noteq> 0"
  obtains t where "rb_currentReadChunk b \<le> t" "t < length (rb_list b)" "rk_size (rb_list b ! t) \<noteq> 0"
    "\<And>j. j < t \<Longrightarrow> rk_size (rb_list b ! j) = 0"
    "rk_abs (rb_list b ! t) = take (rk_size (rb_list b ! t)) (rb_abs b)"
proof -
  define P where "P t \<longleftrightarrow> t < length (rb_list b) \<and> rk_size (rb_list b ! t) \<noteq> 0" for t
  have "rb_abs b \<noteq> []" using ne rb_invD(5) [OF inv] by auto
  then have ex: "\<exists>t. P t" unfolding P_def by (rule rb_abs_holds)
  define t where "t = (LEAST t. P t)"
  have t: "P t" unfolding t_def using ex by (rule LeastI_ex)
  have before: "rk_size (rb_list b ! j) = 0" if "j < t" for j
    using not_less_Least [of j P] that t by (auto simp: t_def P_def)
  have "\<not> t < rb_currentReadChunk b" using t rb_inv_chunk(3) [OF inv] by (auto simp: P_def)
  moreover have "rb_abs b = rk_abs (rb_list b ! t) @ concat (map rk_abs (drop (Suc t) (rb_list b)))"
    using concat_update_first [where f = rk_abs, of t "rb_list b" "rb_list b ! t"] t before
    by (simp add: P_def rb_abs_def)
  ultimately show thesis using t before that [of t] by (simp add: P_def)
qed

lemma rb_peek_skip_empty:
  assumes "\<And>j. t \<le> j \<Longrightarrow> j < u \<Longrightarrow> rk_size (rb_list b ! j) = 0" and "t \<le> u" and "u < length (rb_list b)"
  shows "rb_peek_loop b t n = rb_peek_loop b u n"
  using assms(2,1)
proof (induction rule: inc_induct)
  case (step k)
  have "rb_at b k = Some (rb_list b ! k)" using step.hyps assms(3) by (simp add: rb_at_list)
  then show ?case using rb_peek_loop_next [of b k] step by auto
qed simp

section \<open>Writing\<close>

text \<open>
  Any allocation of a write may fail: of a chunk object, of room in the pointer table, of a data block. A refused
  data block puts a chunk of capacity 0 into the table and the write goes on with the next one, so it returns
  unless data blocks are refused from some chunk on for ever, while everything else is granted.
\<close>

definition rb_refuses :: "chunk_alloc \<Rightarrow> nat \<Rightarrow> bool" where
  "rb_refuses mk k \<longleftrightarrow> fst (mk k) \<noteq> None \<and> snd (snd (mk k)) \<and> (\<exists>n. fst (snd (mk k)) n = None)"

definition rb_returns :: "chunk_alloc \<Rightarrow> bool" where
  "rb_returns mk \<longleftrightarrow> (\<forall>k. malloc_ok (fst (snd (mk k)))) \<and> (\<forall>k. \<exists>j\<ge>k. \<not> rb_refuses mk j)"

definition rb_alloc_all :: "chunk_alloc \<Rightarrow> bool" where
  "rb_alloc_all mk \<longleftrightarrow> (\<forall>k. malloc_ok (fst (snd (mk k))) \<and> (\<forall>n. fst (snd (mk k)) n \<noteq> None) \<and>
     fst (mk k) \<noteq> None \<and> snd (snd (mk k)))"

lemma rb_alloc_all_returns: "rb_alloc_all mk \<Longrightarrow> rb_returns mk"
  by (auto simp: rb_alloc_all_def rb_returns_def rb_refuses_def)

text \<open>How many chunks in a row, from number \<open>k\<close> on, are refused their data block.\<close>

definition rb_patience :: "chunk_alloc \<Rightarrow> nat \<Rightarrow> nat" where
  "rb_patience mk k = (LEAST d. \<not> rb_refuses mk (k + d))"

lemma rb_patience_Suc:
  assumes "rb_returns mk" and "rb_refuses mk k"
  shows "rb_patience mk k = Suc (rb_patience mk (Suc k))"
proof -
  obtain j where "k \<le> j" "\<not> rb_refuses mk j" using assms(1) by (auto simp: rb_returns_def)
  then have "\<not> rb_refuses mk (k + (j - k))" by simp
  then have "(LEAST d. \<not> rb_refuses mk (k + d)) = Suc (LEAST m. \<not> rb_refuses mk (k + Suc m))"
    by (rule Least_Suc) (use assms(2) in simp)
  then show ?thesis by (simp add: rb_patience_def)
qed

lemma rk_create_spec:
  assumes "malloc_ok mem" and "mem (n + 1) \<noteq> None" and "0 < n" and "n < size_max"
    and "XRingChunk_create_ex mem obj n = Some c"
  shows "rk_inv c" "rk_capacity c = n" "rk_size c = 0" "rk_readPos c = 0" "rk_markPos c = 0"
proof -
  obtain block where block: "mem (n + 1) = Some block" using assms(2) by auto
  have len: "length block = n + 1" by (rule malloc_okD [OF assms(1) block])
  obtain ob where "obj = Some ob" "c = XRingChunk_init_with_memory mem ob n"
    using assms(3,5) by (auto simp: XRingChunk_create_ex_def)
  then have "c = ob\<lparr>rk_data := block, rk_capacity := n, rk_size := 0, rk_readPos := 0,
      rk_writePos := 0, rk_markPos := 0\<rparr>"
    using assms(3,4) block by (simp add: XRingChunk_init_with_memory_def getPhysicalCapacity_def Let_def)
  then show "rk_inv c" "rk_capacity c = n" "rk_size c = 0" "rk_readPos c = 0" "rk_markPos c = 0"
    using len assms(4) by (simp_all add: rk_inv_def)
qed

lemma rk_create_refused:
  assumes "mem (n + 1) = None" and "0 < n" and "n < size_max" and "XRingChunk_create_ex mem obj n = Some c"
  shows "rk_refused c" and "obj \<noteq> None"
  using assms
  by (auto simp: XRingChunk_create_ex_def XRingChunk_init_with_memory_def getPhysicalCapacity_def rk_refused_def Let_def)

text \<open>Making sure of a chunk to write to: there is one, or one is added, with its data block or without, or it fails.\<close>

lemma rb_ensure_cases:
  assumes inv: "rb_good True b" and mk: "\<forall>k. malloc_ok (fst (snd (mk k)))"
  obtains (present) "rb_ensureChunk mk b = (True, b)" "rb_currentWriteChunk b < length (rb_list b)"
    | (added) c where "rb_ensureChunk mk b = (True, b\<lparr>rb_chunks := Some (rb_list b @ [c])\<rparr>)"
        "rb_currentWriteChunk b = length (rb_list b)" "rb_good True (b\<lparr>rb_chunks := Some (rb_list b @ [c])\<rparr>)"
        "rb_abs (b\<lparr>rb_chunks := Some (rb_list b @ [c])\<rparr>) = rb_abs b"
        "rb_freeSpace c \<noteq> 0 \<or> rb_refuses mk (length (rb_list b))"
    | (failed) "rb_ensureChunk mk b = (False, b)" "rb_alloc_all mk \<Longrightarrow> rb_firstCapacity b = 0"
proof (cases "rb_currentWriteChunk b < length (rb_list b)")
  case True
  then show thesis by (intro present) (simp_all add: rb_ensureChunk_def rb_count_list)
next
  case False
  note I = rb_goodD [OF inv]
  have w: "rb_currentWriteChunk b = length (rb_list b)" using False I(4) by simp
  define cap where "cap = rb_firstCapacity b"
  have c0: "0 < length (rb_list b)" using I(2) by simp
  have cap: "cap < size_max"
    using rb_good_chunk(1) [OF inv c0] rk_invD(7) c0
    by (auto simp: cap_def rb_firstCapacity_def rb_at_list rk_refused_def size_max_def)
  obtain obj mem room where k: "mk (length (rb_list b)) = (obj, mem, room)" by (metis prod_cases3)
  have mem: "malloc_ok mem" using mk k by (metis fst_conv snd_conv)
  have add: "rb_ensureChunk mk b = XRingBuffer_addChunk mk b cap"
    using w by (simp add: rb_ensureChunk_def rb_count_list cap_def)
  show thesis
  proof (cases "cap = 0 \<or> obj = None \<or> \<not> room")
    case True
    have "rb_ensureChunk mk b = (False, b)"
      using True add k I(1) by (auto simp: XRingBuffer_addChunk_def XRingChunk_create_ex_def rb_count_list split: option.splits)
    moreover have "cap = 0" if "rb_alloc_all mk"
    proof -
      have "fst (mk (length (rb_list b))) \<noteq> None \<and> snd (snd (mk (length (rb_list b))))"
        using that by (simp add: rb_alloc_all_def)
      then have "obj \<noteq> None \<and> room" unfolding k by simp
      then show ?thesis using True by blast
    qed
    ultimately show thesis using failed by (simp add: cap_def)
  next
    case granted: False
    then obtain c where c: "XRingChunk_create_ex mem obj cap = Some c" by (auto simp: XRingChunk_create_ex_def)
    have cap0: "0 < cap" using granted by simp
    have e: "rb_ensureChunk mk b = (True, b\<lparr>rb_chunks := Some (rb_list b @ [c])\<rparr>)"
      using granted add k I(1) c by (simp add: XRingBuffer_addChunk_def rb_count_list)
    show thesis
    proof (cases "mem (cap + 1)")
      case None
      note R = rk_create_refused [OF None cap0 cap c]
      have "rb_refuses mk (length (rb_list b))" using None granted k by (auto simp: rb_refuses_def)
      then show thesis using R rb_add_step [OF inv, of c] e w by (intro added [of c]) (auto simp: rk_refused_def)
    next
      case (Some block)
      then have "mem (cap + 1) \<noteq> None" by simp
      note C = rk_create_spec [OF mem this cap0 cap c]
      have "rb_freeSpace c \<noteq> 0" using C cap0 by (simp add: rb_freeSpace_def XRingChunk_available_def)
      then show thesis using C cap0 rb_add_step [OF inv, of c] e w by (intro added [of c]) auto
    qed
  qed
qed

lemma rb_firstCapacity_fields [simp]:
  "rb_firstCapacity (b\<lparr>rb_currentWriteChunk := x\<rparr>) = rb_firstCapacity b"
  "rb_firstCapacity (b\<lparr>rb_size := x\<rparr>) = rb_firstCapacity b"
  by (simp_all add: rb_firstCapacity_def rb_at_list)

lemma rb_firstCapacity_put:
  "rk_capacity c = rk_capacity (rb_list b ! i) \<Longrightarrow> rb_firstCapacity (rb_put_at b i c) = rb_firstCapacity b"
  by (cases "i = 0") (auto simp: rb_firstCapacity_def rb_at_list)

lemma rb_write_loop_spec:
  assumes mk: "rb_returns mk"
  shows "rb_good True b \<Longrightarrow> \<exists>k b'. rb_write_loop mk b bs w = Some (w + k, b') \<and> rb_good True b' \<and> k \<le> length bs \<and>
    rb_abs b' = rb_abs b @ take k bs \<and> (rb_alloc_all mk \<and> rb_firstCapacity b \<noteq> 0 \<longrightarrow> k = length bs)"
proof (induction "(b, bs, w)" arbitrary: b bs w
    rule: wf_induct_rule [OF wf_measures [of "[\<lambda>(b, bs, w). length bs, \<lambda>(b, bs, w). rb_patience mk (length (rb_list b)),
      \<lambda>(b, bs, w). length (rb_list b) - rb_currentWriteChunk b]"]])
  case (1 b bs w)
  have mems: "\<forall>k. malloc_ok (fst (snd (mk k)))" using mk by (simp add: rb_returns_def)
  let ?rel = "measures [\<lambda>(b, bs, w). length bs, \<lambda>(b, bs, w). rb_patience mk (length (rb_list b)),
      \<lambda>(b, bs, w). length (rb_list b) - rb_currentWriteChunk b]"
  show ?case
  proof (cases "bs = []")
    case True
    then show ?thesis using "1.prems"
      by (intro exI [of _ 0] exI [of _ b]) (simp add: rb_write_loop.simps [of mk b "[]" w])
  next
    case nonempty: False
    have go: ?thesis if e: "rb_ensureChunk mk b = (True, b1)" and inv: "rb_good True b1" and abs: "rb_abs b1 = rb_abs b"
      and wb: "rb_currentWriteChunk b1 = rb_currentWriteChunk b" and wl: "rb_currentWriteChunk b < length (rb_list b1)"
      and first: "rb_firstCapacity b1 = rb_firstCapacity b"
      and less: "rb_freeSpace (rb_list b1 ! rb_currentWriteChunk b) = 0 \<Longrightarrow>
        ((b1\<lparr>rb_currentWriteChunk := Suc (rb_currentWriteChunk b)\<rparr>, bs, w), (b, bs, w)) \<in> ?rel" for b1
    proof -
      let ?w = "rb_currentWriteChunk b" and ?c = "rb_list b1 ! rb_currentWriteChunk b"
      have at: "rb_at b1 ?w = Some ?c" using wl by (simp add: rb_at_list)
      show ?thesis
      proof (cases "rb_freeSpace ?c = 0")
        case True
        let ?b2 = "b1\<lparr>rb_currentWriteChunk := Suc ?w\<rparr>"
        have eq: "rb_write_loop mk b bs w = rb_write_loop mk ?b2 bs w"
          using nonempty True at e wb by (simp add: rb_write_loop.simps [of mk b bs w])
        have "rb_good True ?b2" using rb_write_next_step [OF inv] wb wl by simp
        from "1.hyps" [OF less [OF True] this] show ?thesis using abs first by (simp add: eq)
      next
        case free0: False
        have c: "rk_inv ?c" "0 < rk_capacity ?c"
          using rb_good_chunk(1) [OF inv wl] free0
          by (auto simp: rk_refused_def rb_freeSpace_def XRingChunk_available_def)
        have free: "rb_freeSpace ?c = rk_capacity ?c - rk_size ?c"
          using rk_invD(6) [OF c(1)] by (simp add: rb_freeSpace_def XRingChunk_available_def)
        define src where "src = take (rb_freeSpace ?c) bs"
        have src: "src \<noteq> []" using free0 nonempty by (simp add: src_def)
        have fit: "rk_size ?c + length src \<le> rk_capacity ?c"
          using rk_invD(6) [OF c(1)] by (simp add: src_def free)
        note put = rk_put_abs [OF c(1) fit]
        have wr: "XRingChunk_write ?c (Some src) = (length src, rk_put ?c src)" using rk_write_all [OF c(1) fit src] .
        let ?b2 = "(rb_put_at b1 ?w (rk_put ?c src))\<lparr>rb_size := rb_size b1 + length src\<rparr>"
        have pos: "rk_readPos (rk_put ?c src) = rk_readPos ?c" by (simp add: rk_put_def)
        note step = rb_write_chunk_step [OF inv, unfolded wb, OF wl c(2) put rk_capacity_step(1) pos]
        have first2: "rb_firstCapacity ?b2 = rb_firstCapacity b"
          using rb_firstCapacity_put [OF rk_capacity_step(1), of b1 ?w src] first by simp
        have eq: "rb_write_loop mk b bs w = rb_write_loop mk ?b2 (drop (length src) bs) (w + length src)"
          using nonempty free0 at e wr src wb by (simp add: rb_write_loop.simps [of mk b bs w] src_def [symmetric])
        have "((?b2, drop (length src) bs, w + length src), (b, bs, w)) \<in> ?rel" using src nonempty by simp
        from "1.hyps" [OF this step(1)] obtain k b' where IH:
          "rb_write_loop mk ?b2 (drop (length src) bs) (w + length src) = Some (w + length src + k, b')"
          "rb_good True b'" "k \<le> length (drop (length src) bs)"
          "rb_abs b' = rb_abs b @ src @ take k (drop (length src) bs)"
          "rb_alloc_all mk \<and> rb_firstCapacity b \<noteq> 0 \<longrightarrow> k = length (drop (length src) bs)"
          using step(2) abs first2 by auto
        have pre: "src = take (length src) bs" by (simp add: src_def min_def)
        have le: "length src \<le> length bs" by (simp add: src_def)
        have "src @ take k (drop (length src) bs) = take (length src + k) bs"
          using pre by (metis take_add)
        then show ?thesis using IH le
          by (intro exI [of _ "length src + k"] exI [of _ b']) (auto simp: eq)
      qed
    qed
    from "1.prems" mems show ?thesis
    proof (cases rule: rb_ensure_cases)
      case present
      then show ?thesis using "1.prems" by (intro go [of b]) (auto simp: diff_less_mono2)
    next
      case (added c)
      show ?thesis
      proof (rule go [OF added(1,3,4)])
        show "rb_firstCapacity (b\<lparr>rb_chunks := Some (rb_list b @ [c])\<rparr>) = rb_firstCapacity b"
          using rb_goodD(2) [OF "1.prems"] by (simp add: rb_firstCapacity_def rb_at_list nth_append)
      next
        assume "rb_freeSpace (rb_list (b\<lparr>rb_chunks := Some (rb_list b @ [c])\<rparr>) ! rb_currentWriteChunk b) = 0"
        then have "rb_refuses mk (length (rb_list b))" using added(2,5) by simp
        from rb_patience_Suc [OF mk this]
        show "((b\<lparr>rb_chunks := Some (rb_list b @ [c])\<rparr>\<lparr>rb_currentWriteChunk := Suc (rb_currentWriteChunk b)\<rparr>, bs, w),
            b, bs, w) \<in> ?rel" by simp
      qed (use added(2) in simp_all)
    next
      case failed
      then show ?thesis using "1.prems" nonempty
        by (intro exI [of _ 0] exI [of _ b]) (auto simp: rb_write_loop.simps [of mk b bs w])
    qed
  qed
qed

lemma rb_write_spec:
  assumes mk: "rb_returns mk" and inv: "rb_good True b"
  obtains k b' where "XRingBuffer_write mk b (Some bs) = Some (k, b')" "rb_good True b'" "k \<le> length bs"
    "rb_abs b' = rb_abs b @ take k bs" "rb_alloc_all mk \<Longrightarrow> rb_firstCapacity b \<noteq> 0 \<Longrightarrow> k = length bs"
proof (cases "bs = []")
  case True
  then show thesis using inv that [of 0 b] by (simp add: XRingBuffer_write_def)
next
  case False
  then show thesis using rb_write_loop_spec [OF mk inv, of bs 0] that by (auto simp: XRingBuffer_write_def)
qed


section \<open>Mark, read, roll back\<close>










lemma rb_mark_fields [simp]:
  "rb_chunks (XRingBuffer_mark b) = rb_chunks b" "rb_size (XRingBuffer_mark b) = rb_size b"
  "rb_currentReadChunk (XRingBuffer_mark b) = rb_currentReadChunk b"
  "rb_currentWriteChunk (XRingBuffer_mark b) = rb_currentWriteChunk b"
  "rb_markedReadChunkIndex (XRingBuffer_mark b) = rb_currentReadChunk b"
  "rb_markedTotalSize (XRingBuffer_mark b) = rb_size b" "rb_hasMark (XRingBuffer_mark b)"
  "rb_list (XRingBuffer_mark b) = rb_list b"
  by (simp_all add: XRingBuffer_mark_def rb_list_def Let_def split: option.splits)




section \<open>The contiguous bytes\<close>

lemma rb_seek_spec:
  assumes "rb_inv b" and "rb_size b \<noteq> 0"
  shows "\<exists>t. rb_seek b = b\<lparr>rb_currentReadChunk := t\<rparr> \<and> rb_inv (rb_seek b) \<and> t < length (rb_list b) \<and>
    rk_size (rb_list b ! t) \<noteq> 0"
  using assms
proof (induction b rule: rb_seek.induct)
  case (1 b)
  have one: "(1::nat) \<noteq> 0" by simp
  from "1.prems" one show ?case
  proof (cases rule: rb_current_inv)
    case (next_chunk c)
    then have "rb_seek b = rb_seek (b\<lparr>rb_currentReadChunk := Suc (rb_currentReadChunk b)\<rparr>)"
      by (simp add: rb_seek.simps [of b] XRingChunk_available_def)
    then show ?thesis using "1.IH" [OF next_chunk(1)] next_chunk "1.prems"(2)
      by (auto simp: XRingChunk_available_def)
  next
    case (bytes c k)
    then have "rb_seek b = b" by (simp add: rb_seek.simps [of b] XRingChunk_available_def)
    moreover have "rb_currentReadChunk b < length (rb_list b) \<and> rk_size (rb_list b ! rb_currentReadChunk b) \<noteq> 0"
      using rb_at_mem [OF "1.prems"(1) bytes(1)] bytes by auto
    ultimately show ?thesis using "1.prems" by (intro exI [of _ "rb_currentReadChunk b"]) simp
  qed
qed

lemma rk_contiguous:
  assumes inv: "rk_inv c" and k: "k \<le> rk_size c" "k \<le> rk_capacity c + 1 - rk_readPos c"
  shows "take k (drop (rk_readPos c) (rk_data c)) = take k (rk_abs c)"
proof -
  note I = rk_invD [OF inv]
  have "ring (rk_data c) (rk_readPos c) k = take k (drop (rk_readPos c) (rk_data c))"
    using k I(2,3) by (intro ring_linear) simp
  then show ?thesis using k(1) by (simp add: rk_abs_def take_ring)
qed

section \<open>Copies\<close>

lemma rb_copy_chunks_spec:
  assumes "rb_alloc_all mk" and "\<forall>c\<in>set cs. rk_inv c \<and> 0 < rk_capacity c"
  shows "map rk_abs (rb_copy_chunks mk k cs) = map rk_abs cs \<and>
    map rk_size (rb_copy_chunks mk k cs) = map rk_size cs \<and>
    map rk_readPos (rb_copy_chunks mk k cs) = map rk_readPos cs \<and>
    (\<forall>c\<in>set (rb_copy_chunks mk k cs). rk_inv c \<and> 0 < rk_capacity c)"
  using assms(2)
proof (induction cs arbitrary: k)
  case (Cons c cs)
  obtain obj mem room where k: "mk k = (obj, mem, room)" by (rule prod_cases3)
  have "fst (mk k) \<noteq> None \<and> snd (snd (mk k)) \<and> malloc_ok (fst (snd (mk k))) \<and> (\<forall>n. fst (snd (mk k)) n \<noteq> None)"
    using assms(1) by (simp add: rb_alloc_all_def)
  then have mem: "obj \<noteq> None" "room" "malloc_ok mem" "\<And>n. mem n \<noteq> None" using k by simp_all
  have c: "rk_inv c" "0 < rk_capacity c" using Cons.prems by auto
  then obtain d where d: "XRingChunk_create_ex mem obj (rk_capacity c) = Some d"
    using mem(1) by (auto simp: XRingChunk_create_ex_def)
  note D = rk_create_spec [OF mem(3,4) c(2) rk_invD(7) [OF c(1)] d]
  define e where "e = rk_copy mem False d c"
  have E: "rk_data e = rk_data c \<and> rk_capacity e = rk_capacity c \<and> rk_size e = rk_size c \<and>
      rk_readPos e = rk_readPos c \<and> rk_writePos e = rk_writePos c"
    unfolding e_def using D by (intro rk_copy_fields [OF c mem(3,4)]) simp
  then have "rk_inv e" "rk_abs e = rk_abs c" using c(1) by (simp_all add: rk_inv_def rk_abs_def)
  moreover have "rb_copy_chunks mk k (c # cs) = e # rb_copy_chunks mk (k + 1) cs"
    using k d mem(2) by (simp add: e_def)
  ultimately show ?case using Cons.IH [of "k + 1"] Cons.prems E by simp
qed simp

section \<open>Properties of the growing buffer\<close>

definition rb_mem :: chunk_alloc where
  "rb_mem k = (Some \<lparr>rk_data = [], rk_capacity = 0, rk_size = 0, rk_readPos = 0, rk_writePos = 0, rk_markPos = 0\<rparr>,
     \<lambda>n. Some (replicate n 0), True)"

definition rb_sample :: XRingBuffer where
  "rb_sample = \<lparr>rb_chunks = Some
     [\<lparr>rk_data = [1, 2, 3], rk_capacity = 2, rk_size = 1, rk_readPos = 1, rk_writePos = 2, rk_markPos = 0\<rparr>,
      \<lparr>rk_data = [4, 5, 6], rk_capacity = 2, rk_size = 1, rk_readPos = 0, rk_writePos = 1, rk_markPos = 0\<rparr>],
     rb_size = 2, rb_capacity = 0, rb_currentReadChunk = 0, rb_currentWriteChunk = 1, rb_markedReadChunk = 0,
     rb_markedReadChunkIndex = 0, rb_markedReadPosInChunk = 0, rb_markedTotalSize = 0, rb_hasMark = False\<rparr>"

lemma rb_mem_all: "rb_alloc_all rb_mem" "rb_returns rb_mem"
proof -
  show "rb_alloc_all rb_mem" by (simp add: rb_alloc_all_def rb_mem_def)
  then show "rb_returns rb_mem" by (rule rb_alloc_all_returns)
qed



lemma rb_sample_inv: "rb_inv rb_sample" "rb_abs rb_sample = [2, 4]"
proof -
  show abs: "rb_abs rb_sample = [2, 4]" by (simp add: rb_abs_def rb_list_def rb_sample_def rk_abs_def ring_def)
  show "rb_inv rb_sample"
    unfolding rb_inv_def abs
    by (simp add: rb_list_def rb_sample_def less_Suc_eq rk_inv_def size_max_def ring_dist_def)
qed

text \<open>Writing to a well-formed buffer returns, keeps the buffer well-formed and
  appends the accepted bytes to the bytes held; with every allocation granted it accepts them all.\<close>

theorem ring_write_appends:
  assumes "rb_returns mk" and "rb_good True b"
  shows "\<exists>k b'. XRingBuffer_write mk b (Some bs) = Some (k, b') \<and> rb_good True b' \<and> k \<le> length bs \<and>
    rb_abs b' = rb_abs b @ take k bs \<and> (rb_alloc_all mk \<and> rb_firstCapacity b \<noteq> 0 \<longrightarrow> k = length bs)"
  using rb_write_spec [OF assms, of bs] by metis

theorem ring_write_appends_witness:
  "\<exists>b'. XRingBuffer_write rb_mem rb_sample (Some [7, 8, 9]) = Some (3, b') \<and> rb_abs b' = [2, 4, 7, 8, 9]"
proof -
  have "rb_firstCapacity rb_sample \<noteq> 0" by (simp add: rb_firstCapacity_def rb_at_def rb_sample_def)
  then show ?thesis
    using ring_write_appends [OF rb_mem_all(2) rb_good_mono [OF rb_sample_inv(1)], of "[7, 8, 9]"] rb_mem_all(1)
    by (auto simp: rb_sample_inv(2))
qed












text \<open>Peeking at a buffer that holds bytes delivers exactly as many bytes as were asked
  for, even when fewer are held: the bytes of the first chunk that holds any, over and over. Only
  requests that this chunk can serve are answered with the bytes a read would deliver.\<close>

theorem ring_peek_repeats:
  assumes "rb_inv b" and "rb_size b \<noteq> 0"
  shows "\<exists>m. 0 < m \<and> m \<le> length (rb_abs b) \<and> (\<forall>n. length (XRingBuffer_peek b True n) = n \<and>
      (\<forall>i<n. XRingBuffer_peek b True n ! i = rb_abs b ! (i mod m)))"
proof -
  obtain t where t: "rb_currentReadChunk b \<le> t" "t < length (rb_list b)" "rk_size (rb_list b ! t) \<noteq> 0"
    "\<And>j. j < t \<Longrightarrow> rk_size (rb_list b ! j) = 0"
    "rk_abs (rb_list b ! t) = take (rk_size (rb_list b ! t)) (rb_abs b)"
    using rb_first_bytes [OF assms] by metis
  let ?m = "rk_size (rb_list b ! t)"
  have at: "rb_at b t = Some (rb_list b ! t)" using t(2) by (simp add: rb_at_list)
  have m: "?m \<le> length (rb_abs b)" using t(5) by (metis length_rk_abs length_take min.cobounded1)
  have peek: "XRingBuffer_peek b True n = rb_peek_loop b t n" if "n \<noteq> 0" for n
    using that assms(2) rb_peek_skip_empty [of "rb_currentReadChunk b" t b n] t(1,2,4)
    by (simp add: XRingBuffer_peek_def)
  have "length (XRingBuffer_peek b True n) = n \<and>
      (\<forall>i<n. XRingBuffer_peek b True n ! i = rb_abs b ! (i mod ?m))" for n
  proof (cases "n = 0")
    case False
    have "rk_abs (rb_list b ! t) ! (i mod ?m) = rb_abs b ! (i mod ?m)" for i
      using t(3) m by (subst t(5)) simp
    then show ?thesis
      using rb_peek_loop_repeat [OF at rb_inv_chunk(1) [OF assms(1) t(2)] t(3), of n] peek [OF False]
      by simp
  qed (simp add: XRingBuffer_peek_def)
  then show ?thesis using t(3) m by auto
qed

theorem ring_peek_repeats_witness:
  "length (XRingBuffer_peek rb_sample True 5) = 5"
proof -
  have "rb_size rb_sample \<noteq> 0" by (simp add: rb_sample_def)
  then show ?thesis using ring_peek_repeats [OF rb_sample_inv(1)] by blast
qed

text \<open>With the bytes 2 and 4 held in two chunks, peeking at five of them gives 2 five times.\<close>

lemma ring_peek_example: "XRingBuffer_peek rb_sample True 5 = [2, 2, 2, 2, 2]"
  by (simp add: XRingBuffer_peek_def rb_sample_def rb_peek_loop.simps rb_at_def XRingChunk_available_def
      XRingChunk_peek_def rk_copy_out_def getPhysicalCapacity_def isBufferEmpty_def size_add_def Let_def)

text \<open>The pointer to contiguous bytes, asked for from a buffer that holds bytes, is never
  NULL, covers at least one and at most the requested number of bytes, and these are the next bytes a
  read would deliver; the bytes held are not changed.\<close>

theorem ring_peek_pointer:
  assumes "rb_inv b" and "rb_size b \<noteq> 0" and "0 < n"
  shows "\<exists>k b'. XRingBuffer_peekReadPtr b n = (Some (take k (rb_abs b)), b') \<and> 0 < k \<and> k \<le> n \<and>
    k \<le> length (rb_abs b) \<and> rb_inv b' \<and> rb_abs b' = rb_abs b"
proof -
  obtain t where t: "rb_seek b = b\<lparr>rb_currentReadChunk := t\<rparr>" "t < length (rb_list b)"
    "rk_size (rb_list b ! t) \<noteq> 0" and inv: "rb_inv (rb_seek b)"
    using rb_seek_spec [OF assms(1,2)] by auto
  let ?c = "rb_list b ! t"
  define k where "k = (if n < (if rk_capacity ?c + 1 - rk_readPos ?c \<le> rk_size ?c
    then rk_capacity ?c + 1 - rk_readPos ?c else rk_size ?c) then n else
    (if rk_capacity ?c + 1 - rk_readPos ?c \<le> rk_size ?c then rk_capacity ?c + 1 - rk_readPos ?c else rk_size ?c))"
  note c = rb_inv_chunk [OF assms(1) t(2)]
  have k: "0 < k" "k \<le> n" "k \<le> rk_size ?c" "k \<le> rk_capacity ?c + 1 - rk_readPos ?c"
    using rk_invD(2,3) [OF c(1)] t(3) assms(3) by (auto simp: k_def)
  have at: "rb_at (rb_seek b) t = Some ?c" using t by (simp add: rb_at_list)
  have "XRingBuffer_peekReadPtr b n = (Some (take k (drop (rk_readPos ?c) (rk_data ?c))), rb_seek b)"
    using assms(2,3) at t(1)
    by (simp add: XRingBuffer_peekReadPtr_def Let_def k_def XRingChunk_available_def)
  moreover have "take k (rk_abs ?c) = take k (rb_abs b)"
  proof -
    have r: "rb_currentReadChunk (rb_seek b) < length (rb_list (rb_seek b))" using t by simp
    have "take (rk_size ?c) (rb_abs b) = rk_abs ?c"
      using rb_abs_read_inv(2) [OF inv r] t(1) by simp
    then show ?thesis using k(3) by (metis min.absorb1 take_take)
  qed
  moreover have "rk_size ?c \<le> length (rb_abs b)"
    using rb_abs_read_inv(2) [OF inv] t by (metis length_rk_abs length_take min.cobounded1 rb_abs_update_fields(2)
      rb_list_update_fields(2) XRingBuffer.select_convs(4) XRingBuffer.surjective XRingBuffer.update_convs(4))
  ultimately show ?thesis using rk_contiguous [OF c(1) k(3,4)] k inv t(1)
    by (intro exI [of _ k] exI [of _ "rb_seek b"]) simp
qed

theorem ring_peek_pointer_witness:
  "\<exists>bs b'. XRingBuffer_peekReadPtr rb_sample 8 = (Some bs, b') \<and> rb_inv b'"
proof -
  have "rb_size rb_sample \<noteq> 0" by (simp add: rb_sample_def)
  then show ?thesis using ring_peek_pointer [OF rb_sample_inv(1), of 8] by auto
qed



text \<open>Copying a well-formed buffer into an uninitialised object with every allocation
  granted gives a well-formed buffer that holds the same bytes.\<close>

theorem ring_copy_same_bytes:
  assumes inv: "rb_inv src" and mk: "rb_alloc_all mk" "rb_alloc_all mk2"
  shows "rb_inv (rb_copy mk True mk2 True obj src) \<and> rb_abs (rb_copy mk True mk2 True obj src) = rb_abs src"
proof -
  let ?cs = "rb_list src" and ?ds = "rb_copy_chunks mk2 0 (rb_list src)"
  have all: "\<forall>c\<in>set ?cs. rk_inv c \<and> 0 < rk_capacity c"
    using rb_inv_chunk(1,2) [OF inv] by (auto simp: in_set_conv_nth)
  note C = rb_copy_chunks_spec [OF mk(2) all, of 0]
  then have len: "length ?ds = length ?cs" by (metis length_map)
  have c0: "0 < length ?cs" using rb_invD(2) [OF inv] by simp
  have cap: "rb_firstCapacity src \<noteq> 0"
    using rb_inv_chunk(2) [OF inv c0] c0 by (simp add: rb_firstCapacity_def rb_at_list)
  obtain ob mem room where k: "mk 0 = (ob, mem, room)" by (rule prod_cases3)
  have "ob \<noteq> None" using mk(1) k by (metis fst_conv rb_alloc_all_def)
  then obtain d where "XRingChunk_create_ex mem ob (rb_firstCapacity src) = Some d"
    using cap by (auto simp: XRingChunk_create_ex_def)
  then have "rb_chunks (XRingBuffer_init_with_memory mk True obj (rb_firstCapacity src)) \<noteq> None"
    using cap k by (simp add: XRingBuffer_init_with_memory_def)
  then have chunks: "rb_chunks (rb_copy mk True mk2 True obj src) = Some ?ds"
    by (auto simp: rb_copy_def rb_list_def Let_def)
  then have list: "rb_list (rb_copy mk True mk2 True obj src) = ?ds" by (simp add: rb_list_def)
  have fields: "rb_currentReadChunk (rb_copy mk True mk2 True obj src) = rb_currentReadChunk src"
    "rb_currentWriteChunk (rb_copy mk True mk2 True obj src) = rb_currentWriteChunk src"
    "rb_size (rb_copy mk True mk2 True obj src) = rb_size src"
    by (simp_all add: rb_copy_def Let_def)
  have abs: "rb_abs (rb_copy mk True mk2 True obj src) = rb_abs src"
    using C by (simp add: rb_abs_def list)
  have "rk_inv (?ds ! i) \<and> 0 < rk_capacity (?ds ! i) \<and> rk_size (?ds ! i) = rk_size (?cs ! i) \<and>
      rk_readPos (?ds ! i) = rk_readPos (?cs ! i)" if "i < length ?cs" for i
    using C that len nth_map [of i ?ds] nth_map [of i ?cs] nth_mem [of i ?ds] by metis
  then have "rb_inv (rb_copy mk True mk2 True obj src)"
    unfolding rb_inv_def list fields abs using rb_invD [OF inv] rb_inv_chunk [OF inv] len chunks by auto
  with abs show ?thesis by blast
qed

theorem ring_copy_same_bytes_witness:
  "rb_abs (rb_copy rb_mem True rb_mem True rb_sample rb_sample) = [2, 4]"
  using ring_copy_same_bytes [OF rb_sample_inv(1) rb_mem_all(1) rb_mem_all(1), of rb_sample] rb_sample_inv(2) by simp

text \<open>Rolling back after a write restores the total of before the write: it is 2 while three bytes
  are held, and reading them makes it wrap round.\<close>

lemma ring_rollback_total_wraps:
  "\<exists>b'. XRingBuffer_write rb_mem (XRingBuffer_mark rb_sample) (Some [7]) = Some (1, b') \<and>
     rb_size (XRingBuffer_resetToMark b') = 2 \<and>
     fst (XRingBuffer_read (XRingBuffer_resetToMark b') True 3) = [2, 4, 7] \<and>
     rb_size (snd (XRingBuffer_read (XRingBuffer_resetToMark b') True 3)) = size_max"
  by (simp add: XRingBuffer_write_def rb_write_loop.simps rb_ensureChunk_def rb_count_def rb_at_def rb_put_at_def
      XRingBuffer_mark_def rb_sample_def rb_freeSpace_def XRingChunk_available_def XRingChunk_write_def
      isBufferFull_def getPhysicalCapacity_def size_add_def memcpy_at_def XRingBuffer_resetToMark_def rb_rewind_def
      XRingBuffer_read_def rb_read_loop.simps rb_consume_def XRingChunk_read_def XRingChunk_resetReadPosOnly_def
      isBufferEmpty_def rk_copy_out_def size_sub_def size_max_def Let_def)

end
