(* ===== verification/Gf2.thy ===== *)
theory Gf2
  imports XPrelude
begin

text \<open>
  Registers as vectors over the field with two elements: the locale of linear maps on words, the
  two shift registers that define a cyclic redundancy check bit by bit (\<open>refl_bit\<close> shifts
  towards bit 0, \<open>norm_bit\<close> away from it), the check of a byte string as iterated shifts, and
  tables of a linear map built by doubling. The cyclic redundancy checks are proved against these.
\<close>

unbundle bit_operations_syntax

section \<open>Linear maps\<close>

text \<open>The check of a byte string: each byte is added to the register, which is then shifted eight times.\<close>

primrec lfsr_crc :: "('a::len word \<Rightarrow> 'a word) \<Rightarrow> (byte \<Rightarrow> 'a word) \<Rightarrow> 'a word \<Rightarrow> byte list \<Rightarrow> 'a word" where
  "lfsr_crc f emb c [] = c"
| "lfsr_crc f emb c (b # data) = lfsr_crc f emb ((f ^^ 8) (c XOR emb b)) data"

lemma lfsr_crc_append [simp]: "lfsr_crc f emb c (xs @ ys) = lfsr_crc f emb (lfsr_crc f emb c xs) ys"
  by (induction xs arbitrary: c) simp_all

locale gf2_linear =
  fixes f :: "'a::len word \<Rightarrow> 'a word"
  assumes linear: "f (a XOR b) = f a XOR f b"
begin

lemma zero: "f 0 = 0"
  using linear [of 0 0] by simp

lemma pow: "(f ^^ n) (a XOR b) = (f ^^ n) a XOR (f ^^ n) b"
  by (induction n) (simp_all add: linear)

lemma pow_zero: "(f ^^ n) 0 = 0"
  by (induction n) (simp_all add: zero)

lemma crc_xor: "lfsr_crc f emb (a XOR b) data = lfsr_crc f emb a data XOR (f ^^ (8 * length data)) b"
proof (induction data arbitrary: a b)
  case (Cons x data)
  have "(f ^^ 8) ((a XOR b) XOR emb x) = (f ^^ 8) (a XOR emb x) XOR (f ^^ 8) b"
    by (simp add: pow ac_simps)
  moreover have "(f ^^ (8 * length data)) ((f ^^ 8) b) = (f ^^ (8 * length (x # data))) b"
    by (metis add.commute comp_apply funpow_add length_Cons mult_Suc_right)
  ultimately show ?case using Cons.IH [of "(f ^^ 8) (a XOR emb x)" "(f ^^ 8) b"] by simp
qed simp

lemma crc_append_xor:
  "lfsr_crc f emb c (xs @ ys) =
    (f ^^ (8 * length ys)) (lfsr_crc f emb c xs XOR d) XOR lfsr_crc f emb d ys"
  using crc_xor [of emb d "lfsr_crc f emb c xs XOR d" ys] by (simp add: ac_simps)

end

text \<open>Linear and one-to-one: two strings that differ in one byte have different checks.\<close>

locale gf2_injective = gf2_linear +
  assumes inj: "f a = f b \<Longrightarrow> a = b"
begin

lemma pow_inj: "(f ^^ n) a = (f ^^ n) b \<Longrightarrow> a = b"
  by (induction n) (auto dest: inj)

lemma crc_start_inj: "lfsr_crc f emb a data = lfsr_crc f emb b data \<Longrightarrow> a = b"
proof -
  assume eq: "lfsr_crc f emb a data = lfsr_crc f emb b data"
  have "b XOR (b XOR a) = a" by (simp flip: xor.assoc)
  then have "lfsr_crc f emb b data XOR (f ^^ (8 * length data)) (b XOR a) = lfsr_crc f emb b data"
    using crc_xor [of emb b "b XOR a" data] eq by simp
  then have "(f ^^ (8 * length data)) (b XOR a) = 0"
    by (metis xor.assoc xor_self_eq xor.left_neutral)
  then have "b XOR a = 0" using pow_inj [of "8 * length data" "b XOR a" 0] by (simp add: pow_zero)
  with \<open>b XOR (b XOR a) = a\<close> show "a = b" by simp
qed

lemma crc_detects_byte:
  assumes emb: "\<And>x y. emb x = emb y \<Longrightarrow> x = y" and "x \<noteq> y"
  shows "lfsr_crc f emb c (xs @ x # ys) \<noteq> lfsr_crc f emb c (xs @ y # ys)"
proof
  assume "lfsr_crc f emb c (xs @ x # ys) = lfsr_crc f emb c (xs @ y # ys)"
  then have "(f ^^ 8) (lfsr_crc f emb c xs XOR emb x) = (f ^^ 8) (lfsr_crc f emb c xs XOR emb y)"
    by (auto dest: crc_start_inj)
  then have "lfsr_crc f emb c xs XOR emb x = lfsr_crc f emb c xs XOR emb y" by (rule pow_inj)
  then have "emb x = emb y" by (metis xor.assoc xor_self_eq xor.left_neutral)
  with assms show False by blast
qed

end

section \<open>The bitwise registers\<close>

definition refl_bit :: "'a::len word \<Rightarrow> 'a word \<Rightarrow> 'a word" where
  "refl_bit p c = (if bit c 0 then drop_bit 1 c XOR p else drop_bit 1 c)"

definition norm_bit :: "'a::len word \<Rightarrow> 'a word \<Rightarrow> 'a word" where
  "norm_bit p c = (if bit c (LENGTH('a) - 1) then push_bit 1 c XOR p else push_bit 1 c)"

lemma xor_cancel [simp]: "(a :: 'a::len word) XOR (a XOR b) = b" "(b XOR a) XOR a = b"
  by (simp_all flip: xor.assoc) (simp add: xor.assoc)

interpretation refl: gf2_linear "refl_bit p" for p
  by unfold_locales (auto simp: refl_bit_def drop_bit_xor bit_xor_iff ac_simps)

interpretation norm: gf2_linear "norm_bit p" for p
  by unfold_locales (auto simp: norm_bit_def push_bit_xor bit_xor_iff ac_simps)

lemma refl_bit_inj:
  fixes p :: "'a::len word"
  assumes p: "bit p (LENGTH('a) - 1)" and eq: "refl_bit p a = refl_bit p b"
  shows "a = b"
proof -
  have top: "bit (refl_bit p c) (LENGTH('a) - 1) \<longleftrightarrow> bit c 0" for c
    using p by (auto simp: refl_bit_def bit_simps dest: bit_imp_le_length)
  have "bit a 0 = bit b 0" using top [of a] top [of b] eq by simp
  then have "drop_bit 1 a = drop_bit 1 b"
    using eq by (auto simp: refl_bit_def split: if_splits) (metis xor.assoc xor_self_eq xor.right_neutral)
  then have "bit a (Suc i) = bit b (Suc i)" for i
    by (metis bit_drop_bit_eq comp_apply plus_1_eq_Suc)
  with \<open>bit a 0 = bit b 0\<close> show ?thesis
    by (intro bit_eqI) (metis not0_implies_Suc)
qed

lemma refl_low_zero:
  "(\<And>i. i < k \<Longrightarrow> \<not> bit y i) \<Longrightarrow> (refl_bit p ^^ k) y = drop_bit k y"
proof (induction k)
  case (Suc k)
  then show ?case by (simp add: refl_bit_def bit_drop_bit_eq)
qed simp

lemma norm_high_zero:
  fixes y :: "'a::len word"
  shows "(\<And>i. LENGTH('a) - k \<le> i \<Longrightarrow> \<not> bit y i) \<Longrightarrow> k \<le> LENGTH('a) \<Longrightarrow> (norm_bit p ^^ k) y = push_bit k y"
proof (induction k)
  case (Suc k)
  have "\<not> bit (push_bit k y) (LENGTH('a) - 1)"
    using Suc.prems by (auto simp: bit_push_bit_iff)
  then show ?case using Suc by (simp add: norm_bit_def)
qed simp

lemma and_byte_mask: "(c :: 'a::len word) AND 0xFF = take_bit 8 c"
  by (simp add: take_bit_eq_mask mask_eq_exp_minus_1)

lemma refl_shift:
  fixes c :: "'a::len word"
  shows "(refl_bit p ^^ k) c = drop_bit k c XOR (refl_bit p ^^ k) (take_bit k c)"
proof -
  have "c = push_bit k (drop_bit k c) XOR take_bit k c"
    by (rule bit_eqI) (auto simp: bit_simps)
  then have "(refl_bit p ^^ k) c =
      (refl_bit p ^^ k) (push_bit k (drop_bit k c)) XOR (refl_bit p ^^ k) (take_bit k c)"
    by (metis refl.pow)
  moreover have "(refl_bit p ^^ k) (push_bit k (drop_bit k c)) = drop_bit k (push_bit k (drop_bit k c))"
    by (rule refl_low_zero) (simp add: bit_simps)
  moreover have "drop_bit k (push_bit k (drop_bit k c)) = drop_bit k c"
    by (rule bit_eqI) (auto simp: bit_simps dest: bit_imp_le_length)
  ultimately show ?thesis by simp
qed

lemma norm_shift:
  fixes c :: "'a::len word"
  assumes "k \<le> LENGTH('a)"
  shows "(norm_bit p ^^ k) c = push_bit k c XOR
    (norm_bit p ^^ k) (push_bit (LENGTH('a) - k) (drop_bit (LENGTH('a) - k) c))"
proof -
  let ?h = "push_bit (LENGTH('a) - k) (drop_bit (LENGTH('a) - k) c)"
  have "c = take_bit (LENGTH('a) - k) c XOR ?h"
    by (rule bit_eqI) (auto simp: bit_simps)
  then have "(norm_bit p ^^ k) c = (norm_bit p ^^ k) (take_bit (LENGTH('a) - k) c) XOR (norm_bit p ^^ k) ?h"
    by (metis norm.pow)
  moreover have "(norm_bit p ^^ k) (take_bit (LENGTH('a) - k) c) = push_bit k (take_bit (LENGTH('a) - k) c)"
    using assms by (intro norm_high_zero) (simp_all add: bit_simps)
  moreover have "push_bit k (take_bit (LENGTH('a) - k) c) = push_bit k c"
    by (rule bit_eqI) (auto simp: bit_simps dest: bit_imp_le_length)
  ultimately show ?thesis by simp
qed

text \<open>The embeddings of a byte: at the end the register shifts out of.\<close>

definition refl_crc :: "'a::len word \<Rightarrow> 'a word \<Rightarrow> byte list \<Rightarrow> 'a word" where
  "refl_crc p = lfsr_crc (refl_bit p) ucast"

definition norm_crc :: "'a::len word \<Rightarrow> 'a word \<Rightarrow> byte list \<Rightarrow> 'a word" where
  "norm_crc p = lfsr_crc (norm_bit p) (\<lambda>b. push_bit (LENGTH('a) - 8) (ucast b))"

section \<open>Tables of linear maps\<close>

text \<open>The table of a linear map on the numbers below a power of two, from its values on powers of two.\<close>

primrec gf2_table :: "'a::len word list \<Rightarrow> 'a word list \<Rightarrow> 'a word list" where
  "gf2_table T [] = T"
| "gf2_table T (b # bs) = gf2_table (T @ map (\<lambda>x. b XOR x) T) bs"

lemma word_of_nat_add_power:
  fixes i :: nat
  assumes "i < 2 ^ k"
  shows "(of_nat (2 ^ k + i) :: 'a::len word) = of_nat (2 ^ k) XOR of_nat i"
proof -
  have "\<not> bit i j" if "k \<le> j" for j
  proof -
    have "i < 2 ^ j" using assms that by (meson less_le_trans one_le_numeral power_increasing)
    then show ?thesis by (simp add: bit_iff_odd)
  qed
  then have "bit (of_nat (2 ^ k) :: 'a word) j \<longrightarrow> \<not> bit (of_nat i :: 'a word) j" for j
    by (auto simp: bit_simps)
  then have "(of_nat (2 ^ k) :: 'a word) AND of_nat i = 0"
    by (intro bit_eqI) (simp only: bit_and_iff bit_0_eq bot_apply bot_bool_def, blast)
  then have "(of_nat (2 ^ k) :: 'a word) + of_nat i = of_nat (2 ^ k) XOR of_nat i"
    by (rule disjunctive_add_eq_xor)
  then show ?thesis by simp
qed

lemma gf2_table_spec:
  fixes f :: "'a::len word \<Rightarrow> 'a word"
  assumes lin: "\<And>a b. f (a XOR b) = f a XOR f b"
  shows "T = map (\<lambda>i. f (of_nat i)) [0..<2 ^ k] \<Longrightarrow>
    gf2_table T (map (\<lambda>j. f (of_nat (2 ^ (k + j)))) [0..<n]) = map (\<lambda>i. f (of_nat i)) [0..<2 ^ (k + n)]"
proof (induction n arbitrary: T k)
  case (Suc n)
  let ?b = "f (of_nat (2 ^ k))"
  have "map (\<lambda>i. ?b XOR f (of_nat i)) [0..<2 ^ k] = map (\<lambda>i. f (of_nat (2 ^ k + i))) [0..<2 ^ k]"
    by (rule map_cong [OF refl]) (simp add: word_of_nat_add_power lin del: of_nat_add)
  also have "\<dots> = map (\<lambda>i. f (of_nat i)) [2 ^ k..<2 ^ Suc k]"
    by (rule nth_equalityI) auto
  finally have "T @ map (\<lambda>x. ?b XOR x) T = map (\<lambda>i. f (of_nat i)) [0..<2 ^ Suc k]"
    using upt_add_eq_append [of 0 "2 ^ k" "2 ^ k"] Suc.prems by (simp add: mult_2 o_def)
  note IH = Suc.IH [OF this]
  have "map (\<lambda>j. f (of_nat (2 ^ (k + j)))) [0..<Suc n] =
      ?b # map (\<lambda>j. f (of_nat (2 ^ (Suc k + j)))) [0..<n]"
    by (simp add: upt_conv_Cons map_Suc_upt [symmetric] del: upt_Suc)
  then show ?case using IH by (simp del: upt_Suc)
qed simp

lemma gf2_table_256:
  fixes f :: "'a::len word \<Rightarrow> 'a word"
  assumes lin: "\<And>a b. f (a XOR b) = f a XOR f b"
    and basis: "bs = map (\<lambda>j. f (of_nat (2 ^ j))) [0..<8]"
  shows "gf2_table [0] bs = map (\<lambda>i. f (of_nat i)) [0..<256]"
proof -
  have "f 0 = 0" using lin [of 0 0] by simp
  then have "[0] = map (\<lambda>i. f (of_nat i)) [0..<2 ^ 0]" by simp
  from gf2_table_spec [of f, OF lin this, of 8] show ?thesis by (simp add: basis)
qed

text \<open>One step with a table.\<close>

lemma drop_bit_byte [simp]: "drop_bit 8 (ucast (b :: byte) :: 'a::len word) = 0"
  by (rule bit_eqI) (auto simp: bit_simps dest: bit_imp_le_length)

lemma byte_index: "unat ((c :: 'a::len word) AND 0xFF) < 256"
proof -
  have "unat (c AND 0xFF) = take_bit 8 (unat c)" by (simp add: and_byte_mask unsigned_take_bit_eq)
  also have "\<dots> < 256" using take_bit_nat_less_exp [of 8 "unat c"] by simp
  finally show ?thesis .
qed

lemma refl_table_step:
  fixes c :: "'a::len word"
  assumes table: "table = map (\<lambda>i. (refl_bit p ^^ 8) (of_nat i)) [0..<256]"
  shows "drop_bit 8 c XOR table ! unat ((c XOR ucast (b :: byte)) AND 0xFF) = (refl_bit p ^^ 8) (c XOR ucast b)"
proof -
  have "drop_bit 8 (c XOR ucast b) = drop_bit 8 c" by (simp add: drop_bit_xor)
  then show ?thesis
    using refl_shift [where p = p and k = 8 and c = "c XOR ucast b"] byte_index [of "c XOR ucast b"]
    by (simp add: table and_byte_mask)
qed

lemma norm_table_step:
  fixes c :: "'a::len word"
  assumes table: "table = map (\<lambda>i. (norm_bit p ^^ 8) (push_bit (LENGTH('a) - 8) (of_nat i))) [0..<256]"
    and w: "8 \<le> LENGTH('a)"
  shows "push_bit 8 c XOR table ! unat ((drop_bit (LENGTH('a) - 8) c XOR ucast (b :: byte)) AND 0xFF) =
    (norm_bit p ^^ 8) (c XOR push_bit (LENGTH('a) - 8) (ucast b))"
proof -
  let ?d = "c XOR push_bit (LENGTH('a) - 8) (ucast b)" and ?n = "LENGTH('a) - 8"
  have push: "push_bit 8 ?d = push_bit 8 c"
    using w by (intro bit_eqI) (auto simp: bit_simps dest: bit_imp_le_length)
  have drop: "drop_bit ?n ?d = (drop_bit ?n c XOR ucast b) AND 0xFF"
    using w unfolding and_byte_mask by (intro bit_eqI) (auto simp: bit_simps dest: bit_imp_le_length)
  have "table ! unat ((drop_bit ?n c XOR ucast b) AND 0xFF) =
      (norm_bit p ^^ 8) (push_bit ?n ((drop_bit ?n c XOR ucast b) AND 0xFF))"
    using byte_index [of "drop_bit ?n c XOR ucast b"] by (simp only: table) simp
  then show ?thesis using norm_shift [OF w, of p ?d] by (simp only: push drop)
qed

end
