(* ===== verification/CrcTableProps.thy ===== *)
theory CrcTableProps
  imports CrcTables
begin

text \<open>
  Every table holds what the bitwise shift register of its polynomial makes of the byte that
  indexes it: after eight shifts, or, in the slices of CRC-32, after sixteen to sixty-four.
\<close>

unbundle bit_operations_syntax

lemma funpow_8: "(f ^^ 8) x = f (f (f (f (f (f (f (f x)))))))"
  by (simp add: numeral_eq_Suc)

lemma gf2_table_basis:
  fixes f :: "'a::len word \<Rightarrow> 'a word"
  assumes "\<And>a b. f (a XOR b) = f a XOR f b"
    and "bs = [f 1, f 2, f 4, f 8, f 16, f 32, f 64, f 128]"
  shows "gf2_table [0] bs = map (\<lambda>i. f (of_nat i)) [0..<256]"
  by (rule gf2_table_256 [OF assms(1)]) (simp add: assms(2) upt_conv_Cons)

lemma gf2_table_map_basis:
  fixes f :: "'a::len word \<Rightarrow> 'a word"
  assumes "\<And>a b. f (a XOR b) = f a XOR f b" and "bs = map f [1, 2, 4, 8, 16, 32, 64, 128]"
  shows "gf2_table [0] bs = map (\<lambda>i. f (of_nat i)) [0..<256]"
  by (rule gf2_table_basis) (use assms in simp_all)

lemma norm_embedded_linear:
  "(norm_bit p ^^ n) (push_bit m (a XOR b)) = (norm_bit p ^^ n) (push_bit m a) XOR (norm_bit p ^^ n) (push_bit m b)"
  by (simp add: push_bit_xor norm.pow)

lemma crc16_ibm_table_eq: "crc16_ibm_table = map (\<lambda>i. (refl_bit 0xA001 ^^ 8) (of_nat i)) [0..<256]"
  unfolding crc16_ibm_table_span
  by (rule gf2_table_basis [OF refl.pow]) (simp add: funpow_8 refl_bit_def)

lemma crc16_ccitt_table_eq: "crc16_ccitt_table = map (\<lambda>i. (norm_bit 0x1021 ^^ 8) (push_bit 8 (of_nat i))) [0..<256]"
  unfolding crc16_ccitt_table_span
  by (rule gf2_table_basis [OF norm_embedded_linear]) (simp add: funpow_8 norm_bit_def)

lemma crc16_ccitt_reflected_table_eq: "crc16_ccitt_reflected_table = map (\<lambda>i. (refl_bit 0x8408 ^^ 8) (of_nat i)) [0..<256]"
  unfolding crc16_ccitt_reflected_table_span
  by (rule gf2_table_basis [OF refl.pow]) (simp add: funpow_8 refl_bit_def)

lemma crc16_dnp_table_eq: "crc16_dnp_table = map (\<lambda>i. (refl_bit 0xA6BC ^^ 8) (of_nat i)) [0..<256]"
  unfolding crc16_dnp_table_span
  by (rule gf2_table_basis [OF refl.pow]) (simp add: funpow_8 refl_bit_def)

lemma crc32_castagnoli_table_eq: "crc32_castagnoli_table = map (\<lambda>i. (refl_bit 0x82F63B78 ^^ 8) (of_nat i)) [0..<256]"
  unfolding crc32_castagnoli_table_span
  by (rule gf2_table_basis [OF refl.pow]) (simp add: funpow_8 refl_bit_def)

lemma crc32_ieee_normal_table_eq: "crc32_ieee_normal_table = map (\<lambda>i. (norm_bit 0x04C11DB7 ^^ 8) (push_bit 24 (of_nat i))) [0..<256]"
  unfolding crc32_ieee_normal_table_span
  by (rule gf2_table_basis [OF norm_embedded_linear]) (simp add: funpow_8 norm_bit_def)

lemma crc32_q_table_eq: "crc32_q_table = map (\<lambda>i. (norm_bit 0x814141AB ^^ 8) (push_bit 24 (of_nat i))) [0..<256]"
  unfolding crc32_q_table_span
  by (rule gf2_table_basis [OF norm_embedded_linear]) (simp add: funpow_8 norm_bit_def)

lemma crc32_xfer_table_eq: "crc32_xfer_table = map (\<lambda>i. (norm_bit 0x000000AF ^^ 8) (push_bit 24 (of_nat i))) [0..<256]"
  unfolding crc32_xfer_table_span
  by (rule gf2_table_basis [OF norm_embedded_linear]) (simp add: funpow_8 norm_bit_def)

text \<open>The slices: slice \<open>j\<close> holds the registers after \<open>8 * (j + 1)\<close> shifts.\<close>

lemma map_funpow_8: "map (f ^^ (8 + n)) xs = map (f ^^ 8) (map (f ^^ n) xs)"
  by (simp add: funpow_add)

lemma crc32_basis_0: "map (refl_bit (0xEDB88320 :: 32 word) ^^ 8) [1, 2, 4, 8, 16, 32, 64, 128] =
    [0x77073096, 0xEE0E612C, 0x076DC419, 0x0EDB8832, 0x1DB71064, 0x3B6E20C8, 0x76DC4190, 0xEDB88320]"
  by (simp add: funpow_8 refl_bit_def)

lemma crc32_basis_1: "map (refl_bit (0xEDB88320 :: 32 word) ^^ 16) [1, 2, 4, 8, 16, 32, 64, 128] =
    [0x191B3141, 0x32366282, 0x646CC504, 0xC8D98A08, 0x4AC21251, 0x958424A2, 0xF0794F05, 0x3B83984B]"
  using map_funpow_8 [where f = "refl_bit (0xEDB88320 :: 32 word)" and n = 8 and xs = "[1, 2, 4, 8, 16, 32, 64, 128]", unfolded crc32_basis_0]
  by (simp add: funpow_8 refl_bit_def)

lemma crc32_basis_2: "map (refl_bit (0xEDB88320 :: 32 word) ^^ 24) [1, 2, 4, 8, 16, 32, 64, 128] =
    [0x01C26A37, 0x0384D46E, 0x0709A8DC, 0x0E1351B8, 0x1C26A370, 0x384D46E0, 0x709A8DC0, 0xE1351B80]"
  using map_funpow_8 [where f = "refl_bit (0xEDB88320 :: 32 word)" and n = 16 and xs = "[1, 2, 4, 8, 16, 32, 64, 128]", unfolded crc32_basis_1]
  by (simp add: funpow_8 refl_bit_def)

lemma crc32_basis_3: "map (refl_bit (0xEDB88320 :: 32 word) ^^ 32) [1, 2, 4, 8, 16, 32, 64, 128] =
    [0xB8BC6765, 0xAA09C88B, 0x8F629757, 0xC5B428EF, 0x5019579F, 0xA032AF3E, 0x9B14583D, 0xED59B63B]"
  using map_funpow_8 [where f = "refl_bit (0xEDB88320 :: 32 word)" and n = 24 and xs = "[1, 2, 4, 8, 16, 32, 64, 128]", unfolded crc32_basis_2]
  by (simp add: funpow_8 refl_bit_def)

lemma crc32_basis_4: "map (refl_bit (0xEDB88320 :: 32 word) ^^ 40) [1, 2, 4, 8, 16, 32, 64, 128] =
    [0x3D6029B0, 0x7AC05360, 0xF580A6C0, 0x30704BC1, 0x60E09782, 0xC1C12F04, 0x58F35849, 0xB1E6B092]"
  using map_funpow_8 [where f = "refl_bit (0xEDB88320 :: 32 word)" and n = 32 and xs = "[1, 2, 4, 8, 16, 32, 64, 128]", unfolded crc32_basis_3]
  by (simp add: funpow_8 refl_bit_def)

lemma crc32_basis_5: "map (refl_bit (0xEDB88320 :: 32 word) ^^ 48) [1, 2, 4, 8, 16, 32, 64, 128] =
    [0xCB5CD3A5, 0x4DC8A10B, 0x9B914216, 0xEC53826D, 0x03D6029B, 0x07AC0536, 0x0F580A6C, 0x1EB014D8]"
  using map_funpow_8 [where f = "refl_bit (0xEDB88320 :: 32 word)" and n = 40 and xs = "[1, 2, 4, 8, 16, 32, 64, 128]", unfolded crc32_basis_4]
  by (simp add: funpow_8 refl_bit_def)

lemma crc32_basis_6: "map (refl_bit (0xEDB88320 :: 32 word) ^^ 56) [1, 2, 4, 8, 16, 32, 64, 128] =
    [0xA6770BB4, 0x979F1129, 0xF44F2413, 0x33EF4E67, 0x67DE9CCE, 0xCFBD399C, 0x440B7579, 0x8816EAF2]"
  using map_funpow_8 [where f = "refl_bit (0xEDB88320 :: 32 word)" and n = 48 and xs = "[1, 2, 4, 8, 16, 32, 64, 128]", unfolded crc32_basis_5]
  by (simp add: funpow_8 refl_bit_def)

lemma crc32_basis_7: "map (refl_bit (0xEDB88320 :: 32 word) ^^ 64) [1, 2, 4, 8, 16, 32, 64, 128] =
    [0xCCAA009E, 0x4225077D, 0x844A0EFA, 0xD3E51BB5, 0x7CBB312B, 0xF9766256, 0x299DC2ED, 0x533B85DA]"
  using map_funpow_8 [where f = "refl_bit (0xEDB88320 :: 32 word)" and n = 56 and xs = "[1, 2, 4, 8, 16, 32, 64, 128]", unfolded crc32_basis_6]
  by (simp add: funpow_8 refl_bit_def)

lemma crc32_table_0_eq: "crc32_table_0 = map (\<lambda>i. (refl_bit 0xEDB88320 ^^ 8) (of_nat i)) [0..<256]"
  unfolding crc32_table_0_span
  by (rule gf2_table_map_basis [OF refl.pow crc32_basis_0 [symmetric]])

lemma crc32_table_1_eq: "crc32_table_1 = map (\<lambda>i. (refl_bit 0xEDB88320 ^^ 16) (of_nat i)) [0..<256]"
  unfolding crc32_table_1_span
  by (rule gf2_table_map_basis [OF refl.pow crc32_basis_1 [symmetric]])

lemma crc32_table_2_eq: "crc32_table_2 = map (\<lambda>i. (refl_bit 0xEDB88320 ^^ 24) (of_nat i)) [0..<256]"
  unfolding crc32_table_2_span
  by (rule gf2_table_map_basis [OF refl.pow crc32_basis_2 [symmetric]])

lemma crc32_table_3_eq: "crc32_table_3 = map (\<lambda>i. (refl_bit 0xEDB88320 ^^ 32) (of_nat i)) [0..<256]"
  unfolding crc32_table_3_span
  by (rule gf2_table_map_basis [OF refl.pow crc32_basis_3 [symmetric]])

lemma crc32_table_4_eq: "crc32_table_4 = map (\<lambda>i. (refl_bit 0xEDB88320 ^^ 40) (of_nat i)) [0..<256]"
  unfolding crc32_table_4_span
  by (rule gf2_table_map_basis [OF refl.pow crc32_basis_4 [symmetric]])

lemma crc32_table_5_eq: "crc32_table_5 = map (\<lambda>i. (refl_bit 0xEDB88320 ^^ 48) (of_nat i)) [0..<256]"
  unfolding crc32_table_5_span
  by (rule gf2_table_map_basis [OF refl.pow crc32_basis_5 [symmetric]])

lemma crc32_table_6_eq: "crc32_table_6 = map (\<lambda>i. (refl_bit 0xEDB88320 ^^ 56) (of_nat i)) [0..<256]"
  unfolding crc32_table_6_span
  by (rule gf2_table_map_basis [OF refl.pow crc32_basis_6 [symmetric]])

lemma crc32_table_7_eq: "crc32_table_7 = map (\<lambda>i. (refl_bit 0xEDB88320 ^^ 64) (of_nat i)) [0..<256]"
  unfolding crc32_table_7_span
  by (rule gf2_table_map_basis [OF refl.pow crc32_basis_7 [symmetric]])

end
