(* ===== verification/Crc.thy ===== *)
theory Crc
  imports CrcTables
begin

text \<open>
  The cyclic redundancy checks of \<open>XCode/XAlgorithm/XCrc/XCrc.c\<close>: eight CRC-16 and
  eight CRC-32 algorithms, the word-at-a-time update of CRC-32/ISO-HDLC, incremental update, and
  the combination of the checks of two blocks by repeated squaring of a bit matrix.

  A data pointer with its length is the list of the bytes; \<open>None\<close> is a NULL pointer with a
  non-zero length. All compile switches of \<open>XCrc_config.h\<close> are on by default, as here.
\<close>

unbundle bit_operations_syntax

datatype XCrc16_Algorithm =
  XCrc16_Algorithm_Arc | XCrc16_Algorithm_Modbus | XCrc16_Algorithm_CcittFalse | XCrc16_Algorithm_Xmodem
  | XCrc16_Algorithm_X25 | XCrc16_Algorithm_Kermit | XCrc16_Algorithm_Usb | XCrc16_Algorithm_Dnp

datatype XCrc32_Algorithm =
  XCrc32_Algorithm_IsoHdlc | XCrc32_Algorithm_Castagnoli | XCrc32_Algorithm_Mpeg2 | XCrc32_Algorithm_Bzip2
  | XCrc32_Algorithm_Posix | XCrc32_Algorithm_Jamcrc | XCrc32_Algorithm_Q | XCrc32_Algorithm_Xfer

section \<open>CRC-16\<close>

primrec crc16_ibm_loop :: "16 word \<Rightarrow> byte list \<Rightarrow> 16 word" where
  "crc16_ibm_loop crc [] = crc"
| "crc16_ibm_loop crc (b # data) =
     crc16_ibm_loop (drop_bit 8 crc XOR crc16_ibm_table ! unat ((crc XOR ucast b) AND 0xFF)) data"

definition crc16_calculate_ibm :: "byte list \<Rightarrow> 16 word \<Rightarrow> 16 word \<Rightarrow> 16 word" where
  "crc16_calculate_ibm data initial xorout = crc16_ibm_loop initial data XOR xorout"

primrec crc16_normal_loop :: "16 word \<Rightarrow> byte list \<Rightarrow> 16 word" where
  "crc16_normal_loop crc [] = crc"
| "crc16_normal_loop crc (b # data) =
     crc16_normal_loop (push_bit 8 crc XOR crc16_ccitt_table ! unat ((drop_bit 8 crc XOR ucast b) AND 0xFF)) data"

definition crc16_calculate_normal :: "byte list \<Rightarrow> 16 word \<Rightarrow> 16 word \<Rightarrow> 16 word" where
  "crc16_calculate_normal data initial xorout = crc16_normal_loop initial data XOR xorout"

primrec crc16_reflected_loop :: "16 word list \<Rightarrow> 16 word \<Rightarrow> byte list \<Rightarrow> 16 word" where
  "crc16_reflected_loop table crc [] = crc"
| "crc16_reflected_loop table crc (b # data) =
     crc16_reflected_loop table (drop_bit 8 crc XOR table ! unat ((crc XOR ucast b) AND 0xFF)) data"

definition crc16_calculate_reflected :: "16 word list \<Rightarrow> byte list \<Rightarrow> 16 word \<Rightarrow> 16 word \<Rightarrow> 16 word" where
  "crc16_calculate_reflected table data initial xorout = crc16_reflected_loop table initial data XOR xorout"

definition XCrc16_calculate :: "XCrc16_Algorithm \<Rightarrow> byte list option \<Rightarrow> 16 word" where
  "XCrc16_calculate algorithm pdata =
     (case pdata of None \<Rightarrow> 0 | Some data \<Rightarrow>
        (case algorithm of
           XCrc16_Algorithm_Arc \<Rightarrow> crc16_calculate_ibm data 0x0000 0x0000
         | XCrc16_Algorithm_Modbus \<Rightarrow> crc16_calculate_ibm data 0xFFFF 0x0000
         | XCrc16_Algorithm_CcittFalse \<Rightarrow> crc16_calculate_normal data 0xFFFF 0x0000
         | XCrc16_Algorithm_Xmodem \<Rightarrow> crc16_calculate_normal data 0x0000 0x0000
         | XCrc16_Algorithm_X25 \<Rightarrow> crc16_calculate_reflected crc16_ccitt_reflected_table data 0xFFFF 0xFFFF
         | XCrc16_Algorithm_Kermit \<Rightarrow> crc16_calculate_reflected crc16_ccitt_reflected_table data 0x0000 0x0000
         | XCrc16_Algorithm_Usb \<Rightarrow> crc16_calculate_ibm data 0xFFFF 0xFFFF
         | XCrc16_Algorithm_Dnp \<Rightarrow> crc16_calculate_reflected crc16_dnp_table data 0x0000 0xFFFF))"

section \<open>CRC-32/ISO-HDLC, four bytes at a time\<close>

definition XCrc32_UPDATE_WORD :: "32 word \<times> byte list \<Rightarrow> 32 word \<times> byte list" where
  "XCrc32_UPDATE_WORD sd =
     (let (state, data) = sd;
          w = ucast (data ! 0) OR push_bit 8 (ucast (data ! 1)) OR push_bit 16 (ucast (data ! 2))
              OR push_bit 24 (ucast (data ! 3));
          s = state XOR w
      in (crc32_table ! 3 ! unat (s AND 0xFF) XOR crc32_table ! 2 ! unat (drop_bit 8 s AND 0xFF) XOR
          crc32_table ! 1 ! unat (drop_bit 16 s AND 0xFF) XOR crc32_table ! 0 ! unat (drop_bit 24 s),
          drop 4 data))"

lemma XCrc32_UPDATE_WORD_data [simp]: "snd (XCrc32_UPDATE_WORD sd) = drop 4 (snd sd)"
  by (simp add: XCrc32_UPDATE_WORD_def Let_def split: prod.splits)

text \<open>The unrolled loop over 32 bytes, the loop over words, the loop over bytes.\<close>

function crc32_block_loop :: "32 word \<times> byte list \<Rightarrow> 32 word \<times> byte list" where
  "crc32_block_loop sd =
     (if 32 \<le> length (snd sd)
      then crc32_block_loop (XCrc32_UPDATE_WORD (XCrc32_UPDATE_WORD (XCrc32_UPDATE_WORD (XCrc32_UPDATE_WORD
             (XCrc32_UPDATE_WORD (XCrc32_UPDATE_WORD (XCrc32_UPDATE_WORD (XCrc32_UPDATE_WORD sd))))))))
      else sd)"
  by pat_completeness auto
termination by (relation "measure (\<lambda>sd. length (snd sd))") auto

declare crc32_block_loop.simps [simp del]

function crc32_word_loop :: "32 word \<times> byte list \<Rightarrow> 32 word \<times> byte list" where
  "crc32_word_loop sd = (if 4 \<le> length (snd sd) then crc32_word_loop (XCrc32_UPDATE_WORD sd) else sd)"
  by pat_completeness auto
termination by (relation "measure (\<lambda>sd. length (snd sd))") auto

declare crc32_word_loop.simps [simp del]

primrec crc32_byte_loop :: "32 word \<Rightarrow> byte list \<Rightarrow> 32 word" where
  "crc32_byte_loop state [] = state"
| "crc32_byte_loop state (b # data) =
     crc32_byte_loop (drop_bit 8 state XOR crc32_table ! 0 ! unat ((state XOR ucast b) AND 0xFF)) data"

definition crc32_update_raw :: "32 word \<Rightarrow> byte list \<Rightarrow> 32 word" where
  "crc32_update_raw state data =
     (let (state, data) = crc32_word_loop (crc32_block_loop (state, data)) in crc32_byte_loop state data)"

section \<open>The other CRC-32 algorithms\<close>

primrec crc32_reflected_loop :: "32 word list \<Rightarrow> 32 word \<Rightarrow> byte list \<Rightarrow> 32 word" where
  "crc32_reflected_loop table state [] = state"
| "crc32_reflected_loop table state (b # data) =
     crc32_reflected_loop table (drop_bit 8 state XOR table ! unat ((state XOR ucast b) AND 0xFF)) data"

definition crc32_update_reflected_table ::
  "32 word list \<Rightarrow> 32 word \<Rightarrow> 32 word \<Rightarrow> byte list \<Rightarrow> 32 word" where
  "crc32_update_reflected_table table crc xorout data =
     (let state = crc XOR xorout in crc32_reflected_loop table state data XOR xorout)"

primrec crc32_normal_loop :: "32 word list \<Rightarrow> 32 word \<Rightarrow> byte list \<Rightarrow> 32 word" where
  "crc32_normal_loop table state [] = state"
| "crc32_normal_loop table state (b # data) =
     crc32_normal_loop table (push_bit 8 state XOR table ! unat ((drop_bit 24 state XOR ucast b) AND 0xFF)) data"

definition crc32_update_normal_table ::
  "32 word list \<Rightarrow> 32 word \<Rightarrow> 32 word \<Rightarrow> byte list \<Rightarrow> 32 word" where
  "crc32_update_normal_table table crc xorout data =
     (let state = crc XOR xorout in crc32_normal_loop table state data XOR xorout)"

definition XCrc32_initialize :: "XCrc32_Algorithm \<Rightarrow> 32 word" where
  "XCrc32_initialize algorithm =
     (case algorithm of
        XCrc32_Algorithm_IsoHdlc \<Rightarrow> 0x00000000
      | XCrc32_Algorithm_Castagnoli \<Rightarrow> 0x00000000
      | XCrc32_Algorithm_Bzip2 \<Rightarrow> 0x00000000
      | XCrc32_Algorithm_Q \<Rightarrow> 0x00000000
      | XCrc32_Algorithm_Xfer \<Rightarrow> 0x00000000
      | XCrc32_Algorithm_Mpeg2 \<Rightarrow> 0xFFFFFFFF
      | XCrc32_Algorithm_Posix \<Rightarrow> 0xFFFFFFFF
      | XCrc32_Algorithm_Jamcrc \<Rightarrow> 0xFFFFFFFF)"

definition XCrc32_update :: "XCrc32_Algorithm \<Rightarrow> 32 word \<Rightarrow> byte list option \<Rightarrow> 32 word" where
  "XCrc32_update algorithm crc pdata =
     (case pdata of None \<Rightarrow> 0 | Some data \<Rightarrow>
        (case algorithm of
           XCrc32_Algorithm_IsoHdlc \<Rightarrow> crc32_update_raw (crc XOR 0xFFFFFFFF) data XOR 0xFFFFFFFF
         | XCrc32_Algorithm_Castagnoli \<Rightarrow> crc32_update_reflected_table crc32_castagnoli_table crc 0xFFFFFFFF data
         | XCrc32_Algorithm_Mpeg2 \<Rightarrow> crc32_update_normal_table crc32_ieee_normal_table crc 0x00000000 data
         | XCrc32_Algorithm_Bzip2 \<Rightarrow> crc32_update_normal_table crc32_ieee_normal_table crc 0xFFFFFFFF data
         | XCrc32_Algorithm_Posix \<Rightarrow> crc32_update_normal_table crc32_ieee_normal_table crc 0xFFFFFFFF data
         | XCrc32_Algorithm_Jamcrc \<Rightarrow> crc32_update_raw crc data
         | XCrc32_Algorithm_Q \<Rightarrow> crc32_update_normal_table crc32_q_table crc 0x00000000 data
         | XCrc32_Algorithm_Xfer \<Rightarrow> crc32_update_normal_table crc32_xfer_table crc 0x00000000 data))"

definition XCrc32_calculate :: "XCrc32_Algorithm \<Rightarrow> byte list option \<Rightarrow> 32 word" where
  "XCrc32_calculate algorithm pdata = XCrc32_update algorithm (XCrc32_initialize algorithm) pdata"

section \<open>Combination\<close>

lemma unat_drop_bit_less: "(v :: 'a::len word) \<noteq> 0 \<Longrightarrow> 0 < n \<Longrightarrow> unat (drop_bit n v) < unat v"
  using div_less_dividend [of "2 ^ n" "unat v"] one_less_power [of "2 :: nat" n]
  by (simp only: unat_drop_bit_eq) (simp add: drop_bit_eq_div unat_gt_0)

lemma drop_bit_not_0: "drop_bit n (v :: 'a::len word) \<noteq> 0 \<Longrightarrow> v \<noteq> 0"
  by auto

text \<open>A matrix is the list of its 32 columns.\<close>

function crc32_gf2_times_loop :: "32 word list \<Rightarrow> 32 word \<Rightarrow> 32 word \<Rightarrow> 32 word" where
  "crc32_gf2_times_loop matrix vector result =
     (if vector = 0 then result
      else crc32_gf2_times_loop (tl matrix) (drop_bit 1 vector)
             (if vector AND 1 \<noteq> 0 then result XOR hd matrix else result))"
  by pat_completeness auto
termination
  by (relation "measure (\<lambda>(m, v, r). unat v)") (auto intro: unat_drop_bit_less)

declare crc32_gf2_times_loop.simps [simp del]

definition crc32_gf2_matrix_times :: "32 word list \<Rightarrow> 32 word \<Rightarrow> 32 word" where
  "crc32_gf2_matrix_times matrix vector = crc32_gf2_times_loop matrix vector 0"

definition crc32_gf2_matrix_square :: "32 word list \<Rightarrow> 32 word list" where
  "crc32_gf2_matrix_square matrix = map (\<lambda>index. crc32_gf2_matrix_times matrix (matrix ! index)) [0..<32]"

text \<open>The loop consumes the length two bits at a time; \<open>odd\<close> is the matrix on entry.\<close>

function crc32_shift_loop :: "32 word list \<Rightarrow> 64 word \<Rightarrow> 32 word \<Rightarrow> 32 word" where
  "crc32_shift_loop oddm len value =
     (let evenm = crc32_gf2_matrix_square oddm;
          value = (if len AND 1 \<noteq> 0 then crc32_gf2_matrix_times evenm value else value);
          len = drop_bit 1 len
      in if len = 0 then value
         else let oddm = crc32_gf2_matrix_square evenm;
                  value = (if len AND 1 \<noteq> 0 then crc32_gf2_matrix_times oddm value else value);
                  len = drop_bit 1 len
              in if len = 0 then value else crc32_shift_loop oddm len value)"
  by pat_completeness auto
termination
  by (relation "measure (\<lambda>(m, n, v). unat n)")
    (auto simp: Let_def intro!: unat_drop_bit_less dest: drop_bit_not_0)

declare crc32_shift_loop.simps [simp del]

definition crc32_zero_bit_matrix :: "32 word \<Rightarrow> bool \<Rightarrow> 32 word list" where
  "crc32_zero_bit_matrix polynomial reflected =
     (if reflected then polynomial # map (\<lambda>index. push_bit (index - 1) 1) [1..<32]
      else map (\<lambda>index. push_bit (index + 1) 1) [0..<31] @ [polynomial])"

definition crc32_shift_zero_bytes :: "32 word \<Rightarrow> 64 word \<Rightarrow> 32 word \<Rightarrow> bool \<Rightarrow> 32 word" where
  "crc32_shift_zero_bytes value len polynomial reflected =
     (if len = 0 then value
      else let oddm = crc32_zero_bit_matrix polynomial reflected;
               evenm = crc32_gf2_matrix_square oddm;
               oddm = crc32_gf2_matrix_square evenm
           in crc32_shift_loop oddm len value)"

definition crc32_combine_parameters ::
  "32 word \<Rightarrow> 32 word \<Rightarrow> 64 word \<Rightarrow> 32 word \<Rightarrow> 32 word \<Rightarrow> 32 word \<Rightarrow> bool \<Rightarrow> 32 word" where
  "crc32_combine_parameters crc1 crc2 length2 initial xorout polynomial reflected =
     (if length2 = 0 then crc1
      else crc32_shift_zero_bytes (crc1 XOR initial XOR xorout) length2 polynomial reflected XOR crc2)"

definition XCrc32_combine :: "XCrc32_Algorithm \<Rightarrow> 32 word \<Rightarrow> 32 word \<Rightarrow> 64 word \<Rightarrow> 32 word" where
  "XCrc32_combine algorithm crc1 crc2 length2 =
     (case algorithm of
        XCrc32_Algorithm_IsoHdlc \<Rightarrow>
          crc32_combine_parameters crc1 crc2 length2 0xFFFFFFFF 0xFFFFFFFF 0xEDB88320 True
      | XCrc32_Algorithm_Castagnoli \<Rightarrow>
          crc32_combine_parameters crc1 crc2 length2 0xFFFFFFFF 0xFFFFFFFF 0x82F63B78 True
      | XCrc32_Algorithm_Mpeg2 \<Rightarrow>
          crc32_combine_parameters crc1 crc2 length2 0xFFFFFFFF 0x00000000 0x04C11DB7 False
      | XCrc32_Algorithm_Bzip2 \<Rightarrow>
          crc32_combine_parameters crc1 crc2 length2 0xFFFFFFFF 0xFFFFFFFF 0x04C11DB7 False
      | XCrc32_Algorithm_Posix \<Rightarrow>
          crc32_combine_parameters crc1 crc2 length2 0x00000000 0xFFFFFFFF 0x04C11DB7 False
      | XCrc32_Algorithm_Jamcrc \<Rightarrow>
          crc32_combine_parameters crc1 crc2 length2 0xFFFFFFFF 0x00000000 0xEDB88320 True
      | XCrc32_Algorithm_Q \<Rightarrow>
          crc32_combine_parameters crc1 crc2 length2 0x00000000 0x00000000 0x814141AB False
      | XCrc32_Algorithm_Xfer \<Rightarrow>
          crc32_combine_parameters crc1 crc2 length2 0x00000000 0x00000000 0x000000AF False)"

end
