(* ===== verification/CrcProps.thy ===== *)
theory CrcProps
  imports Crc CrcTableProps
begin

text \<open>
  The checks against their definition by shift registers: the table-driven loops are the
  bitwise checks; the word-at-a-time loops are the bytewise loop; a check can be taken in pieces;
  and the check of a concatenation is computed from the checks of its parts.
\<close>

unbundle bit_operations_syntax

section \<open>Table loops are shift registers\<close>

lemma refl_crc_simps [simp]:
  "refl_crc p c [] = c" "refl_crc p c (b # data) = refl_crc p ((refl_bit p ^^ 8) (c XOR ucast b)) data"
  by (simp_all add: refl_crc_def)

lemma norm_crc_simps [simp]:
  "norm_crc (p :: 'a::len word) c [] = c"
  "norm_crc (p :: 'a::len word) c (b # data) =
    norm_crc p ((norm_bit p ^^ 8) (c XOR push_bit (LENGTH('a) - 8) (ucast b))) data"
  by (simp_all add: norm_crc_def)

lemma crc16_ibm_loop_eq: "crc16_ibm_loop c data = refl_crc 0xA001 c data"
  by (induction data arbitrary: c) (simp_all add: refl_table_step [OF crc16_ibm_table_eq])

lemma crc16_normal_loop_eq: "crc16_normal_loop c data = norm_crc 0x1021 c data"
  using norm_table_step [where 'a = 16, of crc16_ccitt_table "0x1021"] crc16_ccitt_table_eq
  by (induction data arbitrary: c) simp_all

lemma crc16_reflected_loop_eq:
  assumes "table = map (\<lambda>i. (refl_bit p ^^ 8) (of_nat i)) [0..<256]"
  shows "crc16_reflected_loop table c data = refl_crc p c data"
  by (induction data arbitrary: c) (simp_all add: refl_table_step [OF assms])

lemma crc32_reflected_loop_eq:
  assumes "table = map (\<lambda>i. (refl_bit p ^^ 8) (of_nat i)) [0..<256]"
  shows "crc32_reflected_loop table c data = refl_crc p c data"
  by (induction data arbitrary: c) (simp_all add: refl_table_step [OF assms])

lemma crc32_normal_loop_eq:
  assumes "table = map (\<lambda>i. (norm_bit p ^^ 8) (push_bit 24 (of_nat i))) [0..<256]"
  shows "crc32_normal_loop table c data = norm_crc p c data"
  using norm_table_step [where 'a = 32, of table p] assms
  by (induction data arbitrary: c) simp_all

section \<open>Four bytes at a time\<close>

lemma crc32_table_nth [simp]:
  "crc32_table ! 0 = crc32_table_0" "crc32_table ! Suc 0 = crc32_table_1" "crc32_table ! 2 = crc32_table_2"
  "crc32_table ! 3 = crc32_table_3"
  by (simp_all add: crc32_table_def)

lemma crc32_byte_loop_eq: "crc32_byte_loop c data = refl_crc 0xEDB88320 c data"
  using crc32_table_0_eq by (induction data arbitrary: c) (simp_all add: refl_table_step)

lemma refl_push:
  fixes y :: "32 word"
  assumes "take_bit 8 y = y" and "k \<le> 24"
  shows "(refl_bit p ^^ (n + k)) (push_bit k y) = (refl_bit p ^^ n) y"
proof -
  have "(refl_bit p ^^ k) (push_bit k y) = drop_bit k (push_bit k y)"
    by (rule refl_low_zero) (simp add: bit_simps)
  also have "\<dots> = y"
  proof (rule bit_eqI)
    fix m :: nat
    have "bit y m \<Longrightarrow> m < 8" using assms(1) by (metis bit_take_bit_iff)
    then show "bit (drop_bit k (push_bit k y)) m = bit y m"
      using assms(2) by (auto simp: bit_simps)
  qed
  finally show ?thesis by (simp add: funpow_add)
qed

lemma word_bytes:
  fixes x :: "32 word"
  shows "x = (x AND 0xFF) XOR push_bit 8 (drop_bit 8 x AND 0xFF) XOR push_bit 16 (drop_bit 16 x AND 0xFF)
    XOR push_bit 24 (drop_bit 24 x AND 0xFF)"
proof (rule bit_word_eqI)
  fix n :: nat
  assume "n < LENGTH(32)"
  then have n: "n < 32" by simp
  consider "n < 8" | "8 \<le> n" "n < 16" | "16 \<le> n" "n < 24" | "24 \<le> n" by linarith
  then show "bit x n = bit ((x AND 0xFF) XOR push_bit 8 (drop_bit 8 x AND 0xFF)
      XOR push_bit 16 (drop_bit 16 x AND 0xFF) XOR push_bit 24 (drop_bit 24 x AND 0xFF)) n"
    unfolding and_byte_mask by cases (use n in \<open>auto simp: bit_simps\<close>)
qed

lemma drop_24_byte: "drop_bit 24 (x :: 32 word) AND 0xFF = drop_bit 24 x"
  unfolding and_byte_mask by (rule bit_eqI) (auto simp: bit_simps dest: bit_imp_le_length)

lemma refl_32:
  fixes x :: "32 word"
  shows "(refl_bit p ^^ 32) x = (refl_bit p ^^ 32) (x AND 0xFF) XOR (refl_bit p ^^ 24) (drop_bit 8 x AND 0xFF)
    XOR (refl_bit p ^^ 16) (drop_bit 16 x AND 0xFF) XOR (refl_bit p ^^ 8) (drop_bit 24 x AND 0xFF)"
proof -
  have b: "take_bit 8 (y AND 0xFF) = y AND 0xFF" for y :: "32 word" by (simp add: and_byte_mask)
  have "(refl_bit p ^^ 32) x = (refl_bit p ^^ 32) (x AND 0xFF) XOR
      (refl_bit p ^^ (24 + 8)) (push_bit 8 (drop_bit 8 x AND 0xFF)) XOR
      (refl_bit p ^^ (16 + 16)) (push_bit 16 (drop_bit 16 x AND 0xFF)) XOR
      (refl_bit p ^^ (8 + 24)) (push_bit 24 (drop_bit 24 x AND 0xFF))"
    by (subst word_bytes) (simp add: refl.pow)
  then show ?thesis by (simp only: refl_push [OF b])
qed

lemma refl_crc_4:
  fixes s :: "32 word"
  shows "refl_crc p s [a, b, c, d] =
    (refl_bit p ^^ 32) (s XOR (ucast a OR push_bit 8 (ucast b) OR push_bit 16 (ucast c) OR push_bit 24 (ucast d)))"
proof -
  have byte: "take_bit 8 (ucast x :: 32 word) = ucast x" for x :: byte
    by (rule bit_eqI) (auto simp: bit_simps dest: bit_imp_le_length)
  have OR: "ucast a OR push_bit 8 (ucast b) OR push_bit 16 (ucast c) OR push_bit 24 (ucast d) =
      (ucast a XOR push_bit 8 (ucast b) XOR push_bit 16 (ucast c) XOR push_bit 24 (ucast d) :: 32 word)"
    by (rule bit_eqI) (auto simp: bit_simps dest: bit_imp_le_length)
  have "refl_crc p s [a, b, c, d] = (refl_bit p ^^ 8) ((refl_bit p ^^ 8) ((refl_bit p ^^ 8)
      ((refl_bit p ^^ 8) (s XOR ucast a) XOR ucast b) XOR ucast c) XOR ucast d)" by simp
  also have "\<dots> = (refl_bit p ^^ (8 + (8 + (8 + 8)))) (s XOR ucast a) XOR (refl_bit p ^^ (8 + (8 + 8))) (ucast b)
      XOR (refl_bit p ^^ (8 + 8)) (ucast c) XOR (refl_bit p ^^ 8) (ucast d)"
    by (simp only: refl.pow funpow_add comp_apply xor.assoc)
  also have "\<dots> = (refl_bit p ^^ 32) (s XOR ucast a) XOR (refl_bit p ^^ (24 + 8)) (push_bit 8 (ucast b))
      XOR (refl_bit p ^^ (16 + 16)) (push_bit 16 (ucast c)) XOR (refl_bit p ^^ (8 + 24)) (push_bit 24 (ucast d))"
    by (simp only: refl_push [OF byte]) simp
  finally show ?thesis by (simp add: OR refl.pow xor.assoc)
qed

lemma list_4_cases: "4 \<le> length xs \<Longrightarrow> \<exists>a b c d ys. xs = a # b # c # d # ys"
  by (auto simp: Suc_le_length_iff numeral_eq_Suc)

lemma crc32_slices:
  "crc32_table ! 3 ! unat (x AND 0xFF) XOR crc32_table ! 2 ! unat (drop_bit 8 x AND 0xFF) XOR
    crc32_table ! 1 ! unat (drop_bit 16 x AND 0xFF) XOR crc32_table ! 0 ! unat (drop_bit 24 x) =
    (refl_bit 0xEDB88320 ^^ 32) x"
  unfolding refl_32 [of _ x]
  using byte_index [of x] byte_index [of "drop_bit 8 x"] byte_index [of "drop_bit 16 x"]
    byte_index [of "drop_bit 24 x"] drop_24_byte [of x]
  by (simp add: crc32_table_0_eq crc32_table_1_eq crc32_table_2_eq crc32_table_3_eq)

lemma update_word_eq:
  assumes "4 \<le> length data"
  shows "XCrc32_UPDATE_WORD (s, data) = (refl_crc 0xEDB88320 s (take 4 data), drop 4 data)"
proof -
  obtain a b c d rest where data: "data = a # b # c # d # rest" using list_4_cases [OF assms] by blast
  have nth: "data ! 0 = a" "data ! 1 = b" "data ! 2 = c" "data ! 3 = d" and "take 4 data = [a, b, c, d]"
    by (simp_all add: data)
  then show ?thesis
    by (simp only: XCrc32_UPDATE_WORD_def Let_def split_conv nth crc32_slices refl_crc_4)
qed

lemma refl_crc_append: "refl_crc p c (xs @ ys) = refl_crc p (refl_crc p c xs) ys"
  by (simp add: refl_crc_def)

lemma norm_crc_append: "norm_crc p c (xs @ ys) = norm_crc p (norm_crc p c xs) ys"
  by (simp add: norm_crc_def)

text \<open>The loops keep the check of what is consumed; \<open>crc32_rest\<close> is what they still owe.\<close>

definition crc32_rest :: "32 word \<times> byte list \<Rightarrow> 32 word" where
  "crc32_rest sd = refl_crc 0xEDB88320 (fst sd) (snd sd)"

lemma crc32_rest_word: "4 \<le> length (snd sd) \<Longrightarrow> crc32_rest (XCrc32_UPDATE_WORD sd) = crc32_rest sd"
  using update_word_eq [of "snd sd" "fst sd"] refl_crc_append [of _ "fst sd" "take 4 (snd sd)" "drop 4 (snd sd)"]
  by (simp add: crc32_rest_def)

lemma crc32_rest_words: "crc32_rest (crc32_word_loop sd) = crc32_rest sd"
proof (induction sd rule: crc32_word_loop.induct)
  case (1 sd)
  then show ?case by (simp add: crc32_word_loop.simps [of sd] crc32_rest_word)
qed

lemma crc32_rest_blocks: "crc32_rest (crc32_block_loop sd) = crc32_rest sd"
proof (induction sd rule: crc32_block_loop.induct)
  case (1 sd)
  then show ?case by (simp add: crc32_block_loop.simps [of sd] crc32_rest_word)
qed

lemma crc32_update_raw_eq: "crc32_update_raw s data = refl_crc 0xEDB88320 s data"
proof -
  obtain s' d' where r: "crc32_word_loop (crc32_block_loop (s, data)) = (s', d')" by fastforce
  then have "refl_crc 0xEDB88320 s' d' = refl_crc 0xEDB88320 s data"
    using crc32_rest_words [of "crc32_block_loop (s, data)"] crc32_rest_blocks [of "(s, data)"]
    by (simp add: crc32_rest_def)
  then show ?thesis by (simp add: crc32_update_raw_def r crc32_byte_loop_eq)
qed

section \<open>The parameters of the algorithms\<close>

text \<open>Whether bytes enter at bit 0, the polynomial, the initial register, the final mask.\<close>

definition crc16_parameters :: "XCrc16_Algorithm \<Rightarrow> bool \<times> 16 word \<times> 16 word \<times> 16 word" where
  "crc16_parameters algorithm =
     (case algorithm of
        XCrc16_Algorithm_Arc \<Rightarrow> (True, 0xA001, 0x0000, 0x0000)
      | XCrc16_Algorithm_Modbus \<Rightarrow> (True, 0xA001, 0xFFFF, 0x0000)
      | XCrc16_Algorithm_CcittFalse \<Rightarrow> (False, 0x1021, 0xFFFF, 0x0000)
      | XCrc16_Algorithm_Xmodem \<Rightarrow> (False, 0x1021, 0x0000, 0x0000)
      | XCrc16_Algorithm_X25 \<Rightarrow> (True, 0x8408, 0xFFFF, 0xFFFF)
      | XCrc16_Algorithm_Kermit \<Rightarrow> (True, 0x8408, 0x0000, 0x0000)
      | XCrc16_Algorithm_Usb \<Rightarrow> (True, 0xA001, 0xFFFF, 0xFFFF)
      | XCrc16_Algorithm_Dnp \<Rightarrow> (True, 0xA6BC, 0x0000, 0xFFFF))"

definition crc32_parameters :: "XCrc32_Algorithm \<Rightarrow> bool \<times> 32 word \<times> 32 word \<times> 32 word" where
  "crc32_parameters algorithm =
     (case algorithm of
        XCrc32_Algorithm_IsoHdlc \<Rightarrow> (True, 0xEDB88320, 0xFFFFFFFF, 0xFFFFFFFF)
      | XCrc32_Algorithm_Castagnoli \<Rightarrow> (True, 0x82F63B78, 0xFFFFFFFF, 0xFFFFFFFF)
      | XCrc32_Algorithm_Mpeg2 \<Rightarrow> (False, 0x04C11DB7, 0xFFFFFFFF, 0x00000000)
      | XCrc32_Algorithm_Bzip2 \<Rightarrow> (False, 0x04C11DB7, 0xFFFFFFFF, 0xFFFFFFFF)
      | XCrc32_Algorithm_Posix \<Rightarrow> (False, 0x04C11DB7, 0x00000000, 0xFFFFFFFF)
      | XCrc32_Algorithm_Jamcrc \<Rightarrow> (True, 0xEDB88320, 0xFFFFFFFF, 0x00000000)
      | XCrc32_Algorithm_Q \<Rightarrow> (False, 0x814141AB, 0x00000000, 0x00000000)
      | XCrc32_Algorithm_Xfer \<Rightarrow> (False, 0x000000AF, 0x00000000, 0x00000000))"

definition crc_register :: "bool \<Rightarrow> 'a::len word \<Rightarrow> 'a word \<Rightarrow> byte list \<Rightarrow> 'a word" where
  "crc_register reflected p = (if reflected then refl_crc p else norm_crc p)"

definition bit_step :: "bool \<Rightarrow> 'a::len word \<Rightarrow> 'a word \<Rightarrow> 'a word" where
  "bit_step reflected p = (if reflected then refl_bit p else norm_bit p)"

interpretation step: gf2_linear "bit_step reflected p" for reflected p
  by unfold_locales (simp add: bit_step_def refl.linear norm.linear)

lemma crc_register_append: "crc_register r p c (xs @ ys) = crc_register r p (crc_register r p c xs) ys"
  by (simp add: crc_register_def refl_crc_append norm_crc_append)

lemma crc_register_xor:
  "crc_register r p (a XOR b) data = crc_register r p a data XOR (bit_step r p ^^ (8 * length data)) b"
  by (simp add: crc_register_def bit_step_def refl_crc_def norm_crc_def refl.crc_xor norm.crc_xor)

lemma crc32_update_spec:
  "XCrc32_update algorithm crc (Some data) =
    (case crc32_parameters algorithm of (r, p, i, x) \<Rightarrow> crc_register r p (crc XOR x) data XOR x)"
  by (cases algorithm) (simp_all add: XCrc32_update_def crc32_parameters_def crc_register_def
      crc32_update_raw_eq crc32_update_reflected_table_def crc32_update_normal_table_def
      crc32_reflected_loop_eq [OF crc32_castagnoli_table_eq] crc32_normal_loop_eq [OF crc32_ieee_normal_table_eq]
      crc32_normal_loop_eq [OF crc32_q_table_eq] crc32_normal_loop_eq [OF crc32_xfer_table_eq])

lemma crc32_initialize_spec:
  "XCrc32_initialize algorithm = (case crc32_parameters algorithm of (r, p, i, x) \<Rightarrow> i XOR x)"
  by (cases algorithm) (simp_all add: XCrc32_initialize_def crc32_parameters_def)

lemma crc16_calculate_spec:
  "XCrc16_calculate algorithm (Some data) =
    (case crc16_parameters algorithm of (r, p, i, x) \<Rightarrow> crc_register r p i data XOR x)"
  by (cases algorithm) (simp_all add: XCrc16_calculate_def crc16_parameters_def crc_register_def
      crc16_calculate_ibm_def crc16_calculate_normal_def crc16_calculate_reflected_def crc16_ibm_loop_eq
      crc16_normal_loop_eq crc16_reflected_loop_eq [OF crc16_ccitt_reflected_table_eq]
      crc16_reflected_loop_eq [OF crc16_dnp_table_eq])

section \<open>Bit matrices\<close>

definition columns_of :: "('a::len word \<Rightarrow> 'a word) \<Rightarrow> 'a word list \<Rightarrow> bool" where
  "columns_of f m \<longleftrightarrow> length m = LENGTH('a) \<and> (\<forall>k<LENGTH('a). m ! k = f (push_bit k 1))"

lemma and_1_bit: "(v :: 'a::len word) AND 1 \<noteq> 0 \<longleftrightarrow> bit v 0"
proof
  assume "v AND 1 \<noteq> 0"
  then obtain n where "bit (v AND 1) n" by (metis bit_0_eq bit_eqI bot_apply bot_bool_def)
  then show "bit v 0" unfolding bit_and_iff bit_1_iff by blast
next
  assume "bit v 0"
  then have "bit (v AND 1) 0" by (simp only: bit_and_iff bit_1_iff)
  then show "v AND 1 \<noteq> 0" by (metis bit_0_eq bot_apply bot_bool_def)
qed

lemma low_bit_split:
  fixes v :: "'a::len word"
  shows "v = (if v AND 1 \<noteq> 0 then 1 else 0) XOR push_bit 1 (drop_bit 1 v)"
proof (rule bit_word_eqI)
  fix n :: nat
  show "bit v n = bit ((if v AND 1 \<noteq> 0 then 1 else 0) XOR push_bit 1 (drop_bit 1 v)) n"
    unfolding and_1_bit
    by (cases n) (auto simp only: bit_xor_iff bit_push_bit_iff bit_drop_bit_eq bit_1_iff bit_0_eq bot_apply
      bot_bool_def split: if_splits, auto dest: bit_imp_le_length)
qed

lemma gf2_times_loop_spec:
  assumes "\<And>a b. g (a XOR b) = g a XOR g b" and "\<And>k. k < length m \<Longrightarrow> m ! k = g (push_bit k 1)"
    and "\<And>k. bit v k \<Longrightarrow> k < length m"
  shows "crc32_gf2_times_loop m v r = r XOR g v"
  using assms
proof (induction m v r arbitrary: g rule: crc32_gf2_times_loop.induct)
  case (1 m v r)
  have g0: "g 0 = 0" using "1.prems"(1) [of 0 0] by simp
  show ?case
  proof (cases "v = 0")
    case True
    then show ?thesis using crc32_gf2_times_loop.simps [of m 0 r] by (simp add: g0)
  next
    case False
    then obtain k where "bit v k" by (metis bit_0_eq bit_eqI bot_apply bot_bool_def)
    then have m: "m \<noteq> []" using "1.prems"(3) by fastforce
    let ?r = "if v AND 1 \<noteq> 0 then r XOR hd m else r"
    have hd: "hd m = g 1" using "1.prems"(2) [of 0] m by (simp add: hd_conv_nth)
    have "crc32_gf2_times_loop (tl m) (drop_bit 1 v) ?r = ?r XOR (g \<circ> push_bit 1) (drop_bit 1 v)"
    proof (rule "1.IH" [OF False])
      show "(g \<circ> push_bit 1) (a XOR b) = (g \<circ> push_bit 1) a XOR (g \<circ> push_bit 1) b" for a b
        by (simp add: push_bit_xor "1.prems"(1))
      show "tl m ! k = (g \<circ> push_bit 1) (push_bit k 1)" if "k < length (tl m)" for k
        using "1.prems"(2) [of "Suc k"] that m by (simp add: nth_tl mult.commute)
      show "k < length (tl m)" if "bit (drop_bit 1 v) k" for k
        using "1.prems"(3) [of "Suc k"] that by (simp add: bit_drop_bit_eq)
    qed
    moreover have "g v = g (if v AND 1 \<noteq> 0 then 1 else 0) XOR g (push_bit 1 (drop_bit 1 v))"
      by (subst low_bit_split [of v]) (rule "1.prems"(1))
    ultimately show ?thesis using False
      by (simp add: crc32_gf2_times_loop.simps [of m v] hd g0 xor.assoc)
  qed
qed

lemma gf2_matrix_times_spec:
  assumes "\<And>a b. g (a XOR b) = g a XOR g b" and "columns_of g m"
  shows "crc32_gf2_matrix_times m v = g v"
  using gf2_times_loop_spec [OF assms(1), of m v 0] assms(2) bit_imp_le_length [of v]
  by (auto simp: crc32_gf2_matrix_times_def columns_of_def)

lemma gf2_matrix_square_spec:
  assumes "\<And>a b. g (a XOR b) = g a XOR g b" and "columns_of g m"
  shows "columns_of (g \<circ> g) (crc32_gf2_matrix_square m)"
  using assms(2) gf2_matrix_times_spec [OF assms] by (simp add: columns_of_def crc32_gf2_matrix_square_def)

lemma zero_bit_matrix_spec: "columns_of (bit_step r p) (crc32_zero_bit_matrix p r)"
proof (cases r)
  case True
  have "crc32_zero_bit_matrix p True ! k = refl_bit p (push_bit k 1)" if "k < 32" for k
    using that by (cases k) (auto simp: crc32_zero_bit_matrix_def refl_bit_def bit_simps intro!: bit_word_eqI)
  then show ?thesis using True by (simp add: columns_of_def bit_step_def crc32_zero_bit_matrix_def)
next
  case False
  have "crc32_zero_bit_matrix p False ! k = norm_bit p (push_bit k 1)" if "k < 32" for k
  proof (cases "k < 31")
    case True
    then show ?thesis
      by (auto simp: crc32_zero_bit_matrix_def norm_bit_def bit_simps nth_append intro!: bit_word_eqI)
  next
    case False
    then have "k = 31" using that by simp
    moreover have "push_bit 1 (push_bit 31 1) = (0 :: 32 word)"
      by (rule bit_word_eqI) (simp only: bit_push_bit_iff bit_1_iff bit_0_eq bot_apply bot_bool_def, auto)
    moreover have "bit (push_bit 31 (1 :: 32 word)) (LENGTH(32) - 1)" by (simp add: bit_push_bit_iff)
    ultimately have "norm_bit p (push_bit k 1) = p" by (simp only: norm_bit_def if_True xor.left_neutral)
    moreover have "crc32_zero_bit_matrix p False ! 31 = p"
      by (simp add: crc32_zero_bit_matrix_def nth_append)
    ultimately show ?thesis using \<open>k = 31\<close> by simp
  qed
  then show ?thesis using False by (simp add: columns_of_def bit_step_def crc32_zero_bit_matrix_def)
qed

lemma columns_of_double:
  "columns_of (bit_step r p ^^ n) m \<Longrightarrow> columns_of (bit_step r p ^^ (2 * n)) (crc32_gf2_matrix_square m)"
  using gf2_matrix_square_spec [OF step.pow [where n = n and reflected = r and p = p], of m] by (simp add: mult_2 funpow_add)

lemma times_columns_of: "columns_of (bit_step r p ^^ n) m \<Longrightarrow> crc32_gf2_matrix_times m v = (bit_step r p ^^ n) v"
  by (rule gf2_matrix_times_spec [OF step.pow])

lemma unat_low_bit:
  fixes w :: "'a::len word"
  shows "unat w = (if w AND 1 \<noteq> 0 then 1 else 0) + 2 * unat (drop_bit 1 w)"
proof -
  have "unat w = unat w mod 2 + 2 * (unat w div 2)" by simp
  moreover have "unat (drop_bit 1 w) = unat w div 2"
    by (simp only: unat_drop_bit_eq) (simp add: drop_bit_eq_div)
  moreover have "w AND 1 \<noteq> 0 \<longleftrightarrow> odd (unat w)"
    unfolding and_1_bit by (metis bit_0 bit_unsigned_iff possible_bit_0)
  ultimately show ?thesis by (cases "odd (unat w)") (simp_all only: if_True if_False, presburger+)
qed

lemma shift_loop_spec:
  "columns_of (bit_step r p ^^ n) m \<Longrightarrow>
    crc32_shift_loop m len v = (bit_step r p ^^ (2 * n * unat len)) v"
proof (induction m len v arbitrary: n rule: crc32_shift_loop.induct)
  case (1 m len v)
  let ?f = "bit_step r p" and ?l1 = "drop_bit 1 len"
  note even = columns_of_double [OF "1.prems"] and odd = columns_of_double [OF columns_of_double [OF "1.prems"]]
  let ?e = "crc32_gf2_matrix_square m"
  let ?o = "crc32_gf2_matrix_square ?e"
  define v1 where "v1 = (if len AND 1 \<noteq> 0 then crc32_gf2_matrix_times ?e v else v)"
  define v2 where "v2 = (if ?l1 AND 1 \<noteq> 0 then crc32_gf2_matrix_times ?o v1 else v1)"
  have v1: "v1 = (?f ^^ (2 * n * (if len AND 1 \<noteq> 0 then 1 else 0))) v"
    by (simp add: v1_def times_columns_of [OF even])
  have v2: "v2 = (?f ^^ (2 * n * (2 * (if ?l1 AND 1 \<noteq> 0 then 1 else 0)))) v1"
    using times_columns_of [OF odd, of v1] by (simp add: v2_def mult.commute [of n])
  have l0: "unat len = (if len AND 1 \<noteq> 0 then 1 else 0) + 2 * unat ?l1" by (rule unat_low_bit)
  have l1: "unat ?l1 = (if ?l1 AND 1 \<noteq> 0 then 1 else 0) + 2 * unat (drop_bit 1 ?l1)" by (rule unat_low_bit)
  have pw: "(?f ^^ (2 * n * x)) ((?f ^^ (2 * n * y)) u) = (?f ^^ (2 * n * (y + x))) u" for x y u
    by (simp add: funpow_add distrib_left add.commute [of "2 * n * y"])
  show ?case
  proof (cases "?l1 = 0")
    case True
    then show ?thesis using l0 v1 by (simp add: crc32_shift_loop.simps [of m len] v1_def [symmetric] Let_def)
  next
    case l1nz: False
    show ?thesis
    proof (cases "drop_bit 1 ?l1 = 0")
      case True
      then have "unat len = (if len AND 1 \<noteq> 0 then 1 else 0) + 2 * (if ?l1 AND 1 \<noteq> 0 then 1 else 0)"
        using l0 l1 by simp
      moreover have "crc32_shift_loop m len v = v2"
        using True l1nz by (simp add: crc32_shift_loop.simps [of m len] v1_def v2_def Let_def)
      ultimately show ?thesis unfolding v2 v1 pw by simp
    next
      case False
      have "crc32_shift_loop m len v = crc32_shift_loop ?o (drop_bit 1 ?l1) v2"
        using False l1nz by (simp add: crc32_shift_loop.simps [of m len] v1_def v2_def Let_def)
      also have "\<dots> = (?f ^^ (2 * (2 * (2 * n)) * unat (drop_bit 1 ?l1))) v2"
        using "1.IH" [OF refl refl refl l1nz refl refl refl False odd, folded v1_def, folded v2_def] .
      also have "\<dots> = (?f ^^ (2 * n * (4 * unat (drop_bit 1 ?l1)))) v2" by (simp add: mult.assoc mult.left_commute)
      also have "\<dots> = (?f ^^ (2 * n * unat len)) v"
        unfolding v2 v1 pw using l0 l1 by (simp add: distrib_left algebra_simps)
      finally show ?thesis .
    qed
  qed
qed

lemma shift_zero_bytes_spec:
  "crc32_shift_zero_bytes v len p r = (bit_step r p ^^ (8 * unat len)) v"
proof (cases "len = 0")
  case False
  have "columns_of (bit_step r p ^^ 1) (crc32_zero_bit_matrix p r)" by (simp add: zero_bit_matrix_spec)
  from columns_of_double [OF columns_of_double [OF this]] show ?thesis
    using False by (simp add: crc32_shift_zero_bytes_def Let_def shift_loop_spec)
qed (simp add: crc32_shift_zero_bytes_def)

lemma combine_spec:
  "XCrc32_combine algorithm c1 c2 len =
    (case crc32_parameters algorithm of (r, p, i, x) \<Rightarrow>
       if len = 0 then c1 else (bit_step r p ^^ (8 * unat len)) (c1 XOR i XOR x) XOR c2)"
  by (cases algorithm)
    (simp_all add: XCrc32_combine_def crc32_parameters_def crc32_combine_parameters_def shift_zero_bytes_spec)

section \<open>Properties\<close>

text \<open>All eight CRC-16 algorithms compute, by their tables, the bitwise check of
  their polynomial, initial register and final mask.\<close>

theorem crc16_is_bitwise:
  "XCrc16_calculate algorithm (Some data) =
    (case crc16_parameters algorithm of (reflected, polynomial, initial, xorout) \<Rightarrow>
       crc_register reflected polynomial initial data XOR xorout)"
  by (rule crc16_calculate_spec)

text \<open>C16: All eight CRC-32 algorithms compute the bitwise check of their parameters; for
  ISO-HDLC and JAMCRC this covers the unrolled loop over 32 bytes, the loop over words with four of the
  slices, and the loop over the remaining bytes.\<close>

theorem crc32_is_bitwise:
  "XCrc32_calculate algorithm (Some data) =
    (case crc32_parameters algorithm of (reflected, polynomial, initial, xorout) \<Rightarrow>
       crc_register reflected polynomial initial data XOR xorout)"
  by (cases "crc32_parameters algorithm")
    (simp add: XCrc32_calculate_def crc32_update_spec crc32_initialize_spec xor.assoc)

text \<open>A CRC-32 can be taken in pieces: updating with two blocks in turn is updating
  with their concatenation, for every algorithm and every starting value.\<close>

theorem crc32_update_in_pieces:
  "XCrc32_update algorithm (XCrc32_update algorithm crc (Some xs)) (Some ys) =
    XCrc32_update algorithm crc (Some (xs @ ys))"
  by (cases "crc32_parameters algorithm") (simp add: crc32_update_spec crc_register_append xor.assoc)

text \<open>C7: Combining the checks of two blocks, given the length of the second, gives the
  check of their concatenation: the repeated squaring of the bit matrix is right for every algorithm
  and every length that fits the 64-bit argument.\<close>

theorem crc32_combine_concatenates:
  assumes "length ys < 2 ^ 64"
  shows "XCrc32_combine algorithm (XCrc32_calculate algorithm (Some xs)) (XCrc32_calculate algorithm (Some ys))
      (of_nat (length ys)) = XCrc32_calculate algorithm (Some (xs @ ys))"
proof -
  obtain r p i x where par: "crc32_parameters algorithm = (r, p, i, x)" by (rule prod_cases4)
  have calc: "XCrc32_calculate algorithm (Some zs) = crc_register r p i zs XOR x" for zs
    by (simp add: XCrc32_calculate_def crc32_update_spec crc32_initialize_spec par xor.assoc)
  have len: "unat (of_nat (length ys) :: 64 word) = length ys"
    using assms by (simp add: unat_of_nat)
  show ?thesis
  proof (cases "ys = []")
    case True
    then show ?thesis by (simp add: combine_spec par)
  next
    case False
    then have nz: "(of_nat (length ys) :: 64 word) \<noteq> 0" using len by (metis length_0_conv unat_0)
    have "crc_register r p (crc_register r p i xs) ys =
        crc_register r p (i XOR (crc_register r p i xs XOR i)) ys"
      by (simp add: xor.commute xor.left_commute)
    also have "\<dots> = crc_register r p i ys XOR (bit_step r p ^^ (8 * length ys)) (crc_register r p i xs XOR i)"
      by (rule crc_register_xor)
    finally show ?thesis
      using nz by (simp add: combine_spec par calc len crc_register_append ac_simps)
  qed
qed

theorem crc32_combine_concatenates_witness:
  "XCrc32_combine XCrc32_Algorithm_Castagnoli (XCrc32_calculate XCrc32_Algorithm_Castagnoli (Some [1]))
     (XCrc32_calculate XCrc32_Algorithm_Castagnoli (Some [2, 3])) (of_nat (length [2, 3 :: byte])) =
   XCrc32_calculate XCrc32_Algorithm_Castagnoli (Some [1, 2, 3])"
  using crc32_combine_concatenates [of "[2, 3]" XCrc32_Algorithm_Castagnoli "[1]"] by simp

end
