(* ===== verification/CrcDetection.thy ===== *)
theory CrcDetection
  imports CrcProps
begin

text \<open>
  What the checks detect. A shift register whose polynomial has its constant term is one-to-one, so a
  change of one byte changes the check, wherever the byte is and whatever surrounds it. All sixteen
  algorithms of the source have such a polynomial.
\<close>

unbundle bit_operations_syntax

lemma xor_right_cancel: "a XOR z = b XOR z \<longleftrightarrow> a = b" for z :: "'a::len word"
proof
  assume "a XOR z = b XOR z"
  then have "(a XOR z) XOR z = (b XOR z) XOR z" by simp
  then show "a = b" by (simp only: xor.assoc xor_self_eq xor.right_neutral)
qed simp

lemma norm_bit_inj:
  fixes p :: "'a::len word"
  assumes p: "bit p 0" and eq: "norm_bit p a = norm_bit p b"
  shows "a = b"
proof -
  have low: "bit (norm_bit p c) 0 \<longleftrightarrow> bit c (LENGTH('a) - 1)" for c
  proof -
    have "\<not> bit (push_bit 1 c) 0" by (simp only: bit_push_bit_iff) simp
    with p show ?thesis by (simp only: norm_bit_def bit_xor_iff if_distrib [of "\<lambda>w. bit w 0"]) simp
  qed
  have top: "bit a (LENGTH('a) - 1) = bit b (LENGTH('a) - 1)" using low [of a] low [of b] eq by simp
  then have sh: "push_bit 1 a = push_bit 1 b"
    using eq by (auto simp: norm_bit_def split: if_splits) (metis xor.assoc xor_self_eq xor.right_neutral)
  show ?thesis
  proof (rule bit_word_eqI)
    fix i assume "i < LENGTH('a)"
    then consider "i = LENGTH('a) - 1" | "Suc i < LENGTH('a)" by linarith
    then show "bit a i \<longleftrightarrow> bit b i"
    proof cases
      case 2
      have "bit (push_bit 1 c) (Suc i) \<longleftrightarrow> bit c i" for c :: "'a word"
        using 2 by (simp only: bit_push_bit_iff) simp
      with sh show ?thesis by metis
    qed (use top in simp)
  qed
qed

lemma bit_step_inj:
  fixes p :: "'a::len word"
  shows "(if r then bit p (LENGTH('a) - 1) else bit p 0) \<Longrightarrow> bit_step r p a = bit_step r p b \<Longrightarrow> a = b"
  using refl_bit_inj [of p a b] norm_bit_inj [of p a b] by (auto simp: bit_step_def split: if_splits)

interpretation crc16: gf2_injective "case crc16_parameters algorithm of (r, p, i, x) \<Rightarrow> bit_step r p"
  for algorithm
proof
  show "(case crc16_parameters algorithm of (r, p, i, x) \<Rightarrow> bit_step r p) (a XOR b) =
      (case crc16_parameters algorithm of (r, p, i, x) \<Rightarrow> bit_step r p) a XOR
      (case crc16_parameters algorithm of (r, p, i, x) \<Rightarrow> bit_step r p) b" for a b
    by (auto simp: step.linear split: prod.split)
  show "a = b" if "(case crc16_parameters algorithm of (r, p, i, x) \<Rightarrow> bit_step r p) a =
      (case crc16_parameters algorithm of (r, p, i, x) \<Rightarrow> bit_step r p) b" for a b
    using that by (cases algorithm) (simp_all add: crc16_parameters_def, (erule bit_step_inj [rotated], simp)+)
qed

interpretation crc32: gf2_injective "case crc32_parameters algorithm of (r, p, i, x) \<Rightarrow> bit_step r p"
  for algorithm
proof
  show "(case crc32_parameters algorithm of (r, p, i, x) \<Rightarrow> bit_step r p) (a XOR b) =
      (case crc32_parameters algorithm of (r, p, i, x) \<Rightarrow> bit_step r p) a XOR
      (case crc32_parameters algorithm of (r, p, i, x) \<Rightarrow> bit_step r p) b" for a b
    by (auto simp: step.linear split: prod.split)
  show "a = b" if "(case crc32_parameters algorithm of (r, p, i, x) \<Rightarrow> bit_step r p) a =
      (case crc32_parameters algorithm of (r, p, i, x) \<Rightarrow> bit_step r p) b" for a b
    using that by (cases algorithm) (simp_all add: crc32_parameters_def, (erule bit_step_inj [rotated], simp)+)
qed

text \<open>The two embeddings of a byte into a register.\<close>

definition embed :: "bool \<Rightarrow> byte \<Rightarrow> 'a::len word" where
  "embed r b = (if r then ucast b else push_bit (LENGTH('a) - 8) (ucast b))"

lemma crc_register_lfsr: "crc_register r p = lfsr_crc (bit_step r p) (embed r)"
proof -
  have "embed True = (ucast :: byte \<Rightarrow> 'a word)" "embed False = (\<lambda>b. push_bit (LENGTH('a) - 8) (ucast b) :: 'a word)"
    by (simp_all add: fun_eq_iff embed_def)
  then show ?thesis by (cases r) (simp_all add: crc_register_def bit_step_def refl_crc_def norm_crc_def)
qed

lemma embed_inj:
  assumes "embed r x = (embed r y :: 'a::len word)" and "8 \<le> LENGTH('a)"
  shows "x = y"
proof (rule bit_word_eqI)
  fix n assume "n < LENGTH(8)"
  let ?k = "if r then 0 else LENGTH('a) - 8"
  have "bit (embed r z :: 'a word) (n + ?k) \<longleftrightarrow> bit z n" for z
    using \<open>n < LENGTH(8)\<close> assms(2) by (auto simp: embed_def bit_simps)
  then show "bit x n \<longleftrightarrow> bit y n" using assms(1) by metis
qed

lemma crc16_change:
  assumes "x \<noteq> y"
  shows "XCrc16_calculate algorithm (Some (xs @ x # ys)) \<noteq> XCrc16_calculate algorithm (Some (xs @ y # ys))"
proof -
  obtain r p i z where par: "crc16_parameters algorithm = (r, p, i, z)" by (rule prod_cases4)
  let ?f = "case crc16_parameters algorithm of (r, p, i, x) \<Rightarrow> bit_step r p"
  have "lfsr_crc ?f (embed r) i (xs @ x # ys) \<noteq> lfsr_crc ?f (embed r) i (xs @ y # ys)"
    by (rule crc16.crc_detects_byte [OF embed_inj assms]) (assumption, simp)
  then have "lfsr_crc (bit_step r p) (embed r) i (xs @ x # ys) \<noteq> lfsr_crc (bit_step r p) (embed r) i (xs @ y # ys)"
    by (simp only: par prod.case not_False_eq_True)
  then show ?thesis
    by (simp del: lfsr_crc_append add: crc16_calculate_spec par crc_register_lfsr xor_right_cancel)
qed

text \<open>
  Every CRC-16 algorithm detects a change of a single byte: two strings that differ in one byte,
  with anything before and after it, have different checks.
\<close>

theorem crc16_detects_byte:
  assumes "x \<noteq> y"
  shows "XCrc16_calculate algorithm (Some (xs @ x # ys)) \<noteq> XCrc16_calculate algorithm (Some (xs @ y # ys))"
  using assms by (rule crc16_change)

lemma crc16_detects_byte_witness:
  "XCrc16_calculate XCrc16_Algorithm_Modbus (Some [1, 3, 0]) \<noteq> XCrc16_calculate XCrc16_Algorithm_Modbus (Some [1, 2, 0])"
  using crc16_detects_byte [of 3 2 XCrc16_Algorithm_Modbus "[1]" "[0]"] by simp

text \<open>Every CRC-32 algorithm detects a change of a single byte.\<close>

theorem crc32_detects_byte:
  assumes "x \<noteq> y"
  shows "XCrc32_calculate algorithm (Some (xs @ x # ys)) \<noteq> XCrc32_calculate algorithm (Some (xs @ y # ys))"
proof -
  obtain r p i z where par: "crc32_parameters algorithm = (r, p, i, z)" by (rule prod_cases4)
  let ?f = "case crc32_parameters algorithm of (r, p, i, x) \<Rightarrow> bit_step r p"
  have "lfsr_crc ?f (embed r) i (xs @ x # ys) \<noteq> lfsr_crc ?f (embed r) i (xs @ y # ys)"
    by (rule crc32.crc_detects_byte [OF embed_inj assms]) (assumption, simp)
  then have "lfsr_crc (bit_step r p) (embed r) i (xs @ x # ys) \<noteq> lfsr_crc (bit_step r p) (embed r) i (xs @ y # ys)"
    by (simp only: par prod.case not_False_eq_True)
  moreover have "XCrc32_calculate algorithm (Some data) = lfsr_crc (bit_step r p) (embed r) i data XOR z" for data
    by (simp add: XCrc32_calculate_def crc32_update_spec crc32_initialize_spec par crc_register_lfsr xor.assoc)
  ultimately show ?thesis by (simp del: lfsr_crc_append add: xor_right_cancel)
qed

lemma crc32_detects_byte_witness:
  "XCrc32_calculate XCrc32_Algorithm_IsoHdlc (Some [1, 3, 0]) \<noteq>
    XCrc32_calculate XCrc32_Algorithm_IsoHdlc (Some [1, 2, 0])"
  using crc32_detects_byte [of 3 2 XCrc32_Algorithm_IsoHdlc "[1]" "[0]"] by simp

end
