(* ===== verification/ModbusPdu.thy ===== *)
theory ModbusPdu
  imports XPrelude "HOL-Library.Word"
begin

text \<open>
  The Modbus protocol data unit of \<open>XProtocol/XModbus/XModbusPdu.c\<close>: a function code,
  possibly with the exception bit, and a byte array. Requests, responses and exception responses are
  the same structure; the constructors and the queries of the source are here one each.

  Object pointers are not NULL (the source answers a NULL object with its error value at once). A byte
  array is a list, \<open>None\<close> the NULL array that a failed allocation or the destructor leaves. The
  enumerators are 32-bit codes, so that every value the bus delivers is one. An \<open>int16_t\<close> result
  is an integer, with the conversion written where a value may not fit.
\<close>

unbundle bit_operations_syntax

type_synonym fcode = "32 word"

definition int16 :: "int \<Rightarrow> int" where
  "int16 x = signed_take_bit 15 x"

lemma int16_small: "- (2 ^ 15) \<le> x \<Longrightarrow> x < 2 ^ 15 \<Longrightarrow> int16 x = x"
  by (simp add: int16_def signed_take_bit_int_eq_self)

record XModbusPdu =
  mp_code :: fcode
  mp_data :: "byte list option"

abbreviation (input) XModbusPdu_Invalid :: fcode where "XModbusPdu_Invalid \<equiv> 0x00"
abbreviation (input) XModbusPdu_ReadCoils :: fcode where "XModbusPdu_ReadCoils \<equiv> 0x01"
abbreviation (input) XModbusPdu_ReadDiscreteInputs :: fcode where "XModbusPdu_ReadDiscreteInputs \<equiv> 0x02"
abbreviation (input) XModbusPdu_ReadHoldingRegisters :: fcode where "XModbusPdu_ReadHoldingRegisters \<equiv> 0x03"
abbreviation (input) XModbusPdu_ReadInputRegisters :: fcode where "XModbusPdu_ReadInputRegisters \<equiv> 0x04"
abbreviation (input) XModbusPdu_WriteSingleCoil :: fcode where "XModbusPdu_WriteSingleCoil \<equiv> 0x05"
abbreviation (input) XModbusPdu_WriteSingleRegister :: fcode where "XModbusPdu_WriteSingleRegister \<equiv> 0x06"
abbreviation (input) XModbusPdu_ReadExceptionStatus :: fcode where "XModbusPdu_ReadExceptionStatus \<equiv> 0x07"
abbreviation (input) XModbusPdu_Diagnostics :: fcode where "XModbusPdu_Diagnostics \<equiv> 0x08"
abbreviation (input) XModbusPdu_GetCommEventCounter :: fcode where "XModbusPdu_GetCommEventCounter \<equiv> 0x0B"
abbreviation (input) XModbusPdu_GetCommEventLog :: fcode where "XModbusPdu_GetCommEventLog \<equiv> 0x0C"
abbreviation (input) XModbusPdu_WriteMultipleCoils :: fcode where "XModbusPdu_WriteMultipleCoils \<equiv> 0x0F"
abbreviation (input) XModbusPdu_WriteMultipleRegisters :: fcode where "XModbusPdu_WriteMultipleRegisters \<equiv> 0x10"
abbreviation (input) XModbusPdu_ReportServerId :: fcode where "XModbusPdu_ReportServerId \<equiv> 0x11"
abbreviation (input) XModbusPdu_ReadFileRecord :: fcode where "XModbusPdu_ReadFileRecord \<equiv> 0x14"
abbreviation (input) XModbusPdu_WriteFileRecord :: fcode where "XModbusPdu_WriteFileRecord \<equiv> 0x15"
abbreviation (input) XModbusPdu_MaskWriteRegister :: fcode where "XModbusPdu_MaskWriteRegister \<equiv> 0x16"
abbreviation (input) XModbusPdu_ReadWriteMultipleRegisters :: fcode where
  "XModbusPdu_ReadWriteMultipleRegisters \<equiv> 0x17"
abbreviation (input) XModbusPdu_ReadFifoQueue :: fcode where "XModbusPdu_ReadFifoQueue \<equiv> 0x18"
abbreviation (input) XModbusPdu_EncapsulatedInterfaceTransport :: fcode where
  "XModbusPdu_EncapsulatedInterfaceTransport \<equiv> 0x2B"
abbreviation (input) XModbusPdu_UndefinedFunctionCode :: fcode where "XModbusPdu_UndefinedFunctionCode \<equiv> 0x100"

section \<open>Queries\<close>

definition array_size :: "byte list option \<Rightarrow> size_t" where
  "array_size a = (case a of None \<Rightarrow> 0 | Some d \<Rightarrow> length d)"

definition XModbusPdu_isException :: "XModbusPdu \<Rightarrow> bool" where
  "XModbusPdu_isException pdu \<longleftrightarrow> mp_code pdu AND 0x80 \<noteq> 0"

definition XModbusPdu_isValid :: "XModbusPdu \<Rightarrow> bool" where
  "XModbusPdu_isValid pdu =
     (let validCode = XModbusPdu_ReadCoils \<le> mp_code pdu \<and> mp_code pdu < XModbusPdu_UndefinedFunctionCode;
          validSize = array_size (mp_data pdu) < 253
      in validCode \<and> validSize)"

definition XModbusPdu_exceptionCode :: "XModbusPdu \<Rightarrow> int" where
  "XModbusPdu_exceptionCode pdu =
     (if \<not> XModbusPdu_isException pdu \<or> array_size (mp_data pdu) = 0 then 0xFF
      else uint (the (mp_data pdu) ! 0))"

definition XModbusPdu_dataSize :: "XModbusPdu \<Rightarrow> int" where
  "XModbusPdu_dataSize pdu = int16 (int (array_size (mp_data pdu)))"

definition XModbusPdu_size :: "XModbusPdu \<Rightarrow> int" where
  "XModbusPdu_size pdu = int16 (XModbusPdu_dataSize pdu + 1)"

definition XModbusPdu_functionCodeRaw :: "XModbusPdu \<Rightarrow> fcode" where
  "XModbusPdu_functionCodeRaw pdu = mp_code pdu"

definition XModbusPdu_functionCode :: "XModbusPdu \<Rightarrow> fcode" where
  "XModbusPdu_functionCode pdu = mp_code pdu AND NOT 0x80"

definition XModbusPdu_setFunctionCode :: "XModbusPdu \<Rightarrow> fcode \<Rightarrow> XModbusPdu" where
  "XModbusPdu_setFunctionCode pdu code = pdu\<lparr>mp_code := code\<rparr>"

text \<open>\<open>copied\<close> is whether the copy could be allocated.\<close>

definition XModbusPdu_data :: "bool \<Rightarrow> XModbusPdu \<Rightarrow> byte list option" where
  "XModbusPdu_data copied pdu = (if copied then mp_data pdu else None)"

text \<open>Appending to a byte array; \<open>room n\<close> is whether an array of \<open>n\<close> bytes can grow.\<close>

definition XByteArray_push_back_2 :: "(nat \<Rightarrow> bool) \<Rightarrow> byte list \<Rightarrow> byte list \<Rightarrow> byte list option" where
  "XByteArray_push_back_2 room d bs = (if room (length d) then Some (d @ bs) else None)"

definition XModbusPdu_setData :: "(nat \<Rightarrow> bool) \<Rightarrow> XModbusPdu \<Rightarrow> byte list option \<Rightarrow> XModbusPdu" where
  "XModbusPdu_setData room pdu newData =
     (if mp_data pdu = None then pdu
      else case newData of
        None \<Rightarrow> pdu\<lparr>mp_data := Some []\<rparr>
      | Some bs \<Rightarrow>
          if bs = [] then pdu\<lparr>mp_data := Some []\<rparr>
          else case XByteArray_push_back_2 room [] bs of
            None \<Rightarrow> pdu\<lparr>mp_data := Some []\<rparr>
          | Some d \<Rightarrow> pdu\<lparr>mp_data := Some d\<rparr>)"

section \<open>Creation, copy, move\<close>

text \<open>\<open>array\<close> is whether the byte array could be created.\<close>

definition XModbusPdu_init :: "bool \<Rightarrow> XModbusPdu \<Rightarrow> XModbusPdu" where
  "XModbusPdu_init array pdu = pdu\<lparr>mp_code := XModbusPdu_Invalid, mp_data := (if array then Some [] else None)\<rparr>"

definition XModbusPdu_init_with_code :: "bool \<Rightarrow> XModbusPdu \<Rightarrow> fcode \<Rightarrow> XModbusPdu" where
  "XModbusPdu_init_with_code array pdu code = XModbusPdu_setFunctionCode (XModbusPdu_init array pdu) code"

text \<open>
  \<open>obj\<close> is the memory of the object. The source records the allocator in the object
  without testing it: the first \<open>None\<close> is that write through NULL.
\<close>

definition XModbusPdu_create_ex :: "bool \<Rightarrow> XModbusPdu option \<Rightarrow> XModbusPdu option" where
  "XModbusPdu_create_ex array obj = map_option (XModbusPdu_init array) obj"

definition XModbusPdu_create_with_code :: "bool \<Rightarrow> XModbusPdu option \<Rightarrow> fcode \<Rightarrow> XModbusPdu option" where
  "XModbusPdu_create_with_code array obj code =
     map_option (\<lambda>pdu. XModbusPdu_init_with_code array pdu code) obj"

definition XModbusExceptionResponse_init_with_function_and_exception ::
  "bool \<Rightarrow> (nat \<Rightarrow> bool) \<Rightarrow> XModbusPdu \<Rightarrow> fcode \<Rightarrow> 32 word \<Rightarrow> XModbusPdu" where
  "XModbusExceptionResponse_init_with_function_and_exception array room exc functionCode exceptionCode =
     (let e1 = XModbusPdu_init array exc;
          e2 = e1\<lparr>mp_code := functionCode OR 0x80\<rparr>;
          ec = (ucast exceptionCode :: byte)
      in case mp_data e2 of
           None \<Rightarrow> e2
         | Some d \<Rightarrow> (case XByteArray_push_back_2 room [] [ec] of
                       None \<Rightarrow> e2\<lparr>mp_data := Some []\<rparr> | Some d \<Rightarrow> e2\<lparr>mp_data := Some d\<rparr>))"

definition XModbusExceptionResponse_setExceptionCode ::
  "(nat \<Rightarrow> bool) \<Rightarrow> XModbusPdu \<Rightarrow> 32 word \<Rightarrow> XModbusPdu" where
  "XModbusExceptionResponse_setExceptionCode room exc ec =
     (case mp_data exc of
        None \<Rightarrow> exc
      | Some d \<Rightarrow> (case XByteArray_push_back_2 room [] [ucast ec] of
                    None \<Rightarrow> exc\<lparr>mp_data := Some []\<rparr> | Some d \<Rightarrow> exc\<lparr>mp_data := Some d\<rparr>))"

definition VXModbusPdu_deinit :: "XModbusPdu \<Rightarrow> XModbusPdu" where
  "VXModbusPdu_deinit pdu = pdu\<lparr>mp_data := None\<rparr>"

definition VXModbusPdu_copy :: "bool \<Rightarrow> bool \<Rightarrow> XModbusPdu \<Rightarrow> XModbusPdu \<Rightarrow> XModbusPdu" where
  "VXModbusPdu_copy array uninit pdu src =
     (let p1 = (if uninit then XModbusPdu_init array pdu else pdu);
          p2 = p1\<lparr>mp_code := mp_code src\<rparr>
      in if mp_data p2 \<noteq> None \<and> mp_data src \<noteq> None then p2\<lparr>mp_data := mp_data src\<rparr> else p2)"

definition VXModbusPdu_move :: "bool \<Rightarrow> bool \<Rightarrow> XModbusPdu \<Rightarrow> XModbusPdu \<Rightarrow> XModbusPdu \<times> XModbusPdu" where
  "VXModbusPdu_move array uninit pdu src = (src, if uninit then XModbusPdu_init array pdu else pdu)"

text \<open>
  The derived structures. Their \<open>create_with_code\<close> initialises the object a second time
  (\<open>array2\<close>), which abandons the first byte array.
\<close>

definition XModbusPdu_create_copy :: "bool \<Rightarrow> XModbusPdu option \<Rightarrow> XModbusPdu \<Rightarrow> XModbusPdu option" where
  "XModbusPdu_create_copy array obj src =
     map_option (\<lambda>pdu. VXModbusPdu_copy array False pdu src) (XModbusPdu_create_ex array obj)"

definition XModbusPdu_create_move :: "bool \<Rightarrow> XModbusPdu option \<Rightarrow> XModbusPdu \<Rightarrow> (XModbusPdu \<times> XModbusPdu) option" where
  "XModbusPdu_create_move array obj src =
     map_option (\<lambda>pdu. VXModbusPdu_move array False pdu src) (XModbusPdu_create_ex array obj)"

definition XModbusRequest_init :: "bool \<Rightarrow> XModbusPdu \<Rightarrow> XModbusPdu" where
  "XModbusRequest_init array req = XModbusPdu_init array req"

definition XModbusRequest_init_with_code :: "bool \<Rightarrow> XModbusPdu \<Rightarrow> fcode \<Rightarrow> XModbusPdu" where
  "XModbusRequest_init_with_code array req code = (XModbusRequest_init array req)\<lparr>mp_code := code\<rparr>"

definition XModbusRequest_create_ex :: "bool \<Rightarrow> XModbusPdu option \<Rightarrow> XModbusPdu option" where
  "XModbusRequest_create_ex array obj =
     (case obj of None \<Rightarrow> None | Some req \<Rightarrow> Some (XModbusRequest_init array req))"

definition XModbusRequest_create_with_code ::
  "bool \<Rightarrow> bool \<Rightarrow> XModbusPdu option \<Rightarrow> fcode \<Rightarrow> XModbusPdu option" where
  "XModbusRequest_create_with_code array array2 obj code =
     (case XModbusRequest_create_ex array obj of
        None \<Rightarrow> None | Some req \<Rightarrow> Some (XModbusRequest_init_with_code array2 req code))"

definition XModbusResponse_init :: "bool \<Rightarrow> XModbusPdu \<Rightarrow> XModbusPdu" where
  "XModbusResponse_init array resp = XModbusPdu_init array resp"

definition XModbusResponse_init_with_code :: "bool \<Rightarrow> XModbusPdu \<Rightarrow> fcode \<Rightarrow> XModbusPdu" where
  "XModbusResponse_init_with_code array resp code = (XModbusResponse_init array resp)\<lparr>mp_code := code\<rparr>"

definition XModbusResponse_create_ex :: "bool \<Rightarrow> XModbusPdu option \<Rightarrow> XModbusPdu option" where
  "XModbusResponse_create_ex array obj =
     (case obj of None \<Rightarrow> None | Some resp \<Rightarrow> Some (XModbusResponse_init array resp))"

definition XModbusResponse_create_with_code ::
  "bool \<Rightarrow> bool \<Rightarrow> XModbusPdu option \<Rightarrow> fcode \<Rightarrow> XModbusPdu option" where
  "XModbusResponse_create_with_code array array2 obj code =
     (case XModbusResponse_create_ex array obj of
        None \<Rightarrow> None | Some resp \<Rightarrow> Some (XModbusResponse_init_with_code array2 resp code))"

definition XModbusExceptionResponse_create_ex :: "bool \<Rightarrow> XModbusPdu option \<Rightarrow> XModbusPdu option" where
  "XModbusExceptionResponse_create_ex array obj =
     (case obj of None \<Rightarrow> None | Some exc \<Rightarrow> Some (XModbusResponse_init array exc))"

definition XModbusExceptionResponse_create_with_function_and_exception ::
  "bool \<Rightarrow> bool \<Rightarrow> (nat \<Rightarrow> bool) \<Rightarrow> XModbusPdu option \<Rightarrow> fcode \<Rightarrow> 32 word \<Rightarrow> XModbusPdu option" where
  "XModbusExceptionResponse_create_with_function_and_exception array array2 room obj functionCode exceptionCode =
     (case XModbusExceptionResponse_create_ex array obj of
        None \<Rightarrow> None
      | Some exc \<Rightarrow> Some (XModbusExceptionResponse_init_with_function_and_exception array2 room exc
                            functionCode exceptionCode))"

section \<open>Data sizes\<close>

definition requestMinimumDataSizeForCode :: "fcode \<Rightarrow> int" where
  "requestMinimumDataSizeForCode fc =
     (if fc = XModbusPdu_ReadCoils then 4
      else if fc = XModbusPdu_ReadDiscreteInputs then 4
      else if fc = XModbusPdu_ReadHoldingRegisters then 4
      else if fc = XModbusPdu_ReadInputRegisters then 4
      else if fc = XModbusPdu_WriteSingleCoil then 4
      else if fc = XModbusPdu_WriteSingleRegister then 4
      else if fc = XModbusPdu_ReadExceptionStatus then 0
      else if fc = XModbusPdu_Diagnostics then 2
      else if fc = XModbusPdu_GetCommEventCounter then 0
      else if fc = XModbusPdu_GetCommEventLog then 0
      else if fc = XModbusPdu_WriteMultipleCoils then 5
      else if fc = XModbusPdu_WriteMultipleRegisters then 5
      else if fc = XModbusPdu_ReportServerId then 0
      else if fc = XModbusPdu_ReadFileRecord then 5
      else if fc = XModbusPdu_WriteFileRecord then 5
      else if fc = XModbusPdu_MaskWriteRegister then 6
      else if fc = XModbusPdu_ReadWriteMultipleRegisters then 9
      else if fc = XModbusPdu_ReadFifoQueue then 2
      else if fc = XModbusPdu_EncapsulatedInterfaceTransport then 2
      else -1)"

definition responseMinimumDataSizeForCode :: "fcode \<Rightarrow> int" where
  "responseMinimumDataSizeForCode fc =
     (if fc = XModbusPdu_ReadCoils then 1
      else if fc = XModbusPdu_ReadDiscreteInputs then 1
      else if fc = XModbusPdu_ReadHoldingRegisters then 1
      else if fc = XModbusPdu_ReadInputRegisters then 1
      else if fc = XModbusPdu_WriteSingleCoil then 4
      else if fc = XModbusPdu_WriteSingleRegister then 4
      else if fc = XModbusPdu_ReadExceptionStatus then 1
      else if fc = XModbusPdu_Diagnostics then 2
      else if fc = XModbusPdu_GetCommEventCounter then 4
      else if fc = XModbusPdu_GetCommEventLog then 5
      else if fc = XModbusPdu_WriteMultipleCoils then 4
      else if fc = XModbusPdu_WriteMultipleRegisters then 4
      else if fc = XModbusPdu_ReportServerId then 1
      else if fc = XModbusPdu_ReadFileRecord then 3
      else if fc = XModbusPdu_WriteFileRecord then 3
      else if fc = XModbusPdu_MaskWriteRegister then 6
      else if fc = XModbusPdu_ReadWriteMultipleRegisters then 1
      else if fc = XModbusPdu_ReadFifoQueue then 2
      else if fc = XModbusPdu_EncapsulatedInterfaceTransport then 2
      else -1)"

text \<open>A byte count inside the data, at \<open>index\<close>, added to the minimum size.\<close>

definition min_and_count :: "fcode \<Rightarrow> byte list option \<Rightarrow> nat \<Rightarrow> int" where
  "min_and_count fc data index =
     (let minSize = requestMinimumDataSizeForCode fc in
      if minSize < 0 then -1
      else case data of None \<Rightarrow> -1
      | Some d \<Rightarrow> if int (length d) < minSize then -1 else int16 (minSize + uint (d ! index)))"

definition calculateRequestDataSize :: "XModbusPdu \<Rightarrow> int" where
  "calculateRequestDataSize pdu =
     (let fc = XModbusPdu_functionCode pdu in
      if fc \<in> {XModbusPdu_ReadCoils, XModbusPdu_ReadDiscreteInputs, XModbusPdu_ReadHoldingRegisters,
               XModbusPdu_ReadInputRegisters, XModbusPdu_WriteSingleCoil, XModbusPdu_WriteSingleRegister,
               XModbusPdu_ReadExceptionStatus, XModbusPdu_Diagnostics, XModbusPdu_GetCommEventCounter,
               XModbusPdu_GetCommEventLog, XModbusPdu_ReportServerId, XModbusPdu_MaskWriteRegister,
               XModbusPdu_ReadFifoQueue}
      then requestMinimumDataSizeForCode fc
      else if fc = XModbusPdu_WriteMultipleCoils then min_and_count fc (mp_data pdu) 4
      else if fc = XModbusPdu_WriteMultipleRegisters then min_and_count fc (mp_data pdu) 4
      else if fc = XModbusPdu_ReadFileRecord \<or> fc = XModbusPdu_WriteFileRecord then
        (case mp_data pdu of None \<Rightarrow> -1
         | Some d \<Rightarrow> if d = [] then -1 else int16 (1 + uint (d ! 0)))
      else if fc = XModbusPdu_ReadWriteMultipleRegisters then min_and_count fc (mp_data pdu) 8
      else if fc = XModbusPdu_EncapsulatedInterfaceTransport then
        (let minSize = requestMinimumDataSizeForCode fc in
         if minSize < 0 then -1
         else case mp_data pdu of None \<Rightarrow> -1 | Some d \<Rightarrow> int16 (int (length d)))
      else -1)"

definition calculateResponseDataSize :: "XModbusPdu \<Rightarrow> int" where
  "calculateResponseDataSize pdu =
     (let fc = XModbusPdu_functionCode pdu in
      if XModbusPdu_isException pdu then 1
      else if fc \<in> {XModbusPdu_ReadCoils, XModbusPdu_ReadDiscreteInputs, XModbusPdu_ReadHoldingRegisters,
               XModbusPdu_ReadInputRegisters, XModbusPdu_WriteSingleCoil, XModbusPdu_WriteSingleRegister,
               XModbusPdu_ReadExceptionStatus, XModbusPdu_WriteMultipleCoils,
               XModbusPdu_WriteMultipleRegisters, XModbusPdu_MaskWriteRegister}
      then responseMinimumDataSizeForCode fc
      else if fc \<in> {XModbusPdu_Diagnostics, XModbusPdu_GetCommEventCounter, XModbusPdu_GetCommEventLog,
               XModbusPdu_ReportServerId, XModbusPdu_ReadFileRecord, XModbusPdu_WriteFileRecord,
               XModbusPdu_ReadWriteMultipleRegisters}
      then (case mp_data pdu of None \<Rightarrow> -1 | Some d \<Rightarrow> int16 (int (length d)))
      else if fc = XModbusPdu_ReadFifoQueue then
        (case mp_data pdu of None \<Rightarrow> -1
         | Some d \<Rightarrow> if length d < 2 then -1
                     else let byteCount = (push_bit 8 (ucast (d ! 0)) OR ucast (d ! 1) :: 16 word)
                          in int16 (2 + uint byteCount))
      else if fc = XModbusPdu_EncapsulatedInterfaceTransport then
        (case mp_data pdu of None \<Rightarrow> -1 | Some d \<Rightarrow> int16 (int (length d)))
      else -1)"

section \<open>The registries of size calculators\<close>

text \<open>
  The source keeps a table of at most 32 entries for requests and one for responses, with the
  same code; a registry is the list of its entries.
\<close>

type_synonym calc_registry = "(fcode \<times> (XModbusPdu \<Rightarrow> int)) list"

definition MAX_CALC_REGISTRATIONS :: nat where "MAX_CALC_REGISTRATIONS = 32"

primrec calc_index :: "calc_registry \<Rightarrow> nat \<Rightarrow> fcode \<Rightarrow> nat option" where
  "calc_index [] i fc = None"
| "calc_index (e # reg) i fc = (if fst e = fc then Some i else calc_index reg (i + 1) fc)"

definition registerDataSizeCalculator ::
  "calc_registry \<Rightarrow> fcode \<Rightarrow> (XModbusPdu \<Rightarrow> int) option \<Rightarrow> calc_registry" where
  "registerDataSizeCalculator reg fc func =
     (case func of
        None \<Rightarrow> (case calc_index reg 0 fc of
                   None \<Rightarrow> reg
                 | Some i \<Rightarrow> butlast (reg[i := reg ! (length reg - 1)]))
      | Some f \<Rightarrow> (case calc_index reg 0 fc of
                   Some i \<Rightarrow> reg[i := (fst (reg ! i), f)]
                 | None \<Rightarrow> if length reg < MAX_CALC_REGISTRATIONS then reg @ [(fc, f)] else reg))"

definition XModbusRequest_registerDataSizeCalculator ::
  "calc_registry \<Rightarrow> fcode \<Rightarrow> (XModbusPdu \<Rightarrow> int) option \<Rightarrow> calc_registry" where
  "XModbusRequest_registerDataSizeCalculator = registerDataSizeCalculator"

definition XModbusResponse_registerDataSizeCalculator ::
  "calc_registry \<Rightarrow> fcode \<Rightarrow> (XModbusPdu \<Rightarrow> int) option \<Rightarrow> calc_registry" where
  "XModbusResponse_registerDataSizeCalculator = registerDataSizeCalculator"

definition XModbusRequest_minimumDataSize :: "XModbusPdu \<Rightarrow> int" where
  "XModbusRequest_minimumDataSize pdu = requestMinimumDataSizeForCode (XModbusPdu_functionCode pdu)"

definition XModbusRequest_calculateDataSize :: "calc_registry \<Rightarrow> XModbusPdu \<Rightarrow> int" where
  "XModbusRequest_calculateDataSize reg pdu =
     (case calc_index reg 0 (XModbusPdu_functionCode pdu) of
        Some i \<Rightarrow> snd (reg ! i) pdu
      | None \<Rightarrow> calculateRequestDataSize pdu)"

definition XModbusResponse_minimumDataSize :: "XModbusPdu \<Rightarrow> int" where
  "XModbusResponse_minimumDataSize pdu =
     (if XModbusPdu_isException pdu then 1
      else responseMinimumDataSizeForCode (XModbusPdu_functionCode pdu))"

definition XModbusResponse_calculateDataSize :: "calc_registry \<Rightarrow> XModbusPdu \<Rightarrow> int" where
  "XModbusResponse_calculateDataSize reg pdu =
     (case calc_index reg 0 (XModbusPdu_functionCode pdu) of
        Some i \<Rightarrow> snd (reg ! i) pdu
      | None \<Rightarrow> calculateResponseDataSize pdu)"

section \<open>Fields\<close>

text \<open>
  A field to encode: its type, its values (\<open>None\<close> for NULL) and the number of them. The
  values of a field to decode are the result.
\<close>

datatype XModbusPdu_EncodeField =
  EncodeUint8 "byte list option" size_t
  | EncodeUint16 "16 word list option" size_t
  | EncodeOther size_t

datatype XModbusPdu_DataType = XModbusPdu_DataType_Uint8 | XModbusPdu_DataType_Uint16 | XModbusPdu_DataType_Other

record XModbusPdu_DecodeField =
  df_type :: XModbusPdu_DataType
  df_null :: bool
  df_count :: size_t

datatype field_values = Uint8_values "byte list" | Uint16_values "16 word list"

text \<open>The byte count of a field that fits into the 252 bytes of a data unit behind \<open>used\<close> bytes.\<close>

definition XModbusPdu_validateField :: "XModbusPdu_DataType \<Rightarrow> bool \<Rightarrow> size_t \<Rightarrow> size_t \<Rightarrow> size_t option" where
  "XModbusPdu_validateField type null count used =
     (if null \<and> 0 < count then None
      else case type of
        XModbusPdu_DataType_Other \<Rightarrow> None
      | _ \<Rightarrow>
          let elementSize = (if type = XModbusPdu_DataType_Uint8 then 1 else 2) in
          if 252 < used \<or> (252 - used) div elementSize < count then None
          else Some (count * elementSize))"

fun encode_field_shape :: "XModbusPdu_EncodeField \<Rightarrow> XModbusPdu_DataType \<times> bool \<times> size_t" where
  "encode_field_shape (EncodeUint8 vs n) = (XModbusPdu_DataType_Uint8, vs = None, n)"
| "encode_field_shape (EncodeUint16 vs n) = (XModbusPdu_DataType_Uint16, vs = None, n)"
| "encode_field_shape (EncodeOther n) = (XModbusPdu_DataType_Other, False, n)"

primrec encode_check :: "XModbusPdu_EncodeField list \<Rightarrow> size_t \<Rightarrow> bool" where
  "encode_check [] used = True"
| "encode_check (f # fs) used =
     (let (type, null, count) = encode_field_shape f in
      case XModbusPdu_validateField type null count used of
        None \<Rightarrow> False
      | Some byteCount \<Rightarrow> encode_check fs (used + byteCount))"

primrec encode_words :: "(nat \<Rightarrow> bool) \<Rightarrow> byte list \<Rightarrow> 16 word list \<Rightarrow> byte list option" where
  "encode_words room d [] = Some d"
| "encode_words room d (v # vs) =
     (case XByteArray_push_back_2 room d [ucast (drop_bit 8 v), ucast v] of
        None \<Rightarrow> None
      | Some d' \<Rightarrow> encode_words room d' vs)"

fun encode_field :: "(nat \<Rightarrow> bool) \<Rightarrow> byte list \<Rightarrow> XModbusPdu_EncodeField \<Rightarrow> byte list option" where
  "encode_field room d (EncodeUint8 vs n) =
     (if n = 0 then Some d else XByteArray_push_back_2 room d (take n (the vs)))"
| "encode_field room d (EncodeUint16 vs n) =
     (if n = 0 then Some d else encode_words room d (take n (the vs)))"
| "encode_field room d (EncodeOther n) = Some d"

primrec encode_fields :: "(nat \<Rightarrow> bool) \<Rightarrow> byte list \<Rightarrow> XModbusPdu_EncodeField list \<Rightarrow> byte list option" where
  "encode_fields room d [] = Some d"
| "encode_fields room d (f # fs) =
     (case encode_field room d f of None \<Rightarrow> None | Some d' \<Rightarrow> encode_fields room d' fs)"

definition XModbusPdu_encodeData ::
  "(nat \<Rightarrow> bool) \<Rightarrow> XModbusPdu \<Rightarrow> XModbusPdu_EncodeField list option \<Rightarrow> bool \<times> XModbusPdu" where
  "XModbusPdu_encodeData room pdu pfields =
     (case (mp_data pdu, pfields) of
        (None, _) \<Rightarrow> (False, pdu)
      | (_, None) \<Rightarrow> (False, pdu)
      | (Some d, Some flds) \<Rightarrow>
          if \<not> encode_check flds 0 then (False, pdu)
          else case encode_fields room [] flds of
            None \<Rightarrow> (False, pdu\<lparr>mp_data := Some []\<rparr>)
          | Some d' \<Rightarrow> (True, pdu\<lparr>mp_data := Some d'\<rparr>))"

definition decode_values :: "byte list \<Rightarrow> XModbusPdu_DecodeField \<Rightarrow> size_t \<Rightarrow> field_values" where
  "decode_values data f offset =
     (if df_type f = XModbusPdu_DataType_Uint8 then Uint8_values (take (df_count f) (drop offset data))
      else Uint16_values (map (\<lambda>j. push_bit 8 (ucast (data ! (offset + j * 2))) OR
                                     ucast (data ! (offset + j * 2 + 1))) [0..<df_count f]))"

primrec decode_fields ::
  "byte list \<Rightarrow> XModbusPdu_DecodeField list \<Rightarrow> size_t \<Rightarrow> bool \<times> field_values list" where
  "decode_fields data [] offset = (True, [])"
| "decode_fields data (f # fs) offset =
     (let dataSize = length data in
      if dataSize < offset then (False, [])
      else case XModbusPdu_validateField (df_type f) (df_null f) (df_count f) offset of
        None \<Rightarrow> (False, [])
      | Some byteCount \<Rightarrow>
          if dataSize - offset < byteCount then (False, [])
          else let (ok, vs) = decode_fields data fs (offset + byteCount)
               in (ok, decode_values data f offset # vs))"

definition XModbusPdu_decodeData ::
  "XModbusPdu \<Rightarrow> XModbusPdu_DecodeField list option \<Rightarrow> bool \<times> field_values list" where
  "XModbusPdu_decodeData pdu pfields =
     (case (mp_data pdu, pfields) of
        (None, _) \<Rightarrow> (False, [])
      | (_, None) \<Rightarrow> (False, [])
      | (Some data, Some flds) \<Rightarrow> decode_fields data flds 0)"

end
