(* ===== verification/ModbusServer.thy ===== *)
theory ModbusServer
  imports ModbusPdu
begin

text \<open>
  The data units of \<open>XProtocol/XModbus/XModbusDataUnit.c\<close> and the request handling of
  \<open>XModbusServer.c\<close>: for each public function code the checks, the access to the data map, and
  the response or exception response.

  A data unit holds its values in a vector or, for discrete inputs and coils, in a bit array; both are a list
  here, with zeros and ones for bits (\<open>Values\<close>). A bit array whose block could not be allocated
  still reports its length (\<open>NoBlock\<close>), and an access to it is a read or write through NULL. Such
  an access, and a read behind the end of the request data, ends in the outer \<open>None\<close>.

  The data map is a finite map from register types to units. What a request allocates is an argument
  (\<open>server_env\<close>): the outcome of its first and second data unit, of the response object and
  its byte arrays, and the room of the array. So are the conversions of the option values, which belong to
  the variant class. The signals a request emits are a list.
\<close>

unbundle bit_operations_syntax

section \<open>Data units\<close>

datatype XModbusRegisterType =
  XModbusInvalid | XModbusDiscreteInputs | XModbusCoils | XModbusInputRegisters | XModbusHoldingRegisters

datatype container = Values "16 word list" | NoBlock size_t

record XModbusDataUnit =
  md_type :: XModbusRegisterType
  md_startAddress :: "16 word"
  md_data :: "container option"

datatype unit_alloc = NoUnit | NoContainer | Unsized | Sized

definition XModbusDataUnit_isBitType :: "XModbusRegisterType \<Rightarrow> bool" where
  "XModbusDataUnit_isBitType type \<longleftrightarrow> type = XModbusDiscreteInputs \<or> type = XModbusCoils"

definition XModbusDataUnit_createContainer ::
  "unit_alloc \<Rightarrow> XModbusRegisterType \<Rightarrow> size_t \<Rightarrow> container option" where
  "XModbusDataUnit_createContainer alloc type n =
     (case alloc of
        NoUnit \<Rightarrow> None
      | NoContainer \<Rightarrow> None
      | Unsized \<Rightarrow> Some (if XModbusDataUnit_isBitType type then NoBlock n else Values [])
      | Sized \<Rightarrow> Some (Values (replicate n 0)))"

definition XModbusDataUnit_init :: XModbusDataUnit where
  "XModbusDataUnit_init = \<lparr>md_type = XModbusInvalid, md_startAddress = 0xFFFF, md_data = None\<rparr>"

definition XModbusDataUnit_init_ex ::
  "unit_alloc \<Rightarrow> XModbusRegisterType \<Rightarrow> 16 word \<Rightarrow> size_t \<Rightarrow> XModbusDataUnit" where
  "XModbusDataUnit_init_ex alloc type start n =
     XModbusDataUnit_init\<lparr>md_type := type, md_startAddress := start,
       md_data := XModbusDataUnit_createContainer alloc type n\<rparr>"

definition XModbusDataUnit_create_ex ::
  "unit_alloc \<Rightarrow> XModbusRegisterType \<Rightarrow> 16 word \<Rightarrow> size_t \<Rightarrow> XModbusDataUnit option" where
  "XModbusDataUnit_create_ex alloc type start n =
     (if alloc = NoUnit then None
      else if type = XModbusInvalid then Some XModbusDataUnit_init
      else Some (XModbusDataUnit_init_ex alloc type start n))"

definition XModbusDataUnit_sameContainerType :: "XModbusRegisterType \<Rightarrow> XModbusRegisterType \<Rightarrow> bool" where
  "XModbusDataUnit_sameContainerType a b \<longleftrightarrow> XModbusDataUnit_isBitType a = XModbusDataUnit_isBitType b"

definition XModbusDataUnit_setStartAddress :: "XModbusDataUnit \<Rightarrow> 16 word \<Rightarrow> XModbusDataUnit" where
  "XModbusDataUnit_setStartAddress u start = u\<lparr>md_startAddress := start\<rparr>"

definition container_size :: "container option \<Rightarrow> size_t" where
  "container_size c = (case c of None \<Rightarrow> 0 | Some (Values vs) \<Rightarrow> length vs | Some (NoBlock n) \<Rightarrow> n)"

definition XModbusDataUnit_setRegisterType ::
  "unit_alloc \<Rightarrow> XModbusDataUnit \<Rightarrow> XModbusRegisterType \<Rightarrow> XModbusDataUnit" where
  "XModbusDataUnit_setRegisterType alloc u type =
     (let u1 = (if \<not> XModbusDataUnit_sameContainerType (md_type u) type
                then u\<lparr>md_data := XModbusDataUnit_createContainer alloc type (container_size (md_data u))\<rparr>
                else u)
      in u1\<lparr>md_type := type\<rparr>)"

definition XModbusDataUnit_setValue ::
  "XModbusDataUnit \<Rightarrow> size_t \<Rightarrow> 16 word \<Rightarrow> (bool \<times> XModbusDataUnit) option" where
  "XModbusDataUnit_setValue u index v =
     (if container_size (md_data u) \<le> index then Some (False, u)
      else case md_data u of
        Some (Values vs) \<Rightarrow>
          Some (True, u\<lparr>md_data := Some (Values (vs[index :=
            (if XModbusDataUnit_isBitType (md_type u) then (if v \<noteq> 0 then 1 else 0) else v)]))\<rparr>)
      | _ \<Rightarrow> None)"

definition XModbusDataUnit_isValid :: "XModbusDataUnit \<Rightarrow> bool" where
  "XModbusDataUnit_isValid u \<longleftrightarrow> md_type u \<noteq> XModbusInvalid \<and> md_startAddress u \<noteq> 0xFFFF"

definition XModbusDataUnit_registerType :: "XModbusDataUnit \<Rightarrow> XModbusRegisterType" where
  "XModbusDataUnit_registerType u = md_type u"

definition XModbusDataUnit_startAddress :: "XModbusDataUnit \<Rightarrow> int" where
  "XModbusDataUnit_startAddress u = uint (md_startAddress u)"

definition XModbusDataUnit_value :: "XModbusDataUnit \<Rightarrow> size_t \<Rightarrow> 16 word option" where
  "XModbusDataUnit_value u index =
     (if container_size (md_data u) \<le> index then Some 0
      else case md_data u of
        Some (Values vs) \<Rightarrow>
          Some (if XModbusDataUnit_isBitType (md_type u) then (if vs ! index \<noteq> 0 then 1 else 0) else vs ! index)
      | _ \<Rightarrow> None)"

definition XModbusDataUnit_valueCount :: "XModbusDataUnit \<Rightarrow> size_t" where
  "XModbusDataUnit_valueCount u = container_size (md_data u)"

definition VXModbusDataUnit_move :: "XModbusDataUnit \<Rightarrow> XModbusDataUnit \<Rightarrow> XModbusDataUnit \<times> XModbusDataUnit" where
  "VXModbusDataUnit_move u src =
     (u\<lparr>md_type := md_type src, md_startAddress := md_startAddress src, md_data := md_data src\<rparr>,
      src\<lparr>md_data := None, md_type := XModbusInvalid, md_startAddress := 0xFFFF\<rparr>)"

definition VXModbusDataUnit_deinit :: "XModbusDataUnit \<Rightarrow> XModbusDataUnit" where
  "VXModbusDataUnit_deinit u = u\<lparr>md_data := None, md_startAddress := 0xFFFF, md_type := XModbusInvalid\<rparr>"

section \<open>The server and its data map\<close>

type_synonym data_map = "XModbusRegisterType \<rightharpoonup> XModbusDataUnit"

record 'v XModbusServer =
  ms_serverAddress :: int
  ms_dataMap :: "data_map option"
  ms_options :: "(int \<rightharpoonup> 'v) option"

type_synonym signals = "(XModbusRegisterType \<times> int \<times> int) list"

primrec copy_values ::
  "XModbusDataUnit \<Rightarrow> size_t \<Rightarrow> XModbusDataUnit \<Rightarrow> size_t \<Rightarrow> nat \<Rightarrow> XModbusDataUnit option" where
  "copy_values src so dst d 0 = Some dst"
| "copy_values src so dst d (Suc n) = do {
     v \<leftarrow> XModbusDataUnit_value src so;
     (ok, dst') \<leftarrow> XModbusDataUnit_setValue dst d v;
     copy_values src (so + 1) dst' (d + 1) n
   }"

definition VXModbusServer_writeData ::
  "'v XModbusServer \<Rightarrow> XModbusDataUnit \<Rightarrow> (bool \<times> 'v XModbusServer \<times> signals) option" where
  "VXModbusServer_writeData server u =
     (case ms_dataMap server of
        None \<Rightarrow> Some (False, server, [])
      | Some m \<Rightarrow>
          if \<not> XModbusDataUnit_isValid u then Some (False, server, [])
          else case m (XModbusDataUnit_registerType u) of
            None \<Rightarrow> Some (False, server, [])
          | Some target \<Rightarrow>
              let startAddr = nat (XModbusDataUnit_startAddress u);
                  targetStart = nat (XModbusDataUnit_startAddress target);
                  targetCount = XModbusDataUnit_valueCount target;
                  writeCount = XModbusDataUnit_valueCount u
              in if startAddr < targetStart \<or> targetStart + targetCount < startAddr + writeCount
                 then Some (False, server, [])
                 else do {
                   target' \<leftarrow> copy_values u 0 target (startAddr - targetStart) writeCount;
                   Some (True, server\<lparr>ms_dataMap := Some (m(XModbusDataUnit_registerType u \<mapsto> target'))\<rparr>,
                         [(XModbusDataUnit_registerType u, int startAddr, int writeCount)])
                 })"

definition VXModbusServer_readData ::
  "'v XModbusServer \<Rightarrow> XModbusDataUnit \<Rightarrow> (bool \<times> XModbusDataUnit) option" where
  "VXModbusServer_readData server u =
     (case ms_dataMap server of
        None \<Rightarrow> Some (False, u)
      | Some m \<Rightarrow>
          if \<not> XModbusDataUnit_isValid u then Some (False, u)
          else case m (XModbusDataUnit_registerType u) of
            None \<Rightarrow> Some (False, u)
          | Some source \<Rightarrow>
              let startAddr = nat (XModbusDataUnit_startAddress u);
                  sourceStart = nat (XModbusDataUnit_startAddress source);
                  sourceCount = XModbusDataUnit_valueCount source;
                  readCount = XModbusDataUnit_valueCount u
              in if startAddr < sourceStart \<or> sourceStart + sourceCount < startAddr + readCount
                 then Some (False, u)
                 else map_option (Pair True) (copy_values source (startAddr - sourceStart) u 0 readCount))"

definition VXModbusServer_value :: "'v XModbusServer \<Rightarrow> int \<Rightarrow> 'v option" where
  "VXModbusServer_value server opt = (case ms_options server of None \<Rightarrow> None | Some m \<Rightarrow> m opt)"

definition VXModbusServer_processesBroadcast :: "'v XModbusServer \<Rightarrow> bool" where
  "VXModbusServer_processesBroadcast server = False"

definition XModbusServer_serverAddress :: "'v XModbusServer \<Rightarrow> int" where
  "XModbusServer_serverAddress server = ms_serverAddress server"

definition XModbusServer_setServerAddress :: "'v XModbusServer \<Rightarrow> int \<Rightarrow> 'v XModbusServer" where
  "XModbusServer_setServerAddress server address = server\<lparr>ms_serverAddress := address\<rparr>"

text \<open>\<open>maps\<close> is whether the two maps could be created.\<close>

definition XModbusServer_init :: "bool \<Rightarrow> bool \<Rightarrow> 'v XModbusServer" where
  "XModbusServer_init data_map options =
     \<lparr>ms_serverAddress = 1, ms_dataMap = (if data_map then Some Map.empty else None),
      ms_options = (if options then Some Map.empty else None)\<rparr>"

definition VXModbusServer_deinit :: "'v XModbusServer \<Rightarrow> 'v XModbusServer" where
  "VXModbusServer_deinit server = server\<lparr>ms_dataMap := None, ms_options := None, ms_serverAddress := 0\<rparr>"

definition XModbusServer_data2 ::
  "unit_alloc \<Rightarrow> 'v XModbusServer \<Rightarrow> XModbusRegisterType \<Rightarrow> 16 word \<Rightarrow> (bool \<times> 16 word option) option" where
  "XModbusServer_data2 alloc server table address =
     (case XModbusDataUnit_create_ex alloc table address 1 of
        None \<Rightarrow> Some (False, None)
      | Some u \<Rightarrow> do {
          (result, u') \<leftarrow> VXModbusServer_readData server u;
          if result then do { v \<leftarrow> XModbusDataUnit_value u' 0; Some (True, Some v) } else Some (False, None)
        })"

definition XModbusServer_setData2 ::
  "unit_alloc \<Rightarrow> 'v XModbusServer \<Rightarrow> XModbusRegisterType \<Rightarrow> 16 word \<Rightarrow> 16 word \<Rightarrow>
     (bool \<times> 'v XModbusServer \<times> signals) option" where
  "XModbusServer_setData2 alloc server table address v =
     (case XModbusDataUnit_create_ex alloc table address 1 of
        None \<Rightarrow> Some (False, server, [])
      | Some u \<Rightarrow> do {
          (ok, u') \<leftarrow> XModbusDataUnit_setValue u 0 v;
          VXModbusServer_writeData server u'
        })"

end
