(* ===== verification/ModbusServe.thy ===== *)
theory ModbusServe
  imports ModbusServer
begin

text \<open>
  \<open>VXModbusServer_processRequest\<close>: one definition per function code of the source, in its order,
  and the dispatch. A handler returns the response (\<open>None\<close> for a NULL response), the server and the
  signals; the outer \<open>None\<close> is an access through NULL or behind the end of the request data.
\<close>

unbundle bit_operations_syntax

record 'v server_env =
  env_unit :: unit_alloc
  env_unit2 :: unit_alloc
  env_object :: "XModbusPdu option"
  env_array :: bool
  env_array2 :: bool
  env_room :: "nat \<Rightarrow> bool"
  env_toInt :: "'v \<Rightarrow> int"
  env_toString :: "'v \<Rightarrow> (byte list \<times> size_t) option"

type_synonym 'v served = "(XModbusPdu option \<times> 'v XModbusServer \<times> signals) option"

abbreviation (input) XModbusPdu_IllegalFunction :: "32 word" where "XModbusPdu_IllegalFunction \<equiv> 1"
abbreviation (input) XModbusPdu_IllegalDataAddress :: "32 word" where "XModbusPdu_IllegalDataAddress \<equiv> 2"
abbreviation (input) XModbusPdu_IllegalDataValue :: "32 word" where "XModbusPdu_IllegalDataValue \<equiv> 3"
abbreviation (input) XModbusPdu_ServerDeviceFailure :: "32 word" where "XModbusPdu_ServerDeviceFailure \<equiv> 4"

section \<open>Responses\<close>

definition createExceptionResponse :: "'v server_env \<Rightarrow> fcode \<Rightarrow> 32 word \<Rightarrow> XModbusPdu option" where
  "createExceptionResponse env fc ec =
     XModbusExceptionResponse_create_with_function_and_exception (env_array env) (env_array2 env)
       (env_room env) (env_object env) fc ec"

definition create_response :: "'v server_env \<Rightarrow> fcode \<Rightarrow> XModbusPdu option" where
  "create_response env code = XModbusResponse_create_with_code (env_array env) (env_array2 env) (env_object env) code"

text \<open>Bytes appended to the response; the source does not look at the result.\<close>

definition push_response :: "'v server_env \<Rightarrow> XModbusPdu \<Rightarrow> byte list \<Rightarrow> XModbusPdu" where
  "push_response env resp bs =
     (case mp_data resp of
        None \<Rightarrow> resp
      | Some d \<Rightarrow> (case XByteArray_push_back_2 (env_room env) d bs of
                    None \<Rightarrow> resp | Some d' \<Rightarrow> resp\<lparr>mp_data := Some d'\<rparr>))"

definition reject :: "'v server_env \<Rightarrow> 'v XModbusServer \<Rightarrow> fcode \<Rightarrow> 32 word \<Rightarrow> 'v served" where
  "reject env server code ec = Some (createExceptionResponse env code ec, server, [])"

definition readUint16FromData :: "byte list \<Rightarrow> nat \<Rightarrow> 16 word option" where
  "readUint16FromData data off =
     (if off + 1 < length data
      then Some (push_bit 8 (ucast (data ! off)) OR ucast (data ! (off + 1))) else None)"

definition read_byte :: "byte list \<Rightarrow> nat \<Rightarrow> byte option" where
  "read_byte data off = (if off < length data then Some (data ! off) else None)"

definition writeUint16ToData :: "16 word \<Rightarrow> byte list" where
  "writeUint16ToData v = [ucast (drop_bit 8 v), ucast v]"

section \<open>Reading\<close>

text \<open>One byte of a bit response: the bits from \<open>i\<close> on, at most eight and before \<open>quantity\<close>.\<close>

function pack_bits :: "XModbusDataUnit \<Rightarrow> nat \<Rightarrow> nat \<Rightarrow> nat \<Rightarrow> byte \<Rightarrow> byte option" where
  "pack_bits u quantity i b acc =
     (if b < 8 \<and> i < quantity then do {
        v \<leftarrow> XModbusDataUnit_value u i;
        pack_bits u quantity (i + 1) (b + 1) (if v \<noteq> 0 then acc OR push_bit b 1 else acc)
      }
      else Some acc)"
  by pat_completeness auto
termination by (relation "measure (\<lambda>(u, q, i, b, acc). q - i)") auto

declare pack_bits.simps [simp del]

function push_bits :: "'v server_env \<Rightarrow> XModbusDataUnit \<Rightarrow> nat \<Rightarrow> nat \<Rightarrow> XModbusPdu \<Rightarrow> XModbusPdu option" where
  "push_bits env u quantity i resp =
     (if i < quantity then do {
        byte \<leftarrow> pack_bits u quantity i 0 0;
        push_bits env u quantity (i + min 8 (quantity - i)) (push_response env resp [byte])
      }
      else Some resp)"
  by pat_completeness auto
termination by (relation "measure (\<lambda>(env, u, q, i, resp). q - i)") auto

declare push_bits.simps [simp del]

function push_registers :: "'v server_env \<Rightarrow> XModbusDataUnit \<Rightarrow> nat \<Rightarrow> nat \<Rightarrow> XModbusPdu \<Rightarrow> XModbusPdu option" where
  "push_registers env u quantity i resp =
     (if i < quantity then do {
        reg \<leftarrow> XModbusDataUnit_value u i;
        push_registers env u quantity (i + 1) (push_response env resp (writeUint16ToData reg))
      }
      else Some resp)"
  by pat_completeness auto
termination by (relation "measure (\<lambda>(env, u, q, i, resp). q - i)") auto

declare push_registers.simps [simp del]

definition serve_bits ::
  "'v server_env \<Rightarrow> 'v XModbusServer \<Rightarrow> fcode \<Rightarrow> byte list \<Rightarrow> XModbusRegisterType \<Rightarrow> 'v served" where
  "serve_bits env server code data table =
     (if length data < 4 then reject env server code XModbusPdu_IllegalDataValue
      else do {
        startAddress \<leftarrow> readUint16FromData data 0;
        quantity \<leftarrow> readUint16FromData data 2;
        if quantity < 1 \<or> 2000 < quantity then reject env server code XModbusPdu_IllegalDataValue
        else case XModbusDataUnit_create_ex (env_unit env) table startAddress (unat quantity) of
          None \<Rightarrow> reject env server code XModbusPdu_ServerDeviceFailure
        | Some u \<Rightarrow> do {
            (ok, u') \<leftarrow> VXModbusServer_readData server u;
            if \<not> ok then reject env server code XModbusPdu_IllegalDataAddress
            else do {
              let byteCount = of_nat ((unat quantity + 7) div 8);
              response \<leftarrow> create_response env code;
              response' \<leftarrow> push_bits env u' (unat quantity) 0 (push_response env response [byteCount]);
              Some (Some response', server, [])
            }
          }
      })"

definition serve_registers ::
  "'v server_env \<Rightarrow> 'v XModbusServer \<Rightarrow> fcode \<Rightarrow> byte list \<Rightarrow> XModbusRegisterType \<Rightarrow> 'v served" where
  "serve_registers env server code data table =
     (if length data < 4 then reject env server code XModbusPdu_IllegalDataValue
      else do {
        startAddress \<leftarrow> readUint16FromData data 0;
        quantity \<leftarrow> readUint16FromData data 2;
        if quantity < 1 \<or> 125 < quantity then reject env server code XModbusPdu_IllegalDataValue
        else case XModbusDataUnit_create_ex (env_unit env) table startAddress (unat quantity) of
          None \<Rightarrow> reject env server code XModbusPdu_ServerDeviceFailure
        | Some u \<Rightarrow> do {
            (ok, u') \<leftarrow> VXModbusServer_readData server u;
            if \<not> ok then reject env server code XModbusPdu_IllegalDataAddress
            else do {
              let byteCount = of_nat (unat quantity * 2);
              response \<leftarrow> create_response env code;
              response' \<leftarrow> push_registers env u' (unat quantity) 0 (push_response env response [byteCount]);
              Some (Some response', server, [])
            }
          }
      })"

text \<open>The four reading codes have the same text in the source, for their table and limit.\<close>

definition serve_ReadCoils :: "'v server_env \<Rightarrow> 'v XModbusServer \<Rightarrow> fcode \<Rightarrow> byte list \<Rightarrow> 'v served" where
  "serve_ReadCoils env server code data = serve_bits env server code data XModbusCoils"

definition serve_ReadDiscreteInputs ::
  "'v server_env \<Rightarrow> 'v XModbusServer \<Rightarrow> fcode \<Rightarrow> byte list \<Rightarrow> 'v served" where
  "serve_ReadDiscreteInputs env server code data = serve_bits env server code data XModbusDiscreteInputs"

definition serve_ReadHoldingRegisters ::
  "'v server_env \<Rightarrow> 'v XModbusServer \<Rightarrow> fcode \<Rightarrow> byte list \<Rightarrow> 'v served" where
  "serve_ReadHoldingRegisters env server code data = serve_registers env server code data XModbusHoldingRegisters"

definition serve_ReadInputRegisters ::
  "'v server_env \<Rightarrow> 'v XModbusServer \<Rightarrow> fcode \<Rightarrow> byte list \<Rightarrow> 'v served" where
  "serve_ReadInputRegisters env server code data = serve_registers env server code data XModbusInputRegisters"

section \<open>Writing\<close>

text \<open>
  The end of every writing code: the write, then a response with the given data.
  \<open>set_response\<close> is \<open>XModbusPdu_setData\<close> on a response that may be NULL.
\<close>

definition set_response :: "'v server_env \<Rightarrow> fcode \<Rightarrow> byte list \<Rightarrow> XModbusPdu option" where
  "set_response env code bs =
     map_option (\<lambda>r. XModbusPdu_setData (env_room env) r (Some bs)) (create_response env code)"

definition serve_WriteSingleCoil ::
  "'v server_env \<Rightarrow> 'v XModbusServer \<Rightarrow> fcode \<Rightarrow> byte list \<Rightarrow> 'v served" where
  "serve_WriteSingleCoil env server code data =
     (if length data < 4 then reject env server code XModbusPdu_IllegalDataValue
      else do {
        address \<leftarrow> readUint16FromData data 0;
        v \<leftarrow> readUint16FromData data 2;
        if v \<noteq> 0x0000 \<and> v \<noteq> 0xFF00 then reject env server code XModbusPdu_IllegalDataValue
        else case XModbusDataUnit_create_ex (env_unit env) XModbusCoils address 1 of
          None \<Rightarrow> reject env server code XModbusPdu_ServerDeviceFailure
        | Some u \<Rightarrow> do {
            (set, u1) \<leftarrow> XModbusDataUnit_setValue u 0 (if v = 0xFF00 then 1 else 0);
            (ok, server', sigs) \<leftarrow> VXModbusServer_writeData server u1;
            if \<not> ok then reject env server code XModbusPdu_IllegalDataAddress
            else Some (set_response env code (take 4 data), server', sigs)
          }
      })"

definition serve_WriteSingleRegister ::
  "'v server_env \<Rightarrow> 'v XModbusServer \<Rightarrow> fcode \<Rightarrow> byte list \<Rightarrow> 'v served" where
  "serve_WriteSingleRegister env server code data =
     (if length data < 4 then reject env server code XModbusPdu_IllegalDataValue
      else do {
        address \<leftarrow> readUint16FromData data 0;
        v \<leftarrow> readUint16FromData data 2;
        case XModbusDataUnit_create_ex (env_unit env) XModbusHoldingRegisters address 1 of
          None \<Rightarrow> reject env server code XModbusPdu_ServerDeviceFailure
        | Some u \<Rightarrow> do {
            (set, u1) \<leftarrow> XModbusDataUnit_setValue u 0 v;
            (ok, server', sigs) \<leftarrow> VXModbusServer_writeData server u1;
            if \<not> ok then reject env server code XModbusPdu_IllegalDataAddress
            else Some (set_response env code (take 4 data), server', sigs)
          }
      })"

text \<open>The loops that fill a unit from the request; the index of the coil bytes is a byte in the source.\<close>

primrec fill_coils :: "byte list \<Rightarrow> XModbusDataUnit \<Rightarrow> nat \<Rightarrow> nat \<Rightarrow> XModbusDataUnit option" where
  "fill_coils data u i 0 = Some u"
| "fill_coils data u i (Suc n) = do {
     b \<leftarrow> read_byte data ((5 + i div 8) mod 256);
     (set, u') \<leftarrow> XModbusDataUnit_setValue u i (ucast (drop_bit (i mod 8) b AND 0x01));
     fill_coils data u' (i + 1) n
   }"

primrec fill_registers :: "byte list \<Rightarrow> nat \<Rightarrow> XModbusDataUnit \<Rightarrow> nat \<Rightarrow> nat \<Rightarrow> XModbusDataUnit option" where
  "fill_registers data base u i 0 = Some u"
| "fill_registers data base u i (Suc n) = do {
     v \<leftarrow> readUint16FromData data (base + i * 2);
     (set, u') \<leftarrow> XModbusDataUnit_setValue u i v;
     fill_registers data base u' (i + 1) n
   }"

definition serve_WriteMultipleCoils ::
  "'v server_env \<Rightarrow> 'v XModbusServer \<Rightarrow> fcode \<Rightarrow> byte list \<Rightarrow> 'v served" where
  "serve_WriteMultipleCoils env server code data =
     (if length data < 5 then reject env server code XModbusPdu_IllegalDataValue
      else do {
        startAddress \<leftarrow> readUint16FromData data 0;
        quantity \<leftarrow> readUint16FromData data 2;
        byteCount \<leftarrow> read_byte data 4;
        if quantity < 1 \<or> 1968 < quantity then reject env server code XModbusPdu_IllegalDataValue
        else let expectedBytes = of_nat ((unat quantity + 7) div 8) in
          if byteCount \<noteq> expectedBytes \<or> length data < 5 + unat byteCount
          then reject env server code XModbusPdu_IllegalDataValue
          else case XModbusDataUnit_create_ex (env_unit env) XModbusCoils startAddress (unat quantity) of
            None \<Rightarrow> reject env server code XModbusPdu_ServerDeviceFailure
          | Some u \<Rightarrow> do {
              u1 \<leftarrow> fill_coils data u 0 (unat quantity);
              (ok, server', sigs) \<leftarrow> VXModbusServer_writeData server u1;
              if \<not> ok then reject env server code XModbusPdu_IllegalDataAddress
              else do {
                response \<leftarrow> create_response env code;
                Some (Some (push_response env response (writeUint16ToData startAddress @ writeUint16ToData quantity)),
                      server', sigs)
              }
            }
      })"

definition serve_WriteMultipleRegisters ::
  "'v server_env \<Rightarrow> 'v XModbusServer \<Rightarrow> fcode \<Rightarrow> byte list \<Rightarrow> 'v served" where
  "serve_WriteMultipleRegisters env server code data =
     (if length data < 5 then reject env server code XModbusPdu_IllegalDataValue
      else do {
        startAddress \<leftarrow> readUint16FromData data 0;
        quantity \<leftarrow> readUint16FromData data 2;
        byteCount \<leftarrow> read_byte data 4;
        if quantity < 1 \<or> 123 < quantity then reject env server code XModbusPdu_IllegalDataValue
        else if unat byteCount \<noteq> unat quantity * 2 \<or> length data < 5 + unat byteCount
          then reject env server code XModbusPdu_IllegalDataValue
          else case XModbusDataUnit_create_ex (env_unit env) XModbusHoldingRegisters startAddress (unat quantity) of
            None \<Rightarrow> reject env server code XModbusPdu_ServerDeviceFailure
          | Some u \<Rightarrow> do {
              u1 \<leftarrow> fill_registers data 5 u 0 (unat quantity);
              (ok, server', sigs) \<leftarrow> VXModbusServer_writeData server u1;
              if \<not> ok then reject env server code XModbusPdu_IllegalDataAddress
              else do {
                response \<leftarrow> create_response env code;
                Some (Some (push_response env response (writeUint16ToData startAddress @ writeUint16ToData quantity)),
                      server', sigs)
              }
            }
      })"

section \<open>Status, diagnostics, identification\<close>

definition serve_ReadExceptionStatus ::
  "'v server_env \<Rightarrow> 'v XModbusServer \<Rightarrow> fcode \<Rightarrow> byte list \<Rightarrow> 'v served" where
  "serve_ReadExceptionStatus env server code data =
     (let off = (case VXModbusServer_value server 1 of
                   None \<Rightarrow> 0 | Some v \<Rightarrow> (word_of_int (env_toInt env v) :: 16 word))
      in case XModbusDataUnit_create_ex (env_unit env) XModbusCoils off 8 of
           None \<Rightarrow> reject env server code XModbusPdu_ServerDeviceFailure
         | Some u \<Rightarrow> do {
             (ok, u') \<leftarrow> VXModbusServer_readData server u;
             status \<leftarrow> (if ok then pack_bits u' 8 0 0 0 else Some 0);
             Some (set_response env code [status], server, [])
           })"

definition serve_Diagnostics :: "'v server_env \<Rightarrow> 'v XModbusServer \<Rightarrow> fcode \<Rightarrow> byte list \<Rightarrow> 'v served" where
  "serve_Diagnostics env server code data =
     (if length data < 4 then reject env server code XModbusPdu_IllegalDataValue
      else do {
        subFunc \<leftarrow> readUint16FromData data 0;
        dataValue \<leftarrow> readUint16FromData data 2;
        response \<leftarrow> create_response env code;
        if subFunc \<in> {0x0001, 0x0002, 0x0003, 0x0004, 0x000A, 0x000B, 0x000C, 0x000D, 0x000E, 0x000F, 0x0010, 0x0011, 0x0012}
        then Some (Some (push_response env response (writeUint16ToData subFunc @ writeUint16ToData dataValue)), server, [])
        else reject env server code XModbusPdu_IllegalFunction
      })"

definition serve_GetCommEventCounter ::
  "'v server_env \<Rightarrow> 'v XModbusServer \<Rightarrow> fcode \<Rightarrow> byte list \<Rightarrow> 'v served" where
  "serve_GetCommEventCounter env server code data = do {
     response \<leftarrow> create_response env code;
     Some (Some (push_response env response (writeUint16ToData 0xFFFF @ writeUint16ToData 0)), server, [])
   }"

definition serve_GetCommEventLog ::
  "'v server_env \<Rightarrow> 'v XModbusServer \<Rightarrow> fcode \<Rightarrow> byte list \<Rightarrow> 'v served" where
  "serve_GetCommEventLog env server code data = do {
     response \<leftarrow> create_response env code;
     let r1 = push_response env response [6];
     Some (Some (push_response env r1 (writeUint16ToData 0xFFFF @ writeUint16ToData 0 @ writeUint16ToData 0)), server, [])
   }"

text \<open>\<open>''XModbus Server''\<close> is the default of the additional data.\<close>

definition default_additional_data :: "byte list" where
  "default_additional_data = [88, 77, 111, 100, 98, 117, 115, 32, 83, 101, 114, 118, 101, 114]"

definition serve_ReportServerId ::
  "'v server_env \<Rightarrow> 'v XModbusServer \<Rightarrow> fcode \<Rightarrow> byte list \<Rightarrow> 'v served" where
  "serve_ReportServerId env server code data = do {
     response \<leftarrow> create_response env code;
     let serverId = (case VXModbusServer_value server 5 of None \<Rightarrow> 0x0A | Some v \<Rightarrow> word_of_int (env_toInt env v));
     let runStatus = (case VXModbusServer_value server 6 of None \<Rightarrow> 0xFF | Some v \<Rightarrow> word_of_int (env_toInt env v));
     let (addDataStr, addDataLen) =
       (case VXModbusServer_value server 7 of
          None \<Rightarrow> (default_additional_data, 14)
        | Some v \<Rightarrow> (case env_toString env v of
                       None \<Rightarrow> (default_additional_data, 14)
                     | Some (utf8, n) \<Rightarrow> (utf8, if 249 < n then 249 else n)));
     let r1 = push_response env response [of_nat (2 + addDataLen)];
     let r2 = push_response env r1 [serverId];
     let r3 = push_response env r2 [runStatus];
     Some (Some (push_response env r3 (take addDataLen addDataStr)), server, [])
   }"

definition serve_MaskWriteRegister ::
  "'v server_env \<Rightarrow> 'v XModbusServer \<Rightarrow> fcode \<Rightarrow> byte list \<Rightarrow> 'v served" where
  "serve_MaskWriteRegister env server code data =
     (if length data < 8 then reject env server code XModbusPdu_IllegalDataValue
      else do {
        address \<leftarrow> readUint16FromData data 0;
        andMask \<leftarrow> readUint16FromData data 2;
        orMask \<leftarrow> readUint16FromData data 4;
        case XModbusDataUnit_create_ex (env_unit env) XModbusHoldingRegisters address 1 of
          None \<Rightarrow> reject env server code XModbusPdu_ServerDeviceFailure
        | Some u \<Rightarrow> do {
            (ok, u1) \<leftarrow> VXModbusServer_readData server u;
            if \<not> ok then reject env server code XModbusPdu_IllegalDataAddress
            else do {
              currentValue \<leftarrow> XModbusDataUnit_value u1 0;
              let newValue = (currentValue AND andMask) OR (orMask AND NOT andMask);
              (set, u2) \<leftarrow> XModbusDataUnit_setValue u1 0 newValue;
              (ok2, server', sigs) \<leftarrow> VXModbusServer_writeData server u2;
              if \<not> ok2 then reject env server code XModbusPdu_ServerDeviceFailure
              else Some (set_response env code (take 8 data), server', sigs)
            }
          }
      })"

definition serve_ReadWriteMultipleRegisters ::
  "'v server_env \<Rightarrow> 'v XModbusServer \<Rightarrow> fcode \<Rightarrow> byte list \<Rightarrow> 'v served" where
  "serve_ReadWriteMultipleRegisters env server code data =
     (if length data < 9 then reject env server code XModbusPdu_IllegalDataValue
      else do {
        readStartAddr \<leftarrow> readUint16FromData data 0;
        readQuantity \<leftarrow> readUint16FromData data 2;
        writeStartAddr \<leftarrow> readUint16FromData data 4;
        writeQuantity \<leftarrow> readUint16FromData data 6;
        writeByteCount \<leftarrow> read_byte data 8;
        if readQuantity < 1 \<or> 125 < readQuantity then reject env server code XModbusPdu_IllegalDataValue
        else if writeQuantity < 1 \<or> 121 < writeQuantity then reject env server code XModbusPdu_IllegalDataValue
        else if unat writeByteCount \<noteq> unat writeQuantity * 2 \<or> length data < 9 + unat writeByteCount
          then reject env server code XModbusPdu_IllegalDataValue
        else case XModbusDataUnit_create_ex (env_unit env) XModbusHoldingRegisters writeStartAddr (unat writeQuantity) of
          None \<Rightarrow> reject env server code XModbusPdu_ServerDeviceFailure
        | Some w \<Rightarrow> do {
            w1 \<leftarrow> fill_registers data 9 w 0 (unat writeQuantity);
            (ok, server1, sigs) \<leftarrow> VXModbusServer_writeData server w1;
            if \<not> ok then reject env server code XModbusPdu_IllegalDataAddress
            else case XModbusDataUnit_create_ex (env_unit2 env) XModbusHoldingRegisters readStartAddr (unat readQuantity) of
              None \<Rightarrow> Some (createExceptionResponse env code XModbusPdu_ServerDeviceFailure, server1, sigs)
            | Some r \<Rightarrow> do {
                (ok2, r1) \<leftarrow> VXModbusServer_readData server1 r;
                if \<not> ok2 then Some (createExceptionResponse env code XModbusPdu_IllegalDataAddress, server1, sigs)
                else do {
                  let respByteCount = of_nat (unat readQuantity * 2);
                  response \<leftarrow> create_response env code;
                  response' \<leftarrow> push_registers env r1 (unat readQuantity) 0 (push_response env response [respByteCount]);
                  Some (Some response', server1, sigs)
                }
              }
          }
      })"

definition serve_ReadFifoQueue :: "'v server_env \<Rightarrow> 'v XModbusServer \<Rightarrow> fcode \<Rightarrow> byte list \<Rightarrow> 'v served" where
  "serve_ReadFifoQueue env server code data =
     (if length data < 2 then reject env server code XModbusPdu_IllegalDataValue
      else do {
        fifoAddress \<leftarrow> readUint16FromData data 0;
        response \<leftarrow> create_response env code;
        Some (Some (push_response env response (writeUint16ToData 2 @ writeUint16ToData 0)), server, [])
      })"

definition serve_EncapsulatedInterfaceTransport ::
  "'v server_env \<Rightarrow> 'v XModbusServer \<Rightarrow> fcode \<Rightarrow> byte list \<Rightarrow> 'v served" where
  "serve_EncapsulatedInterfaceTransport env server code data =
     (if length data < 3 then reject env server code XModbusPdu_IllegalDataValue
      else do {
        meiType \<leftarrow> read_byte data 0;
        readDeviceIdCode \<leftarrow> read_byte data 1;
        objectId \<leftarrow> read_byte data 2;
        if meiType = 0x0E then do {
          response \<leftarrow> create_response env code;
          Some (Some (foldl (push_response env) response
            [[0x0E], [readDeviceIdCode], [0x83], [0x00], [0x00], [0x03],
             [0x00], [0x04], [88, 76, 105, 98],
             [0x01], [0x04], [88, 48, 48, 49],
             [0x02], [0x05], [49, 46, 48, 46, 48]]), server, [])
        }
        else reject env server code XModbusPdu_IllegalFunction
      })"

section \<open>Dispatch\<close>

definition VXModbusServer_processPrivateRequest ::
  "'v server_env \<Rightarrow> 'v XModbusServer \<Rightarrow> XModbusPdu \<Rightarrow> 'v served" where
  "VXModbusServer_processPrivateRequest env server request =
     reject env server (XModbusPdu_functionCode request) XModbusPdu_IllegalFunction"

definition VXModbusServer_processRequest ::
  "'v server_env \<Rightarrow> 'v XModbusServer \<Rightarrow> XModbusPdu \<Rightarrow> 'v served" where
  "VXModbusServer_processRequest env server request =
     (let code = XModbusPdu_functionCode request in
      case mp_data request of
        None \<Rightarrow> None
      | Some data \<Rightarrow>
          if ms_dataMap server = None then reject env server code XModbusPdu_ServerDeviceFailure
          else if code = XModbusPdu_ReadCoils then serve_ReadCoils env server code data
          else if code = XModbusPdu_ReadDiscreteInputs then serve_ReadDiscreteInputs env server code data
          else if code = XModbusPdu_ReadHoldingRegisters then serve_ReadHoldingRegisters env server code data
          else if code = XModbusPdu_ReadInputRegisters then serve_ReadInputRegisters env server code data
          else if code = XModbusPdu_WriteSingleCoil then serve_WriteSingleCoil env server code data
          else if code = XModbusPdu_WriteSingleRegister then serve_WriteSingleRegister env server code data
          else if code = XModbusPdu_ReadExceptionStatus then serve_ReadExceptionStatus env server code data
          else if code = XModbusPdu_Diagnostics then serve_Diagnostics env server code data
          else if code = XModbusPdu_GetCommEventCounter then serve_GetCommEventCounter env server code data
          else if code = XModbusPdu_GetCommEventLog then serve_GetCommEventLog env server code data
          else if code = XModbusPdu_WriteMultipleCoils then serve_WriteMultipleCoils env server code data
          else if code = XModbusPdu_WriteMultipleRegisters then serve_WriteMultipleRegisters env server code data
          else if code = XModbusPdu_ReportServerId then serve_ReportServerId env server code data
          else if code = XModbusPdu_MaskWriteRegister then serve_MaskWriteRegister env server code data
          else if code = XModbusPdu_ReadWriteMultipleRegisters then serve_ReadWriteMultipleRegisters env server code data
          else if code = XModbusPdu_ReadFifoQueue then serve_ReadFifoQueue env server code data
          else if code = XModbusPdu_EncapsulatedInterfaceTransport
            then serve_EncapsulatedInterfaceTransport env server code data
          else VXModbusServer_processPrivateRequest env server request)"

end
