(* ===== verification/RegisterBank.thy ===== *)
theory RegisterBank
  imports XPrelude
begin

text \<open>
  The contract of a bank of registers: tables of numbered registers, some of which exist, written in
  blocks. A block is written completely or not at all, and only where every register exists.
\<close>

locale register_bank =
  fixes get :: "'s \<Rightarrow> 'k \<Rightarrow> nat \<Rightarrow> 'v option"
    and put :: "'s \<Rightarrow> 'k \<Rightarrow> nat \<Rightarrow> 'v list \<Rightarrow> 's option"
    and ok :: "'s \<Rightarrow> bool"
  assumes put_get: "ok s \<Longrightarrow> put s k a vs = Some s' \<Longrightarrow>
      get s' k' b = (if k' = k \<and> a \<le> b \<and> b < a + length vs then Some (vs ! (b - a)) else get s k' b)"
    and put_present: "ok s \<Longrightarrow> put s k a vs = Some s' \<Longrightarrow> i < length vs \<Longrightarrow> get s k (a + i) \<noteq> None"
    and put_ok: "ok s \<Longrightarrow> put s k a vs = Some s' \<Longrightarrow> ok s'"
begin

lemma read_back:
  assumes "ok s" and "put s k a vs = Some s'"
  shows "map (get s' k) [a..<a + length vs] = map Some vs"
  using put_get [OF assms] by (intro nth_equalityI) simp_all

lemma same_registers:
  assumes "ok s" and "put s k a vs = Some s'"
  shows "get s' k' b = None \<longleftrightarrow> get s k' b = None"
proof -
  have "get s k b \<noteq> None" if "a \<le> b" "b < a + length vs"
    using put_present [OF assms, of "b - a"] that by simp
  then show ?thesis by (auto simp: put_get [OF assms])
qed

lemma other_table: "ok s \<Longrightarrow> put s k a vs = Some s' \<Longrightarrow> k' \<noteq> k \<Longrightarrow> get s' k' b = get s k' b"
  by (simp add: put_get)

text \<open>Any number of writes, in order: a register holds what the last write to it put there.\<close>

primrec puts :: "'s \<Rightarrow> ('k \<times> nat \<times> 'v list) list \<Rightarrow> 's option" where
  "puts s [] = Some s"
| "puts s (w # ws) = (case put s (fst w) (fst (snd w)) (snd (snd w)) of None \<Rightarrow> None | Some s' \<Rightarrow> puts s' ws)"

lemma puts_untouched:
  assumes "ok s" and "puts s ws = Some s'"
    and "\<And>k' a vs. (k', a, vs) \<in> set ws \<Longrightarrow> k' = k \<Longrightarrow> \<not> (a \<le> b \<and> b < a + length vs)"
  shows "get s' k b = get s k b"
  using assms
proof (induction ws arbitrary: s)
  case (Cons w ws)
  obtain k' a vs where w: "w = (k', a, vs)" by (cases w)
  with Cons.prems obtain s1 where s1: "put s k' a vs = Some s1" "puts s1 ws = Some s'"
    by (auto split: option.splits)
  have "get s1 k b = get s k b"
    using Cons.prems(3) [of k' a vs] w put_get [OF Cons.prems(1) s1(1), of k b] by auto
  moreover have "get s' k b = get s1 k b"
    using Cons.IH [OF put_ok [OF Cons.prems(1) s1(1)] s1(2)] Cons.prems(3) by simp
  ultimately show ?case by simp
qed simp

end

end
