(* ===== verification/ModbusBank.thy ===== *)
theory ModbusBank
  imports ModbusServer RegisterBank
begin

text \<open>
  The data map of the Modbus server as a bank of registers: what reading and writing a block through the
  server does to the values of the units, and the interpretation of the register contract on the server.
\<close>

unbundle bit_operations_syntax

section \<open>Units\<close>

text \<open>A unit of the data map: its values are allocated, and those of a bit table are bits.\<close>

definition unit_ok :: "XModbusDataUnit \<Rightarrow> bool" where
  "unit_ok u = (case md_data u of
     Some (Values vs) \<Rightarrow> XModbusDataUnit_isBitType (md_type u) \<longrightarrow> list_all (\<lambda>v. v = 0 \<or> v = 1) vs
   | _ \<Rightarrow> False)"

definition unit_values :: "XModbusDataUnit \<Rightarrow> 16 word list" where
  "unit_values u = (case md_data u of Some (Values vs) \<Rightarrow> vs | _ \<Rightarrow> [])"

definition normal :: "XModbusRegisterType \<Rightarrow> 16 word \<Rightarrow> 16 word" where
  "normal type v = (if XModbusDataUnit_isBitType type then (if v \<noteq> 0 then 1 else 0) else v)"

lemma normal_idem [simp]: "normal type (normal type v) = normal type v"
  by (simp add: normal_def)

lemma unit_okE:
  assumes "unit_ok u"
  obtains vs where "md_data u = Some (Values vs)" "unit_values u = vs"
    "\<forall>v\<in>set vs. normal (md_type u) v = v"
proof -
  obtain vs where d: "md_data u = Some (Values vs)"
    and b: "XModbusDataUnit_isBitType (md_type u) \<Longrightarrow> \<forall>v\<in>set vs. v = 0 \<or> v = 1"
    using assms by (auto simp: unit_ok_def list_all_iff split: option.splits container.splits)
  have "\<forall>v\<in>set vs. normal (md_type u) v = v" using b by (auto simp: normal_def)
  with d show ?thesis by (intro that) (simp_all add: unit_values_def)
qed

lemma unit_okI: "(\<And>v. v \<in> set vs \<Longrightarrow> normal (md_type u) v = v) \<Longrightarrow> md_data u = Some (Values vs) \<Longrightarrow> unit_ok u"
  by (force simp: unit_ok_def normal_def list_all_iff split: if_splits)

lemma setValue_values:
  assumes "md_data u = Some (Values vs)"
  shows "XModbusDataUnit_setValue u i v = Some (i < length vs,
    u\<lparr>md_data := Some (Values (vs[i := normal (md_type u) v]))\<rparr>)"
  using assms by (cases u; cases "i < length vs")
    (simp_all add: XModbusDataUnit_setValue_def container_size_def normal_def not_less list_update_beyond)

lemma value_values:
  assumes "md_data u = Some (Values vs)"
  shows "XModbusDataUnit_value u i = Some (if i < length vs then normal (md_type u) (vs ! i) else 0)"
  using assms by (simp add: XModbusDataUnit_value_def container_size_def normal_def not_less)

lemma memcpy_at_update:
  assumes "d < length ys"
  shows "memcpy_at (ys[d := x]) (Suc d) zs = memcpy_at ys d (x # zs)"
proof -
  have "take (Suc d) (ys[d := x]) = take d ys @ [x]"
    using assms by (simp add: take_Suc_conv_app_nth)
  then show ?thesis by (simp add: memcpy_at_def)
qed

lemma copy_values_spec:
  assumes "md_data src = Some (Values xs)" and "md_data dst = Some (Values ys)"
    and "so + n \<le> length xs" and "d + n \<le> length ys" and "md_type src = md_type dst"
  shows "copy_values src so dst d n =
    Some (dst\<lparr>md_data := Some (Values (memcpy_at ys d (map (normal (md_type dst)) (take n (drop so xs)))))\<rparr>)"
  using assms
proof (induction n arbitrary: so d dst ys)
  case (Suc n)
  let ?f = "normal (md_type dst)"
  let ?dst = "dst\<lparr>md_data := Some (Values (ys[d := ?f (xs ! so)]))\<rparr>"
  have "copy_values src so dst d (Suc n) = copy_values src (Suc so) ?dst (Suc d) n"
    using Suc.prems by (simp add: value_values setValue_values)
  also have "\<dots> = Some (?dst\<lparr>md_data := Some (Values (memcpy_at (ys[d := ?f (xs ! so)]) (Suc d)
      (map ?f (take n (drop (Suc so) xs)))))\<rparr>)"
    using Suc.prems by (subst Suc.IH) simp_all
  also have "memcpy_at (ys[d := ?f (xs ! so)]) (Suc d) (map ?f (take n (drop (Suc so) xs))) =
      memcpy_at ys d (map ?f (take (Suc n) (drop so xs)))"
    using Suc.prems by (simp add: memcpy_at_update Cons_nth_drop_Suc [symmetric, of so xs])
  finally show ?case by simp
qed simp

section \<open>The bank of registers\<close>

definition register_types :: "XModbusRegisterType list" where
  "register_types = [XModbusInvalid, XModbusDiscreteInputs, XModbusCoils, XModbusInputRegisters,
     XModbusHoldingRegisters]"

definition bank_ok :: "'v XModbusServer \<Rightarrow> bool" where
  "bank_ok server = (case ms_dataMap server of None \<Rightarrow> True
     | Some m \<Rightarrow> list_all (\<lambda>type. case m type of None \<Rightarrow> True | Some u \<Rightarrow> md_type u = type \<and> unit_ok u)
                 register_types)"

lemma bank_okD:
  "bank_ok server \<Longrightarrow> ms_dataMap server = Some m \<Longrightarrow> m type = Some u \<Longrightarrow> md_type u = type \<and> unit_ok u"
  by (cases type) (auto simp: bank_ok_def register_types_def split: option.splits)

lemma bank_okI:
  "(\<And>m type u. ms_dataMap server = Some m \<Longrightarrow> m type = Some u \<Longrightarrow> md_type u = type \<and> unit_ok u) \<Longrightarrow>
    bank_ok server"
  by (auto simp: bank_ok_def register_types_def split: option.splits)

text \<open>The value of a register, and of a block of them when all are there.\<close>

definition register :: "'v XModbusServer \<Rightarrow> XModbusRegisterType \<Rightarrow> nat \<Rightarrow> 16 word option" where
  "register server type b = (case ms_dataMap server of None \<Rightarrow> None
     | Some m \<Rightarrow> (case m type of None \<Rightarrow> None
         | Some u \<Rightarrow> let a = unat (md_startAddress u) in
             if a \<le> b \<and> b < a + length (unit_values u) then Some (unit_values u ! (b - a)) else None))"

definition registers :: "'v XModbusServer \<Rightarrow> XModbusRegisterType \<Rightarrow> nat \<Rightarrow> nat \<Rightarrow> 16 word list option" where
  "registers server type a n =
     (if list_all (\<lambda>b. register server type b \<noteq> None) [a..<a + n]
      then Some (map (\<lambda>b. the (register server type b)) [a..<a + n]) else None)"

lemma length_registers: "registers server type a n = Some vs \<Longrightarrow> length vs = n"
  by (auto simp: registers_def split: if_splits)

lemma registers_in_unit:
  assumes m: "ms_dataMap server = Some m" "m type = Some t" and n: "0 < n"
  shows "registers server type a n =
    (if a < unat (md_startAddress t) \<or> unat (md_startAddress t) + length (unit_values t) < a + n then None
     else Some (take n (drop (a - unat (md_startAddress t)) (unit_values t))))"
proof -
  let ?b = "unat (md_startAddress t)" and ?vs = "unit_values t"
  have reg: "register server type i = (if ?b \<le> i \<and> i < ?b + length ?vs then Some (?vs ! (i - ?b)) else None)" for i
    using m by (simp add: register_def Let_def)
  have all: "list_all (\<lambda>i. register server type i \<noteq> None) [a..<a + n] \<longleftrightarrow> ?b \<le> a \<and> a + n \<le> ?b + length ?vs"
    (is "?l \<longleftrightarrow> ?r")
  proof
    assume ?l
    then have "register server type a \<noteq> None" "register server type (a + n - 1) \<noteq> None"
      using n by (simp_all add: list_all_iff)
    then show ?r using n by (auto simp: reg split: if_splits)
  qed (auto simp: list_all_iff reg)
  have "map (\<lambda>i. the (register server type i)) [a..<a + n] = take n (drop (a - ?b) ?vs)"
    if "?b \<le> a" "a + n \<le> ?b + length ?vs"
    using that by (intro nth_equalityI) (simp_all add: reg)
  then show ?thesis unfolding registers_def all by auto
qed

lemma registers_no_unit:
  "0 < n \<Longrightarrow> ms_dataMap server = Some m \<Longrightarrow> m type = None \<Longrightarrow> registers server type a n = None"
  by (simp add: registers_def register_def upt_rec)

lemmas unit_queries = XModbusDataUnit_isValid_def XModbusDataUnit_registerType_def
  XModbusDataUnit_startAddress_def XModbusDataUnit_valueCount_def

lemma readData_spec:
  assumes ok: "bank_ok server" and m: "ms_dataMap server = Some m"
    and u: "md_data u = Some (Values us)" "us \<noteq> []" "md_type u \<noteq> XModbusInvalid"
  shows "VXModbusServer_readData server u = Some
    (case (if md_startAddress u = 0xFFFF then None
           else registers server (md_type u) (unat (md_startAddress u)) (length us)) of
       None \<Rightarrow> (False, u) | Some vs \<Rightarrow> (True, u\<lparr>md_data := Some (Values vs)\<rparr>))"
proof (cases "md_startAddress u \<noteq> 0xFFFF \<and> m (md_type u) \<noteq> None")
  case False
  then show ?thesis
    using m u by (auto simp: VXModbusServer_readData_def unit_queries registers_no_unit)
next
  case True
  then obtain t where t: "m (md_type u) = Some t" by auto
  then have type: "md_type t = md_type u" and "unit_ok t" using bank_okD [OF ok m t] by simp_all
  from \<open>unit_ok t\<close> obtain xs where xs: "md_data t = Some (Values xs)" "unit_values t = xs"
    "\<forall>v\<in>set xs. normal (md_type t) v = v" by (rule unit_okE)
  let ?a = "unat (md_startAddress u)" and ?b = "unat (md_startAddress t)" and ?n = "length us"
  have reg: "registers server (md_type u) ?a ?n =
      (if ?a < ?b \<or> ?b + length xs < ?a + ?n then None else Some (take ?n (drop (?a - ?b) xs)))"
    using registers_in_unit [OF m t, of ?n ?a] u xs by simp
  have copy: "copy_values t (?a - ?b) u 0 ?n = Some (u\<lparr>md_data := Some (Values (take ?n (drop (?a - ?b) xs)))\<rparr>)"
    if "\<not> ?a < ?b" "\<not> ?b + length xs < ?a + ?n"
  proof -
    have "map (normal (md_type u)) (take ?n (drop (?a - ?b) xs)) = take ?n (drop (?a - ?b) xs)"
      using xs(3) type by (intro map_idI) (metis in_set_dropD in_set_takeD)
    then show ?thesis
      using that copy_values_spec [OF xs(1) u(1), of "?a - ?b" ?n 0] type by (simp add: memcpy_at_def)
  qed
  have nat: "nat (uint w) = unat w" for w :: "16 word" by simp
  show ?thesis
    using True t m u xs
    by (simp add: VXModbusServer_readData_def unit_queries nat container_size_def reg copy Let_def)
qed

lemma writeData_spec:
  assumes ok: "bank_ok server" and m: "ms_dataMap server = Some m"
    and u: "md_data u = Some (Values vs)" "vs \<noteq> []" "md_type u \<noteq> XModbusInvalid"
    and n: "\<And>v. v \<in> set vs \<Longrightarrow> normal (md_type u) v = v"
  shows "VXModbusServer_writeData server u = Some
    (case (if md_startAddress u = 0xFFFF then None
           else registers server (md_type u) (unat (md_startAddress u)) (length vs)) of
       None \<Rightarrow> (False, server, [])
     | Some old \<Rightarrow> (let t = the (m (md_type u)) in
        (True, server\<lparr>ms_dataMap := Some (m(md_type u \<mapsto> t\<lparr>md_data :=
             Some (Values (memcpy_at (unit_values t) (unat (md_startAddress u) - unat (md_startAddress t)) vs))\<rparr>))\<rparr>,
         [(md_type u, uint (md_startAddress u), int (length vs))])))"
proof (cases "md_startAddress u \<noteq> 0xFFFF \<and> m (md_type u) \<noteq> None")
  case False
  then show ?thesis
    using m u by (auto simp: VXModbusServer_writeData_def unit_queries registers_no_unit)
next
  case True
  then obtain t where t: "m (md_type u) = Some t" by auto
  then have type: "md_type t = md_type u" and "unit_ok t" using bank_okD [OF ok m t] by simp_all
  from \<open>unit_ok t\<close> obtain xs where xs: "md_data t = Some (Values xs)" "unit_values t = xs" by (rule unit_okE)
  let ?a = "unat (md_startAddress u)" and ?b = "unat (md_startAddress t)" and ?n = "length vs"
  have reg: "registers server (md_type u) ?a ?n =
      (if ?a < ?b \<or> ?b + length xs < ?a + ?n then None else Some (take ?n (drop (?a - ?b) xs)))"
    using registers_in_unit [OF m t, of ?n ?a] u xs by simp
  have copy: "copy_values u 0 t (?a - ?b) ?n = Some (t\<lparr>md_data := Some (Values (memcpy_at xs (?a - ?b) vs))\<rparr>)"
    if "\<not> ?a < ?b" "\<not> ?b + length xs < ?a + ?n"
  proof -
    have "map (normal (md_type u)) vs = vs" using n by (intro map_idI)
    then show ?thesis using that copy_values_spec [OF u(1) xs(1), of 0 ?n "?a - ?b"] type by simp
  qed
  have nat: "nat (uint w) = unat w" "int (unat w) = uint w" for w :: "16 word" by simp_all
  show ?thesis
    using True t m u xs
    by (simp add: VXModbusServer_writeData_def unit_queries nat container_size_def reg copy Let_def)
qed

text \<open>A block written through the server, as the register contract has it.\<close>

definition bank_put ::
  "'v XModbusServer \<Rightarrow> XModbusRegisterType \<Rightarrow> nat \<Rightarrow> 16 word list \<Rightarrow> 'v XModbusServer option" where
  "bank_put server type a vs =
     (if type = XModbusInvalid \<or> vs = [] \<or> 65535 \<le> a \<or> \<not> list_all (\<lambda>v. normal type v = v) vs then None
      else case VXModbusServer_writeData server
             \<lparr>md_type = type, md_startAddress = of_nat a, md_data = Some (Values vs)\<rparr> of
        Some (True, server', sigs) \<Rightarrow> Some server' | _ \<Rightarrow> None)"

lemma unat_address: "a < 65535 \<Longrightarrow> unat (of_nat a :: 16 word) = a \<and> (of_nat a :: 16 word) \<noteq> 0xFFFF"
proof -
  assume a: "a < 65535"
  then have "unat (of_nat a :: 16 word) = a" by (simp add: unat_of_nat)
  moreover have "unat (0xFFFF :: 16 word) = 65535" by simp
  ultimately show ?thesis using a by (metis less_irrefl_nat)
qed

lemma bank_putE:
  assumes ok: "bank_ok server" and put: "bank_put server type a vs = Some server'"
  obtains m t where "ms_dataMap server = Some m" "m type = Some t" "type \<noteq> XModbusInvalid" "vs \<noteq> []" "a < 65535"
    "\<forall>v\<in>set vs. normal type v = v"
    "unat (md_startAddress t) \<le> a" "a + length vs \<le> unat (md_startAddress t) + length (unit_values t)"
    "server' = server\<lparr>ms_dataMap := Some (m(type \<mapsto> t\<lparr>md_data :=
       Some (Values (memcpy_at (unit_values t) (a - unat (md_startAddress t)) vs))\<rparr>))\<rparr>"
proof -
  let ?u = "\<lparr>md_type = type, md_startAddress = of_nat a, md_data = Some (Values vs)\<rparr>"
  have a: "type \<noteq> XModbusInvalid" "vs \<noteq> []" "a < 65535" and n: "\<forall>v\<in>set vs. normal type v = v"
    and w: "\<exists>sigs. VXModbusServer_writeData server ?u = Some (True, server', sigs)"
    using put by (auto simp: bank_put_def list_all_iff split: if_splits option.splits prod.splits bool.splits)
  obtain m where m: "ms_dataMap server = Some m" using w by (auto simp: VXModbusServer_writeData_def split: option.splits)
  obtain t where t: "m type = Some t"
    using w m by (auto simp: VXModbusServer_writeData_def unit_queries split: option.splits if_splits)
  have r: "registers server type a (length vs) \<noteq> None \<and> server' = server\<lparr>ms_dataMap := Some (m(type \<mapsto> t\<lparr>md_data :=
       Some (Values (memcpy_at (unit_values t) (a - unat (md_startAddress t)) vs))\<rparr>))\<rparr>"
    using w writeData_spec [OF ok m, of ?u vs] a n t unat_address [OF a(3)]
    by (auto simp: Let_def split: option.splits)
  with that [OF m t a n] registers_in_unit [OF m t, of "length vs" a] a show ?thesis
    by (auto split: if_splits)
qed

lemma register_upd:
  "register (server\<lparr>ms_dataMap := Some (m(type \<mapsto> u))\<rparr>) k b =
    (if k = type then (let a = unat (md_startAddress u) in
       if a \<le> b \<and> b < a + length (unit_values u) then Some (unit_values u ! (b - a)) else None)
     else (case m k of None \<Rightarrow> None | Some u \<Rightarrow> let a = unat (md_startAddress u) in
       if a \<le> b \<and> b < a + length (unit_values u) then Some (unit_values u ! (b - a)) else None))"
  by (simp add: register_def)

interpretation bank: register_bank register bank_put bank_ok
proof
  fix server server' :: "'v XModbusServer" and type a vs and k and b :: nat
  assume ok: "bank_ok server" and put: "bank_put server type a vs = Some server'"
  from bank_putE [OF ok put] obtain m t where m: "ms_dataMap server = Some m" "m type = Some t"
    and range: "unat (md_startAddress t) \<le> a" "a + length vs \<le> unat (md_startAddress t) + length (unit_values t)"
    and n: "\<forall>v\<in>set vs. normal type v = v"
    and s': "server' = server\<lparr>ms_dataMap := Some (m(type \<mapsto> t\<lparr>md_data :=
       Some (Values (memcpy_at (unit_values t) (a - unat (md_startAddress t)) vs))\<rparr>))\<rparr>"
    by metis
  have len: "a - unat (md_startAddress t) + length vs \<le> length (unit_values t)" using range by simp
  show "register server' k b = (if k = type \<and> a \<le> b \<and> b < a + length vs then Some (vs ! (b - a))
      else register server k b)"
    using m range len
    by (auto simp: s' register_upd Let_def unit_values_def nth_memcpy_at register_def split: option.splits)
  show "register server type (a + i) \<noteq> None" if "i < length vs" for i
    using that m range by (simp add: register_def Let_def)
  have "unit_ok t" "md_type t = type" using bank_okD [OF ok m] by simp_all
  then obtain xs where xs: "md_data t = Some (Values xs)" "unit_values t = xs"
    "\<forall>v\<in>set xs. normal (md_type t) v = v" by (metis unit_okE)
  have "unit_ok (t\<lparr>md_data := Some (Values (memcpy_at xs (a - unat (md_startAddress t)) vs))\<rparr>)"
    by (rule unit_okI [where vs = "memcpy_at xs (a - unat (md_startAddress t)) vs"])
      (use xs n \<open>md_type t = type\<close> in \<open>auto simp: memcpy_at_def dest: in_set_takeD in_set_dropD\<close>)
  then show "bank_ok server'"
    using \<open>md_type t = type\<close> xs by (intro bank_okI) (auto simp: s' dest: bank_okD [OF ok m(1)] split: if_splits)
qed

end
