(* ===== verification/ModbusAdu.thy ===== *)
theory ModbusAdu
  imports ModbusPdu Crc
begin

text \<open>
  The Modbus application data unit of \<open>XProtocol/XModbus/XModbusAdu.c\<close>: the RTU frame
  (address, function code, data, CRC-16) and the ASCII frame (a colon, hexadecimal digits, a
  longitudinal redundancy check, CR and a delimiter), their construction and their parsing.

  An array allocation has three outcomes: no array, an array that cannot be resized, an array of the
  requested size. Where the source writes into an array without testing the resize, the second is a
  write through NULL, and the operation traps (the outer \<open>None\<close>). \<open>char\<close> is signed.
  The bytes a pointer and a length describe are a list; where the source passes the length as an
  \<open>int\<close> the conversion is written out.
\<close>

unbundle bit_operations_syntax

datatype XModbusAdu_Type = XModbusAdu_Rtu | XModbusAdu_Ascii

datatype array_alloc = NoArray | NoRoom | Room

record XModbusAdu =
  adu_rawData :: "byte list option"
  adu_data :: "byte list option"
  adu_type :: XModbusAdu_Type
  adu_serverAddress :: byte
  adu_checksumValid :: bool

definition int32 :: "int \<Rightarrow> int" where
  "int32 x = signed_take_bit 31 x"

definition checksumBytes :: "XModbusAdu \<Rightarrow> int" where
  "checksumBytes adu = (if adu_type adu = XModbusAdu_Ascii then 1 else 2)"

definition XModbusAdu_init :: XModbusAdu where
  "XModbusAdu_init = \<lparr>adu_rawData = None, adu_data = None, adu_type = XModbusAdu_Rtu,
     adu_serverAddress = 0xFF, adu_checksumValid = False\<rparr>"

definition XModbusAdu_deinit :: "XModbusAdu \<Rightarrow> XModbusAdu" where
  "XModbusAdu_deinit adu = adu\<lparr>adu_rawData := None, adu_data := None\<rparr>"

section \<open>Checks\<close>

primrec lrc_sum :: "32 word \<Rightarrow> byte list \<Rightarrow> 32 word" where
  "lrc_sum lrc [] = lrc"
| "lrc_sum lrc (b # data) = lrc_sum (lrc + ucast b) data"

definition XModbusAdu_calculateLRC :: "byte list \<Rightarrow> int \<Rightarrow> byte" where
  "XModbusAdu_calculateLRC data len = ucast (- (lrc_sum 0 (take (nat len) data) AND 0xFF))"

definition XModbusAdu_calculateCRC :: "byte list \<Rightarrow> 16 word" where
  "XModbusAdu_calculateCRC data = XCrc16_calculate XCrc16_Algorithm_Modbus (Some data)"

section \<open>Frames\<close>

text \<open>\<open>copied\<close> is whether the copy of the data could be allocated, \<open>arr\<close> the array of the frame.\<close>

definition XModbusAdu_createRtuFrame ::
  "bool \<Rightarrow> array_alloc \<Rightarrow> 32 word \<Rightarrow> XModbusPdu \<Rightarrow> byte list option" where
  "XModbusAdu_createRtuFrame copied arr serverAddress pdu =
     (let pduData = (case XModbusPdu_data copied pdu of None \<Rightarrow> [] | Some d \<Rightarrow> d);
          fc = XModbusPdu_functionCodeRaw pdu
      in case arr of
           NoArray \<Rightarrow> None
         | NoRoom \<Rightarrow> None
         | Room \<Rightarrow>
             let body = [ucast (serverAddress AND 0xFF), ucast fc] @ pduData;
                 crc = XCrc16_calculate XCrc16_Algorithm_Modbus (Some body)
             in Some (body @ [ucast crc, ucast (drop_bit 8 crc)]))"

definition hexChars :: "byte list" where
  "hexChars = [48, 49, 50, 51, 52, 53, 54, 55, 56, 57, 65, 66, 67, 68, 69, 70]"

definition hex_pair :: "byte \<Rightarrow> byte list" where
  "hex_pair b = [hexChars ! unat (drop_bit 4 b AND 0x0F), hexChars ! unat (b AND 0x0F)]"

definition XModbusAdu_createAsciiFrame ::
  "bool \<Rightarrow> array_alloc \<Rightarrow> 32 word \<Rightarrow> XModbusPdu \<Rightarrow> byte \<Rightarrow> byte list option" where
  "XModbusAdu_createAsciiFrame copied arr serverAddress pdu delimiter =
     (let delimiter = (if delimiter = 0 then 10 else delimiter);
          pduData = (case XModbusPdu_data copied pdu of None \<Rightarrow> [] | Some d \<Rightarrow> d);
          fc = XModbusPdu_functionCodeRaw pdu;
          addr = (ucast (serverAddress AND 0xFF) :: byte);
          lrcSum = lrc_sum (ucast addr + ucast (ucast fc :: byte)) pduData;
          lrc = ucast (- (lrcSum AND 0xFF))
      in case arr of
           NoArray \<Rightarrow> None
         | NoRoom \<Rightarrow> None
         | Room \<Rightarrow>
             Some ([58] @ hex_pair addr @ hex_pair (ucast fc) @ concat (map hex_pair pduData) @
                   hex_pair lrc @ [13, delimiter]))"

section \<open>Parsing\<close>

text \<open>An array created, resized and filled without a test of the resize.\<close>

definition filled_array :: "array_alloc \<Rightarrow> byte list \<Rightarrow> byte list option option" where
  "filled_array arr bs = (case arr of NoArray \<Rightarrow> Some None | NoRoom \<Rightarrow> None | Room \<Rightarrow> Some (Some bs))"

definition XModbusAdu_parseRtu ::
  "bool \<Rightarrow> array_alloc \<Rightarrow> array_alloc \<Rightarrow> byte list \<Rightarrow> XModbusAdu option option" where
  "XModbusAdu_parseRtu obj raw arr data =
     (if length data < 4 then Some None
      else if \<not> obj then Some None
      else do {
        rawData \<leftarrow> filled_array raw data;
        copy \<leftarrow> filled_array arr data;
        let dataSize = length data - 2;
        let calcCrc = XCrc16_calculate XCrc16_Algorithm_Modbus (Some (take dataSize data));
        let rcvCrc = ucast (data ! dataSize) OR push_bit 8 (ucast (data ! (dataSize + 1)));
        Some (Some (XModbusAdu_init\<lparr>adu_type := XModbusAdu_Rtu, adu_rawData := rawData, adu_data := copy,
          adu_serverAddress := data ! 0, adu_checksumValid := (calcCrc = rcvCrc)\<rparr>))
      })"

primrec find_end :: "byte list \<Rightarrow> nat \<Rightarrow> nat option" where
  "find_end [] i = None"
| "find_end (b # data) i = (if b = 13 \<or> b = 10 then Some i else find_end data (i + 1))"

definition hex_value :: "byte \<Rightarrow> byte" where
  "hex_value c = (if 97 \<le> sint c then c - 97 + 10 else if 65 \<le> sint c then c - 65 + 10 else c - 48)"

definition hex_decode :: "byte list \<Rightarrow> nat \<Rightarrow> byte list" where
  "hex_decode data binLen =
     map (\<lambda>i. push_bit 4 (hex_value (data ! (1 + i * 2))) OR hex_value (data ! (1 + i * 2 + 1))) [0..<binLen]"

definition XModbusAdu_parseAscii ::
  "bool \<Rightarrow> array_alloc \<Rightarrow> array_alloc \<Rightarrow> byte list \<Rightarrow> XModbusAdu option option" where
  "XModbusAdu_parseAscii obj raw arr data =
     (if length data < 9 then Some None
      else if data ! 0 \<noteq> 58 then Some None
      else let endPos = (case find_end (tl data) 1 of None \<Rightarrow> length data | Some i \<Rightarrow> i);
               hexLen = endPos - 1
           in if hexLen < 4 \<or> hexLen mod 2 \<noteq> 0 then Some None
              else if \<not> obj then Some None
              else do {
                let binLen = hexLen div 2;
                let rawLen = (if endPos + 1 < length data then endPos + 1 else endPos);
                rawData \<leftarrow> filled_array raw (take rawLen data);
                if arr \<noteq> Room then Some None
                else do {
                  let binData = hex_decode data binLen;
                  let calcLrc = XModbusAdu_calculateLRC binData (int32 (int (binLen - 1)));
                  let rcvLrc = binData ! (binLen - 1);
                  Some (Some (XModbusAdu_init\<lparr>adu_type := XModbusAdu_Ascii, adu_rawData := rawData,
                    adu_data := Some binData, adu_serverAddress := binData ! 0,
                    adu_checksumValid := (calcLrc = rcvLrc)\<rparr>))
                }
              })"

section \<open>Queries\<close>

definition XModbusAdu_size :: "XModbusAdu \<Rightarrow> int" where
  "XModbusAdu_size adu = (case adu_data adu of None \<Rightarrow> -1 | Some d \<Rightarrow> int32 (int32 (int (length d)) - checksumBytes adu))"

definition XModbusAdu_data :: "bool \<Rightarrow> XModbusAdu \<Rightarrow> byte list option" where
  "XModbusAdu_data copied adu =
     (case adu_data adu of None \<Rightarrow> None
      | Some d \<Rightarrow> if XModbusAdu_size adu \<le> 0 then None
                  else if copied then Some (take (nat (XModbusAdu_size adu)) d) else None)"

definition XModbusAdu_rawSize :: "XModbusAdu \<Rightarrow> int" where
  "XModbusAdu_rawSize adu = (case adu_rawData adu of None \<Rightarrow> -1 | Some d \<Rightarrow> int32 (int (length d)))"

definition XModbusAdu_rawData :: "bool \<Rightarrow> XModbusAdu \<Rightarrow> byte list option" where
  "XModbusAdu_rawData copied adu = (if copied then adu_rawData adu else None)"

definition XModbusAdu_serverAddress :: "XModbusAdu \<Rightarrow> int" where
  "XModbusAdu_serverAddress adu = uint (adu_serverAddress adu)"

definition XModbusAdu_matchingChecksum :: "XModbusAdu \<Rightarrow> bool" where
  "XModbusAdu_matchingChecksum adu = adu_checksumValid adu"

definition XModbusAdu_pdu ::
  "bool \<Rightarrow> bool \<Rightarrow> (nat \<Rightarrow> bool) \<Rightarrow> XModbusAdu \<Rightarrow> XModbusPdu \<Rightarrow> bool \<times> XModbusPdu" where
  "XModbusAdu_pdu copied array room adu out =
     (case XModbusAdu_data copied adu of None \<Rightarrow> (False, out)
      | Some d \<Rightarrow> if length d < 2 then (False, out)
          else let p1 = XModbusPdu_init_with_code array out (ucast (d ! 1))
               in (True, if 2 < length d then XModbusPdu_setData room p1 (Some (drop 2 d)) else p1))"

end
