(* ===== verification/ModbusProps.thy ===== *)
theory ModbusProps
  imports ModbusAdu CrcDetection "HOL-Library.Multiset"
begin

text \<open>
  The Modbus units. The registry of size calculators is a finite map of at most 32 entries; encoding
  fields and decoding them with the same shapes is the identity, and never passes the 252 bytes of a
  data unit; a frame parses back to its address, function code and data with a valid check, in both
  framings; a changed byte anywhere in an RTU frame is found, because the bitwise register of the
  checksum is one-to-one. A frame whose data could not be copied is sent shortened, under a valid check.
\<close>

unbundle bit_operations_syntax

section \<open>Bytes in pairs\<close>

lemma length_concat_pairs [simp]: "length (concat (map (\<lambda>v. [h v, l v]) vs)) = 2 * length vs"
  by (induction vs) simp_all

lemma nth_concat_pairs:
  "j < length vs \<Longrightarrow> concat (map (\<lambda>v. [h v, l v]) vs) ! (j * 2) = h (vs ! j)"
  "j < length vs \<Longrightarrow> concat (map (\<lambda>v. [h v, l v]) vs) ! Suc (j * 2) = l (vs ! j)"
  by (induction vs arbitrary: j) (auto simp: nth_Cons split: nat.splits)

section \<open>The registry\<close>

lemma calc_index_None: "calc_index reg i fc = None \<longleftrightarrow> fc \<notin> fst ` set reg"
  by (induction reg arbitrary: i) auto

lemma calc_index_shift: "calc_index reg i fc = map_option ((+) i) (calc_index reg 0 fc)"
proof (induction reg arbitrary: i)
  case (Cons e reg)
  show ?case using Cons.IH [of "Suc i"] Cons.IH [of 1] by (cases "calc_index reg 0 fc") auto
qed simp

lemma calc_index_Suc [simp]: "calc_index reg (Suc 0) fc = map_option Suc (calc_index reg 0 fc)"
  by (cases "calc_index reg 0 fc") (simp_all add: calc_index_shift [of reg "Suc 0"])

lemma calc_index_Some: "calc_index reg 0 fc = Some k \<Longrightarrow> k < length reg \<and> fst (reg ! k) = fc"
  by (induction reg arbitrary: k) (auto split: if_splits)

lemma map_of_calc_index: "map_of reg fc = map_option (\<lambda>k. snd (reg ! k)) (calc_index reg 0 fc)"
  by (induction reg) (auto simp: option.map_comp comp_def)

lemma calc_lookup:
  "(case calc_index reg 0 fc of Some i \<Rightarrow> snd (reg ! i) pdu | None \<Rightarrow> d) =
    (case map_of reg fc of Some f \<Rightarrow> f pdu | None \<Rightarrow> d)"
  by (simp add: map_of_calc_index split: option.split)

text \<open>A registry: at most one entry per function code, at most 32 entries.\<close>

definition registry_ok :: "calc_registry \<Rightarrow> bool" where
  "registry_ok reg \<longleftrightarrow> distinct (map fst reg) \<and> length reg \<le> MAX_CALC_REGISTRATIONS"

lemma replace_map_of:
  assumes "distinct (map fst reg)" and "k < length reg"
  shows "map_of (reg[k := (fst (reg ! k), f)]) = (map_of reg)(fst (reg ! k) \<mapsto> f)"
  using assms
proof (induction reg arbitrary: k)
  case (Cons e reg)
  show ?case
  proof (cases k)
    case (Suc j)
    with Cons.prems have "fst e \<noteq> fst (reg ! j)" by (metis distinct.simps(2) length_Cons list.simps(9)
        Suc_less_eq length_map nth_map nth_mem)
    with Suc Cons show ?thesis by (cases e) (auto simp: fun_upd_twist)
  qed (cases e, simp add: fun_eq_iff)
qed simp

lemma mset_move_last_over:
  assumes "k < length xs"
  shows "mset (butlast (xs[k := xs ! (length xs - 1)])) = mset xs - {# xs ! k #}"
proof -
  let ?l = "xs ! (length xs - 1)" and ?ys = "xs[k := xs ! (length xs - 1)]"
  have ne: "?ys \<noteq> []" using assms by auto
  have "last ?ys = ?ys ! (length xs - 1)" using ne by (simp add: last_conv_nth)
  also have "\<dots> = ?l" using assms by (cases "k = length xs - 1") simp_all
  finally have "last ?ys = ?l" .
  then have "mset ?ys = add_mset ?l (mset (butlast ?ys))"
    by (metis ne append_butlast_last_id add_mset_add_single mset.simps mset_append mset_single_iff_right)
  moreover have "mset ?ys = add_mset ?l (mset xs - {# xs ! k #})" using assms by (simp add: mset_update)
  ultimately show ?thesis by simp
qed

lemma map_of_filter_code: "map_of (filter (\<lambda>e. fst e \<noteq> k) m) = (map_of m)(k := None)"
  by (induction m) (auto simp: fun_eq_iff)

lemma remove_entry:
  assumes ok: "registry_ok reg" and k: "calc_index reg 0 fc = Some k"
  shows "registry_ok (butlast (reg[k := reg ! (length reg - 1)]))"
    and "map_of (butlast (reg[k := reg ! (length reg - 1)])) = (map_of reg)(fc := None)"
proof -
  let ?r = "butlast (reg[k := reg ! (length reg - 1)])" and ?f = "filter (\<lambda>e. fst e \<noteq> fc) reg"
  have d: "distinct (map fst reg)" and len: "length reg \<le> MAX_CALC_REGISTRATIONS"
    using ok by (simp_all add: registry_ok_def)
  have kl: "k < length reg" "fst (reg ! k) = fc" using calc_index_Some [OF k] by simp_all
  have "distinct reg" using d by (simp add: distinct_map)
  have "mset ?r = mset (remove1 (reg ! k) reg)" using kl mset_move_last_over [of k reg] by simp
  moreover have "remove1 (reg ! k) reg = ?f"
  proof -
    have "remove1 (reg ! k) reg = filter ((\<noteq>) (reg ! k)) reg"
      using \<open>distinct reg\<close> by (simp add: distinct_remove1_removeAll removeAll_filter_not_eq)
    also have "\<dots> = ?f" using d kl
      by (intro filter_cong refl) (metis distinct_map inj_onD nth_mem)
    finally show ?thesis .
  qed
  ultimately have m: "mset ?r = mset ?f" by simp
  have df: "distinct (map fst ?f)" using d by (simp add: distinct_map_filter)
  have "mset (map fst ?r) = mset (map fst ?f)" by (simp only: mset_map m)
  then have dr: "distinct (map fst ?r)" using df mset_eq_imp_distinct_iff by blast
  show "registry_ok ?r" using dr len by (simp add: registry_ok_def)
  have "map_of ?r = map_of ?f" using mset_eq_setD [OF m] by (simp only: map_of_inject_set [OF dr df])
  also have "\<dots> = (map_of reg)(fc := None)"
    by (rule map_of_filter_code)
  finally show "map_of ?r = (map_of reg)(fc := None)" .
qed

text \<open>
  C20: The registry of data size calculators is a finite map with room for 32 entries. Registering
  a function enters it when the code is known or there is room, and is ignored otherwise; registering
  NULL removes the code; every other entry stays. The size of a unit is computed by the function found
  for its code, by the built-in rules when there is none.
\<close>

theorem registry_refines_map:
  assumes "registry_ok reg" and "reg' = XModbusRequest_registerDataSizeCalculator reg fc func"
  shows "registry_ok reg' \<and>
    map_of reg' = (case func of
        None \<Rightarrow> (map_of reg)(fc := None)
      | Some f \<Rightarrow> if map_of reg fc \<noteq> None \<or> length reg < 32 then (map_of reg)(fc \<mapsto> f) else map_of reg) \<and>
    XModbusRequest_calculateDataSize reg' pdu = (case map_of reg' (XModbusPdu_functionCode pdu) of
        Some f \<Rightarrow> f pdu | None \<Rightarrow> calculateRequestDataSize pdu)"
proof -
  have d: "distinct (map fst reg)" and len: "length reg \<le> 32"
    using assms by (simp_all add: registry_ok_def MAX_CALC_REGISTRATIONS_def)
  have known: "map_of reg fc = None \<longleftrightarrow> calc_index reg 0 fc = None"
    by (simp add: map_of_calc_index)
  have "registry_ok reg' \<and> map_of reg' = (case func of
        None \<Rightarrow> (map_of reg)(fc := None)
      | Some f \<Rightarrow> if map_of reg fc \<noteq> None \<or> length reg < 32 then (map_of reg)(fc \<mapsto> f) else map_of reg)"
  proof (cases "calc_index reg 0 fc")
    case None
    then have "fc \<notin> fst ` set reg" by (simp add: calc_index_None)
    moreover have "map_of (reg @ [(fc, f)]) = (map_of reg)(fc \<mapsto> f)" for f
      using None known by (auto simp: map_add_def fun_eq_iff split: option.split)
    ultimately show ?thesis
      using None assms d len known
      by (cases func) (simp_all add: XModbusRequest_registerDataSizeCalculator_def
          registerDataSizeCalculator_def registry_ok_def MAX_CALC_REGISTRATIONS_def fun_upd_idem)
  next
    case (Some k)
    have kl: "k < length reg" "fst (reg ! k) = fc" using calc_index_Some [OF Some] by simp_all
    then have up: "map fst (reg[k := (fst (reg ! k), f)]) = map fst reg" for f
      by (metis fst_conv list_update_id map_update nth_map)
    from kl show ?thesis
      using Some assms(2) remove_entry [OF assms(1) Some] replace_map_of [OF d, of k] up assms(1) known
      by (cases func) (simp_all add: XModbusRequest_registerDataSizeCalculator_def
          registerDataSizeCalculator_def registry_ok_def)
  qed
  then show ?thesis by (simp add: XModbusRequest_calculateDataSize_def calc_lookup)
qed

lemma registry_refines_map_witness:
  "registry_ok (XModbusRequest_registerDataSizeCalculator [(1, \<lambda>_. 7), (2, \<lambda>_. 8)] 1 None)"
  using registry_refines_map [of "[(1, \<lambda>_. 7), (2, \<lambda>_. 8)]" _ 1 None]
  by (simp add: registry_ok_def MAX_CALC_REGISTRATIONS_def)

section \<open>Encoding and decoding fields\<close>

text \<open>The bytes a field stands for, the shape that decodes it, and the values it holds.\<close>

fun field_bytes :: "XModbusPdu_EncodeField \<Rightarrow> byte list" where
  "field_bytes (EncodeUint8 vs n) = (if n = 0 then [] else take n (the vs))"
| "field_bytes (EncodeUint16 vs n) =
     (if n = 0 then [] else concat (map (\<lambda>v. [ucast (drop_bit 8 v), ucast v]) (take n (the vs))))"
| "field_bytes (EncodeOther n) = []"

definition decode_shape :: "XModbusPdu_EncodeField \<Rightarrow> XModbusPdu_DecodeField" where
  "decode_shape f = (case encode_field_shape f of (type, null, num) \<Rightarrow>
     \<lparr>df_type = type, df_null = null, df_count = num\<rparr>)"

fun held_values :: "XModbusPdu_EncodeField \<Rightarrow> field_values" where
  "held_values (EncodeUint8 vs n) = Uint8_values (if n = 0 then [] else take n (the vs))"
| "held_values (EncodeUint16 vs n) = Uint16_values (if n = 0 then [] else take n (the vs))"
| "held_values (EncodeOther n) = Uint8_values []"

text \<open>A field whose pointer covers its count, which the encoder cannot check.\<close>

fun field_readable :: "XModbusPdu_EncodeField \<Rightarrow> bool" where
  "field_readable (EncodeUint8 (Some vs) n) = (n \<le> length vs)"
| "field_readable (EncodeUint16 (Some vs) n) = (n \<le> length vs)"
| "field_readable f = True"

lemma encode_words_result:
  "encode_words room d vs = Some d' \<Longrightarrow> d' = d @ concat (map (\<lambda>v. [ucast (drop_bit 8 v), ucast v]) vs)"
  by (induction vs arbitrary: d) (fastforce simp: XByteArray_push_back_2_def split: if_splits)+

lemma encode_field_result: "encode_field room d f = Some d' \<Longrightarrow> d' = d @ field_bytes f"
  by (cases f) (auto simp: XByteArray_push_back_2_def dest: encode_words_result split: if_splits)

lemma encode_fields_result:
  "encode_fields room d fs = Some d' \<Longrightarrow> d' = d @ concat (map field_bytes fs)"
  by (induction fs arbitrary: d) (fastforce dest!: encode_field_result split: option.splits)+

lemma validate_size:
  assumes "XModbusPdu_validateField type null num used = Some n"
  shows "n = num * (if type = XModbusPdu_DataType_Uint8 then 1 else 2) \<and> used + n \<le> 252 \<and>
    (null \<longrightarrow> num = 0) \<and> type \<noteq> XModbusPdu_DataType_Other"
proof -
  have *: "num * k \<le> 252 - used" if "num \<le> (252 - used) div k" for k
    using that by (metis div_le_dividend le_trans mult_le_mono1 div_times_less_eq_dividend)
  show ?thesis using assms *[of 1] *[of 2]
    by (auto simp: XModbusPdu_validateField_def not_less split: if_splits XModbusPdu_DataType.splits)
qed

lemma field_bytes_length:
  assumes "encode_field_shape f = (type, null, num)" and "field_readable f"
    and "XModbusPdu_validateField type null num used = Some n"
  shows "length (field_bytes f) = n"
  using assms validate_size [OF assms(3)] by (cases f rule: field_readable.cases) auto

lemma word_halves:
  "push_bit 8 (ucast (ucast (drop_bit 8 v) :: byte)) OR ucast (ucast v :: byte) = (v :: 16 word)"
  by (rule bit_word_eqI) (auto simp: bit_simps)

lemma decode_values_held:
  assumes "encode_field_shape f = (type, null, num)" and "field_readable f"
    and v: "XModbusPdu_validateField type null num used = Some n"
  shows "decode_values (d @ field_bytes f @ rest) (decode_shape f) (length d) = held_values f"
  using assms(1,2) validate_size [OF v]
proof (cases f rule: field_readable.cases)
  case (2 vs m)
  let ?p = "\<lambda>v. [ucast (drop_bit 8 v), ucast v :: byte]"
  let ?c = "concat (map ?p (take m vs))"
  have m: "m \<le> length vs" using 2 assms by simp
  have nth: "(d @ ?c @ rest) ! (length d + j * 2) = ucast (drop_bit 8 (vs ! j))"
    "(d @ ?c @ rest) ! (length d + j * 2 + 1) = ucast (vs ! j)" if "j < m" for j
    using that m nth_concat_pairs [of j "take m vs" "\<lambda>v. ucast (drop_bit 8 v)" "\<lambda>v. ucast v :: byte"]
    by (simp_all add: nth_append)
  have "map (\<lambda>j. push_bit 8 (ucast ((d @ ?c @ rest) ! (length d + j * 2))) OR
      ucast ((d @ ?c @ rest) ! (length d + j * 2 + 1))) [0..<m] = take m vs"
    using m by (intro nth_equalityI) (simp_all only: length_map length_upt nth_map_upt nth word_halves, simp_all)
  then show ?thesis using 2 assms(1) by (auto simp: decode_values_def decode_shape_def)
qed (auto simp: decode_values_def decode_shape_def)

lemma decode_encoded:
  assumes "encode_check fs (length d)" and "\<And>f. f \<in> set fs \<Longrightarrow> field_readable f"
  shows "decode_fields (d @ concat (map field_bytes fs)) (map decode_shape fs) (length d) =
      (True, map held_values fs) \<and> (length d \<le> 252 \<longrightarrow> length (d @ concat (map field_bytes fs)) \<le> 252)"
  using assms
proof (induction fs arbitrary: d)
  case (Cons f fs)
  obtain type null num where sh: "encode_field_shape f = (type, null, num)" by (cases "encode_field_shape f")
  obtain n where v: "XModbusPdu_validateField type null num (length d) = Some n"
    and ck: "encode_check fs (length d + n)"
    using Cons.prems(1) sh by (auto split: option.splits)
  have rd: "field_readable f" using Cons.prems(2) by simp
  have n: "length (field_bytes f) = n" by (rule field_bytes_length [OF sh rd v])
  have shape: "decode_shape f = \<lparr>df_type = type, df_null = null, df_count = num\<rparr>"
    using sh by (simp add: decode_shape_def)
  have "decode_fields ((d @ field_bytes f) @ concat (map field_bytes fs)) (map decode_shape fs)
      (length (d @ field_bytes f)) = (True, map held_values fs)"
    and len: "length (d @ field_bytes f) \<le> 252 \<longrightarrow>
      length ((d @ field_bytes f) @ concat (map field_bytes fs)) \<le> 252"
    using Cons.IH [of "d @ field_bytes f"] ck n Cons.prems(2) by simp_all
  then have "decode_fields (d @ concat (map field_bytes (f # fs))) (map decode_shape (f # fs)) (length d) =
      (True, map held_values (f # fs))"
    using v n decode_values_held [OF sh rd v, of d "concat (map field_bytes fs)"] by (simp add: shape)
  then show ?case using len n validate_size [OF v] by simp
qed simp

text \<open>
  C19: Decoding what was encoded, with fields of the same types and counts, succeeds and returns the
  encoded values, however the fields are mixed; an encoding that succeeds never passes the 252 data bytes
  of a unit and leaves the function code alone.
\<close>

theorem decode_encoded_data:
  assumes "XModbusPdu_encodeData room pdu (Some flds) = (True, pdu')"
    and "list_all field_readable flds"
  shows "XModbusPdu_decodeData pdu' (Some (map decode_shape flds)) = (True, map held_values flds) \<and>
    array_size (mp_data pdu') \<le> 252 \<and> mp_code pdu' = mp_code pdu"
proof -
  have "encode_check flds 0" and e: "encode_fields room [] flds = mp_data pdu'"
    and ne: "mp_data pdu' \<noteq> None" and "mp_code pdu' = mp_code pdu"
    using assms(1) by (auto simp: XModbusPdu_encodeData_def split: option.splits if_splits)
  then show ?thesis
    using decode_encoded [of flds "[]"] assms(2) encode_fields_result [of room "[]" flds]
    by (auto simp: XModbusPdu_decodeData_def array_size_def list_all_iff)
qed

lemma decode_encoded_data_witness:
  "XModbusPdu_decodeData \<lparr>mp_code = 0x10, mp_data = Some [0, 1, 0, 2, 4, 0x12, 0x34, 0xAB, 0xCD]\<rparr>
     (Some (map decode_shape [EncodeUint16 (Some [1, 2]) 2, EncodeUint8 (Some [4]) 1,
        EncodeUint16 (Some [0x1234, 0xABCD, 7]) 2])) =
     (True, [Uint16_values [1, 2], Uint8_values [4], Uint16_values [0x1234, 0xABCD]])"
  using decode_encoded_data [of "\<lambda>n. n < 1000" "\<lparr>mp_code = 0x10, mp_data = Some [9]\<rparr>"
      "[EncodeUint16 (Some [1, 2]) 2, EncodeUint8 (Some [4]) 1, EncodeUint16 (Some [0x1234, 0xABCD, 7]) 2]"
      "\<lparr>mp_code = 0x10, mp_data = Some [0, 1, 0, 2, 4, 0x12, 0x34, 0xAB, 0xCD]\<rparr>"]
  by (simp add: XModbusPdu_encodeData_def XModbusPdu_validateField_def XByteArray_push_back_2_def
      take_Cons' ucast_eq)

section \<open>Frames\<close>

text \<open>What a receiver makes of a frame: the memory it gets decides whether there is a unit and whether it has data.\<close>

definition received_unit ::
  "bool \<Rightarrow> bool \<Rightarrow> (nat \<Rightarrow> bool) \<Rightarrow> fcode \<Rightarrow> byte list \<Rightarrow> XModbusPdu \<Rightarrow> bool \<times> XModbusPdu" where
  "received_unit copied array room code d out =
     (if copied
      then (True, \<lparr>mp_code = code, mp_data = (if \<not> array then None else if room 0 then Some d else Some [])\<rparr>)
      else (False, out))"

lemma pdu_of_frame:
  assumes "adu_data adu = Some (a # fc # d @ chk)" and "int (length chk) = checksumBytes adu"
    and "length d + 4 < 2 ^ 31"
  shows "XModbusAdu_pdu copied array room adu out = received_unit copied array room (ucast fc) d out"
proof -
  have chk: "length chk \<le> 2" using assms(2) by (simp add: checksumBytes_def split: if_splits)
  have size: "XModbusAdu_size adu = int (length d + 2)"
    using assms(1,2,3) chk by (simp add: XModbusAdu_size_def int32_def signed_take_bit_int_eq_self)
  then have "XModbusAdu_data copied adu = (if copied then Some (a # fc # d) else None)"
    using assms(1) by (simp add: XModbusAdu_data_def nat_add_distrib take_Cons')
  then show ?thesis
    by (simp add: received_unit_def XModbusAdu_pdu_def XModbusPdu_init_with_code_def XModbusPdu_init_def
        XModbusPdu_setFunctionCode_def XModbusPdu_setData_def XByteArray_push_back_2_def Let_def)
qed

lemma pdu_of_nothing: "adu_data adu = None \<Longrightarrow> XModbusAdu_pdu copied array room adu out = (False, out)"
  by (simp add: XModbusAdu_pdu_def XModbusAdu_data_def)

lemma low_bits: "(w :: 32 word) AND 0xFF = take_bit 8 w" "(b :: byte) AND 0x0F = take_bit 4 b"
  by (simp_all add: take_bit_eq_mask mask_eq_exp_minus_1)

lemma low_byte: "ucast (ucast w :: byte) = (w :: 32 word) AND 0xFF"
  by (simp only: low_bits) (rule bit_word_eqI, auto simp: bit_simps)

lemma crc_bytes: "ucast (ucast (c :: 16 word) :: byte) OR push_bit 8 (ucast (ucast (drop_bit 8 c) :: byte)) = c"
  by (rule bit_word_eqI) (auto simp: bit_simps)

lemma low_byte_uint: "uint (ucast (w AND 0xFF) :: byte) = uint (w AND 0xFF :: 32 word)"
  by (simp only: low_bits) (simp add: unsigned_ucast_eq unsigned_take_bit_eq)

text \<open>
  C21: A unit sent in an RTU frame, shorter than two gigabytes, is received as it was sent. With its memory the
  receiver parses the frame. Whichever of its allocations it is given, what it parses has a valid check, the low
  byte of the address and, taken from it, a unit with the low byte of the function code and the data that was
  sent, or no unit, or a unit without data where its own memory for them is refused. The data sent is that of
  the unit, or none when the sender cannot copy it: the frame is sent all the same, under a valid check.
\<close>

theorem rtu_roundtrip:
  assumes "mp_data pdu = Some d" and "length d + 4 < 2 ^ 31"
    and "XModbusAdu_createRtuFrame copied given address pdu = Some frame"
  shows "(\<exists>adu. XModbusAdu_parseRtu True Room Room frame = Some (Some adu)) \<and>
    (\<forall>obj raw arr adu. XModbusAdu_parseRtu obj raw arr frame = Some (Some adu) \<longrightarrow>
      XModbusAdu_matchingChecksum adu \<and> XModbusAdu_serverAddress adu = uint (address AND 0xFF) \<and>
      (raw = Room \<longrightarrow> XModbusAdu_rawData True adu = Some frame) \<and>
      XModbusAdu_pdu copied' array room adu out =
        received_unit (arr = Room \<and> copied') array room (mp_code pdu AND 0xFF) (if copied then d else []) out)"
proof -
  define d' where "d' = (if copied then d else [])"
  have short: "length d' + 4 < 2 ^ 31" using assms(2) by (simp add: d'_def)
  define body where "body = ucast (address AND 0xFF) # ucast (mp_code pdu) # d'"
  define crc where "crc = XCrc16_calculate XCrc16_Algorithm_Modbus (Some body)"
  have frame: "frame = body @ [ucast crc, ucast (drop_bit 8 crc)]"
    using assms(1,3) by (simp add: d'_def XModbusAdu_createRtuFrame_def XModbusPdu_data_def Let_def
        XModbusPdu_functionCodeRaw_def body_def crc_def split: array_alloc.splits if_splits)
  define adu where "adu raw arr = XModbusAdu_init\<lparr>adu_type := XModbusAdu_Rtu, adu_rawData := raw,
    adu_data := arr, adu_serverAddress := frame ! 0, adu_checksumValid := True\<rparr>" for raw arr
  have parse: "XModbusAdu_parseRtu obj raw arr frame = (if \<not> obj then Some None else do {
      rawData \<leftarrow> filled_array raw frame; copy \<leftarrow> filled_array arr frame; Some (Some (adu rawData copy)) })" for obj raw arr
    by (simp add: XModbusAdu_parseRtu_def frame adu_def nth_append crc_bytes flip: crc_def)
      (simp add: body_def)
  have unit: "XModbusAdu_pdu copied' array room (adu rawData (Some frame)) out =
      received_unit copied' array room (ucast (ucast (mp_code pdu) :: byte)) d' out" for rawData
    using short by (intro pdu_of_frame [where a = "ucast (address AND 0xFF)" and
        chk = "[ucast crc, ucast (drop_bit 8 crc)]"])
      (simp_all add: adu_def frame body_def checksumBytes_def XModbusAdu_init_def)
  have no_unit: "XModbusAdu_pdu copied' array room (adu rawData None) out = (False, out)" for rawData
    by (rule pdu_of_nothing) (simp add: adu_def)
  have address: "XModbusAdu_serverAddress (adu rawData copy) = uint (address AND 0xFF)" for rawData copy
    by (simp add: adu_def XModbusAdu_serverAddress_def frame body_def low_byte_uint)
  have good: "XModbusAdu_matchingChecksum (adu rawData copy)" "XModbusAdu_rawData True (adu rawData copy) = rawData"
    for rawData copy
    by (simp_all add: adu_def XModbusAdu_matchingChecksum_def XModbusAdu_rawData_def)
  have code: "ucast (ucast (mp_code pdu) :: byte) = mp_code pdu AND 0xFF" by (rule low_byte)
  show ?thesis
  proof (intro conjI allI impI)
    show "\<exists>adu. XModbusAdu_parseRtu True Room Room frame = Some (Some adu)" by (simp add: parse filled_array_def)
  next
    fix obj raw arr r assume "XModbusAdu_parseRtu obj raw arr frame = Some (Some r)"
    then have r: "r = adu (if raw = Room then Some frame else None) (if arr = Room then Some frame else None)"
      by (auto simp: parse filled_array_def split: if_splits array_alloc.splits)
    show "XModbusAdu_matchingChecksum r" "XModbusAdu_serverAddress r = uint (address AND 0xFF)"
      "raw = Room \<Longrightarrow> XModbusAdu_rawData True r = Some frame"
      by (simp_all add: r good address)
    show "XModbusAdu_pdu copied' array room r out =
        received_unit (arr = Room \<and> copied') array room (mp_code pdu AND 0xFF) (if copied then d else []) out"
      by (simp add: r unit no_unit code d'_def) (simp add: received_unit_def)
  qed
qed

lemma rtu_frame_example:
  "XModbusAdu_createRtuFrame True Room 0x11 \<lparr>mp_code = 3, mp_data = Some [0, 0x6B, 0, 3]\<rparr> =
    Some [0x11, 3, 0, 0x6B, 0, 3, 0x76, 0x87]"
  by code_simp

lemma rtu_roundtrip_witness:
  "\<exists>adu. XModbusAdu_parseRtu True Room Room [0x11, 3, 0, 0x6B, 0, 3, 0x76, 0x87] = Some (Some adu) \<and>
    XModbusAdu_matchingChecksum adu \<and> XModbusAdu_serverAddress adu = 0x11 \<and>
    XModbusAdu_pdu True True (\<lambda>n. n < 1000) adu \<lparr>mp_code = 0, mp_data = None\<rparr> =
      (True, \<lparr>mp_code = 3, mp_data = Some [0, 0x6B, 0, 3]\<rparr>)"
  using rtu_roundtrip [where pdu = "\<lparr>mp_code = 3, mp_data = Some [0, 0x6B, 0, 3]\<rparr>" and copied = True and given = Room and
      d = "[0, 0x6B, 0, 3]" and room = "\<lambda>n. n < 1000" and address = "0x11" and copied' = True and array = True and
      frame = "[0x11, 3, 0, 0x6B, 0, 3, 0x76, 0x87]" and out = "\<lparr>mp_code = 0, mp_data = None\<rparr>"]
    rtu_frame_example
  by (auto simp: received_unit_def)

text \<open>
  C11: A frame with one byte changed, anywhere in it, the check itself included, still parses, but
  its check is not valid.
\<close>

theorem rtu_detects_corruption:
  assumes "XModbusAdu_createRtuFrame copied arr address pdu = Some frame"
    and i: "i < length frame" and x: "x \<noteq> frame ! i"
  shows "\<exists>adu. XModbusAdu_parseRtu True Room Room (frame[i := x]) = Some (Some adu) \<and>
    \<not> XModbusAdu_matchingChecksum adu"
proof -
  obtain body where len: "2 \<le> length body" and
    frame: "frame = body @ [ucast (XCrc16_calculate XCrc16_Algorithm_Modbus (Some body)),
      ucast (drop_bit 8 (XCrc16_calculate XCrc16_Algorithm_Modbus (Some body)))]"
    using assms(1) by (auto simp: XModbusAdu_createRtuFrame_def Let_def split: array_alloc.splits)
  let ?crc = "\<lambda>b. XCrc16_calculate XCrc16_Algorithm_Modbus (Some b)" and ?f = "frame[i := x]"
  let ?n = "length body"
  have n: "length ?f = ?n + 2" by (simp add: frame)
  have "?crc (take ?n ?f) \<noteq> ucast (?f ! ?n) OR push_bit 8 (ucast (?f ! (?n + 1)))"
  proof (cases "i < ?n")
    case True
    then have "take ?n ?f = body[i := x]" by (simp add: frame list_update_append)
    with True have t: "take ?n ?f = take i body @ x # drop (Suc i) body"
      by (simp add: upd_conv_take_nth_drop)
    have b: "body = take i body @ frame ! i # drop (Suc i) body"
      using True by (simp add: frame nth_append id_take_nth_drop)
    have "?f ! ?n = ucast (?crc body)" "?f ! (?n + 1) = ucast (drop_bit 8 (?crc body))"
      using True by (simp_all add: frame nth_append nth_list_update)
    then have "ucast (?f ! ?n) OR push_bit 8 (ucast (?f ! (?n + 1))) = ?crc body" by (simp only: crc_bytes)
    moreover have "?crc (take ?n ?f) \<noteq> ?crc body"
      using crc16_change [OF x, of XCrc16_Algorithm_Modbus "take i body" "drop (Suc i) body"] b t
      by metis
    ultimately show ?thesis by simp
  next
    case False
    then have t: "take ?n ?f = body" by (simp add: frame list_update_append)
    show ?thesis
    proof
      assume eq: "?crc (take ?n ?f) = ucast (?f ! ?n) OR push_bit 8 (ucast (?f ! (?n + 1)))"
      have halves: "ucast (ucast a OR push_bit 8 (ucast b) :: 16 word) = a"
        "ucast (drop_bit 8 (ucast a OR push_bit 8 (ucast b) :: 16 word)) = b" for a b :: byte
        by (rule bit_word_eqI, auto simp: bit_simps dest: bit_imp_le_length)+
      have "?f ! ?n = ucast (?crc body)" "?f ! (?n + 1) = ucast (drop_bit 8 (?crc body))"
        using eq t halves by metis+
      moreover have "i = ?n \<or> i = ?n + 1" using False i by (auto simp: frame)
      ultimately have "x = frame ! i" by (auto simp: frame nth_append)
      with x show False by simp
    qed
  qed
  then show ?thesis
    using n len by (simp add: XModbusAdu_parseRtu_def filled_array_def XModbusAdu_matchingChecksum_def)
qed

lemma rtu_detects_corruption_witness:
  "\<exists>adu. XModbusAdu_parseRtu True Room Room [0x11, 3, 0, 0x6A, 0, 3, 0x76, 0x87] = Some (Some adu) \<and>
    \<not> XModbusAdu_matchingChecksum adu"
  using rtu_detects_corruption [OF rtu_frame_example, of 3 "0x6A"] by simp

text \<open>The hexadecimal digits.\<close>

lemma hex_value_digit:
  assumes "n < 16"
  shows "hex_value (hexChars ! n) = of_nat n" and "hexChars ! n \<noteq> 13" and "hexChars ! n \<noteq> 10"
proof -
  have "n \<in> {0, 1, 2, 3, 4, 5, 6, 7, 8, 9, 10, 11, 12, 13, 14, 15}" using assms by (simp, presburger)
  then have "hex_value (hexChars ! n) = of_nat n \<and> hexChars ! n \<noteq> 13 \<and> hexChars ! n \<noteq> 10"
    by (elim insertE emptyE) (simp_all add: hexChars_def hex_value_def)
  then show "hex_value (hexChars ! n) = of_nat n" and "hexChars ! n \<noteq> 13" and "hexChars ! n \<noteq> 10"
    by simp_all
qed

lemma nibble_less: "unat (b AND 0x0F :: byte) < 16"
proof -
  have "b AND 0x0F \<le> 0x0F" by (rule word_and_le1)
  then show ?thesis by (simp add: word_le_nat_alt)
qed

lemma nibbles: "push_bit 4 (drop_bit 4 b AND 0x0F) OR (b AND 0x0F) = (b :: byte)"
  by (simp only: low_bits) (rule bit_word_eqI, auto simp: bit_simps)

lemma concat_hex: "concat (map hex_pair bs) =
    concat (map (\<lambda>b. [hexChars ! unat (drop_bit 4 b AND 0x0F), hexChars ! unat (b AND 0x0F)]) bs)"
  by (simp add: hex_pair_def cong: map_cong)

lemma hex_decode_encode:
  assumes "n = length bs"
  shows "hex_decode ([58] @ concat (map hex_pair bs) @ rest) n = bs"
proof (rule nth_equalityI)
  show "length (hex_decode ([58] @ concat (map hex_pair bs) @ rest) n) = length bs"
    using assms by (simp add: hex_decode_def)
next
  fix i assume "i < length (hex_decode ([58] @ concat (map hex_pair bs) @ rest) n)"
  then have i: "i < length bs" using assms by (simp add: hex_decode_def)
  then have "hex_decode ([58] @ concat (map hex_pair bs) @ rest) n ! i =
      push_bit 4 (drop_bit 4 (bs ! i) AND 0x0F) OR (bs ! i AND 0x0F)"
    using assms by (simp add: hex_decode_def concat_hex nth_append nth_concat_pairs hex_value_digit nibble_less)
  then show "hex_decode ([58] @ concat (map hex_pair bs) @ rest) n ! i = bs ! i" by (simp only: nibbles)
qed

lemma find_end_hex:
  "find_end (concat (map hex_pair bs) @ 13 # rest) i = Some (i + 2 * length bs)"
  by (induction bs arbitrary: i) (simp_all add: hex_pair_def hex_value_digit nibble_less)

lemma lrc_sum_Cons2: "lrc_sum 0 (a # b # d) = lrc_sum (ucast a + ucast b) d"
  by simp

text \<open>
  C22: A unit sent in an ASCII frame, shorter than two gigabytes, is received as it was sent, whatever delimiter is
  chosen. With its memory the receiver parses the frame. Whichever of its allocations it is given, what it
  parses has a valid check, the low byte of the address and, taken from it, a unit with the low byte of the
  function code and the data that was sent, or no unit, or a unit without data where its own memory for them is
  refused. The data sent is that of the unit, or none when the sender cannot copy it.
\<close>

theorem ascii_roundtrip:
  assumes "mp_data pdu = Some d" and "length d + 4 < 2 ^ 31"
    and "XModbusAdu_createAsciiFrame copied given address pdu delimiter = Some frame"
  shows "(\<exists>adu. XModbusAdu_parseAscii True Room Room frame = Some (Some adu)) \<and>
    (\<forall>obj raw arr adu. XModbusAdu_parseAscii obj raw arr frame = Some (Some adu) \<longrightarrow>
      XModbusAdu_matchingChecksum adu \<and> XModbusAdu_serverAddress adu = uint (address AND 0xFF) \<and>
      XModbusAdu_pdu copied' array room adu out =
        received_unit copied' array room (mp_code pdu AND 0xFF) (if copied then d else []) out)"
proof -
  define d' where "d' = (if copied then d else [])"
  have short: "length d' + 4 < 2 ^ 31" using assms(2) by (simp add: d'_def)
  define a where "a = (ucast (address AND 0xFF) :: byte)"
  define c where "c = (ucast (mp_code pdu) :: byte)"
  define lrc where "lrc = (ucast (- (lrc_sum (ucast a + ucast c) d' AND 0xFF)) :: byte)"
  define bs where "bs = a # c # d' @ [lrc]"
  define tail where "tail = [13, if delimiter = 0 then 10 else delimiter]"
  have frame: "frame = [58] @ concat (map hex_pair bs) @ tail"
    using assms(1,3) by (simp add: d'_def XModbusAdu_createAsciiFrame_def XModbusPdu_data_def Let_def
        XModbusPdu_functionCodeRaw_def a_def c_def lrc_def bs_def tail_def split: array_alloc.splits if_splits)
  have bl: "length bs = 3 + length d'" by (simp add: bs_def)
  have cl: "length (concat (map hex_pair bs)) = 2 * length bs" by (simp add: concat_hex)
  have fl: "length frame = 2 * length bs + 3" using cl by (simp add: frame tail_def)
  have f0: "frame ! 0 = 58" by (simp add: frame)
  have e: "find_end (tl frame) 1 = Some (1 + 2 * length bs)"
    using find_end_hex [of bs "tl tail" 1] by (simp add: frame tail_def)
  have dec: "hex_decode frame (length bs) = bs" unfolding frame by (rule hex_decode_encode) simp
  define adu where "adu raw = XModbusAdu_init\<lparr>adu_type := XModbusAdu_Ascii,
    adu_rawData := raw, adu_data := Some bs, adu_serverAddress := a, adu_checksumValid := True\<rparr>" for raw
  have len32: "nat (int32 (int (length bs - 1))) = length d' + 2"
    using short bl by (simp add: int32_def signed_take_bit_int_eq_self)
  have "XModbusAdu_calculateLRC bs (int32 (int (length bs - 1))) = lrc"
    by (simp only: XModbusAdu_calculateLRC_def len32) (simp add: bs_def lrc_def)
  moreover have "bs ! (length bs - 1) = lrc" by (simp add: bs_def nth_append)
  moreover have "bs ! 0 = a" by (simp add: bs_def)
  ultimately have parse: "XModbusAdu_parseAscii obj raw arr frame = (if \<not> obj then Some None else do {
      rawData \<leftarrow> filled_array raw (take (2 * length bs + 2) frame);
      if arr \<noteq> Room then Some None else Some (Some (adu rawData)) })" for obj raw arr
    using fl e bl dec [unfolded bl] f0
    by (cases raw; cases arr) (simp_all add: XModbusAdu_parseAscii_def Let_def adu_def filled_array_def)
  have unit: "XModbusAdu_pdu copied' array room (adu raw) out = received_unit copied' array room (ucast c) d' out" for raw
    using short by (intro pdu_of_frame [where a = a and chk = "[lrc]"])
      (simp_all add: adu_def bs_def checksumBytes_def XModbusAdu_init_def)
  have low: "ucast c = mp_code pdu AND 0xFF" "uint a = uint (address AND 0xFF)"
    unfolding c_def a_def by (rule low_byte low_byte_uint)+
  have "XModbusAdu_matchingChecksum (adu raw)" "XModbusAdu_serverAddress (adu raw) = uint (address AND 0xFF)" for raw
    by (simp_all add: adu_def XModbusAdu_matchingChecksum_def XModbusAdu_serverAddress_def low)
  then show ?thesis using unit low(1) unfolding d'_def
    by (auto simp: parse filled_array_def split: if_splits array_alloc.splits)
qed

lemma ascii_frame_example:
  "XModbusAdu_createAsciiFrame True Room 0x11 \<lparr>mp_code = 3, mp_data = Some [0, 0x6B, 0, 3]\<rparr> 0 =
    Some [58, 49, 49, 48, 51, 48, 48, 54, 66, 48, 48, 48, 51, 55, 69, 13, 10]"
  by code_simp

lemma ascii_roundtrip_witness:
  "\<exists>adu. XModbusAdu_parseAscii True Room Room
      [58, 49, 49, 48, 51, 48, 48, 54, 66, 48, 48, 48, 51, 55, 69, 13, 10] = Some (Some adu) \<and>
    XModbusAdu_matchingChecksum adu \<and> XModbusAdu_serverAddress adu = 0x11 \<and>
    XModbusAdu_pdu True True (\<lambda>n. n < 1000) adu \<lparr>mp_code = 0, mp_data = None\<rparr> =
      (True, \<lparr>mp_code = 3, mp_data = Some [0, 0x6B, 0, 3]\<rparr>)"
  using ascii_roundtrip [where pdu = "\<lparr>mp_code = 3, mp_data = Some [0, 0x6B, 0, 3]\<rparr>" and copied = True and given = Room and
      d = "[0, 0x6B, 0, 3]" and room = "\<lambda>n. n < 1000" and address = "0x11" and delimiter = 0 and
      frame = "[58, 49, 49, 48, 51, 48, 48, 54, 66, 48, 48, 48, 51, 55, 69, 13, 10]" and
      copied' = True and array = True and out = "\<lparr>mp_code = 0, mp_data = None\<rparr>"]
    ascii_frame_example
  by (auto simp: received_unit_def)

end
