(* ===== verification/ModbusServeProps.thy ===== *)
theory ModbusServeProps
  imports ModbusServe ModbusBank ModbusProps
begin

text \<open>
  The requests of the Modbus server. Every request, whatever its bytes, is answered without leaving the
  request data or the tables and keeps the shape of the tables; the response fits a unit; what is written
  is read back, packed into bits for coils. The error paths: a mask write of standard length is always
  refused, a combined write and read keeps its write when the read is refused, and a unit whose values
  could not be allocated is written as success.
\<close>

unbundle bit_operations_syntax

section \<open>Granted allocations\<close>

definition env_granted :: "'v server_env \<Rightarrow> bool" where
  "env_granted env \<longleftrightarrow> env_unit env = Sized \<and> env_unit2 env = Sized \<and> env_object env \<noteq> None \<and>
     env_array env \<and> env_array2 env \<and> list_all (env_room env) [0..<256]"

definition answer :: "fcode \<Rightarrow> byte list \<Rightarrow> XModbusPdu" where
  "answer code bs = \<lparr>mp_code = code, mp_data = Some bs\<rparr>"

definition refusal :: "fcode \<Rightarrow> 32 word \<Rightarrow> XModbusPdu" where
  "refusal code ec = answer (code OR 0x80) [ucast ec]"

lemma granted_room: "env_granted env \<Longrightarrow> n < 256 \<Longrightarrow> env_room env n"
  by (simp add: env_granted_def list_all_iff)

lemma granted_response [simp]: "env_granted env \<Longrightarrow> create_response env code = Some (answer code [])"
  by (auto simp: env_granted_def create_response_def XModbusResponse_create_with_code_def
      XModbusResponse_create_ex_def XModbusResponse_init_with_code_def XModbusResponse_init_def
      XModbusPdu_init_def answer_def)

lemma granted_exception [simp]: "env_granted env \<Longrightarrow> createExceptionResponse env code ec = Some (refusal code ec)"
  using granted_room [of env 0]
  by (auto simp: env_granted_def createExceptionResponse_def refusal_def answer_def
      XModbusExceptionResponse_create_with_function_and_exception_def
      XModbusExceptionResponse_create_ex_def
      XModbusExceptionResponse_init_with_function_and_exception_def XModbusResponse_init_def
      XModbusPdu_init_def XByteArray_push_back_2_def Let_def)

lemma granted_push [simp]:
  "env_granted env \<Longrightarrow> length d < 256 \<Longrightarrow> push_response env (answer code d) bs = answer code (d @ bs)"
  by (simp add: push_response_def answer_def XByteArray_push_back_2_def granted_room)

lemma granted_set [simp]: "env_granted env \<Longrightarrow> set_response env code bs = Some (answer code bs)"
  using granted_room [of env 0]
  by (auto simp: set_response_def XModbusPdu_setData_def answer_def XByteArray_push_back_2_def)

lemma granted_unit [simp]:
  "env_granted env \<Longrightarrow> type \<noteq> XModbusInvalid \<Longrightarrow> XModbusDataUnit_create_ex (env_unit env) type start n =
    Some \<lparr>md_type = type, md_startAddress = start, md_data = Some (Values (replicate n 0))\<rparr>"
  "env_granted env \<Longrightarrow> type \<noteq> XModbusInvalid \<Longrightarrow> XModbusDataUnit_create_ex (env_unit2 env) type start n =
    Some \<lparr>md_type = type, md_startAddress = start, md_data = Some (Values (replicate n 0))\<rparr>"
  by (simp_all add: env_granted_def XModbusDataUnit_create_ex_def XModbusDataUnit_init_ex_def
      XModbusDataUnit_createContainer_def XModbusDataUnit_init_def)

lemma granted_reject [simp]:
  "env_granted env \<Longrightarrow> reject env server code ec = Some (Some (refusal code ec), server, [])"
  by (simp add: reject_def)

section \<open>Reading registers\<close>

definition be_bytes :: "16 word list \<Rightarrow> byte list" where
  "be_bytes vs = concat (map writeUint16ToData vs)"

lemma length_be_bytes [simp]: "length (be_bytes vs) = 2 * length vs"
  by (induction vs) (simp_all add: be_bytes_def writeUint16ToData_def)

text \<open>The registers a request may see: the address 65535 is not one of them.\<close>

definition visible :: "'v XModbusServer \<Rightarrow> XModbusRegisterType \<Rightarrow> 16 word \<Rightarrow> nat \<Rightarrow> 16 word list option" where
  "visible server type start n =
     (if start = 0xFFFF then None else registers server type (unat start) n)"

lemma read_granted:
  assumes "bank_ok server" and "ms_dataMap server = Some m" and "type \<noteq> XModbusInvalid" and "0 < n"
  shows "VXModbusServer_readData server
      \<lparr>md_type = type, md_startAddress = start, md_data = Some (Values (replicate n 0))\<rparr> =
    Some (case visible server type start n of
        None \<Rightarrow> (False, \<lparr>md_type = type, md_startAddress = start, md_data = Some (Values (replicate n 0))\<rparr>)
      | Some vs \<Rightarrow> (True, \<lparr>md_type = type, md_startAddress = start, md_data = Some (Values vs)\<rparr>))"
  using readData_spec [OF assms(1,2), of "\<lparr>md_type = type, md_startAddress = start,
      md_data = Some (Values (replicate n 0))\<rparr>" "replicate n 0"] assms(3,4)
  by (simp add: visible_def split: option.split)

lemma visible_length: "visible server type start n = Some vs \<Longrightarrow> length vs = n"
  by (auto simp: visible_def dest: length_registers split: if_splits)

lemma visible_normal:
  assumes ok: "bank_ok server" and v: "visible server type start n = Some vs" and "v \<in> set vs"
  shows "normal type v = v"
proof -
  obtain b where b: "register server type b = Some v"
    using v \<open>v \<in> set vs\<close> by (force simp: visible_def registers_def list_all_iff split: if_splits)
  then obtain m t where m: "ms_dataMap server = Some m" "m type = Some t"
    and i: "b - unat (md_startAddress t) < length (unit_values t)"
      "v = unit_values t ! (b - unat (md_startAddress t))"
    by (auto simp: register_def Let_def split: option.splits if_splits)
  from i have "v \<in> set (unit_values t)" by simp
  with m show ?thesis using bank_okD [OF ok m] by (metis unit_okE)
qed

lemma push_registers_spec:
  assumes env: "env_granted env" and u: "md_data u = Some (Values vs)" "\<not> XModbusDataUnit_isBitType (md_type u)"
    and "i \<le> length vs" "length d + 2 * (length vs - i) < 256"
  shows "push_registers env u (length vs) i (answer code d) = Some (answer code (d @ be_bytes (drop i vs)))"
  using assms(4,5)
proof (induction "length vs - i" arbitrary: i d)
  case 0
  then show ?case by (subst push_registers.simps) (simp add: be_bytes_def)
next
  case (Suc k)
  then have i: "i < length vs" by simp
  have "push_registers env u (length vs) i (answer code d) =
      push_registers env u (length vs) (Suc i) (answer code (d @ writeUint16ToData (vs ! i)))"
    using i Suc.prems u env by (subst push_registers.simps) (simp add: value_values normal_def)
  also have "\<dots> = Some (answer code (d @ be_bytes (drop i vs)))"
    using Suc i by (subst Suc.hyps(1)) (auto simp: be_bytes_def Cons_nth_drop_Suc [symmetric, of i vs] writeUint16ToData_def)
  finally show ?case .
qed

definition field16 :: "byte list \<Rightarrow> nat \<Rightarrow> 16 word" where
  "field16 data off = push_bit 8 (ucast (data ! off)) OR ucast (data ! (off + 1))"

lemma read16 [simp]: "off + 1 < length data \<Longrightarrow> readUint16FromData data off = Some (field16 data off)"
  by (simp add: readUint16FromData_def field16_def)

lemma serve_registers_spec:
  assumes env: "env_granted env" and ok: "bank_ok server" and m: "ms_dataMap server = Some m"
    and type: "type = XModbusHoldingRegisters \<or> type = XModbusInputRegisters"
  shows "serve_registers env server code data type =
    Some (Some (if length data < 4 \<or> field16 data 2 < 1 \<or> 125 < field16 data 2
        then refusal code XModbusPdu_IllegalDataValue
        else case visible server type (field16 data 0) (unat (field16 data 2)) of
          None \<Rightarrow> refusal code XModbusPdu_IllegalDataAddress
        | Some vs \<Rightarrow> answer code (of_nat (2 * length vs) # be_bytes vs)), server, [])"
proof (cases "length data < 4 \<or> field16 data 2 < 1 \<or> 125 < field16 data 2")
  case True
  then show ?thesis using env by (auto simp: serve_registers_def field16_def)
next
  case False
  let ?q = "unat (field16 data 2)"
  have q: "0 < ?q" "?q \<le> 125" using False by (simp_all add: word_less_nat_alt not_less)
  have read: "readUint16FromData data 0 = Some (field16 data 0)" "readUint16FromData data 2 = Some (field16 data 2)"
    using False by (simp_all add: field16_def)
  have t: "type \<noteq> XModbusInvalid" "\<not> XModbusDataUnit_isBitType type"
    using type by (auto simp: XModbusDataUnit_isBitType_def)
  show ?thesis
  proof (cases "visible server type (field16 data 0) ?q")
    case None
    then show ?thesis
      using False env t read_granted [OF ok m t(1) q(1), of "field16 data 0"]
      by (simp add: serve_registers_def read del: read16)
  next
    case (Some vs)
    then have "length vs = ?q" by (rule visible_length)
    then have "push_registers env \<lparr>md_type = type, md_startAddress = field16 data 0, md_data = Some (Values vs)\<rparr>
        ?q 0 (answer code [of_nat (2 * ?q)]) = Some (answer code (of_nat (2 * ?q) # be_bytes vs))"
      using push_registers_spec [OF env, of "\<lparr>md_type = type, md_startAddress = field16 data 0,
        md_data = Some (Values vs)\<rparr>" vs 0 "[of_nat (2 * ?q)]" code] q t by simp
    then show ?thesis
      using False env t Some read_granted [OF ok m t(1) q(1), of "field16 data 0"] \<open>length vs = ?q\<close>
      by (simp add: serve_registers_def read mult.commute del: read16)
  qed
qed

section \<open>Reading bits\<close>

text \<open>Byte \<open>k\<close> of a bit response: bit \<open>j\<close> is the value of bit \<open>8 * k + j\<close>.\<close>

definition bit_byte :: "16 word list \<Rightarrow> byte" where
  "bit_byte vs = horner_sum of_bool 2 (map (\<lambda>v. v \<noteq> 0) (take 8 vs))"

function bit_bytes :: "16 word list \<Rightarrow> byte list" where
  "bit_bytes vs = (if vs = [] then [] else bit_byte vs # bit_bytes (drop 8 vs))"
  by pat_completeness auto
termination by (relation "measure length") auto

declare bit_bytes.simps [simp del]

lemma byte_count_step:
  assumes "1 \<le> n"
  shows "Suc ((n - 8 + 7) div 8) = (n + 7) div (8 :: nat)"
proof (cases "8 \<le> n")
  case True
  then have "n + 7 = n - 8 + 7 + 8" by simp
  then show ?thesis by (metis div_add_self2 Suc_eq_plus1 zero_neq_numeral)
next
  case False
  then have "(n + 7) div 8 = 1" using assms by (intro div_nat_eqI) simp_all
  then show ?thesis using False by simp
qed

lemma length_bit_bytes: "length (bit_bytes vs) = (length vs + 7) div 8"
proof (induction vs rule: bit_bytes.induct)
  case (1 vs)
  show ?case
  proof (cases "vs = []")
    case False
    then have "length (bit_bytes vs) = Suc ((length vs - 8 + 7) div 8)"
      using 1 by (subst bit_bytes.simps) simp
    also have "\<dots> = (length vs + 7) div 8"
      by (rule byte_count_step) (use False in \<open>simp add: Suc_le_eq\<close>)
    finally show ?thesis .
  qed (simp add: bit_bytes.simps)
qed

lemma bit_bit_byte: "bit (bit_byte vs) k \<longleftrightarrow> k < 8 \<and> k < length vs \<and> vs ! k \<noteq> 0"
  by (auto simp: bit_byte_def bit_horner_sum_bit_word_iff)

lemma bit_one_shift: "bit (2 ^ b :: byte) k \<longleftrightarrow> k = b \<and> b < 8"
  by (auto simp: bit_exp_iff)

lemma pack_bits_bits:
  assumes u: "md_data u = Some (Values vs)" "XModbusDataUnit_isBitType (md_type u)" and "b \<le> 8"
  shows "\<exists>r. pack_bits u (length vs) i b acc = Some r \<and>
    (\<forall>k. bit r k \<longleftrightarrow> bit acc k \<or> b \<le> k \<and> k < 8 \<and> i + (k - b) < length vs \<and> vs ! (i + (k - b)) \<noteq> 0)"
  using assms(3)
proof (induction "8 - b" arbitrary: i b acc)
  case 0
  then show ?case by (subst pack_bits.simps) auto
next
  case (Suc n)
  show ?case
  proof (cases "i < length vs")
    case True
    have b: "b < 8" using Suc by simp
    let ?acc = "if vs ! i \<noteq> 0 then acc OR push_bit b 1 else acc"
    have step: "pack_bits u (length vs) i b acc = pack_bits u (length vs) (Suc i) (Suc b) ?acc"
      using True b u by (subst pack_bits.simps) (simp add: value_values normal_def)
    have "n = 8 - Suc b" "Suc b \<le> 8" using Suc.hyps(2) b by simp_all
    then obtain r where r: "pack_bits u (length vs) (Suc i) (Suc b) ?acc = Some r"
      and bits: "\<And>k. bit r k \<longleftrightarrow> bit ?acc k \<or>
        Suc b \<le> k \<and> k < 8 \<and> Suc i + (k - Suc b) < length vs \<and> vs ! (Suc i + (k - Suc b)) \<noteq> 0"
      using Suc.hyps(1) [of "Suc b" "Suc i" ?acc] by blast
    have "bit r k \<longleftrightarrow> bit acc k \<or> b \<le> k \<and> k < 8 \<and> i + (k - b) < length vs \<and> vs ! (i + (k - b)) \<noteq> 0" for k
    proof -
      consider "k < b" | "k = b" | "Suc b \<le> k" by linarith
      then show ?thesis
      proof cases
        case 3
        then have "Suc i + (k - Suc b) = i + (k - b)" by simp
        with 3 bits [of k] show ?thesis by (auto simp: bit_or_iff bit_one_shift)
      qed (use bits [of k] True b in \<open>auto simp: bit_or_iff bit_one_shift\<close>)
    qed
    with step r show ?thesis by auto
  qed (subst pack_bits.simps, simp)
qed

lemma pack_bits_spec:
  assumes "md_data u = Some (Values vs)" and "XModbusDataUnit_isBitType (md_type u)"
  shows "pack_bits u (length vs) i 0 0 = Some (bit_byte (drop i vs))"
proof -
  obtain r where r: "pack_bits u (length vs) i 0 0 = Some r"
    and bits: "\<And>k. bit r k \<longleftrightarrow> k < 8 \<and> i + k < length vs \<and> vs ! (i + k) \<noteq> 0"
    using pack_bits_bits [OF assms, of 0 i 0] by auto
  have "r = bit_byte (drop i vs)"
    by (rule bit_word_eqI) (auto simp: bits bit_bit_byte)
  with r show ?thesis by simp
qed

lemma push_bits_spec:
  assumes env: "env_granted env" and u: "md_data u = Some (Values vs)" "XModbusDataUnit_isBitType (md_type u)"
    and "length d + length (bit_bytes (drop i vs)) < 256"
  shows "push_bits env u (length vs) i (answer code d) = Some (answer code (d @ bit_bytes (drop i vs)))"
  using assms(4)
proof (induction "drop i vs" arbitrary: i d rule: bit_bytes.induct)
  case 1
  show ?case
  proof (cases "i < length vs")
    case True
    then have ne: "drop i vs \<noteq> []" by simp
    have unfold: "bit_bytes (drop i vs) = bit_byte (drop i vs) # bit_bytes (drop (i + 8) vs)"
      using ne by (subst bit_bytes.simps) (simp add: add.commute)
    have next_i: "drop (i + min 8 (length vs - i)) vs = drop (i + 8) vs"
      by (cases "8 \<le> length vs - i") simp_all
    have "push_bits env u (length vs) i (answer code d) =
        push_bits env u (length vs) (i + min 8 (length vs - i)) (answer code (d @ [bit_byte (drop i vs)]))"
      using True env "1.prems" by (subst push_bits.simps) (simp add: pack_bits_spec [OF u] unfold)
    also have "\<dots> = Some (answer code ((d @ [bit_byte (drop i vs)]) @ bit_bytes (drop (i + 8) vs)))"
      using "1.hyps" [OF ne, of "i + min 8 (length vs - i)" "d @ [bit_byte (drop i vs)]"] "1.prems"
      by (simp add: next_i unfold add.commute)
    finally show ?thesis by (simp add: unfold)
  qed (subst push_bits.simps, simp add: bit_bytes.simps)
qed

lemma serve_bits_spec:
  assumes env: "env_granted env" and ok: "bank_ok server" and m: "ms_dataMap server = Some m"
    and type: "type = XModbusCoils \<or> type = XModbusDiscreteInputs"
  shows "serve_bits env server code data type =
    Some (Some (if length data < 4 \<or> field16 data 2 < 1 \<or> 2000 < field16 data 2
        then refusal code XModbusPdu_IllegalDataValue
        else case visible server type (field16 data 0) (unat (field16 data 2)) of
          None \<Rightarrow> refusal code XModbusPdu_IllegalDataAddress
        | Some vs \<Rightarrow> answer code (of_nat (length (bit_bytes vs)) # bit_bytes vs)), server, [])"
proof (cases "length data < 4 \<or> field16 data 2 < 1 \<or> 2000 < field16 data 2")
  case True
  then show ?thesis using env by (auto simp: serve_bits_def field16_def)
next
  case False
  let ?q = "unat (field16 data 2)"
  have q: "0 < ?q" "?q \<le> 2000" using False by (simp_all add: word_less_nat_alt not_less)
  have read: "readUint16FromData data 0 = Some (field16 data 0)" "readUint16FromData data 2 = Some (field16 data 2)"
    using False by (simp_all add: field16_def)
  have t: "type \<noteq> XModbusInvalid" "XModbusDataUnit_isBitType type"
    using type by (auto simp: XModbusDataUnit_isBitType_def)
  show ?thesis
  proof (cases "visible server type (field16 data 0) ?q")
    case None
    then show ?thesis
      using False env t read_granted [OF ok m t(1) q(1), of "field16 data 0"]
      by (simp add: serve_bits_def read del: read16)
  next
    case (Some vs)
    then have l: "length vs = ?q" by (rule visible_length)
    then have "length (bit_bytes vs) < 255" using q by (simp add: length_bit_bytes)
    then have "push_bits env \<lparr>md_type = type, md_startAddress = field16 data 0, md_data = Some (Values vs)\<rparr>
        ?q 0 (answer code [of_nat ((?q + 7) div 8)]) = Some (answer code (of_nat ((?q + 7) div 8) # bit_bytes vs))"
      using push_bits_spec [OF env, of "\<lparr>md_type = type, md_startAddress = field16 data 0,
        md_data = Some (Values vs)\<rparr>" vs "[of_nat ((?q + 7) div 8)]" 0 code] l t by simp
    then show ?thesis
      using False env t Some read_granted [OF ok m t(1) q(1), of "field16 data 0"] l
      by (simp add: serve_bits_def read length_bit_bytes del: read16)
  qed
qed

section \<open>Writing\<close>

definition bank_write ::
  "'v XModbusServer \<Rightarrow> XModbusRegisterType \<Rightarrow> 16 word \<Rightarrow> 16 word list \<Rightarrow> 'v XModbusServer option" where
  "bank_write server type start vs = bank_put server type (unat start) vs"

lemma unat_max16: "unat (start :: 16 word) < 65535 \<longleftrightarrow> start \<noteq> 0xFFFF"
proof -
  have "unat start \<le> 65535" using unsigned_less [where 'a = nat, of start] by simp
  moreover have "unat start = 65535 \<longleftrightarrow> start = 0xFFFF" by (simp add: word_unat_eq_iff)
  ultimately show ?thesis by linarith
qed

lemma write_granted:
  assumes ok: "bank_ok server" and m: "ms_dataMap server = Some m"
    and type: "type \<noteq> XModbusInvalid" and vs: "vs \<noteq> []" "\<forall>v\<in>set vs. normal type v = v"
  shows "VXModbusServer_writeData server
      \<lparr>md_type = type, md_startAddress = start, md_data = Some (Values vs)\<rparr> =
    Some (case bank_write server type start vs of
        None \<Rightarrow> (False, server, [])
      | Some server' \<Rightarrow> (True, server', [(type, uint start, int (length vs))]))"
proof -
  let ?u = "\<lparr>md_type = type, md_startAddress = start, md_data = Some (Values vs)\<rparr>"
  have w: "VXModbusServer_writeData server ?u = Some (False, server, []) \<or>
      (start \<noteq> 0xFFFF \<and> (\<exists>s'. VXModbusServer_writeData server ?u = Some (True, s', [(type, uint start, int (length vs))])))"
    using writeData_spec [OF ok m, of ?u vs] type vs by (auto simp: Let_def split: option.splits if_splits)
  have "bank_write server type start vs = (if start = 0xFFFF then None
      else case VXModbusServer_writeData server ?u of Some (True, s', sigs) \<Rightarrow> Some s' | _ \<Rightarrow> None)"
    using type vs unat_max16 [of start] by (auto simp: bank_write_def bank_put_def list_all_iff)
  moreover have "start = 0xFFFF \<Longrightarrow> VXModbusServer_writeData server ?u = Some (False, server, [])"
    using w by auto
  ultimately show ?thesis using w by (auto split: if_splits)
qed

lemma fill_registers_spec:
  assumes "md_data u = Some (Values vs)" and "i + n \<le> length vs" and "base + 2 * (i + n) \<le> length data"
  shows "fill_registers data base u i n = Some (u\<lparr>md_data := Some (Values (memcpy_at vs i
    (map (\<lambda>j. normal (md_type u) (field16 data (base + j * 2))) [i..<i + n])))\<rparr>)"
  using assms
proof (induction n arbitrary: i u vs)
  case (Suc n)
  let ?v = "normal (md_type u) (field16 data (base + i * 2))"
  have "fill_registers data base u i (Suc n) =
      fill_registers data base (u\<lparr>md_data := Some (Values (vs[i := ?v]))\<rparr>) (Suc i) n"
    using Suc.prems by (simp add: setValue_values field16_def)
  also have "\<dots> = Some (u\<lparr>md_data := Some (Values (memcpy_at (vs[i := ?v]) (Suc i)
      (map (\<lambda>j. normal (md_type u) (field16 data (base + j * 2))) [Suc i..<Suc i + n])))\<rparr>)"
    using Suc.prems by (subst Suc.IH) simp_all
  finally show ?case using Suc.prems by (simp add: memcpy_at_update upt_rec [of i] del: upt_Suc)
qed (simp add: memcpy_at_def)

definition coil_value :: "byte list \<Rightarrow> nat \<Rightarrow> 16 word" where
  "coil_value data j = (if bit (data ! (5 + j div 8)) (j mod 8) then 1 else 0)"

lemma low_bit: "ucast (drop_bit k b AND 0x01 :: byte) = (if bit b k then 1 else 0 :: 16 word)"
proof -
  have "drop_bit k b AND 1 = (of_bool (bit b k) :: byte)"
    by (rule bit_word_eqI) (auto simp: bit_simps)
  then show ?thesis by simp
qed

lemma fill_coils_spec:
  assumes "md_data u = Some (Values vs)" and "XModbusDataUnit_isBitType (md_type u)"
    and "i + n \<le> length vs" and "i + n \<le> 2000" and "5 + (i + n + 7) div 8 \<le> length data"
  shows "fill_coils data u i n = Some (u\<lparr>md_data := Some (Values (memcpy_at vs i
    (map (coil_value data) [i..<i + n])))\<rparr>)"
  using assms
proof (induction n arbitrary: i u vs)
  case (Suc n)
  let ?v = "coil_value data i"
  have "i div 8 < (i + Suc n + 7) div 8" by presburger
  then have idx: "(5 + i div 8) mod 256 = 5 + i div 8" "5 + i div 8 < length data" using Suc.prems by simp_all
  have "fill_coils data u i (Suc n) = fill_coils data (u\<lparr>md_data := Some (Values (vs[i := ?v]))\<rparr>) (Suc i) n"
    using Suc.prems by (simp add: setValue_values read_byte_def idx low_bit coil_value_def normal_def)
  also have "\<dots> = Some (u\<lparr>md_data := Some (Values (memcpy_at (vs[i := ?v]) (Suc i)
      (map (coil_value data) [Suc i..<Suc i + n])))\<rparr>)"
    using Suc.prems by (subst Suc.IH) simp_all
  finally show ?case using Suc.prems by (simp add: memcpy_at_update upt_rec [of i] del: upt_Suc)
qed (simp add: memcpy_at_def)

lemma memcpy_all: "length zs = length ys \<Longrightarrow> memcpy_at ys 0 zs = zs"
  by (simp add: memcpy_at_def)

text \<open>The answer to a write: the address is refused, or the block is written and \<open>bs\<close> is sent.\<close>

definition written :: "'v XModbusServer \<Rightarrow> fcode \<Rightarrow> XModbusRegisterType \<Rightarrow> 16 word \<Rightarrow> 16 word list \<Rightarrow>
    byte list \<Rightarrow> XModbusPdu option \<times> 'v XModbusServer \<times> signals" where
  "written server code type start vs bs = (case bank_write server type start vs of
     None \<Rightarrow> (Some (refusal code XModbusPdu_IllegalDataAddress), server, [])
   | Some server' \<Rightarrow> (Some (answer code bs), server', [(type, uint start, int (length vs))]))"

definition refused :: "'v XModbusServer \<Rightarrow> fcode \<Rightarrow> 32 word \<Rightarrow> XModbusPdu option \<times> 'v XModbusServer \<times> signals" where
  "refused server code ec = (Some (refusal code ec), server, [])"

lemma normal_holding [simp]: "normal XModbusHoldingRegisters v = v"
  by (simp add: normal_def XModbusDataUnit_isBitType_def)

lemma normal_coils [simp]: "normal XModbusCoils v = (if v \<noteq> 0 then 1 else 0)"
  by (simp add: normal_def XModbusDataUnit_isBitType_def)

lemma set_one: "XModbusDataUnit_setValue \<lparr>md_type = type, md_startAddress = start, md_data = Some (Values [x])\<rparr> 0 v =
    Some (True, \<lparr>md_type = type, md_startAddress = start, md_data = Some (Values [normal type v])\<rparr>)"
  by (simp add: setValue_values)

lemma serve_WriteSingleRegister_spec:
  assumes env: "env_granted env" and ok: "bank_ok server" and m: "ms_dataMap server = Some m"
  shows "serve_WriteSingleRegister env server code data = Some
    (if length data < 4 then refused server code XModbusPdu_IllegalDataValue
     else written server code XModbusHoldingRegisters (field16 data 0) [field16 data 2] (take 4 data))"
proof (cases "length data < 4")
  case False
  then have read: "readUint16FromData data 0 = Some (field16 data 0)" "readUint16FromData data 2 = Some (field16 data 2)"
    by (simp_all add: field16_def)
  have w: "VXModbusServer_writeData server \<lparr>md_type = XModbusHoldingRegisters, md_startAddress = field16 data 0,
      md_data = Some (Values [field16 data 2])\<rparr> =
    Some (case bank_write server XModbusHoldingRegisters (field16 data 0) [field16 data 2] of
        None \<Rightarrow> (False, server, [])
      | Some server' \<Rightarrow> (True, server', [(XModbusHoldingRegisters, uint (field16 data 0), int (length [field16 data 2]))]))"
    using write_granted [OF ok m, of XModbusHoldingRegisters "[field16 data 2]" "field16 data 0"] by simp
  show ?thesis
    using False env
    by (cases "bank_write server XModbusHoldingRegisters (field16 data 0) [field16 data 2]")
      (simp_all add: serve_WriteSingleRegister_def read set_one w written_def del: read16)
qed (simp add: serve_WriteSingleRegister_def env refused_def)

lemma serve_WriteSingleCoil_spec:
  assumes env: "env_granted env" and ok: "bank_ok server" and m: "ms_dataMap server = Some m"
  shows "serve_WriteSingleCoil env server code data = Some
    (if length data < 4 \<or> field16 data 2 \<notin> {0, 0xFF00} then refused server code XModbusPdu_IllegalDataValue
     else written server code XModbusCoils (field16 data 0) [if field16 data 2 = 0xFF00 then 1 else 0] (take 4 data))"
proof (cases "length data < 4 \<or> field16 data 2 \<notin> {0, 0xFF00}")
  case False
  then have read: "readUint16FromData data 0 = Some (field16 data 0)" "readUint16FromData data 2 = Some (field16 data 2)"
    by (simp_all add: field16_def)
  define v where "v = (if field16 data 2 = 0xFF00 then 1 else 0 :: 16 word)"
  have w: "VXModbusServer_writeData server \<lparr>md_type = XModbusCoils, md_startAddress = field16 data 0,
      md_data = Some (Values [v])\<rparr> =
    Some (case bank_write server XModbusCoils (field16 data 0) [v] of
        None \<Rightarrow> (False, server, [])
      | Some server' \<Rightarrow> (True, server', [(XModbusCoils, uint (field16 data 0), int (length [v]))]))"
    using write_granted [OF ok m, of XModbusCoils "[v]" "field16 data 0"] by (simp add: v_def)
  consider "field16 data 2 = 0" "v = 0" | "field16 data 2 = 0xFF00" "v = 1"
    using False by (auto simp: v_def)
  then show ?thesis
  proof cases
    case 1
    then show ?thesis
      using False env w [unfolded \<open>v = 0\<close>]
      by (cases "bank_write server XModbusCoils (field16 data 0) [0]")
        (simp_all add: serve_WriteSingleCoil_def read set_one written_def del: read16)
  next
    case 2
    then show ?thesis
      using False env w [unfolded \<open>v = 1\<close>]
      by (cases "bank_write server XModbusCoils (field16 data 0) [1]")
        (simp_all add: serve_WriteSingleCoil_def read set_one written_def del: read16)
  qed
qed (auto simp: serve_WriteSingleCoil_def env refused_def field16_def)

lemma serve_WriteMultipleRegisters_spec:
  assumes env: "env_granted env" and ok: "bank_ok server" and m: "ms_dataMap server = Some m"
    and q_def: "q = unat (field16 data 2)"
  shows "serve_WriteMultipleRegisters env server code data = Some
    (if length data < 5 \<or> q < 1 \<or> 123 < q \<or> unat (data ! 4) \<noteq> q * 2 \<or> length data < 5 + q * 2
     then refused server code XModbusPdu_IllegalDataValue
     else written server code XModbusHoldingRegisters (field16 data 0)
       (map (\<lambda>j. field16 data (5 + j * 2)) [0..<q]) (be_bytes [field16 data 0, field16 data 2]))"
proof (cases "length data < 5 \<or> q < 1 \<or> 123 < q \<or> unat (data ! 4) \<noteq> q * 2 \<or> length data < 5 + q * 2")
  case True
  then show ?thesis
    using env by (auto simp: serve_WriteMultipleRegisters_def refused_def q_def word_less_nat_alt read_byte_def)
next
  case False
  let ?vs = "map (\<lambda>j. field16 data (5 + j * 2)) [0..<q]"
  have read: "readUint16FromData data 0 = Some (field16 data 0)" "readUint16FromData data 2 = Some (field16 data 2)"
    "read_byte data 4 = Some (data ! 4)"
    using False by (simp_all add: field16_def read_byte_def)
  have fill: "fill_registers data 5 \<lparr>md_type = XModbusHoldingRegisters, md_startAddress = field16 data 0,
      md_data = Some (Values (replicate q 0))\<rparr> 0 q =
    Some \<lparr>md_type = XModbusHoldingRegisters, md_startAddress = field16 data 0, md_data = Some (Values ?vs)\<rparr>"
    using False by (subst fill_registers_spec [where vs = "replicate q 0"]) (simp_all add: memcpy_all)
  have w: "VXModbusServer_writeData server \<lparr>md_type = XModbusHoldingRegisters, md_startAddress = field16 data 0,
      md_data = Some (Values ?vs)\<rparr> =
    Some (case bank_write server XModbusHoldingRegisters (field16 data 0) ?vs of
        None \<Rightarrow> (False, server, [])
      | Some server' \<Rightarrow> (True, server', [(XModbusHoldingRegisters, uint (field16 data 0), int (length ?vs))]))"
    using write_granted [OF ok m, of XModbusHoldingRegisters ?vs "field16 data 0"] False by simp
  have guard: "\<not> (field16 data 2 < 1 \<or> 123 < field16 data 2)"
    using False by (auto simp: q_def word_less_nat_alt)
  show ?thesis
    using False env guard
    by (cases "bank_write server XModbusHoldingRegisters (field16 data 0) ?vs")
      (simp_all add: serve_WriteMultipleRegisters_def read q_def [symmetric] fill w written_def be_bytes_def
        del: read16)
qed

lemma serve_WriteMultipleCoils_spec:
  assumes env: "env_granted env" and ok: "bank_ok server" and m: "ms_dataMap server = Some m"
    and q_def: "q = unat (field16 data 2)"
  shows "serve_WriteMultipleCoils env server code data = Some
    (if length data < 5 \<or> q < 1 \<or> 1968 < q \<or> unat (data ! 4) \<noteq> (q + 7) div 8 \<or> length data < 5 + (q + 7) div 8
     then refused server code XModbusPdu_IllegalDataValue
     else written server code XModbusCoils (field16 data 0) (map (coil_value data) [0..<q])
       (be_bytes [field16 data 0, field16 data 2]))"
proof (cases "length data < 5 \<or> q < 1 \<or> 1968 < q")
  case True
  then show ?thesis
    using env by (auto simp: serve_WriteMultipleCoils_def refused_def q_def word_less_nat_alt read_byte_def)
next
  case small: False
  have read: "readUint16FromData data 0 = Some (field16 data 0)" "readUint16FromData data 2 = Some (field16 data 2)"
    "read_byte data 4 = Some (data ! 4)"
    using small by (simp_all add: field16_def read_byte_def)
  have guard: "\<not> (field16 data 2 < 1 \<or> 1968 < field16 data 2)"
    using small by (auto simp: q_def word_less_nat_alt)
  have "(q + 7) div 8 < 256" by (rule less_mult_imp_div_less) (use small in simp)
  then have "unat (of_nat ((q + 7) div 8) :: byte) = (q + 7) div 8" by (simp add: unat_of_nat)
  then have bytes: "data ! 4 = of_nat ((q + 7) div 8) \<longleftrightarrow> unat (data ! 4) = (q + 7) div 8"
    by (simp add: word_unat_eq_iff)
  show ?thesis
  proof (cases "unat (data ! 4) \<noteq> (q + 7) div 8 \<or> length data < 5 + (q + 7) div 8")
    case True
    then show ?thesis
      using small env guard bytes
      by (auto simp add: serve_WriteMultipleCoils_def read q_def [symmetric] refused_def Let_def simp del: read16)
  next
    case False
    let ?vs = "map (coil_value data) [0..<q]"
    have fill: "fill_coils data \<lparr>md_type = XModbusCoils, md_startAddress = field16 data 0,
        md_data = Some (Values (replicate q 0))\<rparr> 0 q =
      Some \<lparr>md_type = XModbusCoils, md_startAddress = field16 data 0, md_data = Some (Values ?vs)\<rparr>"
      using False small by (subst fill_coils_spec [where vs = "replicate q 0"]) (simp_all add: memcpy_all XModbusDataUnit_isBitType_def)
    have w: "VXModbusServer_writeData server \<lparr>md_type = XModbusCoils, md_startAddress = field16 data 0,
        md_data = Some (Values ?vs)\<rparr> =
      Some (case bank_write server XModbusCoils (field16 data 0) ?vs of
          None \<Rightarrow> (False, server, [])
        | Some server' \<Rightarrow> (True, server', [(XModbusCoils, uint (field16 data 0), int (length ?vs))]))"
    proof (rule write_granted [OF ok m])
      show "\<forall>v\<in>set ?vs. normal XModbusCoils v = v" by (auto simp: coil_value_def)
    qed (use small in simp_all)
    show ?thesis
      using False small env guard bytes
      by (cases "bank_write server XModbusCoils (field16 data 0) ?vs")
        (simp_all add: serve_WriteMultipleCoils_def read q_def [symmetric] fill w written_def be_bytes_def Let_def
          del: read16)
  qed
qed

lemma bank_write_visible:
  assumes ok: "bank_ok server" and m: "ms_dataMap server = Some m"
    and type: "type \<noteq> XModbusInvalid" and vs: "vs \<noteq> []" "\<forall>v\<in>set vs. normal type v = v"
  shows "bank_write server type start vs = None \<longleftrightarrow> visible server type start (length vs) = None"
  using writeData_spec [OF ok m, of "\<lparr>md_type = type, md_startAddress = start, md_data = Some (Values vs)\<rparr>" vs]
    write_granted [OF assms, of start] type vs
  by (auto simp: visible_def Let_def split: option.splits if_splits)

lemma bank_write_facts:
  assumes "bank_ok server" and "bank_write server type start vs = Some server'"
  shows "bank_ok server'" and "\<exists>m. ms_dataMap server' = Some m"
proof -
  show "bank_ok server'" using bank.put_ok [OF assms(1)] assms(2) by (simp add: bank_write_def)
  show "\<exists>m. ms_dataMap server' = Some m"
    using bank_putE [OF assms(1) assms(2) [unfolded bank_write_def]] by (metis XModbusServer.select_convs(2) XModbusServer.surjective XModbusServer.update_convs(2))
qed

lemma serve_MaskWriteRegister_spec:
  assumes env: "env_granted env" and ok: "bank_ok server" and m: "ms_dataMap server = Some m"
  shows "serve_MaskWriteRegister env server code data = Some
    (if length data < 8 then refused server code XModbusPdu_IllegalDataValue
     else case visible server XModbusHoldingRegisters (field16 data 0) 1 of
        None \<Rightarrow> refused server code XModbusPdu_IllegalDataAddress
      | Some vs \<Rightarrow> written server code XModbusHoldingRegisters (field16 data 0)
          [(vs ! 0 AND field16 data 2) OR (field16 data 4 AND NOT (field16 data 2))] (take 8 data))"
proof (cases "length data < 8")
  case False
  have t: "XModbusHoldingRegisters \<noteq> XModbusInvalid" by simp
  have one: "(0 :: nat) < 1" by simp
  note read = read_granted [OF ok m t one, of "field16 data 0"]
  show ?thesis
  proof (cases "visible server XModbusHoldingRegisters (field16 data 0) 1")
    case None
    then show ?thesis using False env read by (simp add: serve_MaskWriteRegister_def refused_def)
  next
    case (Some vs)
    then obtain v where vs: "vs = [v]" using visible_length [OF Some] by (auto simp: length_Suc_conv)
    let ?new = "(v AND field16 data 2) OR (field16 data 4 AND NOT (field16 data 2))"
    have w: "VXModbusServer_writeData server \<lparr>md_type = XModbusHoldingRegisters, md_startAddress = field16 data 0,
        md_data = Some (Values [?new])\<rparr> =
      Some (case bank_write server XModbusHoldingRegisters (field16 data 0) [?new] of
          None \<Rightarrow> (False, server, [])
        | Some server' \<Rightarrow> (True, server', [(XModbusHoldingRegisters, uint (field16 data 0), int (length [?new]))]))"
      using write_granted [OF ok m, of XModbusHoldingRegisters "[?new]" "field16 data 0"] by simp
    have "bank_write server XModbusHoldingRegisters (field16 data 0) [?new] \<noteq> None"
      using bank_write_visible [OF ok m t, of "[?new]" "field16 data 0"] Some by simp
    then obtain s' where s': "bank_write server XModbusHoldingRegisters (field16 data 0) [?new] = Some s'" by auto
    show ?thesis
      using False env read Some vs w s'
      by (simp add: serve_MaskWriteRegister_def set_one value_values written_def)
  qed
qed (simp add: serve_MaskWriteRegister_def env refused_def)

lemma serve_ReadWriteMultipleRegisters_spec:
  assumes env: "env_granted env" and ok: "bank_ok server" and m: "ms_dataMap server = Some m"
    and q_def: "q = unat (field16 data 2)" and n_def: "n = unat (field16 data 6)"
    and ws_def: "ws = map (\<lambda>j. field16 data (9 + j * 2)) [0..<n]"
  shows "serve_ReadWriteMultipleRegisters env server code data = Some
    (if length data < 9 \<or> q < 1 \<or> 125 < q \<or> n < 1 \<or> 121 < n \<or> unat (data ! 8) \<noteq> n * 2 \<or> length data < 9 + n * 2
     then refused server code XModbusPdu_IllegalDataValue
     else case bank_write server XModbusHoldingRegisters (field16 data 4) ws of
        None \<Rightarrow> refused server code XModbusPdu_IllegalDataAddress
      | Some server' \<Rightarrow>
          (Some (case visible server' XModbusHoldingRegisters (field16 data 0) q of
               None \<Rightarrow> refusal code XModbusPdu_IllegalDataAddress
             | Some vs \<Rightarrow> answer code (of_nat (2 * q) # be_bytes vs)),
           server', [(XModbusHoldingRegisters, uint (field16 data 4), int (length ws))]))"
proof (cases "length data < 9 \<or> q < 1 \<or> 125 < q \<or> n < 1 \<or> 121 < n \<or> unat (data ! 8) \<noteq> n * 2 \<or> length data < 9 + n * 2")
  case True
  then show ?thesis
    using env by (auto simp: serve_ReadWriteMultipleRegisters_def refused_def q_def n_def word_less_nat_alt read_byte_def)
next
  case False
  have fill: "fill_registers data 9 \<lparr>md_type = XModbusHoldingRegisters, md_startAddress = field16 data 4,
      md_data = Some (Values (replicate n 0))\<rparr> 0 n =
    Some \<lparr>md_type = XModbusHoldingRegisters, md_startAddress = field16 data 4, md_data = Some (Values ws)\<rparr>"
    using False by (subst fill_registers_spec [where vs = "replicate n 0"]) (simp_all add: memcpy_all ws_def)
  have ws: "ws \<noteq> []" using False by (simp add: ws_def)
  have w: "VXModbusServer_writeData server \<lparr>md_type = XModbusHoldingRegisters, md_startAddress = field16 data 4,
      md_data = Some (Values ws)\<rparr> =
    Some (case bank_write server XModbusHoldingRegisters (field16 data 4) ws of
        None \<Rightarrow> (False, server, [])
      | Some server' \<Rightarrow> (True, server', [(XModbusHoldingRegisters, uint (field16 data 4), int (length ws))]))"
    using write_granted [OF ok m, of XModbusHoldingRegisters ws "field16 data 4"] ws by simp
  have guard: "\<not> (field16 data 2 < 1 \<or> 125 < field16 data 2)" "\<not> (field16 data 6 < 1 \<or> 121 < field16 data 6)"
    using False by (auto simp: q_def n_def word_less_nat_alt)
  have byte: "read_byte data 8 = Some (data ! 8)" using False by (simp add: read_byte_def)
  show ?thesis
  proof (cases "bank_write server XModbusHoldingRegisters (field16 data 4) ws")
    case None
    then show ?thesis
      using False env guard byte
      by (simp add: serve_ReadWriteMultipleRegisters_def q_def [symmetric] n_def [symmetric] fill w refused_def)
  next
    case (Some s')
    from bank_write_facts [OF ok Some] obtain m' where ok': "bank_ok s'" and m': "ms_dataMap s' = Some m'" by blast
    have q: "0 < q" "q \<le> 125" using False by simp_all
    have t: "XModbusHoldingRegisters \<noteq> XModbusInvalid" by simp
    note read = read_granted [OF ok' m' t q(1), of "field16 data 0"]
    show ?thesis
    proof (cases "visible s' XModbusHoldingRegisters (field16 data 0) q")
      case None
      then show ?thesis
        using False env guard byte Some read
        by (simp add: serve_ReadWriteMultipleRegisters_def q_def [symmetric] n_def [symmetric] fill w)
    next
      case vis: (Some vs)
      then have l: "length vs = q" by (rule visible_length)
      have "push_registers env \<lparr>md_type = XModbusHoldingRegisters, md_startAddress = field16 data 0, md_data = Some (Values vs)\<rparr>
          q 0 (answer code [of_nat (2 * q)]) = Some (answer code (of_nat (2 * q) # be_bytes vs))"
        using push_registers_spec [OF env, of "\<lparr>md_type = XModbusHoldingRegisters, md_startAddress = field16 data 0,
          md_data = Some (Values vs)\<rparr>" vs 0 "[of_nat (2 * q)]" code] q l
        by (simp add: XModbusDataUnit_isBitType_def)
      then show ?thesis
        using False env guard byte Some read vis
        by (simp add: serve_ReadWriteMultipleRegisters_def q_def [symmetric] n_def [symmetric] fill w mult.commute)
    qed
  qed
qed

section \<open>Every request\<close>

text \<open>
  A request is served: there is a response of at most 252 data bytes under the code of the request or its
  exception code, and the bank is as before or one block was written by a writing code.
\<close>

definition writing_code :: "fcode \<Rightarrow> bool" where
  "writing_code code \<longleftrightarrow> code \<in> {XModbusPdu_WriteSingleCoil, XModbusPdu_WriteSingleRegister,
     XModbusPdu_WriteMultipleCoils, XModbusPdu_WriteMultipleRegisters, XModbusPdu_MaskWriteRegister,
     XModbusPdu_ReadWriteMultipleRegisters}"

definition served_well :: "'v XModbusServer \<Rightarrow> fcode \<Rightarrow> 'v served \<Rightarrow> bool" where
  "served_well server code result \<longleftrightarrow>
     (\<exists>c bs server' sigs. result = Some (Some (answer c bs), server', sigs) \<and> c \<in> {code, code OR 0x80} \<and>
        length bs \<le> 252 \<and>
        (server' = server \<or> writing_code code \<and> (\<exists>type a vs. bank_put server type a vs = Some server')))"

lemma served_wellI:
  "c \<in> {code, code OR 0x80} \<Longrightarrow> length bs \<le> 252 \<Longrightarrow>
    server' = server \<or> writing_code code \<and> (\<exists>type a vs. bank_put server type a vs = Some server') \<Longrightarrow>
    served_well server code (Some (Some (answer c bs), server', sigs))"
  unfolding served_well_def by blast

lemma served_answer: "length bs \<le> 252 \<Longrightarrow> served_well server code (Some (Some (answer code bs), server, sigs))"
  by (rule served_wellI) simp_all

lemma served_refusal: "served_well server code (Some (Some (refusal code ec), server, sigs))"
  unfolding refusal_def by (rule served_wellI) simp_all

lemma served_refused: "served_well server code (Some (refused server code ec))"
  by (simp add: refused_def served_refusal)

lemma served_after_write:
  "length bs \<le> 252 \<Longrightarrow> writing_code code \<Longrightarrow> bank_write server type start vs = Some server' \<Longrightarrow>
    c \<in> {code, code OR 0x80} \<Longrightarrow> served_well server code (Some (Some (answer c bs), server', sigs))"
  unfolding bank_write_def by (rule served_wellI) auto

lemma served_written:
  "length bs \<le> 252 \<Longrightarrow> writing_code code \<Longrightarrow> served_well server code (Some (written server code type start vs bs))"
  by (cases "bank_write server type start vs") (simp_all add: written_def served_refusal served_after_write)

lemmas served_rules = served_answer served_refusal served_refused served_written

lemma served_bits:
  assumes "env_granted env" and "bank_ok server" and "ms_dataMap server = Some m"
    and "type = XModbusCoils \<or> type = XModbusDiscreteInputs"
  shows "served_well server code (serve_bits env server code data type)"
proof (cases "length data < 4 \<or> field16 data 2 < 1 \<or> 2000 < field16 data 2")
  case False
  then have "unat (field16 data 2) \<le> 2000" by (simp add: word_le_nat_alt not_less)
  then have "length (bit_bytes vs) < 252" if "visible server type (field16 data 0) (unat (field16 data 2)) = Some vs" for vs
    using visible_length [OF that] by (simp add: length_bit_bytes)
  then show ?thesis
    using False by (auto simp: serve_bits_spec [OF assms] split: option.split intro!: served_rules)
qed (auto simp: serve_bits_spec [OF assms] intro!: served_rules)

lemma served_registers:
  assumes "env_granted env" and "bank_ok server" and "ms_dataMap server = Some m"
    and "type = XModbusHoldingRegisters \<or> type = XModbusInputRegisters"
  shows "served_well server code (serve_registers env server code data type)"
proof (cases "length data < 4 \<or> field16 data 2 < 1 \<or> 125 < field16 data 2")
  case False
  then have "unat (field16 data 2) \<le> 125" by (simp add: word_le_nat_alt not_less)
  then have "2 * length vs < 252" if "visible server type (field16 data 0) (unat (field16 data 2)) = Some vs" for vs
    using visible_length [OF that] by simp
  then show ?thesis
    using False by (auto simp: serve_registers_spec [OF assms] split: option.split intro!: served_rules)
qed (auto simp: serve_registers_spec [OF assms] intro!: served_rules)

lemma served_WriteSingle:
  assumes "env_granted env" and "bank_ok server" and "ms_dataMap server = Some m"
  shows "served_well server XModbusPdu_WriteSingleCoil (serve_WriteSingleCoil env server XModbusPdu_WriteSingleCoil data)"
    and "served_well server XModbusPdu_WriteSingleRegister
      (serve_WriteSingleRegister env server XModbusPdu_WriteSingleRegister data)"
  unfolding serve_WriteSingleCoil_spec [OF assms] serve_WriteSingleRegister_spec [OF assms]
  by (auto intro!: served_rules simp: writing_code_def)

lemma served_WriteMultiple:
  assumes "env_granted env" and "bank_ok server" and "ms_dataMap server = Some m"
  shows "served_well server XModbusPdu_WriteMultipleCoils
      (serve_WriteMultipleCoils env server XModbusPdu_WriteMultipleCoils data)"
    and "served_well server XModbusPdu_WriteMultipleRegisters
      (serve_WriteMultipleRegisters env server XModbusPdu_WriteMultipleRegisters data)"
  unfolding serve_WriteMultipleCoils_spec [OF assms refl] serve_WriteMultipleRegisters_spec [OF assms refl]
  by (auto intro!: served_rules simp: writing_code_def)

lemma served_MaskWrite:
  assumes "env_granted env" and "bank_ok server" and "ms_dataMap server = Some m"
  shows "served_well server XModbusPdu_MaskWriteRegister
    (serve_MaskWriteRegister env server XModbusPdu_MaskWriteRegister data)"
  unfolding serve_MaskWriteRegister_spec [OF assms]
  by (auto intro!: served_rules simp: writing_code_def split: option.split)

lemma served_ReadWrite:
  assumes "env_granted env" and "bank_ok server" and "ms_dataMap server = Some m"
  shows "served_well server XModbusPdu_ReadWriteMultipleRegisters
    (serve_ReadWriteMultipleRegisters env server XModbusPdu_ReadWriteMultipleRegisters data)"
proof -
  let ?c = XModbusPdu_ReadWriteMultipleRegisters
  define q where "q = unat (field16 data 2)"
  define n where "n = unat (field16 data 6)"
  define ws where "ws = map (\<lambda>j. field16 data (9 + j * 2)) [0..<n]"
  note spec = serve_ReadWriteMultipleRegisters_spec [OF assms q_def n_def ws_def]
  have "served_well server ?c (Some (Some (case visible s' XModbusHoldingRegisters (field16 data 0) q of
      None \<Rightarrow> refusal ?c XModbusPdu_IllegalDataAddress | Some vs \<Rightarrow> answer ?c (of_nat (2 * q) # be_bytes vs)), s', sigs))"
    if "bank_write server XModbusHoldingRegisters (field16 data 4) ws = Some s'" "q \<le> 125" for s' sigs
  proof -
    have "length (be_bytes vs) < 252" if "visible s' XModbusHoldingRegisters (field16 data 0) q = Some vs" for vs
      using visible_length [OF that] \<open>q \<le> 125\<close> by simp
    then show ?thesis
      unfolding refusal_def using that(1)
      by (auto intro!: served_after_write simp: writing_code_def split: option.split)
  qed
  then show ?thesis
    unfolding spec by (auto intro!: served_rules split: option.split simp: not_less)
qed

lemma served_ReadExceptionStatus:
  assumes "env_granted env" and "bank_ok server" and "ms_dataMap server = Some m"
  shows "served_well server code (serve_ReadExceptionStatus env server code data)"
proof -
  define off where "off = (case VXModbusServer_value server 1 of
    None \<Rightarrow> 0 | Some v \<Rightarrow> (word_of_int (env_toInt env v) :: 16 word))"
  have t: "XModbusCoils \<noteq> XModbusInvalid" by simp
  have eight: "(0 :: nat) < 8" by simp
  have serve: "serve_ReadExceptionStatus env server code data =
      (let u = \<lparr>md_type = XModbusCoils, md_startAddress = off, md_data = Some (Values (replicate 8 0))\<rparr> in do {
         (ok, u') \<leftarrow> VXModbusServer_readData server u;
         status \<leftarrow> (if ok then pack_bits u' 8 0 0 0 else Some 0);
         Some (set_response env code [status], server, [])
       })"
    using assms(1) by (simp add: serve_ReadExceptionStatus_def off_def Let_def)
  show ?thesis
  proof (cases "visible server XModbusCoils off 8")
    case (Some vs)
    then have "length vs = 8" by (rule visible_length)
    then have "pack_bits \<lparr>md_type = XModbusCoils, md_startAddress = off, md_data = Some (Values vs)\<rparr> 8 0 0 0 =
        Some (bit_byte vs)"
      using pack_bits_spec [of "\<lparr>md_type = XModbusCoils, md_startAddress = off, md_data = Some (Values vs)\<rparr>" vs 0]
      by (simp add: XModbusDataUnit_isBitType_def)
    then show ?thesis
      unfolding serve Let_def read_granted [OF assms(2,3) t eight] using Some assms(1)
      by (simp add: served_answer)
  qed (unfold serve Let_def read_granted [OF assms(2,3) t eight], use assms(1) in \<open>simp add: served_answer\<close>)
qed

lemma served_Diagnostics:
  assumes "env_granted env"
  shows "served_well server code (serve_Diagnostics env server code data)"
  using assms by (auto simp: serve_Diagnostics_def writeUint16ToData_def not_less intro!: served_rules)

lemma served_fixed:
  assumes "env_granted env"
  shows "served_well server code (serve_GetCommEventCounter env server code data)"
    and "served_well server code (serve_GetCommEventLog env server code data)"
    and "served_well server code (serve_ReadFifoQueue env server code data)"
  using assms
  by (auto simp: serve_GetCommEventCounter_def serve_GetCommEventLog_def serve_ReadFifoQueue_def
      writeUint16ToData_def not_less intro!: served_rules)

lemma served_ReportServerId:
  assumes "env_granted env"
  shows "served_well server code (serve_ReportServerId env server code data)"
  using assms
  by (auto simp: serve_ReportServerId_def default_additional_data_def intro!: served_rules
      split: option.split prod.split)

lemma served_Encapsulated:
  assumes "env_granted env"
  shows "served_well server code (serve_EncapsulatedInterfaceTransport env server code data)"
  using assms
  by (auto simp: serve_EncapsulatedInterfaceTransport_def read_byte_def not_less intro!: served_rules)

lemma request_served:
  assumes "env_granted env" and "bank_ok server" and "mp_data request = Some data"
  shows "served_well server (XModbusPdu_functionCode request) (VXModbusServer_processRequest env server request)"
proof (cases "ms_dataMap server")
  case None
  then show ?thesis using assms by (simp add: VXModbusServer_processRequest_def Let_def served_refusal)
next
  case (Some m)
  note rules = served_bits [OF assms(1,2) Some] served_registers [OF assms(1,2) Some]
    served_WriteSingle [OF assms(1,2) Some] served_WriteMultiple [OF assms(1,2) Some]
    served_MaskWrite [OF assms(1,2) Some] served_ReadWrite [OF assms(1,2) Some]
    served_ReadExceptionStatus [OF assms(1,2) Some] served_Diagnostics [OF assms(1)]
    served_fixed [OF assms(1)] served_ReportServerId [OF assms(1)] served_Encapsulated [OF assms(1)]
  show ?thesis
    using assms(1) Some assms(3)
    by (simp add: VXModbusServer_processRequest_def Let_def VXModbusServer_processPrivateRequest_def
        serve_ReadCoils_def serve_ReadDiscreteInputs_def serve_ReadHoldingRegisters_def
        serve_ReadInputRegisters_def rules served_refusal)
qed

text \<open>
  C12: With every allocation granted, every request the server can receive, whatever its code and its
  bytes, is answered without reading behind the request or outside a table: with data of at most 252 bytes
  under the code of the request or its exception code. No request adds or removes a register, and only the
  six writing codes change one.
\<close>

theorem server_answers_every_request:
  assumes "env_granted env" and "bank_ok server" and "mp_data request = Some data"
  shows "\<exists>r server' sigs. VXModbusServer_processRequest env server request = Some (Some r, server', sigs) \<and>
    mp_code r \<in> {XModbusPdu_functionCode request, XModbusPdu_functionCode request OR 0x80} \<and>
    array_size (mp_data r) \<le> 252 \<and> bank_ok server' \<and>
    (\<forall>type b. register server' type b = None \<longleftrightarrow> register server type b = None) \<and>
    (server' = server \<or> writing_code (XModbusPdu_functionCode request))"
proof -
  let ?code = "XModbusPdu_functionCode request"
  obtain c bs server' sigs where r: "VXModbusServer_processRequest env server request = Some (Some (answer c bs), server', sigs)"
    and c: "c \<in> {?code, ?code OR 0x80}" "length bs \<le> 252"
    and s': "server' = server \<or> writing_code ?code \<and> (\<exists>type a vs. bank_put server type a vs = Some server')"
    using request_served [OF assms] unfolding served_well_def by blast
  have "bank_ok server' \<and> (\<forall>type b. register server' type b = None \<longleftrightarrow> register server type b = None)"
    using s' assms(2) bank.put_ok [OF assms(2)] bank.same_registers [OF assms(2)] by metis
  then show ?thesis using r c s' by (auto simp: answer_def array_size_def)
qed

text \<open>A server with ten holding registers from 100 on and twelve coils from 0 on.\<close>

definition demo_server :: "int XModbusServer" where
  "demo_server = \<lparr>ms_serverAddress = 1, ms_dataMap = Some (Map.empty
     (XModbusHoldingRegisters \<mapsto> \<lparr>md_type = XModbusHoldingRegisters, md_startAddress = 100,
        md_data = Some (Values [10, 11, 12, 13, 14, 15, 16, 17, 18, 19])\<rparr>,
      XModbusCoils \<mapsto> \<lparr>md_type = XModbusCoils, md_startAddress = 0,
        md_data = Some (Values [1, 0, 1, 1, 0, 0, 0, 0, 0, 1, 1, 0])\<rparr>)),
     ms_options = None\<rparr>"

definition demo_env :: "int server_env" where
  "demo_env = \<lparr>env_unit = Sized, env_unit2 = Sized, env_object = Some \<lparr>mp_code = 0, mp_data = None\<rparr>,
     env_array = True, env_array2 = True, env_room = (\<lambda>n. n < 4096), env_toInt = id, env_toString = (\<lambda>_. None)\<rparr>"

lemma demo_ok: "env_granted demo_env" "bank_ok demo_server"
  by (simp_all add: env_granted_def demo_env_def list_all_iff bank_ok_def demo_server_def register_types_def unit_ok_def
      XModbusDataUnit_isBitType_def)

lemma server_answers_every_request_witness:
  "\<exists>r server' sigs. VXModbusServer_processRequest demo_env demo_server
      \<lparr>mp_code = 0x2B, mp_data = Some [0x0E, 1, 0]\<rparr> = Some (Some r, server', sigs) \<and> array_size (mp_data r) \<le> 252"
  using server_answers_every_request [OF demo_ok, of "\<lparr>mp_code = 0x2B, mp_data = Some [0x0E, 1, 0]\<rparr>" "[0x0E, 1, 0]"]
  by auto

section \<open>Writing and reading back\<close>

lemma writeUint16_halves: "push_bit 8 (ucast (writeUint16ToData v ! 0)) OR ucast (writeUint16ToData v ! 1) = v"
  by (simp only: writeUint16ToData_def nth_Cons_0 One_nat_def nth_Cons_Suc word_halves)

lemma field16_be:
  assumes "j < length xs"
  shows "field16 (d @ be_bytes xs @ rest) (length d + j * 2) = xs ! j"
proof -
  have "be_bytes xs = concat (map (\<lambda>v. [ucast (drop_bit 8 v), ucast v]) xs)"
    by (simp add: be_bytes_def writeUint16ToData_def [abs_def])
  then show ?thesis
    using assms by (simp add: field16_def nth_append nth_concat_pairs word_halves)
qed

lemma take_map_field16:
  assumes "length d = k"
  shows "map (\<lambda>j. field16 (d @ be_bytes vs) (k + j * 2)) [0..<length vs] = vs"
  using field16_be [of _ vs d "[]"] assms by (intro nth_equalityI) simp_all

lemma request_fields:
  "field16 (be_bytes [a, b] @ rest) 0 = a" "field16 (be_bytes [a, b] @ rest) 2 = b"
  using field16_be [of 0 "[a, b]" "[]" rest] field16_be [of 1 "[a, b]" "[]" rest]
  by (simp_all add: numeral_2_eq_2)

lemma unat_of_nat16: "n \<le> 2000 \<Longrightarrow> unat (of_nat n :: 16 word) = n"
  by (simp add: unat_of_nat)

lemma visible_map: "visible server type start n \<noteq> None \<Longrightarrow> 0 < n \<Longrightarrow> \<exists>m. ms_dataMap server = Some m"
  by (cases "ms_dataMap server") (auto simp: visible_def registers_def register_def upt_rec split: if_splits)

text \<open>The block that was written is the one that is visible.\<close>

lemma visible_written:
  assumes ok: "bank_ok server" and w: "bank_write server type start vs = Some server'"
  shows "visible server' type start (length vs) = Some vs"
proof -
  have "map (register server' type) [unat start..<unat start + length vs] = map Some vs"
    using bank.read_back [OF ok] w unfolding bank_write_def by blast
  then have r: "register server' type (unat start + i) = Some (vs ! i)" if "i < length vs" for i
    using that by (metis (no_types, lifting) add_diff_cancel_left' length_map length_upt nth_map nth_upt nat_add_left_cancel_less)
  have "registers server' type (unat start) (length vs) = Some vs"
  proof -
    have "list_all (\<lambda>b. register server' type b \<noteq> None) [unat start..<unat start + length vs]"
      unfolding list_all_iff using r by (metis atLeastLessThan_iff le_add_diff_inverse less_diff_conv2 add.commute option.distinct(1) set_upt nat_add_left_cancel_less)
    moreover have "map (\<lambda>b. the (register server' type b)) [unat start..<unat start + length vs] = vs"
      by (rule nth_equalityI) (simp_all add: r)
    ultimately show ?thesis by (simp add: registers_def)
  qed
  moreover have "start \<noteq> 0xFFFF"
    using bank_putE [OF ok w [unfolded bank_write_def]] unat_max16 [of start] by metis
  ultimately show ?thesis by (simp add: visible_def)
qed

text \<open>
  C15: With every allocation of the server granted, a client that encodes a write of up to 123 holding registers
  from fields, and then a read of the same registers, gets back the values it wrote, if the server has these
  registers and the encoding succeeds. The write is answered with its address and count and announced by one
  signal. Without memory for the temporary values the write is answered in the same way but stores nothing:
  \<open>unallocated_write_reports_success\<close>.
\<close>

theorem registers_written_are_read_back:
  assumes env: "env_granted env" and ok: "bank_ok server"
    and here: "visible server XModbusHoldingRegisters start (length vs) \<noteq> None" and vs: "vs \<noteq> []"
    and enc: "XModbusPdu_encodeData room \<lparr>mp_code = XModbusPdu_WriteMultipleRegisters, mp_data = Some []\<rparr>
      (Some [EncodeUint16 (Some [start, of_nat (length vs)]) 2, EncodeUint8 (Some [of_nat (2 * length vs)]) 1,
             EncodeUint16 (Some vs) (length vs)]) = (True, request)"
  shows "\<exists>server'. VXModbusServer_processRequest env server request =
      Some (Some (answer XModbusPdu_WriteMultipleRegisters (be_bytes [start, of_nat (length vs)])), server',
        [(XModbusHoldingRegisters, uint start, int (length vs))]) \<and>
    VXModbusServer_processRequest env server'
      \<lparr>mp_code = XModbusPdu_ReadHoldingRegisters, mp_data = Some (be_bytes [start, of_nat (length vs)])\<rparr> =
      Some (Some (answer XModbusPdu_ReadHoldingRegisters (of_nat (2 * length vs) # be_bytes vs)), server', [])"
proof -
  let ?n = "length vs" and ?head = "be_bytes [start, of_nat (length vs)]"
  obtain m where m: "ms_dataMap server = Some m" using visible_map [OF here] vs by auto
  have be: "concat (map (\<lambda>v. [ucast (drop_bit 8 v), ucast v]) xs) = be_bytes xs" for xs
    by (simp add: be_bytes_def writeUint16ToData_def [abs_def])
  define data where "data = ?head @ of_nat (2 * ?n) # be_bytes vs"
  obtain flds where flds: "flds = [EncodeUint16 (Some [start, of_nat ?n]) 2, EncodeUint8 (Some [of_nat (2 * ?n)]) 1,
      EncodeUint16 (Some vs) ?n]" by simp
  have check: "encode_check flds 0" and e: "encode_fields room [] flds = mp_data request"
    and code: "mp_code request = XModbusPdu_WriteMultipleRegisters" and "mp_data request \<noteq> None"
    using enc [folded flds] by (auto simp: XModbusPdu_encodeData_def split: option.splits if_splits)
  then have req: "mp_data request = Some data"
    using encode_fields_result [of room "[]" flds] vs by (auto simp: flds data_def be [symmetric])
  have "list_all field_readable flds" by (simp add: flds)
  with decode_encoded [of flds "[]"] check have "length (concat (map field_bytes flds)) \<le> 252"
    by (simp add: list_all_iff)
  then have len: "length data \<le> 252" using vs by (simp add: flds data_def be [symmetric])
  have n: "1 \<le> ?n" "?n \<le> 123" using vs len by (simp_all add: Suc_le_eq data_def)
  have f0: "field16 data 0 = start" by (simp only: request_fields data_def)
  have f2: "field16 data 2 = of_nat ?n" by (simp only: request_fields data_def)
  have q: "unat (field16 data 2) = ?n" using n by (simp add: f2 unat_of_nat16)
  have byte: "data ! 4 = of_nat (2 * ?n)" by (simp add: nth_append data_def)
  have "unat (of_nat (2 * ?n) :: byte) = ?n * 2" using n by (subst unat_of_nat) simp
  with byte have bc: "unat (data ! 4) = ?n * 2" by simp
  have dl: "length data = 5 + 2 * ?n" by (simp add: data_def)
  have ws: "map (\<lambda>j. field16 data (5 + j * 2)) [0..<?n] = vs"
    using take_map_field16 [of "?head @ [of_nat (2 * ?n)]" 5 vs] by (simp add: data_def)
  have type: "XModbusHoldingRegisters \<noteq> XModbusInvalid" by simp
  have norm: "\<forall>v\<in>set vs. normal XModbusHoldingRegisters v = v" by simp
  obtain server' where w: "bank_write server XModbusHoldingRegisters start vs = Some server'"
    using bank_write_visible [OF ok m type vs norm, of start] here by auto
  from bank_write_facts [OF ok w] obtain m' where ok': "bank_ok server'" and m': "ms_dataMap server' = Some m'" by blast
  have wr: "serve_WriteMultipleRegisters env server XModbusPdu_WriteMultipleRegisters data =
      Some (Some (answer XModbusPdu_WriteMultipleRegisters ?head), server', [(XModbusHoldingRegisters, uint start, int ?n)])"
    using serve_WriteMultipleRegisters_spec [OF env ok m q [symmetric], of XModbusPdu_WriteMultipleRegisters] n bc
    vs by (simp add: ws f0 f2 dl written_def w)
  have g: "field16 ?head 0 = start" "field16 ?head 2 = of_nat ?n"
    using request_fields [of start "of_nat ?n" "[]"] by simp_all
  have read: "serve_registers env server' XModbusPdu_ReadHoldingRegisters ?head XModbusHoldingRegisters =
      Some (Some (answer XModbusPdu_ReadHoldingRegisters (of_nat (2 * ?n) # be_bytes vs)), server', [])"
    using serve_registers_spec [OF env ok' m', of XModbusHoldingRegisters XModbusPdu_ReadHoldingRegisters ?head]
      n vs visible_written [OF ok w]
    by (simp add: g unat_of_nat16 word_less_nat_alt)
  show ?thesis
    using wr read m m' req code
    by (auto simp: VXModbusServer_processRequest_def XModbusPdu_functionCode_def Let_def
        serve_ReadHoldingRegisters_def)
qed

lemma registers_written_are_read_back_witness:
  "\<exists>server'. VXModbusServer_processRequest demo_env demo_server
      \<lparr>mp_code = 0x10, mp_data = Some [0, 103, 0, 2, 4, 0, 7, 0, 200]\<rparr> =
      Some (Some (answer 0x10 [0, 103, 0, 2]), server', [(XModbusHoldingRegisters, 103, 2)]) \<and>
    VXModbusServer_processRequest demo_env server' \<lparr>mp_code = 0x03, mp_data = Some [0, 103, 0, 2]\<rparr> =
      Some (Some (answer 0x03 [4, 0, 7, 0, 200]), server', [])"
proof -
  have here: "visible demo_server XModbusHoldingRegisters 103 (length [7, 200 :: 16 word]) \<noteq> None"
    by (simp add: visible_def registers_def register_def demo_server_def unit_values_def upt_rec)
  have enc: "XModbusPdu_encodeData (\<lambda>_. True) \<lparr>mp_code = XModbusPdu_WriteMultipleRegisters, mp_data = Some []\<rparr>
      (Some [EncodeUint16 (Some [103, of_nat (length [7, 200 :: 16 word])]) 2,
             EncodeUint8 (Some [of_nat (2 * length [7, 200 :: 16 word])]) 1,
             EncodeUint16 (Some [7, 200]) (length [7, 200 :: 16 word])]) =
    (True, \<lparr>mp_code = 0x10, mp_data = Some [0, 103, 0, 2, 4, 0, 7, 0, 200]\<rparr>)"
    by (simp add: XModbusPdu_encodeData_def XModbusPdu_validateField_def XByteArray_push_back_2_def take_Cons')
  have ne: "[7, 200 :: 16 word] \<noteq> []" by simp
  from registers_written_are_read_back [OF demo_ok here ne enc] show ?thesis
    by (simp add: be_bytes_def writeUint16ToData_def)
qed

section \<open>Coils\<close>

lemma nth_bit_bytes: "8 * k < length vs \<Longrightarrow> bit_bytes vs ! k = bit_byte (drop (8 * k) vs)"
proof (induction vs arbitrary: k rule: bit_bytes.induct)
  case (1 vs)
  have ne: "vs \<noteq> []" using "1.prems" by auto
  show ?case
  proof (cases k)
    case (Suc j)
    then have "bit_bytes (drop 8 vs) ! j = bit_byte (drop (8 * j) (drop 8 vs))"
      using "1.prems" by (intro "1.IH" [OF ne]) simp
    then show ?thesis using ne Suc by (subst bit_bytes.simps) (simp add: add.commute)
  qed (use ne in \<open>subst bit_bytes.simps, simp\<close>)
qed

lemma coil_values_packed:
  assumes vs: "\<forall>v\<in>set vs. v = 0 \<or> v = 1" and d: "length d = 5"
  shows "map (coil_value (d @ bit_bytes vs)) [0..<length vs] = vs"
proof (rule nth_equalityI)
  fix j assume "j < length (map (coil_value (d @ bit_bytes vs)) [0..<length vs])"
  then have j: "j < length vs" by simp
  have "8 * (j div 8) \<le> j" by simp
  then have "(d @ bit_bytes vs) ! (5 + j div 8) = bit_byte (drop (8 * (j div 8)) vs)"
    using j d nth_bit_bytes [of "j div 8" vs] by (simp add: nth_append)
  then have "bit ((d @ bit_bytes vs) ! (5 + j div 8)) (j mod 8) \<longleftrightarrow> vs ! j \<noteq> 0"
    using j by (simp add: bit_bit_byte less_diff_conv mod_mult_div_eq [symmetric])
  then show "map (coil_value (d @ bit_bytes vs)) [0..<length vs] ! j = vs ! j"
    using j vs by (auto simp: coil_value_def)
qed simp

text \<open>
  Coils written with a packed request and read back come back packed the same way, eight to a byte
  with the first coil in the lowest bit and the bits behind the last coil zero.
\<close>

theorem coils_written_are_read_back:
  assumes env: "env_granted env" and ok: "bank_ok server"
    and here: "visible server XModbusCoils start (length vs) \<noteq> None"
    and n: "1 \<le> length vs" "length vs \<le> 1968" and vs: "list_all (\<lambda>v. v = 0 \<or> v = 1) vs"
  shows "\<exists>server'. VXModbusServer_processRequest env server
      \<lparr>mp_code = XModbusPdu_WriteMultipleCoils, mp_data = Some (be_bytes [start, of_nat (length vs)] @
         of_nat (length (bit_bytes vs)) # bit_bytes vs)\<rparr> =
      Some (Some (answer XModbusPdu_WriteMultipleCoils (be_bytes [start, of_nat (length vs)])), server',
        [(XModbusCoils, uint start, int (length vs))]) \<and>
    VXModbusServer_processRequest env server'
      \<lparr>mp_code = XModbusPdu_ReadCoils, mp_data = Some (be_bytes [start, of_nat (length vs)])\<rparr> =
      Some (Some (answer XModbusPdu_ReadCoils (of_nat (length (bit_bytes vs)) # bit_bytes vs)), server', [])"
proof -
  let ?n = "length vs" and ?head = "be_bytes [start, of_nat (length vs)]"
  define data where "data = ?head @ of_nat (length (bit_bytes vs)) # bit_bytes vs"
  have type: "XModbusCoils \<noteq> XModbusInvalid" by simp
  have ne: "vs \<noteq> []" using n by auto
  then obtain m where m: "ms_dataMap server = Some m" using visible_map [OF here] by auto
  have norm: "\<forall>v\<in>set vs. normal XModbusCoils v = v" using vs by (auto simp: list_all_iff)
  obtain server' where w: "bank_write server XModbusCoils start vs = Some server'"
    using bank_write_visible [OF ok m type ne norm, of start] here by auto
  from bank_write_facts [OF ok w] obtain m' where ok': "bank_ok server'" and m': "ms_dataMap server' = Some m'" by blast
  have f: "field16 data 0 = start" "field16 data 2 = of_nat ?n" by (simp_all only: request_fields data_def)
  have q: "?n = unat (field16 data 2)" using n by (simp add: f unat_of_nat16)
  have bytes: "length (bit_bytes vs) = (?n + 7) div 8" by (rule length_bit_bytes)
  have "(?n + 7) div 8 < 256" by (rule less_mult_imp_div_less) (use n in simp)
  then have bc: "unat (data ! 4) = (?n + 7) div 8" by (simp add: data_def nth_append bytes unat_of_nat)
  have dl: "length data = 5 + (?n + 7) div 8" by (simp add: data_def bytes)
  have ws: "map (coil_value data) [0..<?n] = vs"
    using coil_values_packed [of vs "?head @ [of_nat (length (bit_bytes vs))]"] vs
    by (simp add: data_def list_all_iff)
  have wr: "serve_WriteMultipleCoils env server XModbusPdu_WriteMultipleCoils data =
      Some (Some (answer XModbusPdu_WriteMultipleCoils ?head), server', [(XModbusCoils, uint start, int ?n)])"
    using serve_WriteMultipleCoils_spec [OF env ok m q, of XModbusPdu_WriteMultipleCoils] n bc ne
    by (simp add: ws f dl written_def w)
  have g: "field16 ?head 0 = start" "field16 ?head 2 = of_nat ?n"
    using request_fields [of start "of_nat ?n" "[]"] by simp_all
  have rd: "serve_bits env server' XModbusPdu_ReadCoils ?head XModbusCoils =
      Some (Some (answer XModbusPdu_ReadCoils (of_nat (length (bit_bytes vs)) # bit_bytes vs)), server', [])"
    using serve_bits_spec [OF env ok' m', of XModbusCoils XModbusPdu_ReadCoils ?head] n ne
      visible_written [OF ok w]
    by (simp add: g unat_of_nat16 word_less_nat_alt)
  show ?thesis
    using wr rd m m' unfolding data_def
    by (auto simp: VXModbusServer_processRequest_def XModbusPdu_functionCode_def Let_def serve_ReadCoils_def)
qed

lemma coils_written_are_read_back_witness:
  "\<exists>server'. VXModbusServer_processRequest demo_env demo_server
      \<lparr>mp_code = 0x0F, mp_data = Some [0, 2, 0, 9, 2, 0x81, 1]\<rparr> =
      Some (Some (answer 0x0F [0, 2, 0, 9]), server', [(XModbusCoils, 2, 9)]) \<and>
    VXModbusServer_processRequest demo_env server' \<lparr>mp_code = 0x01, mp_data = Some [0, 2, 0, 9]\<rparr> =
      Some (Some (answer 0x01 [2, 0x81, 1]), server', [])"
proof -
  have "visible demo_server XModbusCoils 2 (length [1, 0, 0, 0, 0, 0, 0, 1, 1 :: 16 word]) \<noteq> None"
    by (simp add: visible_def registers_def register_def demo_server_def unit_values_def upt_rec)
  moreover have "bit_bytes [1, 0, 0, 0, 0, 0, 0, 1, 1] = [0x81, 1]"
    by (simp add: bit_bytes.simps bit_byte_def)
  ultimately show ?thesis
    using coils_written_are_read_back [OF demo_ok, of 2 "[1, 0, 0, 0, 0, 0, 0, 1, 1]"]
    by (simp add: be_bytes_def writeUint16ToData_def)
qed

section \<open>Error paths\<close>

text \<open>
  A mask write register request of the length the protocol and the server's own table of minimum
  sizes give it, six data bytes, is never executed: whatever its bytes and whatever is allocated, it is
  answered with the exception for an illegal value and changes nothing.
\<close>

theorem mask_write_is_refused:
  assumes "ms_dataMap server = Some m" and "XModbusPdu_functionCode request = XModbusPdu_MaskWriteRegister"
    and "mp_data request = Some data"
    and "int (length data) = requestMinimumDataSizeForCode XModbusPdu_MaskWriteRegister"
  shows "VXModbusServer_processRequest env server request =
    Some (createExceptionResponse env XModbusPdu_MaskWriteRegister XModbusPdu_IllegalDataValue, server, [])"
  using assms by (simp add: VXModbusServer_processRequest_def Let_def requestMinimumDataSizeForCode_def
      serve_MaskWriteRegister_def reject_def)

lemma mask_write_is_refused_witness:
  "VXModbusServer_processRequest demo_env demo_server
      \<lparr>mp_code = 0x16, mp_data = Some [0, 100, 0, 0xF2, 0, 0x25]\<rparr> =
    Some (createExceptionResponse demo_env 0x16 3, demo_server, [])"
  by (rule mask_write_is_refused [where data = "[0, 100, 0, 0xF2, 0, 0x25]"])
    (simp_all add: demo_server_def XModbusPdu_functionCode_def requestMinimumDataSizeForCode_def)

text \<open>
  A combined write and read whose read is refused is answered with an exception, but the block it
  wrote stays written.
\<close>

theorem refused_read_keeps_write:
  assumes env: "env_granted env" and ok: "bank_ok server" and m: "ms_dataMap server = Some m"
    and req: "XModbusPdu_functionCode request = XModbusPdu_ReadWriteMultipleRegisters"
      "mp_data request = Some (be_bytes [readStart, of_nat q] @ be_bytes [writeStart, of_nat (length vs)] @
         of_nat (2 * length vs) # be_bytes vs)"
    and q: "1 \<le> q" "q \<le> 125" and n: "1 \<le> length vs" "length vs \<le> 121"
    and there: "visible server XModbusHoldingRegisters writeStart (length vs) \<noteq> None"
    and not_there: "visible server XModbusHoldingRegisters readStart q = None"
  shows "\<exists>server'. VXModbusServer_processRequest env server request =
      Some (Some (refusal XModbusPdu_ReadWriteMultipleRegisters XModbusPdu_IllegalDataAddress), server',
        [(XModbusHoldingRegisters, uint writeStart, int (length vs))]) \<and>
    visible server' XModbusHoldingRegisters writeStart (length vs) = Some vs"
proof -
  let ?c = XModbusPdu_ReadWriteMultipleRegisters
  define data where "data = be_bytes [readStart, of_nat q] @ be_bytes [writeStart, of_nat (length vs)] @
    of_nat (2 * length vs) # be_bytes vs"
  have type: "XModbusHoldingRegisters \<noteq> XModbusInvalid" by simp
  have ne: "vs \<noteq> []" using n by auto
  obtain server' where w: "bank_write server XModbusHoldingRegisters writeStart vs = Some server'"
    using bank_write_visible [OF ok m type ne, of writeStart] there by auto
  have same: "register server' XModbusHoldingRegisters b = None \<longleftrightarrow> register server XModbusHoldingRegisters b = None" for b
    using bank.same_registers [OF ok w [unfolded bank_write_def]] .
  then have gone: "visible server' XModbusHoldingRegisters readStart q = None"
    using not_there by (auto simp: visible_def registers_def split: if_splits)
  have two: "be_bytes [writeStart, of_nat (length vs)] @ rest =
      writeUint16ToData writeStart @ writeUint16ToData (of_nat (length vs)) @ rest" for rest
    by (simp add: be_bytes_def)
  have f: "field16 data 0 = readStart" "field16 data 2 = of_nat q"
    by (simp_all only: request_fields data_def)
  have g: "field16 data 4 = writeStart" "field16 data 6 = of_nat (length vs)"
    using field16_be [of 0 "[writeStart, of_nat (length vs)]" "be_bytes [readStart, of_nat q]"
        "of_nat (2 * length vs) # be_bytes vs"]
      field16_be [of 1 "[writeStart, of_nat (length vs)]" "be_bytes [readStart, of_nat q]"
        "of_nat (2 * length vs) # be_bytes vs"]
    by (simp_all add: data_def)
  have byte: "data ! 8 = of_nat (2 * length vs)" by (simp add: data_def nth_append)
  have "unat (of_nat (2 * length vs) :: byte) = length vs * 2" using n by (subst unat_of_nat) simp
  with byte have bc: "unat (data ! 8) = length vs * 2" by simp
  have dl: "length data = 9 + 2 * length vs" by (simp add: data_def)
  have ws: "vs = map (\<lambda>j. field16 data (9 + j * 2)) [0..<length vs]"
    using take_map_field16 [of "be_bytes [readStart, of_nat q] @ be_bytes [writeStart, of_nat (length vs)] @
      [of_nat (2 * length vs)]" 9 vs] by (simp add: data_def)
  have qq: "q = unat (field16 data 2)" "length vs = unat (field16 data 6)"
    using q n by (simp_all add: f g unat_of_nat16)
  have "serve_ReadWriteMultipleRegisters env server ?c data =
      Some (Some (refusal ?c XModbusPdu_IllegalDataAddress), server',
        [(XModbusHoldingRegisters, uint writeStart, int (length vs))])"
    using serve_ReadWriteMultipleRegisters_spec [OF env ok m qq ws, of ?c] q n bc ne
    by (simp add: f g dl w gone)
  then show ?thesis
    using m req visible_written [OF ok w] unfolding data_def [symmetric]
    by (auto simp: VXModbusServer_processRequest_def Let_def)
qed

lemma refused_read_keeps_write_witness:
  "\<exists>server'. VXModbusServer_processRequest demo_env demo_server
      \<lparr>mp_code = 0x17, mp_data = Some [0, 0, 0, 1, 0, 100, 0, 1, 2, 0, 99]\<rparr> =
      Some (Some (refusal 0x17 2), server', [(XModbusHoldingRegisters, 100, 1)]) \<and>
    visible server' XModbusHoldingRegisters 100 1 = Some [99]"
proof -
  have v: "visible demo_server XModbusHoldingRegisters 100 (length [99 :: 16 word]) \<noteq> None"
    "visible demo_server XModbusHoldingRegisters 0 1 = None"
    by (simp_all add: visible_def registers_def register_def demo_server_def unit_values_def)
  have m: "ms_dataMap demo_server = Some (the (ms_dataMap demo_server))" by (simp add: demo_server_def)
  show ?thesis
    using refused_read_keeps_write [OF demo_ok m, of "\<lparr>mp_code = 0x17,
        mp_data = Some [0, 0, 0, 1, 0, 100, 0, 1, 2, 0, 99]\<rparr>" 0 1 100 "[99]"] v
    by (simp add: be_bytes_def writeUint16ToData_def XModbusPdu_functionCode_def)
qed

text \<open>
  When the values of the temporary unit cannot be allocated, a write of several registers stores
  nothing and is answered as if it had been done: every guard passes, because the unit counts no values.
\<close>

theorem unallocated_write_reports_success:
  assumes env: "env_granted (env\<lparr>env_unit := Sized\<rparr>)" and lost: "env_unit env = NoContainer"
    and m: "ms_dataMap server = Some m" and t: "m XModbusHoldingRegisters = Some t"
    and req: "XModbusPdu_functionCode request = XModbusPdu_WriteMultipleRegisters"
      "mp_data request = Some (be_bytes [start, of_nat (length vs)] @ of_nat (2 * length vs) # be_bytes vs)"
    and n: "1 \<le> length vs" "length vs \<le> 123"
    and range: "start \<noteq> 0xFFFF" "md_startAddress t \<le> start"
      "unat start \<le> unat (md_startAddress t) + XModbusDataUnit_valueCount t"
  shows "VXModbusServer_processRequest env server request =
    Some (Some (answer XModbusPdu_WriteMultipleRegisters (be_bytes [start, of_nat (length vs)])), server,
      [(XModbusHoldingRegisters, uint start, 0)])"
proof -
  let ?head = "be_bytes [start, of_nat (length vs)]"
  define data where "data = ?head @ of_nat (2 * length vs) # be_bytes vs"
  let ?u = "\<lparr>md_type = XModbusHoldingRegisters, md_startAddress = start, md_data = None\<rparr>"
  have response: "create_response env code = Some (answer code [])" for code
    using granted_response [OF env, of code] by (simp add: create_response_def)
  have push: "push_response env (answer code []) bs = answer code bs" for code bs
    using granted_room [OF env, of 0] by (simp add: push_response_def answer_def XByteArray_push_back_2_def)
  have unit: "XModbusDataUnit_create_ex (env_unit env) XModbusHoldingRegisters start k = Some ?u" for k
    by (simp add: lost XModbusDataUnit_create_ex_def XModbusDataUnit_init_ex_def
        XModbusDataUnit_createContainer_def XModbusDataUnit_init_def)
  have fill: "fill_registers data 5 ?u i k = Some ?u" if "5 + 2 * (i + k) \<le> length data" for i k
    using that by (induction k arbitrary: i) (simp_all add: XModbusDataUnit_setValue_def container_size_def)
  have "unat (md_startAddress t) \<le> unat start" using range(2) by (simp add: word_le_nat_alt)
  moreover have "server\<lparr>ms_dataMap := Some (m(XModbusHoldingRegisters \<mapsto> t))\<rparr> = server"
    using m t by (simp add: fun_upd_idem)
  ultimately have wr: "VXModbusServer_writeData server ?u = Some (True, server, [(XModbusHoldingRegisters, uint start, 0)])"
    using m t range by (simp add: VXModbusServer_writeData_def unit_queries container_size_def Let_def)
  have f: "field16 data 0 = start" "field16 data 2 = of_nat (length vs)"
    by (simp_all only: request_fields data_def)
  have byte: "data ! 4 = of_nat (2 * length vs)" by (simp add: data_def nth_append)
  have "unat (of_nat (2 * length vs) :: byte) = length vs * 2" using n by (subst unat_of_nat) simp
  with byte have bc: "unat (data ! 4) = length vs * 2" by simp
  have dl: "length data = 5 + 2 * length vs" by (simp add: data_def)
  have q: "unat (of_nat (length vs) :: 16 word) = length vs" using n by (simp add: unat_of_nat16)
  have guard: "\<not> ((of_nat (length vs) :: 16 word) < 1 \<or> 123 < (of_nat (length vs) :: 16 word))"
    using n q by (auto simp: word_less_nat_alt)
  have "serve_WriteMultipleRegisters env server XModbusPdu_WriteMultipleRegisters data =
      Some (Some (answer XModbusPdu_WriteMultipleRegisters ?head), server, [(XModbusHoldingRegisters, uint start, 0)])"
    using guard bc q n
    by (simp add: serve_WriteMultipleRegisters_def read_byte_def dl f unit fill wr response push be_bytes_def)
  then show ?thesis
    using m req unfolding data_def [symmetric] by (auto simp: VXModbusServer_processRequest_def Let_def)
qed

lemma unallocated_write_reports_success_witness:
  "VXModbusServer_processRequest (demo_env\<lparr>env_unit := NoContainer\<rparr>) demo_server
      \<lparr>mp_code = 0x10, mp_data = Some [0, 101, 0, 1, 2, 0, 99]\<rparr> =
    Some (Some (answer 0x10 [0, 101, 0, 1]), demo_server, [(XModbusHoldingRegisters, 101, 0)])"
  using unallocated_write_reports_success [where env = "demo_env\<lparr>env_unit := NoContainer\<rparr>" and server = demo_server
      and m = "the (ms_dataMap demo_server)" and start = 101 and vs = "[99]"
      and t = "the (the (ms_dataMap demo_server) XModbusHoldingRegisters)"
      and request = "\<lparr>mp_code = 0x10, mp_data = Some [0, 101, 0, 1, 2, 0, 99]\<rparr>"]
  by (simp add: demo_server_def demo_env_def env_granted_def list_all_iff be_bytes_def writeUint16ToData_def
      XModbusPdu_functionCode_def XModbusDataUnit_valueCount_def container_size_def)

end
