(* ===== verification/FixedPool.thy ===== *)
theory FixedPool
  imports XPrelude
begin

text \<open>
  The lock-free pool of equal blocks of \<open>XMemory/XFixedPool/XFixedPool.c\<close>, with the packed words of
  \<open>XCode/XAtomic/XAtomic_pack.c\<close>. The pool's memory appears as the hidden first word of each block, a
  list of words: the index of the next free block, or all ones while the block is allocated. The head of
  the free list is one word that holds an index and a version.

  Allocation and release run as threads: each load, store and compare-and-exchange of the source is one step
  (\<open>thread_step\<close>), and the steps of any number of threads interleave. The memory orders of the
  source are not represented: the steps are sequentially consistent. The pool pointer is not NULL, and
  user data does not reach the hidden words.
\<close>

unbundle bit_operations_syntax

type_synonym word64 = "64 word"

section \<open>Packed words\<close>

function index_bits_loop :: "word64 \<Rightarrow> nat \<Rightarrow> nat" where
  "index_bits_loop max_value bits =
     (if max_value \<noteq> 0 then index_bits_loop (drop_bit 1 max_value) (bits + 1) else bits)"
  by pat_completeness auto
termination
proof (relation "measure (\<lambda>(v, b). unat v)")
  fix v :: word64 and b :: nat
  assume "v \<noteq> 0"
  then have "unat (drop_bit 1 v) < unat v"
    using div_less_dividend [of 2 "unat v"]
    by (simp only: unat_drop_bit_eq) (simp add: drop_bit_eq_div unat_gt_0)
  then show "((drop_bit 1 v, b + 1), v, b) \<in> measure (\<lambda>(v, b). unat v)" by simp
qed simp

declare index_bits_loop.simps [simp del]

definition XAtomic_index_bits :: "word64 \<Rightarrow> nat" where
  "XAtomic_index_bits max_value = (if max_value = 0 then 1 else index_bits_loop max_value 0)"

definition XAtomic_index_mask :: "nat \<Rightarrow> word64" where
  "XAtomic_index_mask index_bits = push_bit index_bits 1 - 1"

definition XAtomic_version_bits :: "nat \<Rightarrow> nat" where
  "XAtomic_version_bits index_bits = 64 - index_bits"

definition XAtomic_version_mask :: "nat \<Rightarrow> word64" where
  "XAtomic_version_mask index_bits = push_bit (XAtomic_version_bits index_bits) 1 - 1"

definition XAtomic_pack_index_version :: "word64 \<Rightarrow> word64 \<Rightarrow> nat \<Rightarrow> word64 \<Rightarrow> word64" where
  "XAtomic_pack_index_version index version index_bits version_mask =
     index OR push_bit index_bits (version AND version_mask)"

definition XAtomic_unpack_index :: "word64 \<Rightarrow> word64 \<Rightarrow> word64" where
  "XAtomic_unpack_index packed index_mask = packed AND index_mask"

definition XAtomic_unpack_version :: "word64 \<Rightarrow> nat \<Rightarrow> word64 \<Rightarrow> word64" where
  "XAtomic_unpack_version packed index_bits version_mask = drop_bit index_bits packed AND version_mask"

section \<open>The pool\<close>

record XFixedPool =
  fp_head :: word64
  fp_free_count :: word64
  fp_block_size :: word64
  fp_user_block_size :: word64
  fp_raw_memory :: word64
  fp_total_raw_size :: word64
  fp_num_blocks :: word64
  fp_index_bits :: nat
  fp_index_mask :: word64
  fp_version_mask :: word64
  fp_owns_memory :: bool
  fp_next :: "word64 list"

definition XFIXEDPOOL_BLOCK_ALLOCATED :: word64 where
  "XFIXEDPOOL_BLOCK_ALLOCATED = - 1"

definition calculate_internal_block_size :: "word64 \<Rightarrow> word64" where
  "calculate_internal_block_size user_block_size = ((8 + user_block_size) + 8 - 1) AND NOT (8 - 1)"

definition get_user_data_ptr :: "word64 \<Rightarrow> word64" where
  "get_user_data_ptr internal_block = internal_block + 8"

definition get_internal_block_ptr :: "word64 \<Rightarrow> word64" where
  "get_internal_block_ptr user_data = user_data - 8"

definition get_block_by_index :: "XFixedPool \<Rightarrow> nat \<Rightarrow> word64" where
  "get_block_by_index pool index = fp_raw_memory pool + of_nat index * fp_block_size pool"

definition initialize_free_list :: "XFixedPool \<Rightarrow> XFixedPool" where
  "initialize_free_list pool =
     (if fp_num_blocks pool = 0 then pool
      else pool\<lparr>fp_next := map (\<lambda>i. of_nat i + 1) [0..<unat (fp_num_blocks pool)]\<rparr>)"

text \<open>
  Initialising: \<open>None\<close> is the division by an internal block size that wrapped to zero. The pool
  is returned as far as it was written when the answer is false.
\<close>

definition XFixedPool_init ::
  "XFixedPool \<Rightarrow> word64 \<Rightarrow> word64 \<Rightarrow> word64 \<Rightarrow> (bool \<times> XFixedPool) option" where
  "XFixedPool_init pool memory total_bytes block_size =
     (if memory = 0 \<or> total_bytes = 0 \<or> block_size = 0 then Some (False, pool)
      else let internal = calculate_internal_block_size block_size in
        if internal = 0 then None
        else let num_blocks = total_bytes div internal in
          if num_blocks = 0 then Some (False, pool)
          else let bits = XAtomic_index_bits num_blocks;
                   p1 = pool\<lparr>fp_block_size := internal, fp_user_block_size := internal - 8,
                     fp_raw_memory := memory, fp_total_raw_size := total_bytes, fp_num_blocks := num_blocks,
                     fp_owns_memory := False, fp_index_bits := bits,
                     fp_index_mask := XAtomic_index_mask bits, fp_version_mask := XAtomic_version_mask bits\<rparr>
               in if XAtomic_version_bits bits < 16 then Some (False, p1)
                  else let p2 = initialize_free_list p1 in
                    Some (True, p2\<lparr>fp_head := XAtomic_pack_index_version 0 0 bits (fp_version_mask p2),
                                    fp_free_count := num_blocks\<rparr>))"

text \<open>The memory of an object whose contents do not matter, and what \<open>memset\<close> leaves.\<close>

definition zero_pool :: XFixedPool where
  "zero_pool = \<lparr>fp_head = 0, fp_free_count = 0, fp_block_size = 0, fp_user_block_size = 0, fp_raw_memory = 0,
     fp_total_raw_size = 0, fp_num_blocks = 0, fp_index_bits = 0, fp_index_mask = 0, fp_version_mask = 0,
     fp_owns_memory = False, fp_next = []\<rparr>"

definition XFixedPool_deinit :: "XFixedPool \<Rightarrow> XFixedPool" where
  "XFixedPool_deinit pool = zero_pool"

text \<open>\<open>obj\<close> is the memory of the pool object, \<open>raw\<close> the address of the blocks (0 for NULL).\<close>

definition XFixedPool_create_from_memory ::
  "XFixedPool option \<Rightarrow> word64 \<Rightarrow> word64 \<Rightarrow> word64 \<Rightarrow> XFixedPool option option" where
  "XFixedPool_create_from_memory obj memory total_bytes block_size =
     (if memory = 0 \<or> total_bytes = 0 \<or> block_size = 0 then Some None
      else case obj of None \<Rightarrow> Some None
      | Some pool \<Rightarrow> do {
          (ok, p) \<leftarrow> XFixedPool_init pool memory total_bytes block_size;
          Some (if ok then Some p else None)
        })"

definition XFixedPool_create ::
  "XFixedPool option \<Rightarrow> word64 \<Rightarrow> word64 \<Rightarrow> word64 \<Rightarrow> XFixedPool option option" where
  "XFixedPool_create obj raw block_size num_blocks =
     (if block_size = 0 \<or> num_blocks = 0 then Some None
      else let total_bytes = calculate_internal_block_size block_size * num_blocks in
        if raw = 0 then Some None
        else map_option (map_option (\<lambda>p. p\<lparr>fp_owns_memory := True\<rparr>))
               (XFixedPool_create_from_memory obj raw total_bytes block_size))"

text \<open>Deleting: the addresses handed to \<open>XFree_System\<close>, in order; \<open>obj\<close> is the pool object.\<close>

definition XFixedPool_delete :: "word64 \<Rightarrow> XFixedPool \<Rightarrow> word64 list" where
  "XFixedPool_delete obj pool = (if fp_owns_memory pool then [fp_raw_memory pool] else []) @ [obj]"

definition XFixedPool_is_from_pool :: "XFixedPool \<Rightarrow> word64 \<Rightarrow> bool" where
  "XFixedPool_is_from_pool pool ptr =
     (if ptr = 0 then False
      else let internal_block = get_internal_block_ptr ptr;
               pool_start = fp_raw_memory pool;
               pool_end = pool_start + fp_block_size pool * fp_num_blocks pool
           in if internal_block < pool_start \<or> pool_end \<le> internal_block then False
              else let off = internal_block - pool_start in
                if off mod fp_block_size pool \<noteq> 0 then False
                else fp_next pool ! unat (off div fp_block_size pool) = XFIXEDPOOL_BLOCK_ALLOCATED)"

definition XFixedPool_freeCount :: "XFixedPool \<Rightarrow> word64" where
  "XFixedPool_freeCount pool = fp_free_count pool"

definition XFixedPool_totalCount :: "XFixedPool \<Rightarrow> word64" where
  "XFixedPool_totalCount pool = fp_num_blocks pool"

definition XFixedPool_freeSize :: "XFixedPool \<Rightarrow> word64" where
  "XFixedPool_freeSize pool = fp_free_count pool * fp_user_block_size pool"

definition XFixedPool_totalSize :: "XFixedPool \<Rightarrow> word64" where
  "XFixedPool_totalSize pool = fp_num_blocks pool * fp_user_block_size pool"

section \<open>Threads\<close>

text \<open>
  Where a thread is in \<open>XFixedPool_malloc\<close> or \<open>XFixedPool_free\<close>. \<open>MTry\<close> has
  loaded the head, \<open>MCas\<close> has read the next index and is about to exchange, \<open>MMark\<close> has
  won the exchange, \<open>MCount\<close> has marked the block. \<open>FCheck\<close> has passed the pointer
  checks, \<open>FLoad\<close> the test for a double release, \<open>FLink\<close> has loaded the head,
  \<open>FCas\<close> has linked the block, \<open>FCount\<close> has won the exchange.
\<close>

datatype pc =
  Idle
  | MStart
  | MTry word64
  | MCas word64 word64
  | MMark nat
  | MCount nat
  | FCheck nat
  | FLoad nat
  | FLink nat word64
  | FCas nat word64
  | FCount

datatype outcome = Running | Returned "nat option" | Released

definition unpacked_index :: "XFixedPool \<Rightarrow> word64 \<Rightarrow> word64" where
  "unpacked_index pool packed = XAtomic_unpack_index packed (fp_index_mask pool)"

definition repacked :: "XFixedPool \<Rightarrow> word64 \<Rightarrow> word64 \<Rightarrow> word64" where
  "repacked pool index packed =
     XAtomic_pack_index_version index
       (XAtomic_unpack_version packed (fp_index_bits pool) (fp_version_mask pool) + 1)
       (fp_index_bits pool) (fp_version_mask pool)"

fun malloc_step :: "XFixedPool \<Rightarrow> pc \<Rightarrow> XFixedPool \<times> pc \<times> outcome" where
  "malloc_step pool MStart = (pool, MTry (fp_head pool), Running)"
| "malloc_step pool (MTry old) =
     (let index = unpacked_index pool old in
      if fp_num_blocks pool \<le> index then (pool, Idle, Returned None)
      else (pool, MCas old (fp_next pool ! unat index), Running))"
| "malloc_step pool (MCas old next_index) =
     (if fp_head pool = old
      then (pool\<lparr>fp_head := repacked pool next_index old\<rparr>, MMark (unat (unpacked_index pool old)), Running)
      else (pool, MTry (fp_head pool), Running))"
| "malloc_step pool (MMark index) =
     (pool\<lparr>fp_next := (fp_next pool)[index := XFIXEDPOOL_BLOCK_ALLOCATED]\<rparr>, MCount index, Running)"
| "malloc_step pool (MCount index) =
     (pool\<lparr>fp_free_count := fp_free_count pool - 1\<rparr>, Idle, Returned (Some index))"
| "malloc_step pool p = (pool, p, Running)"

fun free_step :: "XFixedPool \<Rightarrow> pc \<Rightarrow> XFixedPool \<times> pc \<times> outcome" where
  "free_step pool (FCheck index) =
     (if fp_next pool ! index \<noteq> XFIXEDPOOL_BLOCK_ALLOCATED then (pool, Idle, Released)
      else (pool, FLoad index, Running))"
| "free_step pool (FLoad index) = (pool, FLink index (fp_head pool), Running)"
| "free_step pool (FLink index old) =
     (pool\<lparr>fp_next := (fp_next pool)[index := unpacked_index pool old]\<rparr>, FCas index old, Running)"
| "free_step pool (FCas index old) =
     (if fp_head pool = old
      then (pool\<lparr>fp_head := repacked pool (of_nat index) old\<rparr>, FCount, Running)
      else (pool, FLink index (fp_head pool), Running))"
| "free_step pool FCount = (pool\<lparr>fp_free_count := fp_free_count pool + 1\<rparr>, Idle, Released)"
| "free_step pool p = (pool, p, Running)"

fun thread_step :: "XFixedPool \<Rightarrow> pc \<Rightarrow> XFixedPool \<times> pc \<times> outcome" where
  "thread_step pool MStart = malloc_step pool MStart"
| "thread_step pool (MTry old) = malloc_step pool (MTry old)"
| "thread_step pool (MCas old n) = malloc_step pool (MCas old n)"
| "thread_step pool (MMark i) = malloc_step pool (MMark i)"
| "thread_step pool (MCount i) = malloc_step pool (MCount i)"
| "thread_step pool p = free_step pool p"

text \<open>
  The entry of \<open>XFixedPool_free\<close>: a pointer that is NULL, foreign, inside a block or already
  released is ignored.
\<close>

definition free_entry :: "XFixedPool \<Rightarrow> word64 \<Rightarrow> pc" where
  "free_entry pool user_ptr =
     (if user_ptr = 0 \<or> \<not> XFixedPool_is_from_pool pool user_ptr then Idle
      else let freed_index = unat ((get_internal_block_ptr user_ptr - fp_raw_memory pool) div fp_block_size pool)
           in if unat (fp_num_blocks pool) \<le> freed_index then Idle else FCheck freed_index)"

definition user_pointer :: "XFixedPool \<Rightarrow> nat \<Rightarrow> word64" where
  "user_pointer pool index = get_user_data_ptr (get_block_by_index pool index)"

text \<open>
  A system: the pool, for each thread its position and the blocks it holds, and the number of
  successful exchanges so far. A thread calls \<open>malloc\<close> when idle and releases only what it holds.
\<close>

record pool_system =
  sys_pool :: XFixedPool
  sys_threads :: "(pc \<times> nat list) list"
  sys_exchanges :: nat

definition after :: "outcome \<Rightarrow> nat list \<Rightarrow> nat list" where
  "after out held = (case out of Returned (Some i) \<Rightarrow> i # held | _ \<Rightarrow> held)"

inductive pool_step :: "pool_system \<Rightarrow> pool_system \<Rightarrow> bool" where
  call_malloc: "t < length (sys_threads s) \<Longrightarrow> sys_threads s ! t = (Idle, held) \<Longrightarrow>
    pool_step s (s\<lparr>sys_threads := (sys_threads s)[t := (MStart, held)]\<rparr>)"
| call_free: "t < length (sys_threads s) \<Longrightarrow> sys_threads s ! t = (Idle, held) \<Longrightarrow> i \<in> set held \<Longrightarrow>
    free_entry (sys_pool s) (user_pointer (sys_pool s) i) = p \<Longrightarrow>
    pool_step s (s\<lparr>sys_threads := (sys_threads s)[t := (p, remove1 i held)]\<rparr>)"
| run: "t < length (sys_threads s) \<Longrightarrow> sys_threads s ! t = (p, held) \<Longrightarrow> p \<noteq> Idle \<Longrightarrow>
    thread_step (sys_pool s) p = (pool', p', out) \<Longrightarrow>
    pool_step s (s\<lparr>sys_pool := pool', sys_threads := (sys_threads s)[t := (p', after out held)],
      sys_exchanges := sys_exchanges s + (if fp_head pool' = fp_head (sys_pool s) then 0 else 1)\<rparr>)"

definition initial_system :: "XFixedPool \<Rightarrow> nat \<Rightarrow> pool_system" where
  "initial_system pool n = \<lparr>sys_pool = pool, sys_threads = replicate n (Idle, []), sys_exchanges = 0\<rparr>"

inductive pool_reachable :: "pool_system \<Rightarrow> pool_system \<Rightarrow> bool" for s0 where
  start: "pool_reachable s0 s0"
| step: "pool_reachable s0 s \<Longrightarrow> pool_step s s' \<Longrightarrow> pool_reachable s0 s'"

end
