(* ===== verification/FixedPoolInv.thy ===== *)
theory FixedPoolInv
  imports FixedPool "HOL-Library.Multiset"
begin

text \<open>
  The lock-free pool. The invariant splits the blocks between the free list, the threads that hold them
  and the threads that are moving them; a compare-and-exchange that succeeds saw the current head, because
  versions do not repeat within one round of the version counter. So no block is handed out twice, none is
  lost, and the count of free blocks is exact whenever no thread is inside an operation.
\<close>

unbundle bit_operations_syntax

section \<open>Packed words\<close>

lemma index_bits_loop_bound:
  "k \<le> index_bits_loop v k \<and> unat v < 2 ^ (index_bits_loop v k - k)"
proof (induction v k rule: index_bits_loop.induct)
  case (1 v k)
  show ?case
  proof (cases "v = 0")
    case False
    let ?r = "index_bits_loop (drop_bit 1 v) (k + 1)"
    have IH: "k + 1 \<le> ?r" "unat (drop_bit 1 v) < 2 ^ (?r - (k + 1))" using 1 False by simp_all
    have r: "index_bits_loop v k = ?r" using False by (subst index_bits_loop.simps) simp
    have "unat (drop_bit 1 v) = unat v div 2" by (simp only: unat_drop_bit_eq) (simp add: drop_bit_eq_div)
    then have "unat v < 2 * 2 ^ (?r - (k + 1))" using IH(2) by simp
    also have "\<dots> = 2 ^ (?r - k)" using IH(1) by (simp flip: power_Suc add: Suc_diff_Suc)
    finally show ?thesis using IH(1) by (simp add: r)
  qed (simp add: index_bits_loop.simps)
qed

lemma index_bits_bound: "unat v < 2 ^ XAtomic_index_bits v"
  using index_bits_loop_bound [of 0 v] by (auto simp: XAtomic_index_bits_def)

lemma index_bits_pos: "v \<noteq> 0 \<Longrightarrow> 0 < XAtomic_index_bits v"
  using index_bits_bound [of v] by (cases "XAtomic_index_bits v") (simp_all add: unat_eq_0)

text \<open>The shape of a pool that does not change, and a head word of an index and a count of exchanges.\<close>

definition blocks :: "XFixedPool \<Rightarrow> nat" where
  "blocks pool = unat (fp_num_blocks pool)"

definition pool_static :: "XFixedPool \<Rightarrow> bool" where
  "pool_static pool \<longleftrightarrow> 0 < blocks pool \<and> blocks pool < 2 ^ fp_index_bits pool \<and>
     0 < fp_index_bits pool \<and> fp_index_bits pool \<le> 48 \<and>
     fp_index_mask pool = XAtomic_index_mask (fp_index_bits pool) \<and>
     fp_version_mask pool = XAtomic_version_mask (fp_index_bits pool) \<and>
     length (fp_next pool) = blocks pool \<and> 8 \<le> unat (fp_block_size pool) \<and>
     unat (fp_raw_memory pool) + unat (fp_block_size pool) * blocks pool < 2 ^ 64"

definition packed :: "XFixedPool \<Rightarrow> nat \<Rightarrow> nat \<Rightarrow> word64" where
  "packed pool i c =
     XAtomic_pack_index_version (of_nat i) (of_nat c) (fp_index_bits pool) (fp_version_mask pool)"

lemma and_mask: "w AND (push_bit b 1 - 1) = take_bit b (w :: word64)"
  by (simp only: take_bit_eq_mask mask_eq_exp_minus_1 push_bit_eq_mult mult_1)

lemma pool_staticD:
  assumes "pool_static pool"
  shows "0 < blocks pool" "blocks pool < 2 ^ fp_index_bits pool" "fp_index_bits pool \<le> 48"
    "length (fp_next pool) = blocks pool"
    "fp_index_mask pool = push_bit (fp_index_bits pool) 1 - 1"
    "fp_version_mask pool = push_bit (64 - fp_index_bits pool) 1 - 1"
  using assms
  by (simp_all only: pool_static_def XAtomic_index_mask_def XAtomic_version_mask_def XAtomic_version_bits_def)

lemma packed_add:
  assumes "pool_static pool" and "i < 2 ^ fp_index_bits pool"
  shows "packed pool i c =
    of_nat (i + 2 ^ fp_index_bits pool * (c mod 2 ^ (64 - fp_index_bits pool)))"
proof -
  let ?b = "fp_index_bits pool"
  have small: "\<not> bit (of_nat i :: word64) k" if "?b \<le> k" for k
  proof -
    have "i < 2 ^ k" using assms(2) that by (rule less_le_trans [OF _ power_increasing]) simp_all
    then have "\<not> bit i k" by (simp add: bit_iff_odd)
    then show ?thesis by (simp only: bit_of_nat_iff simp_thms)
  qed
  have "packed pool i c = of_nat i OR push_bit ?b (take_bit (64 - ?b) (of_nat c))"
    using pool_staticD(6) [OF assms(1)]
    by (simp only: packed_def XAtomic_pack_index_version_def and_mask)
  also have "\<dots> = of_nat i + push_bit ?b (take_bit (64 - ?b) (of_nat c))"
    by (rule disjunctive_add [symmetric]) (use small in \<open>auto simp: bit_push_bit_iff not_le\<close>)
  also have "\<dots> = of_nat (i + push_bit ?b (take_bit (64 - ?b) c))"
    by (simp only: of_nat_add push_bit_of_nat take_bit_of_nat)
  finally show ?thesis by (simp only: push_bit_eq_mult take_bit_eq_mod mult.commute)
qed

lemma unat_of_nat64: "x < 2 ^ 64 \<Longrightarrow> unat (of_nat x :: word64) = x"
  by (simp add: unat_of_nat)

lemma unat_packed:
  assumes "pool_static pool" and "i < 2 ^ fp_index_bits pool"
  shows "unat (packed pool i c) = i + 2 ^ fp_index_bits pool * (c mod 2 ^ (64 - fp_index_bits pool))"
proof -
  let ?b = "fp_index_bits pool" and ?v = "c mod 2 ^ (64 - fp_index_bits pool)"
  have "?v + 1 \<le> 2 ^ (64 - ?b)" by (simp add: Suc_le_eq)
  then have "2 ^ ?b * (?v + 1) \<le> 2 ^ ?b * 2 ^ (64 - ?b)" by (rule mult_le_mono2)
  also have "\<dots> = (2 :: nat) ^ 64" using pool_staticD(3) [OF assms(1)] by (simp flip: power_add)
  finally have "i + 2 ^ ?b * ?v < 2 ^ 64" using assms(2) by simp
  then show ?thesis unfolding packed_add [OF assms] by (rule unat_of_nat64)
qed

lemma unpacked_packed:
  assumes "pool_static pool" and "i < 2 ^ fp_index_bits pool"
  shows "unat (unpacked_index pool (packed pool i c)) = i"
proof -
  have "unat (unpacked_index pool (packed pool i c)) =
      take_bit (fp_index_bits pool) (unat (packed pool i c))"
    using pool_staticD(5) [OF assms(1)]
    by (simp only: unpacked_index_def XAtomic_unpack_index_def and_mask unsigned_take_bit_eq)
  then show ?thesis using assms(2) by (simp add: unat_packed [OF assms] take_bit_eq_mod)
qed

lemma repacked_packed:
  assumes "pool_static pool" and "i < 2 ^ fp_index_bits pool"
  shows "repacked pool (of_nat j) (packed pool i c) = packed pool j (Suc c)"
proof -
  let ?b = "fp_index_bits pool" and ?m = "64 - fp_index_bits pool"
  have "unat (drop_bit ?b (packed pool i c)) = c mod 2 ^ ?m"
    by (subst unat_drop_bit_eq, subst drop_bit_eq_div, subst unat_packed [OF assms]) (use assms(2) in simp)
  moreover have "c mod 2 ^ ?m < 2 ^ 64"
    by (rule less_le_trans [OF mod_less_divisor power_increasing]) simp_all
  ultimately have "drop_bit ?b (packed pool i c) = of_nat (c mod 2 ^ ?m)"
    by (simp only: word_unat_eq_iff unat_of_nat64)
  also have "\<dots> = take_bit ?m (of_nat c)" by (simp only: take_bit_of_nat flip: take_bit_eq_mod)
  finally have v: "drop_bit ?b (packed pool i c) = take_bit ?m (of_nat c)" .
  have "take_bit ?m (Suc (take_bit ?m c)) = take_bit ?m (Suc c)"
    by (simp only: take_bit_eq_mod mod_Suc_eq)
  moreover have "take_bit ?m (take_bit ?m (of_nat c)) + 1 = (of_nat (Suc (take_bit ?m c)) :: word64)"
    by (simp only: take_bit_of_nat take_bit_take_bit min.idem of_nat_Suc add.commute)
  ultimately have "take_bit ?m (take_bit ?m (take_bit ?m (of_nat c)) + 1) = take_bit ?m (of_nat (Suc c) :: word64)"
    by (simp only: take_bit_of_nat)
  then show ?thesis
    using pool_staticD(6) [OF assms(1)]
    by (simp only: repacked_def packed_def [of _ j] XAtomic_pack_index_version_def XAtomic_unpack_version_def
        and_mask v)
qed

lemma packed_inject:
  assumes "pool_static pool" and "i < 2 ^ fp_index_bits pool" "j < 2 ^ fp_index_bits pool"
    and "c < 2 ^ (64 - fp_index_bits pool)" "d < 2 ^ (64 - fp_index_bits pool)"
  shows "packed pool i c = packed pool j d \<longleftrightarrow> i = j \<and> c = d"
proof
  let ?b = "2 ^ fp_index_bits pool :: nat"
  assume "packed pool i c = packed pool j d"
  then have e: "i + ?b * c = j + ?b * d"
    using unat_packed [OF assms(1,2), of c] unat_packed [OF assms(1,3), of d] assms(4,5) by simp
  have "i = (i + ?b * c) mod ?b" "j = (j + ?b * d) mod ?b" using assms(2,3) by simp_all
  then have "i = j" using e by simp
  then show "i = j \<and> c = d" using e by simp
qed simp

section \<open>Where the blocks are\<close>

text \<open>
  \<open>moving\<close> are the blocks a thread takes or gives back, \<open>debt\<close> what it still owes to the
  counter of free blocks.
\<close>

fun moving :: "pc \<Rightarrow> nat list" where
  "moving (MMark i) = [i]"
| "moving (MCount i) = [i]"
| "moving (FCheck i) = [i]"
| "moving (FLoad i) = [i]"
| "moving (FLink i old) = [i]"
| "moving (FCas i old) = [i]"
| "moving p = []"

fun debt :: "pc \<Rightarrow> word64" where
  "debt (MMark i) = 1"
| "debt (MCount i) = 1"
| "debt FCount = - 1"
| "debt p = 0"

definition thread_blocks :: "pc \<times> nat list \<Rightarrow> nat list" where
  "thread_blocks th = moving (fst th) @ snd th"

definition taken :: "(pc \<times> nat list) list \<Rightarrow> nat list" where
  "taken ths = concat (map thread_blocks ths)"

definition total_debt :: "(pc \<times> nat list) list \<Rightarrow> word64" where
  "total_debt ths = sum_list (map (debt \<circ> fst) ths)"

text \<open>A value of the head a thread has loaded is the head, or one of an earlier exchange.\<close>

definition seen :: "XFixedPool \<Rightarrow> nat \<Rightarrow> word64 \<Rightarrow> bool" where
  "seen pool c old \<longleftrightarrow> old = fp_head pool \<or> (\<exists>i d. i \<le> blocks pool \<and> d < c \<and> old = packed pool i d)"

abbreviation allocated :: "XFixedPool \<Rightarrow> nat \<Rightarrow> bool" where
  "allocated pool i \<equiv> fp_next pool ! i = XFIXEDPOOL_BLOCK_ALLOCATED"

fun pc_ok :: "XFixedPool \<Rightarrow> nat \<Rightarrow> pc \<Rightarrow> bool" where
  "pc_ok pool c (MTry old) \<longleftrightarrow> seen pool c old"
| "pc_ok pool c (MCas old nx) \<longleftrightarrow> seen pool c old \<and> unat (unpacked_index pool old) < blocks pool \<and>
     (old = fp_head pool \<longrightarrow> nx = fp_next pool ! unat (unpacked_index pool old))"
| "pc_ok pool c (MCount i) \<longleftrightarrow> allocated pool i"
| "pc_ok pool c (FCheck i) \<longleftrightarrow> allocated pool i"
| "pc_ok pool c (FLoad i) \<longleftrightarrow> allocated pool i"
| "pc_ok pool c (FLink i old) \<longleftrightarrow> seen pool c old"
| "pc_ok pool c (FCas i old) \<longleftrightarrow> seen pool c old \<and> fp_next pool ! i = unpacked_index pool old"
| "pc_ok pool c p \<longleftrightarrow> True"

definition thread_ok :: "XFixedPool \<Rightarrow> nat \<Rightarrow> pc \<times> nat list \<Rightarrow> bool" where
  "thread_ok pool c th \<longleftrightarrow> pc_ok pool c (fst th) \<and> (\<forall>i\<in>set (snd th). allocated pool i)"

text \<open>The free list: the head names its first block and each block the next one, the number of blocks ends it.\<close>

definition first_free :: "XFixedPool \<Rightarrow> nat list \<Rightarrow> nat" where
  "first_free pool fl = (case fl of [] \<Rightarrow> blocks pool | i # _ \<Rightarrow> i)"

fun linked :: "XFixedPool \<Rightarrow> nat list \<Rightarrow> bool" where
  "linked pool [] \<longleftrightarrow> True"
| "linked pool (i # fl) \<longleftrightarrow> fp_next pool ! i = of_nat (first_free pool fl) \<and> linked pool fl"

definition pool_inv :: "pool_system \<Rightarrow> nat list \<Rightarrow> bool" where
  "pool_inv s fl \<longleftrightarrow> pool_static (sys_pool s) \<and>
     mset fl + mset (taken (sys_threads s)) = mset [0..<blocks (sys_pool s)] \<and>
     fp_head (sys_pool s) = packed (sys_pool s) (first_free (sys_pool s) fl) (sys_exchanges s) \<and>
     linked (sys_pool s) fl \<and>
     (\<forall>th\<in>set (sys_threads s). thread_ok (sys_pool s) (sys_exchanges s) th) \<and>
     fp_free_count (sys_pool s) = of_nat (length fl) + total_debt (sys_threads s)"

lemmas pool_shape = pool_static_def blocks_def packed_def unpacked_index_def repacked_def first_free_def

lemma linked_cong:
  assumes "\<And>i. i \<in> set fl \<Longrightarrow> fp_next pool' ! i = fp_next pool ! i" and "blocks pool' = blocks pool"
  shows "linked pool' fl = linked pool fl"
  using assms(1)
proof (induction fl)
  case (Cons i fl)
  then show ?case by (simp add: first_free_def assms(2) split: list.split)
qed simp

lemma mset_taken_update:
  assumes "t < length ths"
  shows "mset (taken (ths[t := th])) + mset (thread_blocks (ths ! t)) = mset (taken ths) + mset (thread_blocks th)"
  using assms
proof (induction ths arbitrary: t)
  case (Cons x ths)
  then show ?case by (cases t) (auto simp: taken_def)
qed simp

lemma total_debt_update:
  assumes "t < length ths"
  shows "total_debt (ths[t := th]) = total_debt ths + debt (fst th) - debt (fst (ths ! t))"
  using assms
proof (induction ths arbitrary: t)
  case (Cons x ths)
  then show ?case by (cases t) (auto simp: total_debt_def)
qed simp

lemma disjoint_pieces:
  assumes "distinct (concat (map f xs))" and "t < length xs" "u < length xs" "t \<noteq> u"
  shows "set (f (xs ! t)) \<inter> set (f (xs ! u)) = {}"
  using assms
proof (induction xs arbitrary: t u)
  case (Cons x xs)
  have "set (f x) \<inter> set (f (xs ! k)) = {}" if "k < length xs" for k
    using Cons.prems(1) nth_mem [OF that] by auto
  then show ?case using Cons by (cases t; cases u) auto
qed simp

lemma pool_invD:
  assumes "pool_inv s fl"
  shows "pool_static (sys_pool s)" and "distinct (fl @ taken (sys_threads s))"
    and "set fl \<union> set (taken (sys_threads s)) = {..<blocks (sys_pool s)}"
    and "first_free (sys_pool s) fl \<le> blocks (sys_pool s)"
    and "fp_head (sys_pool s) = packed (sys_pool s) (first_free (sys_pool s) fl) (sys_exchanges s)"
    and "linked (sys_pool s) fl"
    and "th \<in> set (sys_threads s) \<Longrightarrow> thread_ok (sys_pool s) (sys_exchanges s) th"
    and "fp_free_count (sys_pool s) = of_nat (length fl) + total_debt (sys_threads s)"
proof -
  have m: "mset (fl @ taken (sys_threads s)) = mset [0..<blocks (sys_pool s)]"
    using assms by (simp add: pool_inv_def)
  show "distinct (fl @ taken (sys_threads s))" using m by (metis distinct_upt mset_eq_imp_distinct_iff)
  show sets: "set fl \<union> set (taken (sys_threads s)) = {..<blocks (sys_pool s)}"
    using mset_eq_setD [OF m] by (simp add: atLeast_upt)
  have "\<forall>i\<in>set fl. i < blocks (sys_pool s)" using sets by blast
  then show "first_free (sys_pool s) fl \<le> blocks (sys_pool s)"
    by (auto simp: first_free_def split: list.split)
  note parts = assms [unfolded pool_inv_def]
  show "pool_static (sys_pool s)" using parts by (elim conjE)
  show "fp_head (sys_pool s) = packed (sys_pool s) (first_free (sys_pool s) fl) (sys_exchanges s)"
    using parts by (elim conjE)
  show "linked (sys_pool s) fl" using parts by (elim conjE)
  show "thread_ok (sys_pool s) (sys_exchanges s) th" if "th \<in> set (sys_threads s)"
    using parts that by (elim conjE) (rule bspec)
  show "fp_free_count (sys_pool s) = of_nat (length fl) + total_debt (sys_threads s)"
    using parts by (elim conjE)
qed

lemma free_below: "pool_inv s fl \<Longrightarrow> \<forall>i\<in>set fl. i < blocks (sys_pool s)"
  using pool_invD(3) by blast

lemma blocks_apart:
  assumes "pool_inv s fl" and "t < length (sys_threads s)" and "i \<in> set (thread_blocks (sys_threads s ! t))"
  shows "i \<notin> set fl" and "i < blocks (sys_pool s)"
    and "u < length (sys_threads s) \<Longrightarrow> u \<noteq> t \<Longrightarrow> i \<notin> set (thread_blocks (sys_threads s ! u))"
proof -
  have "i \<in> set (taken (sys_threads s))" using assms(2,3) by (auto simp: taken_def)
  then show "i \<notin> set fl" "i < blocks (sys_pool s)" using pool_invD(2,3) [OF assms(1)] by auto
  show "i \<notin> set (thread_blocks (sys_threads s ! u))" if "u < length (sys_threads s)" "u \<noteq> t"
    using pool_invD(2) [OF assms(1)] disjoint_pieces [of thread_blocks "sys_threads s" u t] that assms(2,3)
    by (auto simp: taken_def)
qed

text \<open>The index a head word names.\<close>

lemma packed_index:
  assumes "pool_static pool" and "i \<le> blocks pool"
  shows "unat (unpacked_index pool (packed pool i c)) = i"
    and "repacked pool (of_nat j) (packed pool i c) = packed pool j (Suc c)"
    and "unpacked_index pool (packed pool i c) = of_nat i"
proof -
  have i: "i < 2 ^ fp_index_bits pool" using assms pool_staticD(2) by (metis le_less_trans)
  have "(2 :: nat) ^ fp_index_bits pool \<le> 2 ^ 64"
    using pool_staticD(3) [OF assms(1)] by (intro power_increasing) simp_all
  then have small: "i < 2 ^ 64" using i by simp
  show u: "unat (unpacked_index pool (packed pool i c)) = i" by (rule unpacked_packed [OF assms(1) i])
  show "repacked pool (of_nat j) (packed pool i c) = packed pool j (Suc c)"
    by (rule repacked_packed [OF assms(1) i])
  show "unpacked_index pool (packed pool i c) = of_nat i"
    by (simp only: word_unat_eq_iff u unat_of_nat64 [OF small])
qed

lemma head_index:
  assumes "pool_inv s fl"
  shows "unat (unpacked_index (sys_pool s) (fp_head (sys_pool s))) = first_free (sys_pool s) fl"
  using packed_index(1) [OF pool_invD(1,4) [OF assms]] by (simp only: pool_invD(5) [OF assms])

section \<open>What a step of one thread does to the others\<close>

lemma others_write:
  assumes inv: "pool_inv s fl" and "i \<notin> set fl" and "i \<notin> set (thread_blocks th)"
    and ok: "thread_ok (sys_pool s) (sys_exchanges s) th"
  shows "thread_ok (sys_pool s\<lparr>fp_next := (fp_next (sys_pool s))[i := v]\<rparr>) (sys_exchanges s) th"
proof -
  obtain p held where th: "th = (p, held)" by (cases th)
  have "i \<noteq> unat (unpacked_index (sys_pool s) (fp_head (sys_pool s)))"
    if "unat (unpacked_index (sys_pool s) (fp_head (sys_pool s))) < blocks (sys_pool s)"
    using that head_index [OF inv] assms(2) by (auto simp: first_free_def split: list.splits)
  moreover have "\<forall>k\<in>set held. (fp_next (sys_pool s))[i := v] ! k = fp_next (sys_pool s) ! k"
    using assms(3) by (intro ballI nth_list_update_neq) (auto simp: th thread_blocks_def)
  ultimately show ?thesis using assms(3) ok
    by (cases p) (auto simp: th thread_ok_def thread_blocks_def seen_def pool_shape)
qed

lemma others_exchange:
  assumes inv: "pool_inv s fl" and j: "j \<le> blocks (sys_pool s)"
    and c: "Suc (sys_exchanges s) < 2 ^ (64 - fp_index_bits (sys_pool s))"
    and ok: "thread_ok (sys_pool s) (sys_exchanges s) th"
  shows "thread_ok (sys_pool s\<lparr>fp_head := packed (sys_pool s) j (Suc (sys_exchanges s))\<rparr>)
    (Suc (sys_exchanges s)) th"
proof -
  let ?P = "sys_pool s" and ?c = "sys_exchanges s"
  have st: "pool_static ?P" by (rule pool_invD(1) [OF inv])
  have old: "\<exists>i d. i \<le> blocks ?P \<and> d < Suc ?c \<and> w = packed ?P i d" if "seen ?P ?c w" for w
    using that pool_invD(4,5) [OF inv] by (auto simp: seen_def less_Suc_eq)
  have new: "w \<noteq> packed ?P j (Suc ?c)" if w: "seen ?P ?c w" for w
  proof -
    obtain i d where i: "i \<le> blocks ?P" "d < Suc ?c" "w = packed ?P i d" using old [OF w] by blast
    have "i < 2 ^ fp_index_bits ?P" "j < 2 ^ fp_index_bits ?P"
      using i(1) j pool_staticD(2) [OF st] by simp_all
    then show ?thesis using i(2,3) c packed_inject [OF st, of i j d "Suc ?c"] by auto
  qed
  obtain p held where th: "th = (p, held)" by (cases th)
  show ?thesis using ok old new
    by (cases p) (auto simp: th thread_ok_def seen_def [of "_\<lparr>fp_head := _\<rparr>"] pool_shape)
qed

lemma thread_ok_count [simp]: "thread_ok (pool\<lparr>fp_free_count := x\<rparr>) c th = thread_ok pool c th"
proof -
  obtain p held where th: "th = (p, held)" by (cases th)
  show ?thesis by (cases p) (auto simp: th thread_ok_def seen_def pool_shape)
qed

text \<open>What has to hold of the thread that moves.\<close>

lemma cancel_moved:
  fixes b :: "'a multiset"
  assumes "t' + b = t + b'" and "f' + b' = f + b"
  shows "f' + t' = f + t"
proof -
  have "f' + t' + (b + b') = (f' + b') + (t' + b)" by (simp add: ac_simps)
  also have "\<dots> = (f + b) + (t + b')" by (simp only: assms)
  also have "\<dots> = f + t + (b + b')" by (simp add: ac_simps)
  finally show ?thesis by simp
qed

lemma count_moved:
  fixes k :: "'a :: ab_group_add"
  assumes "k' + l + d = k + l' + d'" and "k = l + owed"
  shows "k' = l' + (owed + d' - d)"
proof -
  have "k' = k + l' + d' - d - l" by (simp flip: assms(1))
  then show ?thesis by (simp add: assms(2))
qed

lemma pool_inv_move:
  assumes inv: "pool_inv s fl" and t: "t < length (sys_threads s)" "sys_threads s ! t = th"
    and shape: "pool_static pool'" "blocks pool' = blocks (sys_pool s)"
    and moved: "mset fl' + mset (thread_blocks th') = mset fl + mset (thread_blocks th)"
    and head: "fp_head pool' = packed pool' (first_free pool' fl') c'" and links: "linked pool' fl'"
    and others: "\<And>u. u < length (sys_threads s) \<Longrightarrow> u \<noteq> t \<Longrightarrow>
      thread_ok (sys_pool s) (sys_exchanges s) (sys_threads s ! u) \<Longrightarrow> thread_ok pool' c' (sys_threads s ! u)"
    and this_one: "thread_ok pool' c' th'"
    and count: "fp_free_count pool' + of_nat (length fl) + debt (fst th) =
      fp_free_count (sys_pool s) + of_nat (length fl') + debt (fst th')"
  shows "pool_inv \<lparr>sys_pool = pool', sys_threads = (sys_threads s)[t := th'], sys_exchanges = c'\<rparr> fl'"
proof -
  let ?ths = "(sys_threads s)[t := th']"
  have "mset fl + mset (taken (sys_threads s)) = mset [0..<blocks (sys_pool s)]"
    using inv unfolding pool_inv_def by (elim conjE)
  moreover have "mset (taken ?ths) + mset (thread_blocks th) = mset (taken (sys_threads s)) + mset (thread_blocks th')"
    using mset_taken_update [OF t(1), of th'] t(2) by simp
  ultimately have "mset fl' + mset (taken ?ths) = mset [0..<blocks (sys_pool s)]"
    using cancel_moved [OF _ moved] by metis
  moreover have "\<forall>x\<in>set ?ths. thread_ok pool' c' x"
  proof
    fix x assume "x \<in> set ?ths"
    then obtain u where "u < length (sys_threads s)" "x = ?ths ! u" by (auto simp: in_set_conv_nth)
    then show "thread_ok pool' c' x"
      using this_one others [of u] pool_invD(7) [OF inv] by (cases "u = t") auto
  qed
  moreover have "fp_free_count pool' = of_nat (length fl') + total_debt ?ths"
    unfolding total_debt_update [OF t(1)] t(2) by (rule count_moved [OF count pool_invD(8) [OF inv]])
  ultimately show ?thesis
    using shape(1) head links unfolding pool_inv_def pool_system.simps shape(2) by (intro conjI)
qed

section \<open>Every step keeps the invariant\<close>

lemma shape_updates [simp]:
  "blocks (pool\<lparr>fp_head := h\<rparr>) = blocks pool" "blocks (pool\<lparr>fp_next := nx\<rparr>) = blocks pool"
  "blocks (pool\<lparr>fp_free_count := k\<rparr>) = blocks pool"
  "packed (pool\<lparr>fp_head := h\<rparr>) = packed pool" "packed (pool\<lparr>fp_next := nx\<rparr>) = packed pool"
  "packed (pool\<lparr>fp_free_count := k\<rparr>) = packed pool"
  "first_free (pool\<lparr>fp_head := h\<rparr>) = first_free pool" "first_free (pool\<lparr>fp_next := nx\<rparr>) = first_free pool"
  "first_free (pool\<lparr>fp_free_count := k\<rparr>) = first_free pool"
  "unpacked_index (pool\<lparr>fp_next := nx\<rparr>) = unpacked_index pool"
  "pool_static (pool\<lparr>fp_head := h\<rparr>) = pool_static pool"
  "pool_static (pool\<lparr>fp_next := (fp_next pool)[i := v]\<rparr>) = pool_static pool"
  "pool_static (pool\<lparr>fp_free_count := k\<rparr>) = pool_static pool"
  "seen (pool\<lparr>fp_next := nx\<rparr>) = seen pool"
  by (auto simp: pool_shape seen_def fun_eq_iff split: list.split)

lemma linked_updates [simp]:
  "linked (pool\<lparr>fp_head := h\<rparr>) fl = linked pool fl"
  "linked (pool\<lparr>fp_free_count := k\<rparr>) fl = linked pool fl"
  "i \<notin> set fl \<Longrightarrow> linked (pool\<lparr>fp_next := (fp_next pool)[i := v]\<rparr>) fl = linked pool fl"
  by (rule linked_cong; auto intro!: nth_list_update_neq)+

lemma exchanges_distinct:
  assumes inv: "pool_inv s fl" and j: "j \<le> blocks (sys_pool s)"
  shows "packed (sys_pool s) j (Suc (sys_exchanges s)) \<noteq> fp_head (sys_pool s)"
proof
  let ?P = "sys_pool s" and ?c = "sys_exchanges s" and ?b = "2 ^ fp_index_bits (sys_pool s) :: nat"
  let ?m = "2 ^ (64 - fp_index_bits (sys_pool s)) :: nat"
  have st: "pool_static ?P" by (rule pool_invD(1) [OF inv])
  have less: "j < ?b" "first_free ?P fl < ?b"
    using j pool_invD(4) [OF inv] pool_staticD(2) [OF st] by simp_all
  assume "packed ?P j (Suc ?c) = fp_head ?P"
  then have e: "j + ?b * (Suc ?c mod ?m) = first_free ?P fl + ?b * (?c mod ?m)"
    using unat_packed [OF st less(1), of "Suc ?c"] unat_packed [OF st less(2), of ?c] pool_invD(5) [OF inv] by simp
  have "j = (j + ?b * (Suc ?c mod ?m)) mod ?b" "first_free ?P fl = (first_free ?P fl + ?b * (?c mod ?m)) mod ?b"
    using less by simp_all
  then have "Suc ?c mod ?m = ?c mod ?m" using e by simp
  moreover have "2 ^ 1 \<le> ?m" using pool_staticD(3) [OF st] by (intro power_increasing) simp_all
  ultimately show False by (auto simp: mod_Suc split: if_splits)
qed

text \<open>
  A step that writes no shared word, one that writes the hidden word of a block of the thread, one that
  changes the counter, and one that exchanges the head.
\<close>

definition moved_to :: "pool_system \<Rightarrow> nat \<Rightarrow> XFixedPool \<Rightarrow> pc \<times> nat list \<Rightarrow> nat \<Rightarrow> pool_system" where
  "moved_to s t pool' th' c' =
     \<lparr>sys_pool = pool', sys_threads = (sys_threads s)[t := th'], sys_exchanges = c'\<rparr>"

lemma move_quiet:
  assumes inv: "pool_inv s fl" and t: "t < length (sys_threads s)" "sys_threads s ! t = th"
    and "mset (thread_blocks th') = mset (thread_blocks th)" "debt (fst th') = debt (fst th)"
    and "thread_ok (sys_pool s) (sys_exchanges s) th'"
  shows "pool_inv (moved_to s t (sys_pool s) th' (sys_exchanges s)) fl"
  unfolding moved_to_def
  by (rule pool_inv_move [OF inv t]) (use assms pool_invD(1,5,6) [OF inv] in simp_all)

lemma move_write:
  assumes inv: "pool_inv s fl" and t: "t < length (sys_threads s)" "sys_threads s ! t = th"
    and i: "i \<in> set (thread_blocks th)"
    and "mset (thread_blocks th') = mset (thread_blocks th)" "debt (fst th') = debt (fst th)"
    and "thread_ok (sys_pool s\<lparr>fp_next := (fp_next (sys_pool s))[i := v]\<rparr>) (sys_exchanges s) th'"
  shows "pool_inv (moved_to s t (sys_pool s\<lparr>fp_next := (fp_next (sys_pool s))[i := v]\<rparr>) th' (sys_exchanges s)) fl"
proof -
  have fl: "i \<notin> set fl" using blocks_apart(1) [OF inv t(1)] t(2) i by simp
  have "thread_ok (sys_pool s\<lparr>fp_next := (fp_next (sys_pool s))[i := v]\<rparr>) (sys_exchanges s) (sys_threads s ! u)"
    if "u < length (sys_threads s)" "u \<noteq> t" "thread_ok (sys_pool s) (sys_exchanges s) (sys_threads s ! u)" for u
    using others_write [OF inv fl _ that(3)] blocks_apart(3) [OF inv t(1), of i u] that t(2) i by simp
  then show ?thesis
    unfolding moved_to_def
    by (intro pool_inv_move [OF inv t]) (use assms fl pool_invD(1,5,6) [OF inv] in simp_all)
qed

lemma move_count:
  assumes inv: "pool_inv s fl" and t: "t < length (sys_threads s)" "sys_threads s ! t = th"
    and "mset (thread_blocks th') = mset (thread_blocks th)"
    and "k + debt (fst th) = fp_free_count (sys_pool s) + debt (fst th')"
    and "thread_ok (sys_pool s) (sys_exchanges s) th'"
  shows "pool_inv (moved_to s t (sys_pool s\<lparr>fp_free_count := k\<rparr>) th' (sys_exchanges s)) fl"
  unfolding moved_to_def
  by (rule pool_inv_move [OF inv t]) (use assms pool_invD(1,5,6) [OF inv] in \<open>simp_all add: algebra_simps\<close>)

lemma move_exchange:
  assumes inv: "pool_inv s fl" and t: "t < length (sys_threads s)" "sys_threads s ! t = th"
    and c: "Suc (sys_exchanges s) < 2 ^ (64 - fp_index_bits (sys_pool s))"
    and pool': "pool' = sys_pool s\<lparr>fp_head := packed (sys_pool s) (first_free (sys_pool s) fl') (Suc (sys_exchanges s))\<rparr>"
    and "mset fl' + mset (thread_blocks th') = mset fl + mset (thread_blocks th)"
    and "linked (sys_pool s) fl'" "first_free (sys_pool s) fl' \<le> blocks (sys_pool s)"
    and "of_nat (length fl) + debt (fst th) = of_nat (length fl') + debt (fst th')"
    and "thread_ok pool' (Suc (sys_exchanges s)) th'"
  shows "pool_inv (moved_to s t pool' th' (Suc (sys_exchanges s))) fl'"
  unfolding moved_to_def
  by (rule pool_inv_move [OF inv t])
     (use assms pool_invD(1) [OF inv] others_exchange [OF inv _ c] in \<open>simp_all add: algebra_simps\<close>)

text \<open>Addresses: the blocks lie one after the other below the end of the address space.\<close>

lemma block_address:
  assumes "pool_static pool" and "i \<le> blocks pool"
  shows "unat (get_block_by_index pool i) = unat (fp_raw_memory pool) + unat (fp_block_size pool) * i"
    and "unat (fp_raw_memory pool) + unat (fp_block_size pool) * i < 2 ^ 64"
proof -
  have "unat (fp_block_size pool) * i \<le> unat (fp_block_size pool) * blocks pool"
    using assms(2) by simp
  moreover have "unat (fp_raw_memory pool) + unat (fp_block_size pool) * blocks pool < 2 ^ 64"
    using assms(1) by (simp add: pool_static_def)
  ultimately show small: "unat (fp_raw_memory pool) + unat (fp_block_size pool) * i < 2 ^ 64" by linarith
  have "get_block_by_index pool i = of_nat (unat (fp_raw_memory pool) + unat (fp_block_size pool) * i)"
    by (simp add: get_block_by_index_def mult.commute)
  then show "unat (get_block_by_index pool i) = unat (fp_raw_memory pool) + unat (fp_block_size pool) * i"
    using unat_of_nat64 [OF small] by simp
qed

lemma user_address:
  assumes st: "pool_static pool" and i: "i < blocks pool"
  shows "unat (user_pointer pool i) = unat (fp_raw_memory pool) + unat (fp_block_size pool) * i + 8"
    and "unat (user_pointer pool i) \<le> unat (fp_raw_memory pool) + unat (fp_block_size pool) * Suc i"
    and "get_internal_block_ptr (user_pointer pool i) = get_block_by_index pool i"
proof -
  have bs: "8 \<le> unat (fp_block_size pool)" using st by (simp add: pool_static_def)
  have "unat (fp_raw_memory pool) + unat (fp_block_size pool) * Suc i < 2 ^ 64"
    using block_address(2) [OF st, of "Suc i"] i by simp
  then have small: "unat (fp_raw_memory pool) + unat (fp_block_size pool) * i + 8 < 2 ^ 64" using bs by simp
  have "user_pointer pool i = of_nat (unat (fp_raw_memory pool) + unat (fp_block_size pool) * i + 8)"
    by (simp add: user_pointer_def get_user_data_ptr_def get_block_by_index_def mult.commute)
  then show u: "unat (user_pointer pool i) = unat (fp_raw_memory pool) + unat (fp_block_size pool) * i + 8"
    using unat_of_nat64 [OF small] by simp
  show "unat (user_pointer pool i) \<le> unat (fp_raw_memory pool) + unat (fp_block_size pool) * Suc i"
    using u bs by simp
  show "get_internal_block_ptr (user_pointer pool i) = get_block_by_index pool i"
    by (simp add: user_pointer_def get_user_data_ptr_def get_internal_block_ptr_def)
qed

lemma block_offset:
  assumes st: "pool_static pool" and i: "i < blocks pool"
  shows "get_block_by_index pool i - fp_raw_memory pool = of_nat (unat (fp_block_size pool) * i)"
    and "unat (get_block_by_index pool i - fp_raw_memory pool) = unat (fp_block_size pool) * i"
proof -
  show off: "get_block_by_index pool i - fp_raw_memory pool = of_nat (unat (fp_block_size pool) * i)"
    by (simp add: get_block_by_index_def mult.commute)
  show "unat (get_block_by_index pool i - fp_raw_memory pool) = unat (fp_block_size pool) * i"
    unfolding off by (rule unat_of_nat64) (use block_address(2) [OF st, of i] i in simp)
qed

lemma is_from_pool_block:
  assumes st: "pool_static pool" and i: "i < blocks pool"
  shows "XFixedPool_is_from_pool pool (user_pointer pool i) \<longleftrightarrow> allocated pool i"
proof -
  let ?bs = "unat (fp_block_size pool)"
  have bs: "8 \<le> ?bs" using st by (simp add: pool_static_def)
  have nz: "user_pointer pool i \<noteq> 0" using user_address(1) [OF st i] by (auto simp: word_unat_eq_iff)
  have "fp_raw_memory pool + fp_block_size pool * fp_num_blocks pool = get_block_by_index pool (blocks pool)"
    by (simp add: get_block_by_index_def blocks_def mult.commute)
  then have "get_block_by_index pool i < fp_raw_memory pool + fp_block_size pool * fp_num_blocks pool"
    using block_address(1) [OF st, of i] block_address(1) [OF st, of "blocks pool"] i bs
    by (simp add: word_less_nat_alt)
  moreover have "fp_raw_memory pool \<le> get_block_by_index pool i"
    using block_address(1) [OF st, of i] i by (simp add: word_le_nat_alt)
  moreover have "(get_block_by_index pool i - fp_raw_memory pool) mod fp_block_size pool = 0"
    by (simp only: word_unat_eq_iff unat_mod_distrib block_offset(2) [OF st i]) simp
  moreover have "unat ((get_block_by_index pool i - fp_raw_memory pool) div fp_block_size pool) = i"
    using bs by (simp only: unat_div_distrib block_offset(2) [OF st i]) simp
  ultimately show ?thesis
    using nz by (simp add: XFixedPool_is_from_pool_def user_address(3) [OF st i] not_less not_le)
qed

lemma free_entry_held:
  assumes st: "pool_static pool" and i: "i < blocks pool" and a: "allocated pool i"
  shows "free_entry pool (user_pointer pool i) = FCheck i"
proof -
  have bs: "8 \<le> unat (fp_block_size pool)" using st by (simp add: pool_static_def)
  have "user_pointer pool i \<noteq> 0" using user_address(1) [OF st i] by (auto simp: word_unat_eq_iff)
  moreover have "unat ((get_block_by_index pool i - fp_raw_memory pool) div fp_block_size pool) = i"
    using bs by (simp only: unat_div_distrib block_offset(2) [OF st i]) simp
  ultimately show ?thesis
    using is_from_pool_block [OF st i] a i
    by (simp add: free_entry_def user_address(3) [OF st i] blocks_def not_le)
qed

lemma blocks_distinct:
  assumes inv: "pool_inv s fl" and t: "t < length (sys_threads s)"
  shows "distinct (thread_blocks (sys_threads s ! t))"
  using pool_invD(2) [OF inv] nth_mem [OF t] by (auto simp: taken_def distinct_concat_iff)

lemma moved_to_eq:
  "s\<lparr>sys_threads := (sys_threads s)[t := th]\<rparr> = moved_to s t (sys_pool s) th (sys_exchanges s)"
  "s\<lparr>sys_pool := pool', sys_threads := (sys_threads s)[t := th], sys_exchanges := c\<rparr> = moved_to s t pool' th c"
  by (simp_all add: moved_to_def)

text \<open>The two exchanges: taking the first free block, and putting one in front.\<close>

lemma exchange_takes:
  assumes inv: "pool_inv s fl" and t: "t < length (sys_threads s)"
    and th: "sys_threads s ! t = (MCas old nx, held)" and old: "fp_head (sys_pool s) = old"
  shows "repacked (sys_pool s) nx old \<noteq> fp_head (sys_pool s)"
    and "Suc (sys_exchanges s) < 2 ^ (64 - fp_index_bits (sys_pool s)) \<Longrightarrow>
      \<exists>fl'. pool_inv (moved_to s t (sys_pool s\<lparr>fp_head := repacked (sys_pool s) nx old\<rparr>)
        (MMark (unat (unpacked_index (sys_pool s) old)), held) (Suc (sys_exchanges s))) fl'"
proof -
  let ?P = "sys_pool s" and ?c = "sys_exchanges s"
  have st: "pool_static ?P" by (rule pool_invD(1) [OF inv])
  have ok: "thread_ok ?P ?c (MCas old nx, held)" using pool_invD(7) [OF inv] t th by (metis nth_mem)
  have "first_free ?P fl < blocks ?P" using ok head_index [OF inv] old by (simp add: thread_ok_def)
  then obtain i fl' where fl: "fl = i # fl'" by (cases fl) (auto simp: first_free_def)
  have i: "unat (unpacked_index ?P old) = i" using head_index [OF inv] old by (simp add: fl first_free_def)
  have links: "linked ?P fl'" "fp_next ?P ! i = of_nat (first_free ?P fl')"
    using pool_invD(6) [OF inv] by (simp_all add: fl)
  have nx: "nx = of_nat (first_free ?P fl')" using ok old i links(2) by (simp add: thread_ok_def)
  have first: "first_free ?P fl' \<le> blocks ?P"
    using free_below [OF inv] by (cases fl') (auto simp: first_free_def fl)
  have new: "repacked ?P nx old = packed ?P (first_free ?P fl') (Suc ?c)"
    unfolding nx old [symmetric] pool_invD(5) [OF inv]
    by (rule packed_index(2) [OF st pool_invD(4) [OF inv]])
  show "repacked ?P nx old \<noteq> fp_head ?P" using exchanges_distinct [OF inv first] new by simp
  assume c: "Suc ?c < 2 ^ (64 - fp_index_bits ?P)"
  have "pool_inv (moved_to s t (?P\<lparr>fp_head := repacked ?P nx old\<rparr>) (MMark i, held) (Suc ?c)) fl'"
    by (rule move_exchange [OF inv t th c])
       (use new links(1) first ok in \<open>simp_all add: fl thread_blocks_def thread_ok_def\<close>)
  then show "\<exists>fl'. pool_inv (moved_to s t (?P\<lparr>fp_head := repacked ?P nx old\<rparr>)
      (MMark (unat (unpacked_index ?P old)), held) (Suc ?c)) fl'" using i by auto
qed

lemma exchange_returns:
  assumes inv: "pool_inv s fl" and t: "t < length (sys_threads s)"
    and th: "sys_threads s ! t = (FCas i old, held)" and old: "fp_head (sys_pool s) = old"
  shows "repacked (sys_pool s) (of_nat i) old \<noteq> fp_head (sys_pool s)"
    and "Suc (sys_exchanges s) < 2 ^ (64 - fp_index_bits (sys_pool s)) \<Longrightarrow>
      pool_inv (moved_to s t (sys_pool s\<lparr>fp_head := repacked (sys_pool s) (of_nat i) old\<rparr>)
        (FCount, held) (Suc (sys_exchanges s))) (i # fl)"
proof -
  let ?P = "sys_pool s" and ?c = "sys_exchanges s"
  have st: "pool_static ?P" by (rule pool_invD(1) [OF inv])
  have ok: "thread_ok ?P ?c (FCas i old, held)" using pool_invD(7) [OF inv] t th by (metis nth_mem)
  have i: "i < blocks ?P" using blocks_apart(2) [OF inv t] th by (simp add: thread_blocks_def)
  have new: "repacked ?P (of_nat i) old = packed ?P i (Suc ?c)"
    unfolding old [symmetric] pool_invD(5) [OF inv]
    by (rule packed_index(2) [OF st pool_invD(4) [OF inv]])
  have "unpacked_index ?P old = of_nat (first_free ?P fl)"
    unfolding old [symmetric] pool_invD(5) [OF inv]
    by (rule packed_index(3) [OF st pool_invD(4) [OF inv]])
  then have links: "linked ?P (i # fl)" using ok pool_invD(6) [OF inv] by (simp add: thread_ok_def)
  have first: "first_free ?P (i # fl) = i" by (simp add: first_free_def)
  have held: "thread_ok (?P\<lparr>fp_head := h\<rparr>) n (FCount, held)" for h n
    using ok by (simp add: thread_ok_def)
  show "repacked ?P (of_nat i) old \<noteq> fp_head ?P" using exchanges_distinct [OF inv, of i] new i by simp
  assume c: "Suc ?c < 2 ^ (64 - fp_index_bits ?P)"
  show "pool_inv (moved_to s t (?P\<lparr>fp_head := repacked ?P (of_nat i) old\<rparr>) (FCount, held) (Suc ?c)) (i # fl)"
    by (rule move_exchange [OF inv t th c])
       (use i held in \<open>simp_all add: new first thread_blocks_def links del: linked.simps\<close>)
qed

lemma after_cases [simp]:
  "after Running held = held" "after Released held = held" "after (Returned None) held = held"
  "after (Returned (Some i)) held = i # held"
  by (simp_all add: after_def)

fun in_malloc :: "pc \<Rightarrow> bool" where
  "in_malloc MStart \<longleftrightarrow> True"
| "in_malloc (MTry old) \<longleftrightarrow> True"
| "in_malloc (MCas old nx) \<longleftrightarrow> True"
| "in_malloc (MMark i) \<longleftrightarrow> True"
| "in_malloc (MCount i) \<longleftrightarrow> True"
| "in_malloc p \<longleftrightarrow> False"

lemma thread_facts:
  assumes inv: "pool_inv s fl" and t: "t < length (sys_threads s)" "sys_threads s ! t = (p, held)"
  shows "pc_ok (sys_pool s) (sys_exchanges s) p" and "\<forall>i\<in>set held. allocated (sys_pool s) i"
    and "i \<in> set (moving p) \<Longrightarrow> i < length (fp_next (sys_pool s)) \<and> i \<notin> set held"
proof -
  have "thread_ok (sys_pool s) (sys_exchanges s) (p, held)" using pool_invD(7) [OF inv] t by (metis nth_mem)
  then show "pc_ok (sys_pool s) (sys_exchanges s) p" "\<forall>i\<in>set held. allocated (sys_pool s) i"
    by (simp_all add: thread_ok_def)
  show "i < length (fp_next (sys_pool s)) \<and> i \<notin> set held" if "i \<in> set (moving p)"
    using blocks_apart(2) [OF inv t(1)] blocks_distinct [OF inv t(1)] that t(2)
      pool_staticD(4) [OF pool_invD(1) [OF inv]]
    by (auto simp: thread_blocks_def)
qed

lemma malloc_run_inv:
  assumes inv: "pool_inv s fl" and t: "t < length (sys_threads s)" "sys_threads s ! t = (p, held)"
    and run: "p \<noteq> Idle" "thread_step (sys_pool s) p = (pool', p', out)"
    and c': "c' = sys_exchanges s + (if fp_head pool' = fp_head (sys_pool s) then 0 else 1)"
    and c: "c' < 2 ^ (64 - fp_index_bits (sys_pool s))"
    and p: "in_malloc p"
  shows "\<exists>fl'. pool_inv (moved_to s t pool' (p', after out held) c') fl'"
proof -
  let ?P = "sys_pool s" and ?c = "sys_exchanges s"
  note ok = thread_facts(1,2) [OF inv t] and here = thread_facts(3) [OF inv t]
  note quiet = move_quiet [OF inv t]
  show ?thesis
  proof (cases p)
    case MStart
    then show ?thesis using run c' quiet [of "(MTry (fp_head ?P), after out held)"] ok
      by (auto simp: thread_blocks_def thread_ok_def seen_def)
  next
    case (MTry old)
    then show ?thesis using run c' quiet [of "(p', after out held)"] ok
      by (auto simp: thread_blocks_def thread_ok_def Let_def blocks_def not_le word_less_nat_alt
          split: if_splits)
  next
    case (MCas old nx)
    show ?thesis
    proof (cases "fp_head ?P = old")
      case True
      have th: "sys_threads s ! t = (MCas old nx, held)" using t(2) MCas by simp
      show ?thesis
        using run c' c exchange_takes [OF inv t(1) th True] MCas True by (auto split: if_splits)
    next
      case False
      then show ?thesis using run c' quiet [of "(MTry (fp_head ?P), after out held)"] ok MCas
        by (auto simp: thread_blocks_def thread_ok_def seen_def)
    qed
  next
    case (MMark i)
    have "thread_ok (?P\<lparr>fp_next := (fp_next ?P)[i := XFIXEDPOOL_BLOCK_ALLOCATED]\<rparr>) ?c (MCount i, held)"
      using ok here [of i] MMark by (auto simp: thread_ok_def nth_list_update)
    then show ?thesis
      using move_write [OF inv t, of i "(MCount i, held)"] MMark run c' by (auto simp: thread_blocks_def)
  next
    case (MCount i)
    then show ?thesis
      using move_count [OF inv t, of "(Idle, i # held)" "fp_free_count ?P - 1"] run c' ok
      by (auto simp: thread_blocks_def thread_ok_def)
  qed (use p run in simp_all)
qed

lemma free_run_inv:
  assumes inv: "pool_inv s fl" and t: "t < length (sys_threads s)" "sys_threads s ! t = (p, held)"
    and run: "p \<noteq> Idle" "thread_step (sys_pool s) p = (pool', p', out)"
    and c': "c' = sys_exchanges s + (if fp_head pool' = fp_head (sys_pool s) then 0 else 1)"
    and c: "c' < 2 ^ (64 - fp_index_bits (sys_pool s))"
    and p: "\<not> in_malloc p"
  shows "\<exists>fl'. pool_inv (moved_to s t pool' (p', after out held) c') fl'"
proof -
  let ?P = "sys_pool s" and ?c = "sys_exchanges s"
  note ok = thread_facts(1,2) [OF inv t] and here = thread_facts(3) [OF inv t]
  note quiet = move_quiet [OF inv t]
  show ?thesis
  proof (cases p)
    case (FCheck i)
    then show ?thesis using run c' quiet [of "(p', after out held)"] ok by (auto simp: thread_blocks_def thread_ok_def)
  next
    case (FLoad i)
    then show ?thesis using run c' quiet [of "(p', after out held)"] ok by (auto simp: thread_blocks_def thread_ok_def seen_def)
  next
    case (FLink i old)
    have "thread_ok (?P\<lparr>fp_next := (fp_next ?P)[i := unpacked_index ?P old]\<rparr>) ?c (FCas i old, held)"
      using ok here [of i] FLink by (auto simp: thread_ok_def nth_list_update)
    then show ?thesis
      using move_write [OF inv t, of i "(FCas i old, held)"] FLink run c' by (auto simp: thread_blocks_def)
  next
    case (FCas i old)
    show ?thesis
    proof (cases "fp_head ?P = old")
      case True
      have th: "sys_threads s ! t = (FCas i old, held)" using t(2) FCas by simp
      show ?thesis
        using run c' c exchange_returns [OF inv t(1) th True] FCas True by (auto split: if_splits)
    next
      case False
      then show ?thesis using run c' quiet [of "(FLink i (fp_head ?P), after out held)"] ok FCas
        by (auto simp: thread_blocks_def thread_ok_def seen_def)
    qed
  next
    case FCount
    then show ?thesis
      using move_count [OF inv t, of "(Idle, held)" "fp_free_count ?P + 1"] run c' ok
      by (auto simp: thread_blocks_def thread_ok_def)
  qed (use p run in simp_all)
qed

lemma pool_run_inv:
  assumes inv: "pool_inv s fl" and t: "t < length (sys_threads s)" "sys_threads s ! t = (p, held)"
    and run: "p \<noteq> Idle" "thread_step (sys_pool s) p = (pool', p', out)"
    and c': "c' = sys_exchanges s + (if fp_head pool' = fp_head (sys_pool s) then 0 else 1)"
    and c: "c' < 2 ^ (64 - fp_index_bits (sys_pool s))"
  shows "\<exists>fl'. pool_inv (moved_to s t pool' (p', after out held) c') fl'"
  using malloc_run_inv [OF inv t run c' c] free_run_inv [OF inv t run c' c] run(1) by (cases "in_malloc p") simp_all

lemma pool_step_inv:
  assumes inv: "pool_inv s fl" and step: "pool_step s s'"
    and c: "sys_exchanges s' < 2 ^ (64 - fp_index_bits (sys_pool s))"
  shows "\<exists>fl'. pool_inv s' fl'"
  using step
proof cases
  case (call_malloc t held)
  have "thread_ok (sys_pool s) (sys_exchanges s) (Idle, held)"
    using pool_invD(7) [OF inv] call_malloc(2,3) by (metis nth_mem)
  then have "pool_inv (moved_to s t (sys_pool s) (MStart, held) (sys_exchanges s)) fl"
    by (intro move_quiet [OF inv call_malloc(2,3)]) (auto simp: thread_blocks_def thread_ok_def)
  then show ?thesis using call_malloc(1) moved_to_eq(1) by auto
next
  case (call_free t held i p)
  have ok: "thread_ok (sys_pool s) (sys_exchanges s) (Idle, held)"
    using pool_invD(7) [OF inv] call_free(2,3) by (metis nth_mem)
  have i: "i < blocks (sys_pool s)"
    using blocks_apart(2) [OF inv call_free(2)] call_free(3,4) by (simp add: thread_blocks_def)
  have "p = FCheck i"
    using free_entry_held [OF pool_invD(1) [OF inv] i] ok call_free(4,5) by (simp add: thread_ok_def)
  then have "pool_inv (moved_to s t (sys_pool s) (p, remove1 i held) (sys_exchanges s)) fl"
    using ok call_free(4)
    by (intro move_quiet [OF inv call_free(2,3)])
       (auto simp: thread_blocks_def thread_ok_def dest: notin_set_remove1)
  then show ?thesis using call_free(1) moved_to_eq(1) by auto
next
  case (run t p held pool' p' out)
  show ?thesis
    using pool_run_inv [OF inv run(2-5) refl] c unfolding run(1) moved_to_eq(2) by (simp add: moved_to_def)
qed

text \<open>What no step changes.\<close>

definition pool_layout :: "XFixedPool \<Rightarrow> XFixedPool" where
  "pool_layout pool = pool\<lparr>fp_head := 0, fp_free_count := 0, fp_next := []\<rparr>"

lemma thread_step_layout: "pool_layout (fst (thread_step pool p)) = pool_layout pool"
  by (cases p) (auto simp: pool_layout_def Let_def)

lemma pool_step_fixed:
  assumes "pool_step s s'"
  shows "pool_layout (sys_pool s') = pool_layout (sys_pool s) \<and> sys_exchanges s \<le> sys_exchanges s'"
  using assms
proof cases
  case (run t p held pool' p' out)
  then show ?thesis using thread_step_layout [of "sys_pool s" p] by simp
qed simp_all

lemma pool_layoutD:
  assumes "pool_layout pool = pool_layout pool'"
  shows "fp_index_bits pool = fp_index_bits pool'" "fp_num_blocks pool = fp_num_blocks pool'"
    "fp_block_size pool = fp_block_size pool'" "fp_user_block_size pool = fp_user_block_size pool'"
    "fp_raw_memory pool = fp_raw_memory pool'"
  using assms by (cases pool; cases pool'; simp add: pool_layout_def)+

lemma pool_reachable_inv:
  assumes "pool_reachable s0 s" and "pool_inv s0 fl" and "sys_exchanges s < 2 ^ (64 - fp_index_bits (sys_pool s0))"
  shows "(\<exists>fl'. pool_inv s fl') \<and> pool_layout (sys_pool s) = pool_layout (sys_pool s0)"
  using assms
proof (induction rule: pool_reachable.induct)
  case (step s s')
  note fixed = pool_step_fixed [OF step.hyps(2)]
  then have "sys_exchanges s < 2 ^ (64 - fp_index_bits (sys_pool s0))" using step.prems(2) by simp
  then obtain fl' where inv: "pool_inv s fl'" and layout: "pool_layout (sys_pool s) = pool_layout (sys_pool s0)"
    using step.IH step.prems(1) by blast
  have "\<exists>fl'. pool_inv s' fl'"
    using pool_step_inv [OF inv step.hyps(2)] step.prems(2) pool_layoutD(1) [OF layout] by simp
  then show ?case using fixed layout by simp
qed auto

end
