(* ===== verification/FixedPoolProps.thy ===== *)
theory FixedPoolProps
  imports FixedPoolInv
begin

text \<open>
  What the pool promises: from a successful initialisation on, and as long as the version counter does not
  come round, no block is handed out twice, the count of free blocks is exact when no thread is inside an
  operation, an allocation that runs alone ends with a free block when there is one, a released block is
  the next one allocated, and a pointer that is not a held block is refused. While a release is pending the
  count can wrap below zero.
\<close>

unbundle bit_operations_syntax

section \<open>A pool that has been initialised\<close>

lemma internal_block_size_8:
  assumes "calculate_internal_block_size n \<noteq> 0"
  shows "8 \<le> unat (calculate_internal_block_size n)"
proof -
  have seven: "(7 :: word64) = mask 3" by (simp add: mask_eq_exp_minus_1)
  have "take_bit 3 (w AND NOT (8 - 1)) = 0" for w :: word64
  proof (rule bit_word_eqI)
    fix k
    have "bit (8 - 1 :: word64) k \<longleftrightarrow> k < 3" by (auto simp: seven bit_mask_iff)
    then show "bit (take_bit 3 (w AND NOT (8 - 1))) k = bit 0 k"
      by (auto simp: bit_take_bit_iff bit_and_iff bit_not_iff)
  qed
  then have "unat (take_bit 3 (calculate_internal_block_size n)) = 0"
    by (simp only: calculate_internal_block_size_def unat_0)
  then have "unat (calculate_internal_block_size n) mod 8 = 0"
    by (simp only: unsigned_take_bit_eq) (simp add: take_bit_eq_mod)
  moreover have "unat (calculate_internal_block_size n) \<noteq> 0" using assms by (simp add: unat_eq_0)
  ultimately show ?thesis by presburger
qed

lemma linked_sequence:
  assumes "i \<le> blocks pool" and "fp_next pool = map (\<lambda>i. of_nat i + 1) [0..<blocks pool]"
  shows "first_free pool [i..<blocks pool] = i \<and> linked pool [i..<blocks pool]"
  using assms(1)
proof (induction rule: inc_induct)
  case (step i)
  then show ?case using assms(2) by (simp add: upt_conv_Cons [of i] first_free_def)
qed (simp add: first_free_def)

text \<open>Facts of a pool made by a successful initialisation.\<close>

lemma init_facts:
  assumes init: "XFixedPool_init pool memory total_bytes block_size = Some (True, p)"
    and room: "unat memory + unat total_bytes < 2 ^ 64"
  shows "pool_static p" and "fp_next p = map (\<lambda>i. of_nat i + 1) [0..<blocks p]"
    and "fp_head p = packed p 0 0" and "fp_free_count p = fp_num_blocks p" and "fp_raw_memory p = memory"
    and "fp_user_block_size p = fp_block_size p - 8"
    and "unat (fp_block_size p) * blocks p \<le> unat total_bytes"
proof -
  let ?bs = "calculate_internal_block_size block_size"
  let ?n = "total_bytes div calculate_internal_block_size block_size"
  let ?b = "XAtomic_index_bits ?n"
  have bs: "?bs \<noteq> 0" and n: "?n \<noteq> 0" and bits: "16 \<le> XAtomic_version_bits ?b"
    and p: "p = initialize_free_list (pool\<lparr>fp_block_size := ?bs, fp_user_block_size := ?bs - 8,
        fp_raw_memory := memory, fp_total_raw_size := total_bytes, fp_num_blocks := ?n,
        fp_owns_memory := False, fp_index_bits := ?b, fp_index_mask := XAtomic_index_mask ?b,
        fp_version_mask := XAtomic_version_mask ?b\<rparr>)\<lparr>fp_head := XAtomic_pack_index_version 0 0 ?b
          (XAtomic_version_mask ?b), fp_free_count := ?n\<rparr>"
    using init
    by (simp_all add: XFixedPool_init_def Let_def initialize_free_list_def not_less split: if_splits)
  show "fp_next p = map (\<lambda>i. of_nat i + 1) [0..<blocks p]" "fp_head p = packed p 0 0"
    "fp_free_count p = fp_num_blocks p" "fp_raw_memory p = memory" "fp_user_block_size p = fp_block_size p - 8"
    using n by (simp_all add: p initialize_free_list_def blocks_def packed_def)
  have "unat ?n = unat total_bytes div unat ?bs" by (rule unat_div_distrib)
  then have le: "unat ?bs * unat ?n \<le> unat total_bytes" by (simp add: times_div_less_eq_dividend)
  then show "unat (fp_block_size p) * blocks p \<le> unat total_bytes"
    using n by (simp add: p initialize_free_list_def blocks_def)
  have "?b \<le> 48" using bits by (simp add: XAtomic_version_bits_def)
  then show "pool_static p"
    using n le room index_bits_bound [of ?n] index_bits_pos [OF n] internal_block_size_8 [OF bs]
    by (simp add: p initialize_free_list_def pool_static_def blocks_def unat_gt_0)
qed

lemma initial_inv:
  assumes "XFixedPool_init pool memory total_bytes block_size = Some (True, p)"
    and "unat memory + unat total_bytes < 2 ^ 64"
  shows "pool_inv (initial_system p k) [0..<blocks p]"
proof -
  note facts = init_facts [OF assms]
  have "taken (replicate k (Idle, [])) = []" "total_debt (replicate k (Idle, [])) = 0"
    by (induction k) (auto simp: taken_def thread_blocks_def total_debt_def)
  moreover have "fp_free_count p = of_nat (blocks p)" using facts(4) by (simp add: blocks_def)
  ultimately show ?thesis
    using facts(1,3) linked_sequence [of 0 p] facts(2)
    by (simp add: pool_inv_def initial_system_def thread_ok_def)
qed

section \<open>Properties\<close>

lemma taken_split: "mset (taken ths) = mset (concat (map snd ths) @ concat (map (moving \<circ> fst) ths))"
  by (induction ths) (simp_all add: taken_def thread_blocks_def ac_simps)

abbreviation held_blocks :: "pool_system \<Rightarrow> nat list" where
  "held_blocks s \<equiv> concat (map snd (sys_threads s))"

definition user_bytes :: "XFixedPool \<Rightarrow> nat \<Rightarrow> nat set" where
  "user_bytes pool i =
     {unat (user_pointer pool i) ..< unat (user_pointer pool i) + unat (fp_user_block_size pool)}"

text \<open>
  C2: However many threads allocate and release, and however their steps interleave, no two of them hold
  the same block, and no thread holds one twice: the bytes handed out lie inside the memory given to the pool
  and those of different blocks do not overlap. The hypothesis on the exchanges is the width of the version.
\<close>

theorem pool_blocks_exclusive:
  assumes "XFixedPool_init pool memory total_bytes block_size = Some (True, p)"
    and "unat memory + unat total_bytes < 2 ^ 64"
    and "pool_reachable (initial_system p k) s"
    and "sys_exchanges s < 2 ^ (64 - fp_index_bits p)"
  shows "distinct (held_blocks s) \<and>
    (\<forall>i\<in>set (held_blocks s). user_bytes (sys_pool s) i \<subseteq> {unat memory..<unat memory + unat total_bytes} \<and>
      (\<forall>j\<in>set (held_blocks s). i \<noteq> j \<longrightarrow> user_bytes (sys_pool s) i \<inter> user_bytes (sys_pool s) j = {}))"
proof -
  let ?P = "sys_pool s"
  note facts = init_facts [OF assms(1,2)]
  obtain fl where inv: "pool_inv s fl" and layout: "pool_layout ?P = pool_layout p"
    using pool_reachable_inv [OF assms(3) initial_inv [OF assms(1,2)]] assms(4) by (auto simp: initial_system_def)
  note same = pool_layoutD [OF layout]
  have st: "pool_static ?P" by (rule pool_invD(1) [OF inv])
  have bs: "8 \<le> unat (fp_block_size p)" using facts(1) by (simp add: pool_static_def)
  have us: "unat (fp_user_block_size ?P) = unat (fp_block_size p) - 8"
    using bs by (simp add: same facts(6) unat_sub word_le_nat_alt)
  have bytes: "user_bytes ?P i = {unat memory + unat (fp_block_size p) * i + 8 ..<
      unat memory + unat (fp_block_size p) * Suc i}" if "i < blocks ?P" for i
    using user_address(1) [OF st that] bs by (simp add: user_bytes_def us same(3,5) facts(5) ac_simps)
  have "set (held_blocks s) \<subseteq> set (taken (sys_threads s))" by (auto simp: taken_def thread_blocks_def)
  then have below: "i < blocks ?P" if "i \<in> set (held_blocks s)" for i using pool_invD(3) [OF inv] that by blast
  have range: "user_bytes ?P i \<subseteq> {unat memory..<unat memory + unat total_bytes}" if "i < blocks ?P" for i
  proof -
    have "unat (fp_block_size p) * Suc i \<le> unat (fp_block_size p) * blocks p"
      using that same(2) by (intro mult_le_mono2) (simp add: blocks_def)
    then have "unat (fp_block_size p) * Suc i \<le> unat total_bytes" using facts(7) by linarith
    then show ?thesis by (auto simp: bytes [OF that])
  qed
  have apart: "user_bytes ?P i \<inter> user_bytes ?P j = {}" if "i < j" "j < blocks ?P" for i j
  proof -
    have "unat (fp_block_size p) * Suc i \<le> unat (fp_block_size p) * j" using that(1) by (intro mult_le_mono2) simp
    then show ?thesis using that by (auto simp: bytes)
  qed
  have "distinct (held_blocks s)"
    using pool_invD(2) [OF inv] mset_eq_imp_distinct_iff [OF taken_split, of "sys_threads s"] by simp
  then show ?thesis using range apart below by (metis Int_commute linorder_neq_iff)
qed

text \<open>
  A thread that runs alone from where it is, until its call returns: the value is where it is then, and
  what it returned.
\<close>

fun run_alone :: "nat \<Rightarrow> XFixedPool \<Rightarrow> pc \<Rightarrow> XFixedPool \<times> pc \<times> outcome" where
  "run_alone 0 pool p = (pool, p, Running)"
| "run_alone (Suc n) pool p =
     (case thread_step pool p of
        (pool', p', Running) \<Rightarrow> run_alone n pool' p'
      | r \<Rightarrow> r)"

definition idle :: "pool_system \<Rightarrow> bool" where
  "idle s \<longleftrightarrow> (\<forall>th\<in>set (sys_threads s). fst th = Idle)"

lemma idle_inv:
  assumes inv: "pool_inv s fl" and "idle s"
  shows "mset fl + mset (held_blocks s) = mset [0..<blocks (sys_pool s)]"
    and "fp_free_count (sys_pool s) = of_nat (length fl)"
    and "unat (XFixedPool_freeCount (sys_pool s)) = length fl"
    and "length fl + length (held_blocks s) = blocks (sys_pool s)"
proof -
  have p: "moving (fst th) = []" "debt (fst th) = 0" if "th \<in> set (sys_threads s)" for th
    using that assms(2) by (simp_all add: idle_def)
  have "concat (map (moving \<circ> fst) (sys_threads s)) = []" using p(1) by simp
  moreover have "mset fl + mset (taken (sys_threads s)) = mset [0..<blocks (sys_pool s)]"
    using inv unfolding pool_inv_def by (elim conjE)
  ultimately show all: "mset fl + mset (held_blocks s) = mset [0..<blocks (sys_pool s)]"
    by (simp only: taken_split mset_append mset.simps add_0_right)
  show len: "length fl + length (held_blocks s) = blocks (sys_pool s)"
    using arg_cong [OF all, of size] by simp
  have "map (debt \<circ> fst) (sys_threads s) = map (\<lambda>th. 0) (sys_threads s)" using p(2) by simp
  then have "total_debt (sys_threads s) = 0" by (simp only: total_debt_def sum_list_0)
  then show count: "fp_free_count (sys_pool s) = of_nat (length fl)" using pool_invD(8) [OF inv] by simp
  have "unat (fp_num_blocks (sys_pool s)) < 2 ^ LENGTH(64)" by (rule unsigned_less)
  then have "length fl < 2 ^ 64" using len by (simp add: blocks_def)
  then show "unat (XFixedPool_freeCount (sys_pool s)) = length fl"
    by (simp only: XFixedPool_freeCount_def count unat_of_nat64)
qed

text \<open>Allocation and release alone, from an idle pool.\<close>

lemma malloc_alone:
  assumes inv: "pool_inv s fl"
  shows "\<exists>pool'. run_alone 5 (sys_pool s) MStart =
    (pool', Idle, Returned (case fl of [] \<Rightarrow> None | i # _ \<Rightarrow> Some i))"
  using head_index [OF inv] free_below [OF inv]
  by (cases fl) (auto simp: eval_nat_numeral first_free_def Let_def blocks_def word_le_nat_alt not_le)

definition released :: "XFixedPool \<Rightarrow> nat \<Rightarrow> XFixedPool" where
  "released pool i = pool\<lparr>fp_next := (fp_next pool)[i := unpacked_index pool (fp_head pool)],
     fp_head := repacked pool (of_nat i) (fp_head pool), fp_free_count := fp_free_count pool + 1\<rparr>"

lemma free_alone:
  assumes st: "pool_static pool" and i: "i < blocks pool" and a: "allocated pool i"
  shows "run_alone 5 pool (free_entry pool (user_pointer pool i)) = (released pool i, Idle, Released)"
  using free_entry_held [OF assms] a
  by (simp add: eval_nat_numeral released_def repacked_def)

lemma malloc_after_free:
  assumes inv: "pool_inv s fl" and i: "i < blocks (sys_pool s)"
  shows "\<exists>pool'. run_alone 5 (released (sys_pool s) i) MStart = (pool', Idle, Returned (Some i)) \<and>
    fp_free_count pool' = fp_free_count (sys_pool s)"
proof -
  let ?P = "sys_pool s"
  have st: "pool_static ?P" by (rule pool_invD(1) [OF inv])
  have "repacked ?P (of_nat i) (fp_head ?P) = packed ?P i (Suc (sys_exchanges s))"
    unfolding pool_invD(5) [OF inv] by (rule packed_index(2) [OF st pool_invD(4) [OF inv]])
  then have "unat (unpacked_index (released ?P i) (fp_head (released ?P i))) = i"
    using packed_index(1) [OF st, of i] i by (simp add: released_def unpacked_index_def)
  moreover have "unat (fp_num_blocks (released ?P i)) = blocks ?P" by (simp add: released_def blocks_def)
  moreover have "fp_free_count (released ?P i) = fp_free_count ?P + 1" by (simp add: released_def)
  ultimately show ?thesis
    using i by (auto simp: eval_nat_numeral Let_def word_le_nat_alt not_le)
qed

lemma held_facts:
  assumes inv: "pool_inv s fl" and "i \<in> set (held_blocks s)"
  shows "i < blocks (sys_pool s)" and "allocated (sys_pool s) i"
proof -
  obtain th where "th \<in> set (sys_threads s)" and i: "i \<in> set (snd th)" using assms(2) by auto
  then obtain t where t: "t < length (sys_threads s)" "sys_threads s ! t = th" by (auto simp: in_set_conv_nth)
  show "i < blocks (sys_pool s)" using blocks_apart(2) [OF inv t(1)] t(2) i by (simp add: thread_blocks_def)
  show "allocated (sys_pool s) i" using pool_invD(7) [OF inv nth_mem [OF t(1)]] t(2) i by (simp add: thread_ok_def)
qed

lemma entry_block:
  assumes "free_entry pool ptr \<noteq> Idle"
  shows "\<exists>i<blocks pool. ptr = user_pointer pool i \<and> allocated pool i \<and> free_entry pool ptr = FCheck i"
proof -
  let ?off = "get_internal_block_ptr ptr - fp_raw_memory pool" and ?bs = "fp_block_size pool"
  let ?i = "unat ((get_internal_block_ptr ptr - fp_raw_memory pool) div fp_block_size pool)"
  have from_pool: "XFixedPool_is_from_pool pool ptr" and entry: "free_entry pool ptr = FCheck ?i" and i: "?i < blocks pool"
    using assms by (auto simp: free_entry_def Let_def blocks_def not_le split: if_splits)
  have "?off mod ?bs = 0" and a: "allocated pool ?i"
    using from_pool by (simp_all add: XFixedPool_is_from_pool_def Let_def split: if_splits)
  then have "?off = ?off div ?bs * ?bs" by (metis add_cancel_left_right div_mult_mod_eq)
  then have "get_block_by_index pool ?i = get_internal_block_ptr ptr"
    by (simp add: get_block_by_index_def)
  then have "ptr = user_pointer pool ?i"
    by (simp add: user_pointer_def get_user_data_ptr_def get_internal_block_ptr_def)
  then show ?thesis using entry i a by blast
qed

lemma entry_released:
  assumes inv: "pool_inv s fl" and i: "i < blocks (sys_pool s)"
  shows "free_entry (released (sys_pool s) i) (user_pointer (sys_pool s) i) = Idle"
proof -
  let ?P = "sys_pool s"
  let ?R = "released (sys_pool s) i"
  have st: "pool_static ?P" by (rule pool_invD(1) [OF inv])
  have R: "pool_static ?R" "blocks ?R = blocks ?P" "user_pointer ?R i = user_pointer ?P i"
    using st by (simp_all add: released_def pool_shape user_pointer_def get_block_by_index_def)
  have "unat (unpacked_index ?P (fp_head ?P)) \<le> blocks ?P" using head_index [OF inv] pool_invD(4) [OF inv] by simp
  also have "\<dots> < unat XFIXEDPOOL_BLOCK_ALLOCATED"
  proof -
    have "(2 :: nat) ^ fp_index_bits ?P \<le> 2 ^ 48" using pool_staticD(3) [OF st] by (rule power_increasing) simp
    then show ?thesis using pool_staticD(2) [OF st] 
      by (simp add: XFIXEDPOOL_BLOCK_ALLOCATED_def unsigned_minus_1_eq_mask mask_eq_exp_minus_1)
  qed
  finally have "\<not> allocated ?R i" using i pool_staticD(4) [OF st] by (auto simp: released_def)
  then have "\<not> XFixedPool_is_from_pool ?R (user_pointer ?P i)"
    using is_from_pool_block [OF R(1), of i] i R(2,3) by simp
  then show ?thesis by (simp add: free_entry_def)
qed

text \<open>Every reachable state of a pool that was initialised.\<close>

lemma reachable_facts:
  assumes "XFixedPool_init pool memory total_bytes block_size = Some (True, p)"
    and "unat memory + unat total_bytes < 2 ^ 64"
    and "pool_reachable (initial_system p k) s"
    and "sys_exchanges s < 2 ^ (64 - fp_index_bits p)"
  obtains fl where "pool_inv s fl" "pool_layout (sys_pool s) = pool_layout p"
  using pool_reachable_inv [OF assms(3) initial_inv [OF assms(1,2)]] assms(4)
  by (auto simp: initial_system_def)

text \<open>
  When no thread is inside an operation, the count of free blocks plus the blocks held is the number of
  blocks: no block is lost and the count is exact, whatever happened before.
\<close>

theorem pool_idle_counts:
  assumes "XFixedPool_init pool memory total_bytes block_size = Some (True, p)"
    and "unat memory + unat total_bytes < 2 ^ 64"
    and "pool_reachable (initial_system p k) s"
    and "sys_exchanges s < 2 ^ (64 - fp_index_bits p)"
    and "\<forall>th\<in>set (sys_threads s). fst th = Idle"
  shows "unat (XFixedPool_freeCount (sys_pool s)) + length (held_blocks s) =
    unat (XFixedPool_totalCount (sys_pool s))"
proof -
  obtain fl where "pool_inv s fl" by (rule reachable_facts [OF assms(1-4)])
  then show ?thesis
    using idle_inv(3,4) [of s fl] assms(5) by (simp add: idle_def XFixedPool_totalCount_def blocks_def)
qed

text \<open>
  C32: From every idle state an allocation that runs alone returns within five steps: a block that nobody
  holds, or NULL exactly when all blocks are held.
\<close>

theorem pool_malloc_alone:
  assumes "XFixedPool_init pool memory total_bytes block_size = Some (True, p)"
    and "unat memory + unat total_bytes < 2 ^ 64"
    and "pool_reachable (initial_system p k) s"
    and "sys_exchanges s < 2 ^ (64 - fp_index_bits p)"
    and "\<forall>th\<in>set (sys_threads s). fst th = Idle"
  shows "\<exists>pool' result. run_alone 5 (sys_pool s) MStart = (pool', Idle, Returned result) \<and>
    (case result of
       None \<Rightarrow> length (held_blocks s) = unat (fp_num_blocks p)
     | Some i \<Rightarrow> i < unat (fp_num_blocks p) \<and> i \<notin> set (held_blocks s))"
proof -
  obtain fl where inv: "pool_inv s fl" and layout: "pool_layout (sys_pool s) = pool_layout p"
    by (rule reachable_facts [OF assms(1-4)])
  have id: "idle s" using assms(5) by (simp add: idle_def)
  have n: "blocks (sys_pool s) = unat (fp_num_blocks p)" using pool_layoutD(2) [OF layout] by (simp add: blocks_def)
  have "mset (fl @ held_blocks s) = mset [0..<blocks (sys_pool s)]" using idle_inv(1) [OF inv id] by (simp only: mset_append)
  then have "distinct (fl @ held_blocks s)" by (metis distinct_upt mset_eq_imp_distinct_iff)
  then show ?thesis
    using malloc_alone [OF inv] free_below [OF inv] idle_inv(4) [OF inv id] n
    by (cases fl) auto
qed

text \<open>
  In every reachable state, whatever the other threads are doing, a release of a held block and then an
  allocation, run without interruption, end; the allocation returns the block released, and the count of
  free blocks is what it was.
\<close>

theorem pool_free_then_malloc:
  assumes "XFixedPool_init pool memory total_bytes block_size = Some (True, p)"
    and "unat memory + unat total_bytes < 2 ^ 64"
    and "pool_reachable (initial_system p k) s"
    and "sys_exchanges s < 2 ^ (64 - fp_index_bits p)"
    and "i \<in> set (held_blocks s)"
  shows "\<exists>freed pool'. run_alone 5 (sys_pool s) (free_entry (sys_pool s) (user_pointer (sys_pool s) i)) =
      (freed, Idle, Released) \<and>
    run_alone 5 freed MStart = (pool', Idle, Returned (Some i)) \<and>
    XFixedPool_freeCount pool' = XFixedPool_freeCount (sys_pool s)"
proof -
  obtain fl where inv: "pool_inv s fl" by (rule reachable_facts [OF assms(1-4)])
  have "i < blocks (sys_pool s)" "allocated (sys_pool s) i" using held_facts [OF inv assms(5)] by simp_all
  then show ?thesis
    using free_alone [OF pool_invD(1) [OF inv], of i] malloc_after_free [OF inv, of i]
    by (auto simp: XFixedPool_freeCount_def)
qed

text \<open>
  C33: A release does nothing unless the pointer is the user address of an allocated block, and then takes
  that block; a held block passes the checks, and after it has been released, the same pointer is refused.
\<close>

theorem pool_free_checks_pointer:
  assumes "XFixedPool_init pool memory total_bytes block_size = Some (True, p)"
    and "unat memory + unat total_bytes < 2 ^ 64"
    and "pool_reachable (initial_system p k) s"
    and "sys_exchanges s < 2 ^ (64 - fp_index_bits p)"
  shows "(free_entry (sys_pool s) ptr = Idle \<or>
      (\<exists>i<unat (fp_num_blocks p). ptr = user_pointer (sys_pool s) i \<and> free_entry (sys_pool s) ptr = FCheck i \<and>
        fp_next (sys_pool s) ! i = XFIXEDPOOL_BLOCK_ALLOCATED)) \<and>
    (\<forall>i\<in>set (held_blocks s). free_entry (sys_pool s) (user_pointer (sys_pool s) i) = FCheck i \<and>
      (\<exists>freed. run_alone 5 (sys_pool s) (FCheck i) = (freed, Idle, Released) \<and>
        free_entry freed (user_pointer (sys_pool s) i) = Idle))"
proof -
  obtain fl where inv: "pool_inv s fl" and layout: "pool_layout (sys_pool s) = pool_layout p"
    by (rule reachable_facts [OF assms(1-4)])
  have n: "blocks (sys_pool s) = unat (fp_num_blocks p)" using pool_layoutD(2) [OF layout] by (simp add: blocks_def)
  have held: "free_entry (sys_pool s) (user_pointer (sys_pool s) i) = FCheck i \<and>
      run_alone 5 (sys_pool s) (FCheck i) = (released (sys_pool s) i, Idle, Released) \<and>
      free_entry (released (sys_pool s) i) (user_pointer (sys_pool s) i) = Idle"
    if "i \<in> set (held_blocks s)" for i
    using free_entry_held [OF pool_invD(1) [OF inv]] free_alone [OF pool_invD(1) [OF inv]]
      entry_released [OF inv] held_facts [OF inv that] by metis
  show ?thesis
  proof (intro conjI ballI)
    show "free_entry (sys_pool s) ptr = Idle \<or> (\<exists>i<unat (fp_num_blocks p). ptr = user_pointer (sys_pool s) i \<and>
        free_entry (sys_pool s) ptr = FCheck i \<and> allocated (sys_pool s) i)"
      using entry_block [of "sys_pool s" ptr] n by auto
  qed (use held in blast)+
qed

section \<open>Schedules\<close>

text \<open>
  A schedule names the thread that moves next: an idle thread without a block calls
  \<open>XFixedPool_malloc\<close>, an idle thread with blocks releases its first, any other thread makes a step.
\<close>

definition scheduled :: "pool_system \<Rightarrow> nat \<Rightarrow> pool_system" where
  "scheduled s t =
     (case sys_threads s ! t of
        (Idle, []) \<Rightarrow> s\<lparr>sys_threads := (sys_threads s)[t := (MStart, [])]\<rparr>
      | (Idle, i # held) \<Rightarrow>
          s\<lparr>sys_threads := (sys_threads s)[t := (free_entry (sys_pool s) (user_pointer (sys_pool s) i), held)]\<rparr>
      | (p, held) \<Rightarrow>
          (case thread_step (sys_pool s) p of
             (pool', p', out) \<Rightarrow> s\<lparr>sys_pool := pool', sys_threads := (sys_threads s)[t := (p', after out held)],
               sys_exchanges := sys_exchanges s + (if fp_head pool' = fp_head (sys_pool s) then 0 else 1)\<rparr>))"

lemma scheduled_step:
  assumes "t < length (sys_threads s)"
  shows "pool_step s (scheduled s t)"
proof -
  obtain p held where t: "sys_threads s ! t = (p, held)" by (cases "sys_threads s ! t")
  show ?thesis
  proof (cases "p = Idle")
    case True
    then show ?thesis
      using assms t call_malloc [of t s "[]"] call_free [OF assms, of held "hd held"]
      by (cases held) (auto simp: scheduled_def)
  next
    case False
    obtain pool' p' out where "thread_step (sys_pool s) p = (pool', p', out)"
      by (cases "thread_step (sys_pool s) p")
    then show ?thesis using run [OF assms t False] False by (cases p) (auto simp: scheduled_def t)
  qed
qed

lemma schedule_reachable:
  "(\<forall>t\<in>set ts. t < length (sys_threads s)) \<Longrightarrow> pool_reachable s (foldl scheduled s ts)"
proof (induction ts rule: rev_induct)
  case (snoc t ts)
  have "length (sys_threads (foldl scheduled s us)) = length (sys_threads s)" for us
    by (induction us rule: rev_induct)
       (auto simp: scheduled_def split: prod.splits list.splits pc.splits)
  then show ?case
    using snoc by simp (rule pool_reachable.step [OF _ scheduled_step], simp_all)
qed (simp add: pool_reachable.start)

text \<open>
  A pool of two blocks of 24 bytes at address 4096, and one of a single block. In the state
  \<open>demo_state\<close> two threads loaded the same head; the second lost the exchange, tried again and got the
  other block.
\<close>

definition demo_pool :: "word64 \<Rightarrow> XFixedPool" where
  "demo_pool total_bytes = snd (the (XFixedPool_init zero_pool 4096 total_bytes 24))"

lemma demo_init:
  "XFixedPool_init zero_pool 4096 64 24 = Some (True, demo_pool 64)"
  "XFixedPool_init zero_pool 4096 32 24 = Some (True, demo_pool 32)"
  "demo_pool 64 = zero_pool\<lparr>fp_block_size := 32, fp_user_block_size := 24, fp_raw_memory := 4096,
     fp_total_raw_size := 64, fp_num_blocks := 2, fp_index_bits := 2, fp_index_mask := 3,
     fp_version_mask := 2 ^ 62 - 1, fp_next := [1, 2], fp_free_count := 2\<rparr>"
  "demo_pool 32 = zero_pool\<lparr>fp_block_size := 32, fp_user_block_size := 24, fp_raw_memory := 4096,
     fp_total_raw_size := 32, fp_num_blocks := 1, fp_index_bits := 1, fp_index_mask := 1,
     fp_version_mask := 2 ^ 63 - 1, fp_next := [1], fp_free_count := 1\<rparr>"
  by (simp_all add: demo_pool_def XFixedPool_init_def calculate_internal_block_size_def XAtomic_index_bits_def
      index_bits_loop.simps Let_def XAtomic_version_bits_def XAtomic_version_mask_def XAtomic_index_mask_def
      initialize_free_list_def XAtomic_pack_index_version_def zero_pool_def upt_rec)

definition demo_state :: pool_system where
  "demo_state = foldl scheduled (initial_system (demo_pool 64) 2) [0, 1, 0, 1, 0, 1, 0, 1, 0, 1, 0, 1, 1, 1]"

lemma demo_reachable: "pool_reachable (initial_system (demo_pool 64) 2) demo_state"
  unfolding demo_state_def by (rule schedule_reachable) (simp add: initial_system_def)

lemmas schedule_eval = scheduled_def initial_system_def zero_pool_def after_def unpacked_index_def repacked_def
  XAtomic_unpack_index_def XAtomic_unpack_version_def XAtomic_pack_index_version_def Let_def
  XFIXEDPOOL_BLOCK_ALLOCATED_def free_entry_def user_pointer_def get_user_data_ptr_def get_block_by_index_def
  get_internal_block_ptr_def XFixedPool_is_from_pool_def

lemma demo_state_eq:
  "demo_state = \<lparr>sys_pool = (demo_pool 64)\<lparr>fp_head := 10, fp_free_count := 0, fp_next := [- 1, - 1]\<rparr>,
     sys_threads = [(Idle, [0]), (Idle, [1])], sys_exchanges = 2\<rparr>"
  unfolding demo_state_def demo_init by code_simp

lemma demo_hyps:
  "unat (4096 :: word64) + unat (64 :: word64) < 2 ^ 64"
  "sys_exchanges demo_state < 2 ^ (64 - fp_index_bits (demo_pool 64))"
  "\<forall>th\<in>set (sys_threads demo_state). fst th = Idle"
  "held_blocks demo_state = [0, 1]"
  by (simp_all add: demo_state_eq demo_init)

lemma pool_blocks_exclusive_witness:
  "user_bytes (sys_pool demo_state) 0 \<inter> user_bytes (sys_pool demo_state) 1 = {}"
  using pool_blocks_exclusive [OF demo_init(1) demo_hyps(1) demo_reachable demo_hyps(2)]
  by (simp add: demo_hyps(4))

lemma pool_idle_counts_witness:
  "unat (XFixedPool_freeCount (sys_pool demo_state)) + length (held_blocks demo_state) =
    unat (XFixedPool_totalCount (sys_pool demo_state)) \<and> held_blocks demo_state = [0, 1]"
  using pool_idle_counts [OF demo_init(1) demo_hyps(1) demo_reachable demo_hyps(2,3)] demo_hyps(4) by simp

lemma pool_malloc_alone_witness:
  "\<exists>pool' result. run_alone 5 (sys_pool demo_state) MStart = (pool', Idle, Returned result) \<and>
    (case result of None \<Rightarrow> length (held_blocks demo_state) = unat (fp_num_blocks (demo_pool 64))
     | Some i \<Rightarrow> i < unat (fp_num_blocks (demo_pool 64)) \<and> i \<notin> set (held_blocks demo_state))"
  by (rule pool_malloc_alone [OF demo_init(1) demo_hyps(1) demo_reachable demo_hyps(2,3)])

lemma pool_free_then_malloc_witness:
  "\<exists>freed pool'. run_alone 5 (sys_pool demo_state) (free_entry (sys_pool demo_state)
      (user_pointer (sys_pool demo_state) 1)) = (freed, Idle, Released) \<and>
    run_alone 5 freed MStart = (pool', Idle, Returned (Some 1)) \<and>
    XFixedPool_freeCount pool' = XFixedPool_freeCount (sys_pool demo_state)"
  by (rule pool_free_then_malloc [OF demo_init(1) demo_hyps(1) demo_reachable demo_hyps(2)])
     (simp add: demo_hyps(4))

lemma pool_free_checks_pointer_witness:
  "free_entry (sys_pool demo_state) (user_pointer (sys_pool demo_state) 1) = FCheck 1"
  using pool_free_checks_pointer [OF demo_init(1) demo_hyps(1) demo_reachable demo_hyps(2), of 0]
  by (simp add: demo_hyps(4))

text \<open>
  C34: The count of free blocks can wrap: a release makes its block available before it counts it, so another
  thread that takes the block and counts first leaves 2 ^ 64 - 1 free blocks in a pool of one.
\<close>

theorem pool_free_count_wraps:
  "\<exists>s. pool_reachable (initial_system (demo_pool 32) 2) s \<and>
    XFixedPool_init zero_pool 4096 32 24 = Some (True, demo_pool 32) \<and>
    XFixedPool_freeCount (sys_pool s) = - 1 \<and> XFixedPool_totalCount (sys_pool s) = 1"
proof (intro exI conjI)
  let ?ts = "replicate 11 0 @ replicate 6 (1 :: nat)"
  show "pool_reachable (initial_system (demo_pool 32) 2) (foldl scheduled (initial_system (demo_pool 32) 2) ?ts)"
    by (rule schedule_reachable) (simp add: initial_system_def)
  show "XFixedPool_freeCount (sys_pool (foldl scheduled (initial_system (demo_pool 32) 2) ?ts)) = - 1"
    "XFixedPool_totalCount (sys_pool (foldl scheduled (initial_system (demo_pool 32) 2) ?ts)) = 1"
    unfolding demo_init by code_simp+
qed (rule demo_init)

end
