(* ===== verification/SortOrder.thy ===== *)
theory SortOrder
  imports XPrelude "HOL-Library.Multiset"
begin

text \<open>
  The order a comparison callback and a direction give, as the sorting, heap and search routines test it
  (\<open>XCode/XAlgorithm/XCompare.h\<close>), with the contract of such an order as a locale, arrays that are read
  and swapped by index, and what it means for a part of an array to be in order.
\<close>

section \<open>Comparison callbacks\<close>

datatype XSortOrder = XSORT_ASC | XSORT_DESC

type_synonym 'a compare = "'a \<Rightarrow> 'a \<Rightarrow> int"

definition in_order :: "'a compare \<Rightarrow> XSortOrder \<Rightarrow> 'a \<Rightarrow> 'a \<Rightarrow> bool" where
  "in_order compare order x y \<longleftrightarrow>
     compare x y = XCompare_Less \<and> order = XSORT_ASC \<or> compare x y = XCompare_Equality \<or>
     compare x y = XCompare_Greater \<and> order = XSORT_DESC"

text \<open>A callback that keeps its contract: one of three answers, opposite ones for swapped arguments, transitive.\<close>

definition total_compare :: "'a compare \<Rightarrow> bool" where
  "total_compare compare \<longleftrightarrow>
     (\<forall>x y. compare x y \<in> {XCompare_Less, XCompare_Equality, XCompare_Greater} \<and> compare y x = - compare x y) \<and>
     (\<forall>x y z. compare x y \<le> 0 \<longrightarrow> compare y z \<le> 0 \<longrightarrow> compare x z \<le> 0)"

locale sort_order =
  fixes le :: "'a \<Rightarrow> 'a \<Rightarrow> bool"
  assumes le_total: "le x y \<or> le y x"
    and le_trans: "le x y \<Longrightarrow> le y z \<Longrightarrow> le x z"
begin

lemma le_refl [simp]: "le x x"
  using le_total by blast

lemma not_le: "\<not> le x y \<Longrightarrow> le y x"
  using le_total by blast

end

lemma total_compareD:
  assumes "total_compare compare"
  shows "compare x y = - 1 \<or> compare x y = 0 \<or> compare x y = 1" and "compare y x = - compare x y"
    and "compare x y \<le> 0 \<Longrightarrow> compare y z \<le> 0 \<Longrightarrow> compare x z \<le> 0"
  using assms unfolding total_compare_def XCompare_defs by blast+

lemma in_order_asc: "total_compare compare \<Longrightarrow> in_order compare XSORT_ASC x y \<longleftrightarrow> compare x y \<le> 0"
  using total_compareD(1) [of compare x y] by (auto simp: in_order_def XCompare_defs)

lemma in_order_desc: "total_compare compare \<Longrightarrow> in_order compare XSORT_DESC x y \<longleftrightarrow> compare y x \<le> 0"
  using total_compareD(1) [of compare x y] total_compareD(2) [of compare y x]
  by (auto simp: in_order_def XCompare_defs)

lemma in_order_sort_order:
  assumes "total_compare compare"
  shows "sort_order (in_order compare order)"
proof (cases order)
  case XSORT_ASC
  then show ?thesis
    using total_compareD(2) [OF assms] total_compareD(3) [OF assms]
    by unfold_locales (metis in_order_asc [OF assms] neg_le_0_iff_le linear, metis in_order_asc [OF assms])
next
  case XSORT_DESC
  then show ?thesis
    using total_compareD(2) [OF assms] total_compareD(3) [OF assms]
    by unfold_locales (metis in_order_desc [OF assms] neg_le_0_iff_le linear, metis in_order_desc [OF assms])
qed

lemma int_compare_total: "total_compare int_compare"
  unfolding total_compare_def by (simp add: int_compare_def XCompare_defs)

interpretation int_asc: sort_order "in_order int_compare XSORT_ASC"
  by (rule in_order_sort_order [OF int_compare_total])

interpretation int_desc: sort_order "in_order int_compare XSORT_DESC"
  by (rule in_order_sort_order [OF int_compare_total])

section \<open>Arrays\<close>

text \<open>
  Reading or swapping outside the array is \<open>None\<close>. The exchange goes through a buffer of the size of an element,
  which is taken to be had and to fit the \<open>int\<close> the size is passed in: without the buffer \<open>XSwap\<close> ends the program.
\<close>

definition get_at :: "'a list \<Rightarrow> nat \<Rightarrow> 'a option" where
  "get_at xs i = (if i < length xs then Some (xs ! i) else None)"

definition XSwap :: "'a list \<Rightarrow> nat \<Rightarrow> nat \<Rightarrow> 'a list option" where
  "XSwap xs i j = (if i < length xs \<and> j < length xs then Some (xs[i := xs ! j, j := xs ! i]) else None)"

abbreviation swapped :: "'a list \<Rightarrow> nat \<Rightarrow> nat \<Rightarrow> 'a list" where
  "swapped xs i j \<equiv> xs[i := xs ! j, j := xs ! i]"

lemma get_at_Some [simp]: "i < length xs \<Longrightarrow> get_at xs i = Some (xs ! i)"
  by (simp add: get_at_def)

lemma XSwap_Some [simp]: "i < length xs \<Longrightarrow> j < length xs \<Longrightarrow> XSwap xs i j = Some (swapped xs i j)"
  by (simp add: XSwap_def)

lemma mset_swapped [simp]: "i < length xs \<Longrightarrow> j < length xs \<Longrightarrow> mset (swapped xs i j) = mset xs"
  by (rule mset_swap)

lemma nth_swapped:
  assumes "i < length xs" and "j < length xs"
  shows "swapped xs i j ! k = (if k = j then xs ! i else if k = i then xs ! j else xs ! k)"
  using assms by (auto simp: nth_list_update)

text \<open>The part of an array from index \<open>l\<close> up to, not including, \<open>r\<close> is in order.\<close>

definition ordered :: "('a \<Rightarrow> 'a \<Rightarrow> bool) \<Rightarrow> 'a list \<Rightarrow> nat \<Rightarrow> nat \<Rightarrow> bool" where
  "ordered le xs l r \<longleftrightarrow> (\<forall>p q. l \<le> p \<longrightarrow> p < q \<longrightarrow> q < r \<longrightarrow> le (xs ! p) (xs ! q))"

lemma orderedD: "ordered le xs l r \<Longrightarrow> l \<le> p \<Longrightarrow> p < q \<Longrightarrow> q < r \<Longrightarrow> le (xs ! p) (xs ! q)"
  by (simp add: ordered_def)

lemma ordered_all: "ordered le xs 0 (length xs) \<longleftrightarrow> sorted_wrt le xs"
  by (auto simp: ordered_def sorted_wrt_iff_nth_less)

text \<open>What every routine here does at least: it permutes a part of the array and leaves the rest alone.\<close>

definition permutes_part :: "'a list \<Rightarrow> 'a list \<Rightarrow> nat \<Rightarrow> nat \<Rightarrow> bool" where
  "permutes_part ys xs l r \<longleftrightarrow> mset ys = mset xs \<and> (\<forall>k. k < l \<or> r \<le> k \<longrightarrow> ys ! k = xs ! k)"

lemma permutes_part_refl [simp, intro]: "permutes_part xs xs l r"
  by (simp add: permutes_part_def)

lemma permutes_part_trans:
  "permutes_part zs ys l r \<Longrightarrow> permutes_part ys xs l r \<Longrightarrow> permutes_part zs xs l r"
  by (auto simp: permutes_part_def)

lemma permutes_part_swap:
  "l \<le> i \<Longrightarrow> i < r \<Longrightarrow> l \<le> j \<Longrightarrow> j < r \<Longrightarrow> r \<le> length xs \<Longrightarrow> permutes_part (swapped xs i j) xs l r"
  by (auto simp: permutes_part_def nth_swapped)

lemma permutes_part_wider:
  "permutes_part ys xs l r \<Longrightarrow> l' \<le> l \<Longrightarrow> r \<le> r' \<Longrightarrow> permutes_part ys xs l' r'"
  by (auto simp: permutes_part_def)

lemma permutes_part_length: "permutes_part ys xs l r \<Longrightarrow> length ys = length xs"
  unfolding permutes_part_def by (metis size_mset)

text \<open>The values in the part stay in the part.\<close>

lemma permutes_part_values:
  assumes "permutes_part ys xs l r" and "l \<le> k" "k < r" "r \<le> length xs"
  shows "\<exists>k'. l \<le> k' \<and> k' < r \<and> ys ! k = xs ! k'"
proof -
  have len: "length ys = length xs" using assms(1) by (rule permutes_part_length)
  have pieces: "zs = take l zs @ take (r - l) (drop l zs) @ drop r zs" for zs :: "'a list"
    using assms(2,3) by (metis append_take_drop_id drop_drop le_add_diff_inverse2 less_imp_le order.strict_trans1)
  have "take l ys = take l xs" "drop r ys = drop r xs"
    using assms len by (auto simp: permutes_part_def intro!: nth_equalityI)
  moreover have "mset ys = mset xs" using assms(1) by (simp add: permutes_part_def)
  ultimately have "mset (take (r - l) (drop l ys)) = mset (take (r - l) (drop l xs))"
    using pieces [of ys] pieces [of xs] by (metis add_left_cancel add_right_cancel mset_append)
  moreover have "ys ! k \<in> set (take (r - l) (drop l ys))"
    using assms len by (auto simp: in_set_conv_nth intro!: exI [of _ "k - l"])
  ultimately have "ys ! k \<in> set (take (r - l) (drop l xs))" by (metis mset_eq_setD)
  then obtain i where "i < r - l" "ys ! k = xs ! (l + i)"
    using assms by (auto simp: in_set_conv_nth)
  then show ?thesis by (intro exI [of _ "l + i"]) auto
qed

end
