(* ===== verification/XSort.thy ===== *)
theory XSort
  imports SortOrder
begin

text \<open>
  The sorting routines of \<open>XCode/XAlgorithm/XSort\<close> and the binary search of
  \<open>XCode/XAlgorithm/XFind.c\<close>. The array is a list, a pointer into it an index; reading or swapping
  outside it is \<open>None\<close>, and so is a loop that does not end. Index arithmetic that can wrap is
  \<open>size_sub\<close> and \<open>size_add\<close>; an index one before the array, which only ends a loop, is 0.
\<close>

section \<open>Insertion and Shell sort\<close>

partial_function (option) insert_shift ::
  "'a compare \<Rightarrow> XSortOrder \<Rightarrow> nat \<Rightarrow> nat \<Rightarrow> nat \<Rightarrow> nat \<Rightarrow> 'a list \<Rightarrow> 'a list option" where
  "insert_shift compare order gap stop i two xs =
     (if stop < i then Some xs
      else do {
        a \<leftarrow> get_at xs (stop - i);
        b \<leftarrow> get_at xs two;
        if in_order compare order a b then Some xs
        else do {
          ys \<leftarrow> XSwap xs (stop - i) two;
          insert_shift compare order gap stop (i + gap) (stop - i) ys
        }
      })"

partial_function (option) insert_loop ::
  "'a compare \<Rightarrow> XSortOrder \<Rightarrow> nat \<Rightarrow> nat \<Rightarrow> 'a list \<Rightarrow> 'a list option" where
  "insert_loop compare order gap stop xs =
     (if stop < size_sub (length xs) gap then do {
        ys \<leftarrow> insert_shift compare order gap stop 0 (stop + gap) xs;
        insert_loop compare order gap (stop + 1) ys
      }
      else Some xs)"

definition InsertSort_gap :: "'a compare \<Rightarrow> XSortOrder \<Rightarrow> nat \<Rightarrow> 'a list \<Rightarrow> 'a list option" where
  "InsertSort_gap compare order gap xs = insert_loop compare order gap 0 xs"

definition XInsertSort :: "'a compare \<Rightarrow> XSortOrder \<Rightarrow> 'a list \<Rightarrow> 'a list option" where
  "XInsertSort compare order xs = InsertSort_gap compare order 1 xs"

function shell_loop :: "'a compare \<Rightarrow> XSortOrder \<Rightarrow> nat \<Rightarrow> 'a list \<Rightarrow> 'a list option" where
  "shell_loop compare order gap xs =
     (if 1 < gap then do {
        ys \<leftarrow> InsertSort_gap compare order (gap div 3 + 1) xs;
        shell_loop compare order (gap div 3 + 1) ys
      }
      else Some xs)"
  by pat_completeness auto
termination by (relation "measure (\<lambda>(c, ord, gap, xs). gap)") auto

declare shell_loop.simps [simp del]

definition XShellSort :: "'a compare \<Rightarrow> XSortOrder \<Rightarrow> 'a list \<Rightarrow> 'a list option" where
  "XShellSort compare order xs = shell_loop compare order (length xs) xs"

section \<open>Bubble and selection sort\<close>

partial_function (option) bubble_pass ::
  "'a compare \<Rightarrow> XSortOrder \<Rightarrow> nat \<Rightarrow> nat \<Rightarrow> bool \<Rightarrow> 'a list \<Rightarrow> (bool \<times> 'a list) option" where
  "bubble_pass compare order bound p flag xs =
     (if p < bound then do {
        a \<leftarrow> get_at xs p;
        b \<leftarrow> get_at xs (p + 1);
        if in_order compare order a b then bubble_pass compare order bound (p + 1) flag xs
        else do {
          ys \<leftarrow> XSwap xs p (p + 1);
          bubble_pass compare order bound (p + 1) False ys
        }
      }
      else Some (flag, xs))"

partial_function (option) bubble_loop ::
  "'a compare \<Rightarrow> XSortOrder \<Rightarrow> nat \<Rightarrow> 'a list \<Rightarrow> 'a list option" where
  "bubble_loop compare order i xs =
     (if i < size_sub (length xs) 1 then do {
        (flag, ys) \<leftarrow> bubble_pass compare order (length xs - 1 - i) 0 True xs;
        if flag then Some ys else bubble_loop compare order (i + 1) ys
      }
      else Some xs)"

definition XBubbleSort :: "'a compare \<Rightarrow> XSortOrder \<Rightarrow> 'a list \<Rightarrow> 'a list option" where
  "XBubbleSort compare order xs = bubble_loop compare order 0 xs"

text \<open>One scan from both ends: \<open>l\<close> and \<open>r\<close> move, \<open>vl\<close> and \<open>vr\<close> are the values chosen so far.\<close>

definition chosen :: "'a compare \<Rightarrow> XSortOrder \<Rightarrow> 'a list \<Rightarrow> nat \<Rightarrow> nat \<times> nat \<Rightarrow> (nat \<times> nat) option" where
  "chosen compare order xs p v =
     (case v of (vl, vr) \<Rightarrow> do {
        a \<leftarrow> get_at xs vl;
        b \<leftarrow> get_at xs vr;
        x \<leftarrow> get_at xs p;
        Some (if in_order compare order a x then vl else p, if in_order compare order b x then p else vr)
      })"

partial_function (option) select_scan ::
  "'a compare \<Rightarrow> XSortOrder \<Rightarrow> 'a list \<Rightarrow> nat \<Rightarrow> nat \<Rightarrow> nat \<times> nat \<Rightarrow> (nat \<times> nat) option" where
  "select_scan compare order xs l r v =
     (if l < r then do {
        v1 \<leftarrow> chosen compare order xs l v;
        v2 \<leftarrow> chosen compare order xs r v1;
        select_scan compare order xs (l + 1) (r - 1) v2
      }
      else Some v)"

partial_function (option) select_loop ::
  "'a compare \<Rightarrow> XSortOrder \<Rightarrow> nat \<Rightarrow> nat \<Rightarrow> 'a list \<Rightarrow> 'a list option" where
  "select_loop compare order l r xs =
     (if l < r then do {
        a \<leftarrow> get_at xs l;
        b \<leftarrow> get_at xs r;
        ys \<leftarrow> (if in_order compare order a b then Some xs else XSwap xs l r);
        (vl, vr) \<leftarrow> select_scan compare order ys (l + 1) (r - 1) (l, r);
        zs \<leftarrow> XSwap ys vl l;
        us \<leftarrow> XSwap zs vr r;
        select_loop compare order (l + 1) (r - 1) us
      }
      else Some xs)"

definition XSelectSort :: "'a compare \<Rightarrow> XSortOrder \<Rightarrow> 'a list \<Rightarrow> 'a list option" where
  "XSelectSort compare order xs = select_loop compare order 0 (length xs - 1) xs"

section \<open>Heap sort\<close>

text \<open>\<open>neg\<close> is the argument \<open>NOT\<close>, which turns every comparison round.\<close>

partial_function (option) AdjustDown ::
  "'a compare \<Rightarrow> XSortOrder \<Rightarrow> bool \<Rightarrow> nat \<Rightarrow> nat \<Rightarrow> 'a list \<Rightarrow> 'a list option" where
  "AdjustDown compare order neg n parent xs =
     (if 2 * parent + 1 < n then do {
        child \<leftarrow> (if 2 * parent + 2 < n then do {
                   a \<leftarrow> get_at xs (2 * parent + 1);
                   b \<leftarrow> get_at xs (2 * parent + 2);
                   Some (if (\<not> in_order compare order a b) \<noteq> neg then 2 * parent + 2 else 2 * parent + 1)
                 } else Some (2 * parent + 1));
        c \<leftarrow> get_at xs child;
        p \<leftarrow> get_at xs parent;
        if in_order compare order c p \<noteq> neg then do {
          ys \<leftarrow> XSwap xs child parent;
          AdjustDown compare order neg n child ys
        }
        else Some xs
      }
      else Some xs)"

definition heap_root :: "nat \<Rightarrow> nat" where
  "heap_root n = size_sub (size_sub n 1) 1 div 2"

partial_function (option) heap_build ::
  "'a compare \<Rightarrow> XSortOrder \<Rightarrow> bool \<Rightarrow> nat \<Rightarrow> 'a list \<Rightarrow> 'a list option" where
  "heap_build compare order neg i xs =
     (if i \<le> heap_root (length xs) then do {
        ys \<leftarrow> AdjustDown compare order neg (length xs) (heap_root (length xs) - i) xs;
        heap_build compare order neg (i + 1) ys
      }
      else Some xs)"

definition XCreateHeap :: "'a compare \<Rightarrow> XSortOrder \<Rightarrow> 'a list \<Rightarrow> 'a list option" where
  "XCreateHeap compare order xs = heap_build compare order False 0 xs"

partial_function (option) heap_extract ::
  "'a compare \<Rightarrow> XSortOrder \<Rightarrow> nat \<Rightarrow> 'a list \<Rightarrow> 'a list option" where
  "heap_extract compare order i xs =
     (if i < size_sub (length xs) 1 then do {
        ys \<leftarrow> XSwap xs 0 (size_sub (size_sub (length xs) 1) i);
        zs \<leftarrow> AdjustDown compare order True (size_sub (size_sub (length xs) 1) i) 0 ys;
        heap_extract compare order (i + 1) zs
      }
      else Some xs)"

definition XHeapSort :: "'a compare \<Rightarrow> XSortOrder \<Rightarrow> 'a list \<Rightarrow> 'a list option" where
  "XHeapSort compare order xs = do {
     ys \<leftarrow> heap_build compare order True 0 xs;
     heap_extract compare order 0 ys
   }"

section \<open>Quick sort\<close>

definition GetMidIndex :: "'a compare \<Rightarrow> nat \<Rightarrow> nat \<Rightarrow> 'a list \<Rightarrow> nat option" where
  "GetMidIndex compare left right xs = do {
     let half = (right - left) div 2;
     let mid = left + half;
     a \<leftarrow> get_at xs left;
     b \<leftarrow> get_at xs mid;
     let (left1, mid1) = (if 0 < compare a b then (left + half, left) else (left, mid));
     c \<leftarrow> get_at xs mid1;
     d \<leftarrow> get_at xs right;
     let mid2 = (if 0 < compare c d then right else mid1);
     e \<leftarrow> get_at xs left1;
     f \<leftarrow> get_at xs mid2;
     Some (if 0 < compare e f then left1 else mid2)
   }"

partial_function (option) scan_down ::
  "'a compare \<Rightarrow> XSortOrder \<Rightarrow> 'a list \<Rightarrow> nat \<Rightarrow> nat \<Rightarrow> nat \<Rightarrow> nat option" where
  "scan_down compare order xs pivit b e =
     (if b < e then do {
        x \<leftarrow> get_at xs e;
        v \<leftarrow> get_at xs pivit;
        if in_order compare order x v then Some e else scan_down compare order xs pivit b (e - 1)
      }
      else Some e)"

partial_function (option) scan_up ::
  "'a compare \<Rightarrow> XSortOrder \<Rightarrow> 'a list \<Rightarrow> nat \<Rightarrow> nat \<Rightarrow> nat \<Rightarrow> nat option" where
  "scan_up compare order xs pivit b e =
     (if b < e then do {
        x \<leftarrow> get_at xs b;
        v \<leftarrow> get_at xs pivit;
        if in_order compare order x v then scan_up compare order xs pivit (b + 1) e else Some b
      }
      else Some b)"

partial_function (option) pit_loop ::
  "'a compare \<Rightarrow> XSortOrder \<Rightarrow> nat \<Rightarrow> nat \<Rightarrow> nat \<Rightarrow> 'a list \<Rightarrow> (nat \<times> 'a list) option" where
  "pit_loop compare order pivit b e xs =
     (if b < e then do {
        e1 \<leftarrow> scan_down compare order xs pivit b e;
        ys \<leftarrow> (if b < e1 then XSwap xs pivit e1 else Some xs);
        let pivit1 = (if b < e1 then e1 else pivit);
        b1 \<leftarrow> scan_up compare order ys pivit1 b e1;
        zs \<leftarrow> (if b1 < e1 then XSwap ys pivit1 b1 else Some ys);
        let pivit2 = (if b1 < e1 then b1 else pivit1);
        pit_loop compare order pivit2 b1 e1 zs
      }
      else Some (pivit, xs))"

definition QuicPitSort_One ::
  "'a compare \<Rightarrow> XSortOrder \<Rightarrow> nat \<Rightarrow> nat \<Rightarrow> 'a list \<Rightarrow> (nat \<times> 'a list) option" where
  "QuicPitSort_One compare order left right xs = do {
     index \<leftarrow> GetMidIndex compare left right xs;
     ys \<leftarrow> XSwap xs index left;
     pit_loop compare order left left right ys
   }"

text \<open>The explicit stack: intervals, the next one first. The stack itself is taken to grow as needed.\<close>

partial_function (option) quick_stack ::
  "'a compare \<Rightarrow> XSortOrder \<Rightarrow> (nat \<times> nat) list \<Rightarrow> 'a list \<Rightarrow> 'a list option" where
  "quick_stack compare order st xs =
     (case st of
        [] \<Rightarrow> Some xs
      | (left, right) # st1 \<Rightarrow> do {
          (pivit, ys) \<leftarrow> QuicPitSort_One compare order left right xs;
          let st2 = (if pivit + 1 < right then (pivit + 1, right) # st1 else st1);
          let st3 = (if left < pivit - 1 then (left, pivit - 1) # st2 else st2);
          quick_stack compare order st3 ys
        })"

definition XQuicPitSort_Stack :: "'a compare \<Rightarrow> XSortOrder \<Rightarrow> 'a list \<Rightarrow> 'a list option" where
  "XQuicPitSort_Stack compare order xs =
     (if xs = [] then Some xs else quick_stack compare order [(0, length xs - 1)] xs)"

text \<open>A routine called with a pointer into the array and a count works on that part of it.\<close>

definition on_part :: "('a list \<Rightarrow> 'a list option) \<Rightarrow> nat \<Rightarrow> nat \<Rightarrow> 'a list \<Rightarrow> 'a list option" where
  "on_part f base n xs =
     map_option (\<lambda>ys. take base xs @ ys @ drop (base + n) xs) (f (take n (drop base xs)))"

partial_function (option) QuicPitSort_Recur ::
  "'a compare \<Rightarrow> XSortOrder \<Rightarrow> nat \<Rightarrow> nat \<Rightarrow> 'a list \<Rightarrow> 'a list option" where
  "QuicPitSort_Recur compare order left right xs =
     (if right \<le> left then Some xs
      else if right - left + 1 \<le> 13 then on_part (XInsertSort compare order) left (right - left + 1) xs
      else do {
        (pivit, ys) \<leftarrow> QuicPitSort_One compare order left right xs;
        zs \<leftarrow> QuicPitSort_Recur compare order left (pivit - 1) ys;
        QuicPitSort_Recur compare order (pivit + 1) right zs
      })"

definition XQuickSort :: "'a compare \<Rightarrow> XSortOrder \<Rightarrow> 'a list \<Rightarrow> 'a list option" where
  "XQuickSort compare order xs = QuicPitSort_Recur compare order 0 (length xs - 1) xs"

section \<open>Reversal and search\<close>

partial_function (option) reverse_loop :: "nat \<Rightarrow> nat \<Rightarrow> 'a list \<Rightarrow> 'a list option" where
  "reverse_loop left right xs =
     (if left < right then do {
        ys \<leftarrow> XSwap xs left right;
        reverse_loop (left + 1) (right - 1) ys
      }
      else Some xs)"

definition XReversed :: "'a list \<Rightarrow> 'a list option" where
  "XReversed xs = reverse_loop 0 (length xs - 1) xs"

partial_function (option) search_loop ::
  "'a compare \<Rightarrow> 'a \<Rightarrow> 'a list \<Rightarrow> nat \<Rightarrow> nat \<Rightarrow> nat option option" where
  "search_loop compare v xs l r =
     (if l \<le> r then do {
        let sel = size_add l r div 2;
        x \<leftarrow> get_at xs sel;
        if compare x v = XCompare_Equality then Some (Some sel)
        else if compare x v = XCompare_Less then search_loop compare v xs (sel + 1) r
        else search_loop compare v xs l (size_sub sel 1)
      }
      else Some None)"

text \<open>The value returned is the index of the element found; \<open>Some None\<close> is NULL.\<close>

definition XBinarySearch :: "'a compare \<Rightarrow> 'a \<Rightarrow> 'a list \<Rightarrow> nat option option" where
  "XBinarySearch compare v xs =
     (if xs = [] then Some None else search_loop compare v xs 0 (length xs - 1))"

end
