(* ===== verification/SortProps.thy ===== *)
theory SortProps
  imports XSort
begin

text \<open>
  The simple sorts: insertion, Shell, bubble and selection sort, with reversal and binary search. The lemmas
  on one comparison callback are proved in the locale \<open>comparison\<close>.
\<close>

declare insert_shift.simps [code] insert_loop.simps [code]

locale comparison =
  fixes compare :: "'a compare" and order :: XSortOrder
  assumes total: "total_compare compare"

sublocale comparison \<subseteq> sort_order "in_order compare order"
  by (rule in_order_sort_order [OF total])

interpretation int_up: comparison int_compare XSORT_ASC
  by unfold_locales (rule int_compare_total)

interpretation int_down: comparison int_compare XSORT_DESC
  by unfold_locales (rule int_compare_total)

context comparison
begin

abbreviation le :: "'a \<Rightarrow> 'a \<Rightarrow> bool" where
  "le \<equiv> in_order compare order"

text \<open>Any step width: the pass ends and permutes.\<close>

lemma insert_shift_permutes:
  assumes "0 < gap" and "stop + gap < length xs" and "two = (if i \<le> stop then stop + gap - i else two)" and "two \<le> stop + gap"
  shows "\<exists>ys. insert_shift compare order gap stop i two xs = Some ys \<and> permutes_part ys xs 0 (stop + gap + 1)"
  using assms(2-4)
proof (induction "Suc stop - i" arbitrary: i two xs rule: less_induct)
  case less
  show ?case
  proof (cases "stop < i")
    case True
    then show ?thesis by (subst insert_shift.simps) auto
  next
    case False
    show ?thesis
    proof (cases "le (xs ! (stop - i)) (xs ! two)")
      case True
      then show ?thesis using less.prems False by (subst insert_shift.simps) auto
    next
      case out: False
      let ?ys = "swapped xs (stop - i) two"
      have "\<exists>zs. insert_shift compare order gap stop (i + gap) (stop - i) ?ys = Some zs \<and>
          permutes_part zs ?ys 0 (stop + gap + 1)"
        by (rule less.hyps) (use less.prems False assms(1) in auto)
      moreover have "permutes_part ?ys xs 0 (stop + gap + 1)"
        using less.prems False by (intro permutes_part_swap) auto
      moreover have "insert_shift compare order gap stop i two xs =
          insert_shift compare order gap stop (i + gap) (stop - i) ?ys"
        using less.prems False out by (subst insert_shift.simps) simp
      ultimately show ?thesis by (metis permutes_part_trans)
    qed
  qed
qed

lemma insert_loop_permutes:
  assumes "0 < gap" and "gap \<le> length xs"
  shows "\<exists>ys. insert_loop compare order gap stop xs = Some ys \<and> mset ys = mset xs"
  using assms(2)
proof (induction "length xs - stop" arbitrary: stop xs rule: less_induct)
  case less
  show ?case
  proof (cases "stop + gap < length xs")
    case True
    obtain ys where ys: "insert_shift compare order gap stop 0 (stop + gap) xs = Some ys"
      and p: "permutes_part ys xs 0 (stop + gap + 1)"
      using insert_shift_permutes [of gap stop xs "stop + gap" 0] True assms(1) by force
    have m: "mset ys = mset xs" using p by (simp add: permutes_part_def)
    then have len: "length ys = length xs" by (metis size_mset)
    have "length ys - (stop + 1) < length xs - stop" using True len by simp
    then obtain zs where "insert_loop compare order gap (stop + 1) ys = Some zs" "mset zs = mset ys"
      using less.hyps [of ys "stop + 1"] less.prems len by auto
    then show ?thesis using ys m True less.prems by (subst insert_loop.simps) (simp add: less_diff_conv)
  next
    case False
    then show ?thesis using less.prems by (subst insert_loop.simps) (simp add: less_diff_conv)
  qed
qed

text \<open>
  Step width one: while an element moves down, everything but it is in order, and it comes before all it
  has passed.
\<close>

definition all_but :: "'a list \<Rightarrow> nat \<Rightarrow> nat \<Rightarrow> bool" where
  "all_but xs two n \<longleftrightarrow>
     (\<forall>p q. p < q \<longrightarrow> q < n \<longrightarrow> p \<noteq> two \<longrightarrow> q \<noteq> two \<longrightarrow> le (xs ! p) (xs ! q)) \<and>
     (\<forall>q. two < q \<longrightarrow> q < n \<longrightarrow> le (xs ! two) (xs ! q))"

lemma all_but_done:
  assumes "all_but xs two n" and "two < n" and "0 < two \<longrightarrow> le (xs ! (two - 1)) (xs ! two)"
  shows "ordered le xs 0 n"
  unfolding ordered_def
proof (intro allI impI)
  fix p q assume pq: "0 \<le> p" "p < q" "q < n"
  consider "p = two" | "q = two" "p = two - 1" | "q = two" "p < two - 1" | "p \<noteq> two" "q \<noteq> two"
    using pq by linarith
  then show "le (xs ! p) (xs ! q)"
  proof cases
    case 3
    then have "le (xs ! p) (xs ! (two - 1))" using assms(1,2) pq by (auto simp: all_but_def)
    moreover have "le (xs ! (two - 1)) (xs ! two)" using 3 assms(3) by simp
    ultimately show ?thesis using 3 le_trans by blast
  qed (use assms pq in \<open>auto simp: all_but_def\<close>)
qed

lemma all_but_swap:
  assumes "all_but xs (Suc one) n" and "Suc one < n" "n \<le> length xs" and "\<not> le (xs ! one) (xs ! Suc one)"
  shows "all_but (swapped xs one (Suc one)) one n"
  unfolding all_but_def
proof (intro conjI allI impI)
  have len: "one < length xs" "Suc one < length xs" using assms by simp_all
  fix p q
  show "le (swapped xs one (Suc one) ! p) (swapped xs one (Suc one) ! q)"
    if "p < q" "q < n" "p \<noteq> one" "q \<noteq> one"
  proof -
    have "p = Suc one \<or> q = Suc one \<and> p < one \<or> p \<noteq> Suc one \<and> q \<noteq> Suc one" using that by arith
    then show ?thesis
      unfolding nth_swapped [OF len] by (elim disjE) (use assms(1,2) that in \<open>auto simp: all_but_def\<close>)
  qed
  show "le (swapped xs one (Suc one) ! one) (swapped xs one (Suc one) ! q)" if "one < q" "q < n"
    using that assms not_le unfolding nth_swapped [OF len] by (cases "q = Suc one") (auto simp: all_but_def)
qed

lemma insert_shift_ordered:
  assumes "stop + 1 < length xs" and "i \<le> stop + 1" and "all_but xs (stop + 1 - i) (stop + 2)"
  shows "\<exists>ys. insert_shift compare order 1 stop i (stop + 1 - i) xs = Some ys \<and> mset ys = mset xs \<and>
    ordered le ys 0 (stop + 2)"
  using assms
proof (induction "Suc stop - i" arbitrary: i xs)
  case 0
  then have "ordered le xs 0 (stop + 2)" by (intro all_but_done [of xs "stop + 1 - i"]) auto
  then show ?case using 0 by (subst insert_shift.simps) simp
next
  case (Suc n)
  then have i: "\<not> stop < i" and two: "stop + 1 - i - 1 = stop - i" by simp_all
  show ?case
  proof (cases "le (xs ! (stop - i)) (xs ! (stop + 1 - i))")
    case True
    then have "ordered le xs 0 (stop + 2)" using Suc.prems two by (intro all_but_done [of xs "stop + 1 - i"]) auto
    then show ?thesis using True i Suc.prems by (subst insert_shift.simps) simp
  next
    case False
    let ?ys = "swapped xs (stop - i) (stop + 1 - i)"
    have "stop + 1 - i = Suc (stop - i)" using i by simp
    then have "all_but ?ys (stop + 1 - (i + 1)) (stop + 2)"
      using all_but_swap [of xs "stop - i" "stop + 2"] Suc.prems False by simp
    moreover have "n = Suc stop - (i + 1)" "i + 1 \<le> stop + 1" using Suc.hyps(2) i by simp_all
    ultimately obtain zs where "insert_shift compare order 1 stop (i + 1) (stop + 1 - (i + 1)) ?ys = Some zs"
      "mset zs = mset ?ys" "ordered le zs 0 (stop + 2)"
      using Suc.hyps(1) [of "i + 1" ?ys] Suc.prems(1) by auto
    then show ?thesis using False i Suc.prems by (subst insert_shift.simps) simp
  qed
qed

lemma insert_loop_sorts:
  assumes "ordered le xs 0 (stop + 1)" and "1 \<le> length xs"
  shows "\<exists>ys. insert_loop compare order 1 stop xs = Some ys \<and> mset ys = mset xs \<and> sorted_wrt le ys"
  using assms
proof (induction "length xs - stop" arbitrary: stop xs rule: less_induct)
  case less
  show ?case
  proof (cases "stop + 1 < length xs")
    case True
    have "all_but xs (stop + 1 - 0) (stop + 2)"
      using less.prems by (auto simp: all_but_def ordered_def)
    then obtain ys where ys: "insert_shift compare order 1 stop 0 (stop + 1) xs = Some ys" "mset ys = mset xs"
      "ordered le ys 0 (stop + 1 + 1)"
      using insert_shift_ordered [of stop xs 0] True by auto
    have len: "length ys = length xs" using ys(2) by (metis size_mset)
    have fewer: "length ys - (stop + 1) < length xs - stop" using True len by simp
    obtain zs where "insert_loop compare order 1 (stop + 1) ys = Some zs" "mset zs = mset ys" "sorted_wrt le zs"
      using less.hyps [OF fewer ys(3)] True len by auto
    then show ?thesis using ys True less.prems by (subst insert_loop.simps) (simp add: less_diff_conv)
  next
    case False
    then have "sorted_wrt le xs"
      using less.prems by (auto simp: ordered_def sorted_wrt_iff_nth_less)
    then show ?thesis using False less.prems by (subst insert_loop.simps) (simp add: less_diff_conv)
  qed
qed

lemma insert_sorts:
  "xs \<noteq> [] \<Longrightarrow> \<exists>ys. XInsertSort compare order xs = Some ys \<and> mset ys = mset xs \<and> sorted_wrt le ys"
  unfolding XInsertSort_def InsertSort_gap_def
  by (rule insert_loop_sorts) (auto simp: ordered_def Suc_le_eq)

lemma shell_loop_sorts:
  assumes "1 < gap" and "gap \<le> length xs"
  shows "\<exists>ys. shell_loop compare order gap xs = Some ys \<and> mset ys = mset xs \<and> sorted_wrt le ys"
  using assms
proof (induction gap arbitrary: xs rule: less_induct)
  case (less gap)
  let ?g = "gap div 3 + 1"
  have g: "0 < ?g" "?g < gap" using less.prems by auto
  show ?case
  proof (cases "?g = 1")
    case True
    obtain ys where "XInsertSort compare order xs = Some ys" "mset ys = mset xs" "sorted_wrt le ys"
      using insert_sorts [of xs] less.prems by fastforce
    then show ?thesis
      using less.prems True by (subst shell_loop.simps) (simp add: XInsertSort_def shell_loop.simps [of _ _ "Suc 0"])
  next
    case False
    obtain ys where ys: "InsertSort_gap compare order ?g xs = Some ys" "mset ys = mset xs"
      using insert_loop_permutes [of ?g xs 0] g less.prems by (auto simp: InsertSort_gap_def)
    then have "length ys = length xs" by (metis size_mset)
    then obtain zs where "shell_loop compare order ?g ys = Some zs" "mset zs = mset ys" "sorted_wrt le zs"
      using less.IH [of ?g ys] g False less.prems by auto
    then show ?thesis using ys less.prems by (subst shell_loop.simps) simp
  qed
qed

lemma shell_sorts:
  "\<exists>ys. XShellSort compare order xs = Some ys \<and> mset ys = mset xs \<and> sorted_wrt le ys"
proof (cases "1 < length xs")
  case True
  then show ?thesis unfolding XShellSort_def by (intro shell_loop_sorts) simp_all
next
  case False
  then have "sorted_wrt le xs" by (cases xs) simp_all
  then show ?thesis using False by (simp add: XShellSort_def shell_loop.simps)
qed

text \<open>Bubble sort: a pass carries the last element of the order to the end of what it covers.\<close>

lemma bubble_pass_ordered:
  assumes "bound < length xs" and "p \<le> bound" and "\<forall>k<p. le (xs ! k) (xs ! p)"
    and "flag \<longrightarrow> ordered le xs 0 (p + 1)"
  shows "\<exists>flag' ys. bubble_pass compare order bound p flag xs = Some (flag', ys) \<and>
    permutes_part ys xs 0 (bound + 1) \<and> (\<forall>k<bound. le (ys ! k) (ys ! bound)) \<and>
    (flag' \<longrightarrow> ordered le ys 0 (bound + 1))"
  using assms
proof (induction "bound - p" arbitrary: p flag xs)
  case 0
  then show ?case by (subst bubble_pass.simps) auto
next
  case (Suc n)
  then have p: "p < bound" "p + 1 < length xs" and n: "n = bound - (p + 1)" by simp_all
  show ?case
  proof (cases "le (xs ! p) (xs ! (p + 1))")
    case True
    have "\<forall>k<p + 1. le (xs ! k) (xs ! (p + 1))"
      using Suc.prems(3) True le_trans less_Suc_eq by auto
    moreover have "flag \<longrightarrow> ordered le xs 0 (p + 1 + 1)"
      using Suc.prems(4) calculation by (auto simp: ordered_def less_Suc_eq)
    ultimately show ?thesis
      using Suc.hyps(1) [OF n, of xs flag] Suc.prems(1) True p
      by (subst bubble_pass.simps) simp
  next
    case False
    let ?ys = "swapped xs p (p + 1)"
    have "\<forall>k<p + 1. le (?ys ! k) (?ys ! (p + 1))"
      using Suc.prems(3) False not_le p by (auto simp: nth_swapped less_Suc_eq)
    then obtain flag' zs where zs: "bubble_pass compare order bound (p + 1) False ?ys = Some (flag', zs)"
      "permutes_part zs ?ys 0 (bound + 1)" "\<forall>k<bound. le (zs ! k) (zs ! bound)"
      "flag' \<longrightarrow> ordered le zs 0 (bound + 1)"
      using Suc.hyps(1) [OF n, of ?ys False] Suc.prems(1) p by auto
    moreover have "permutes_part ?ys xs 0 (bound + 1)" using p Suc.prems(1) by (intro permutes_part_swap) auto
    ultimately have "permutes_part zs xs 0 (bound + 1)" by (metis permutes_part_trans)
    then show ?thesis using zs False p by (subst bubble_pass.simps) simp
  qed
qed

text \<open>The last \<open>i\<close> elements are in place.\<close>

definition settled :: "'a list \<Rightarrow> nat \<Rightarrow> bool" where
  "settled xs m \<longleftrightarrow> (\<forall>p q. p < q \<longrightarrow> m \<le> q \<longrightarrow> q < length xs \<longrightarrow> le (xs ! p) (xs ! q))"

lemma settled_part:
  assumes "settled xs m" and "permutes_part ys xs 0 m" and "m \<le> length xs"
  shows "settled ys m"
  unfolding settled_def
proof (intro allI impI)
  have len: "length ys = length xs" using assms(2) by (rule permutes_part_length)
  fix p q assume pq: "p < q" "m \<le> q" "q < length ys"
  have q: "ys ! q = xs ! q" using assms(2) pq by (simp add: permutes_part_def)
  show "le (ys ! p) (ys ! q)"
  proof (cases "p < m")
    case True
    then obtain k where "k < m" "ys ! p = xs ! k"
      using permutes_part_values [OF assms(2), of p] assms(3) by auto
    then show ?thesis using assms(1) pq q len by (auto simp: settled_def)
  next
    case False
    then have "ys ! p = xs ! p" using assms(2) by (simp add: permutes_part_def)
    then show ?thesis using assms(1) pq q len by (simp add: settled_def)
  qed
qed

lemma bubble_loop_sorts:
  assumes "1 \<le> length xs" and "i < length xs" and "settled xs (length xs - i)"
  shows "\<exists>ys. bubble_loop compare order i xs = Some ys \<and> mset ys = mset xs \<and> sorted_wrt le ys"
  using assms
proof (induction "length xs - i" arbitrary: i xs rule: less_induct)
  case less
  let ?b = "length xs - 1 - i"
  show ?case
  proof (cases "i < length xs - 1")
    case True
    have b: "?b < length xs" using True by simp
    obtain flag ys where ys: "bubble_pass compare order ?b 0 True xs = Some (flag, ys)"
      "permutes_part ys xs 0 (?b + 1)" "\<forall>k<?b. le (ys ! k) (ys ! ?b)" "flag \<longrightarrow> ordered le ys 0 (?b + 1)"
      using bubble_pass_ordered [OF b, of 0 True] by (auto simp: ordered_def)
    have len: "length ys = length xs" using ys(2) by (rule permutes_part_length)
    have m: "mset ys = mset xs" using ys(2) by (simp add: permutes_part_def)
    have "settled xs (?b + 1)" using less.prems(3) True by (simp add: Suc_diff_Suc)
    then have above: "settled ys (?b + 1)" by (rule settled_part [OF _ ys(2)]) (use b in simp)
    have settled: "settled ys ?b"
      unfolding settled_def
    proof (intro allI impI)
      fix p q assume "p < q" "?b \<le> q" "q < length ys"
      then show "le (ys ! p) (ys ! q)"
        using ys(3) above by (cases "q = ?b") (auto simp: settled_def)
    qed
    show ?thesis
    proof (cases flag)
      case True
      then have "sorted_wrt le ys"
        using ys(4) above unfolding ordered_def settled_def sorted_wrt_iff_nth_less
        by (metis le_less_linear zero_le)
      then show ?thesis using ys(1) m True \<open>i < length xs - 1\<close> less.prems by (subst bubble_loop.simps) simp
    next
      case False
      have "length ys - (i + 1) < length xs - i" using len True by simp
      moreover have "settled ys (length ys - (i + 1))" using settled len by simp
      moreover have "1 \<le> length ys" "i + 1 < length ys" using len True by simp_all
      ultimately obtain zs where "bubble_loop compare order (i + 1) ys = Some zs" "mset zs = mset ys" "sorted_wrt le zs"
        using less.hyps [of ys "i + 1"] by auto
      then show ?thesis using ys(1) m False \<open>i < length xs - 1\<close> less.prems by (subst bubble_loop.simps) simp
    qed
  next
    case False
    then have i: "length xs - i = 1" using less.prems by simp
    then have "sorted_wrt le xs"
      using less.prems(3) by (auto simp: settled_def sorted_wrt_iff_nth_less)
    then show ?thesis using False less.prems by (subst bubble_loop.simps) simp
  qed
qed

lemma bubble_sorts:
  assumes "xs \<noteq> []"
  shows "\<exists>ys. XBubbleSort compare order xs = Some ys \<and> mset ys = mset xs \<and> sorted_wrt le ys"
  unfolding XBubbleSort_def
  by (rule bubble_loop_sorts) (use assms in \<open>auto simp: settled_def Suc_le_eq\<close>)

text \<open>Selection sort: what a scan from both ends has chosen, after all but the indices \<open>l\<close> to \<open>r\<close>.\<close>

definition extremes :: "'a list \<Rightarrow> nat \<Rightarrow> nat \<Rightarrow> nat \<Rightarrow> nat \<Rightarrow> nat \<times> nat \<Rightarrow> bool" where
  "extremes xs first final l r v \<longleftrightarrow> first \<le> fst v \<and> fst v < final \<and> first < snd v \<and> snd v \<le> final \<and>
     (\<forall>k. first \<le> k \<longrightarrow> k \<le> final \<longrightarrow> k < l \<or> r < k \<longrightarrow> le (xs ! fst v) (xs ! k) \<and> le (xs ! k) (xs ! snd v)) \<and>
     (fst v < l \<or> r < fst v) \<and> (snd v < l \<or> r < snd v)"

lemma chosen_Some:
  assumes "vl < length xs" and "vr < length xs" and "p < length xs"
  shows "chosen compare order xs p (vl, vr) =
    Some (if le (xs ! vl) (xs ! p) then vl else p, if le (xs ! vr) (xs ! p) then p else vr)"
  using assms by (simp add: chosen_def)

lemma chosen_extremes:
  assumes ex: "extremes xs first final l r v" and "final < length xs"
    and p: "first < p" "p < final" "l' \<le> r' + 1"
    and new: "\<And>k. k < l' \<or> r' < k \<longleftrightarrow> k < l \<or> r < k \<or> k = p"
  shows "\<exists>v'. chosen compare order xs p v = Some v' \<and> extremes xs first final l' r' v'"
proof -
  obtain vl vr where v: "v = (vl, vr)" by (cases v)
  let ?v = "(if le (xs ! vl) (xs ! p) then vl else p, if le (xs ! vr) (xs ! p) then p else vr)"
  have "chosen compare order xs p v = Some ?v"
    unfolding v by (rule chosen_Some) (use assms v in \<open>auto simp: extremes_def\<close>)
  moreover have "le (xs ! fst ?v) (xs ! k) \<and> le (xs ! k) (xs ! snd ?v)"
    if k: "first \<le> k" "k \<le> final" "k < l' \<or> r' < k" for k
  proof (cases "k = p")
    case True
    then show ?thesis using not_le by auto
  next
    case False
    then have "le (xs ! vl) (xs ! k)" "le (xs ! k) (xs ! vr)"
      using ex k new by (auto simp: extremes_def v)
    then show ?thesis
      using not_le [of "xs ! vl" "xs ! p"] le_trans [of "xs ! p" "xs ! vl" "xs ! k"]
        le_trans [of "xs ! k" "xs ! vr" "xs ! p"]
      by auto
  qed
  then have "extremes xs first final l' r' ?v"
    using ex p(1,2) new unfolding extremes_def v by (auto split: if_splits)
  ultimately show ?thesis by blast
qed

lemma select_scan_extremes:
  assumes "extremes xs first final l r v" and "final < length xs" and "first < l" "r < final" "l \<le> r + 1"
  shows "\<exists>v' l' r'. select_scan compare order xs l r v = Some v' \<and> extremes xs first final l' r' v' \<and>
    l' + r' = l + r \<and> r' \<le> l' \<and> l' \<le> r' + 1"
  using assms(1,3-5)
proof (induction "r - l" arbitrary: l r v rule: less_induct)
  case less
  show ?case
  proof (cases "l < r")
    case True
    have left: "k < l + 1 \<or> r < k \<longleftrightarrow> k < l \<or> r < k \<or> k = l"
      and right: "k < l + 1 \<or> r - 1 < k \<longleftrightarrow> k < l + 1 \<or> r < k \<or> k = r" for k
      using True by arith+
    obtain v1 where v1: "chosen compare order xs l v = Some v1" "extremes xs first final (l + 1) r v1"
      using chosen_extremes [OF less.prems(1) assms(2) _ _ _ left] less.prems True by auto
    obtain v2 where v2: "chosen compare order xs r v1 = Some v2" "extremes xs first final (l + 1) (r - 1) v2"
      using chosen_extremes [OF v1(2) assms(2) _ _ _ right] less.prems True by auto
    have "r - 1 - (l + 1) < r - l" "first < l + 1" "r - 1 < final" "l + 1 \<le> r - 1 + 1" "l + 1 + (r - 1) = l + r"
      using less.prems True by simp_all
    then obtain v' l' r' where "select_scan compare order xs (l + 1) (r - 1) v2 = Some v'"
      "extremes xs first final l' r' v'" "l' + r' = l + r" "r' \<le> l'" "l' \<le> r' + 1"
      using less.hyps [of "r - 1" "l + 1" v2] v2(2) by auto
    then show ?thesis using v1(1) v2(1) True by (subst select_scan.simps) auto
  next
    case False
    then show ?thesis
      using less.prems by (subst select_scan.simps) (fastforce intro: exI [of _ v])
  qed
qed

text \<open>The elements outside the window from \<open>l\<close> to \<open>r\<close> are in place.\<close>

definition framed :: "'a list \<Rightarrow> nat \<Rightarrow> nat \<Rightarrow> bool" where
  "framed xs l r \<longleftrightarrow> (\<forall>p q. p < q \<longrightarrow> q < length xs \<longrightarrow> p < l \<or> r < q \<longrightarrow> le (xs ! p) (xs ! q))"

lemma framed_part:
  assumes "framed xs l r" and "permutes_part ys xs l (r + 1)" and "r < length xs"
  shows "framed ys l r"
  unfolding framed_def
proof (intro allI impI)
  have len: "length ys = length xs" using assms(2) by (rule permutes_part_length)
  have val: "\<exists>k'. (l \<le> k \<and> k \<le> r \<longrightarrow> l \<le> k' \<and> k' \<le> r) \<and> (\<not> (l \<le> k \<and> k \<le> r) \<longrightarrow> k' = k) \<and> ys ! k = xs ! k'" for k
    using permutes_part_values [OF assms(2), of k] assms(2,3)
    by (cases "l \<le> k \<and> k \<le> r") (auto simp: permutes_part_def less_Suc_eq_le)
  fix p q assume pq: "p < q" "q < length ys" "p < l \<or> r < q"
  obtain p' where p': "l \<le> p \<and> p \<le> r \<longrightarrow> l \<le> p' \<and> p' \<le> r" "\<not> (l \<le> p \<and> p \<le> r) \<longrightarrow> p' = p" "ys ! p = xs ! p'"
    using val by blast
  obtain q' where q': "l \<le> q \<and> q \<le> r \<longrightarrow> l \<le> q' \<and> q' \<le> r" "\<not> (l \<le> q \<and> q \<le> r) \<longrightarrow> q' = q" "ys ! q = xs ! q'"
    using val by blast
  have "p' < q' \<and> q' < length xs \<and> (p' < l \<or> r < q')"
    using p'(1,2) q'(1,2) pq len assms(3) by (cases "l \<le> p \<and> p \<le> r"; cases "l \<le> q \<and> q \<le> r") auto
  then show "le (ys ! p) (ys ! q)" using assms(1) p'(3) q'(3) unfolding framed_def by auto
qed

lemma framed_smaller:
  assumes "framed xs l r" and "\<And>k. l \<le> k \<Longrightarrow> k \<le> r \<Longrightarrow> le (xs ! l) (xs ! k) \<and> le (xs ! k) (xs ! r)"
  shows "framed xs (l + 1) (r - 1)"
  unfolding framed_def
proof (intro allI impI)
  fix p q assume pq: "p < q" "q < length xs" "p < l + 1 \<or> r - 1 < q"
  show "le (xs ! p) (xs ! q)"
  proof (cases "p < l \<or> r < q")
    case True
    then show ?thesis using assms(1) pq unfolding framed_def by blast
  next
    case False
    then have "p = l \<and> q \<le> r \<or> q = r \<and> l \<le> p" using pq by arith
    then show ?thesis using assms(2) [of q] assms(2) [of p] pq by auto
  qed
qed

text \<open>The two exchanges bring the extremes to the ends of the window.\<close>

lemma select_swaps:
  assumes ex: "extremes ys l r l' r' (vl, vr)" and lr: "l < r" "r < length ys" "r' \<le> l'" "l' \<le> r' + 1" "l' + r' = l + r"
  defines "us \<equiv> swapped (swapped ys vl l) vr r"
  shows "permutes_part us ys l (r + 1)" and "even (l + r) \<Longrightarrow> us ! ((l + r) div 2) = ys ! ((l + r) div 2)"
    and "odd (l + r) \<Longrightarrow> l \<le> k \<Longrightarrow> k \<le> r \<Longrightarrow> le (us ! l) (us ! k) \<and> le (us ! k) (us ! r)"
proof -
  have v: "l \<le> vl" "vl < r" "l < vr" "vr \<le> r" "vl < l' \<or> r' < vl" "vr < l' \<or> r' < vr"
    using ex by (auto simp: extremes_def)
  have p1: "permutes_part (swapped ys vl l) ys l (r + 1)" using v lr by (intro permutes_part_swap) auto
  have p2: "permutes_part us (swapped ys vl l) l (r + 1)"
    unfolding us_def using v lr by (intro permutes_part_swap) auto
  show p: "permutes_part us ys l (r + 1)" by (rule permutes_part_trans [OF p2 p1])
  have nth: "us ! k = (if k = r then swapped ys vl l ! vr else if k = vr then swapped ys vl l ! r else swapped ys vl l ! k)"
    "swapped ys vl l ! k = (if k = l then ys ! vl else if k = vl then ys ! l else ys ! k)" for k
    unfolding us_def using v lr by (simp_all add: nth_swapped)
  show "us ! ((l + r) div 2) = ys ! ((l + r) div 2)" if "even (l + r)"
  proof -
    have "l' = r'" using lr(3-5) that by presburger
    then have "l' = (l + r) div 2" using lr(5) by simp
    then show ?thesis using v lr \<open>l' = r'\<close> unfolding nth by auto
  qed
  show "le (us ! l) (us ! k) \<and> le (us ! k) (us ! r)" if odd_k: "odd (l + r)" "l \<le> k" "k \<le> r"
  proof -
    have "l' = r' + 1" using lr(3-5) that(1) by presburger
    then have all: "le (ys ! vl) (ys ! k') \<and> le (ys ! k') (ys ! vr)" if "l \<le> k'" "k' \<le> r" for k'
      using ex that unfolding extremes_def by (auto simp: not_less)
    obtain k' where k': "l \<le> k'" "k' \<le> r" "us ! k = ys ! k'"
      using permutes_part_values [OF p, of k] odd_k lr(2) by (auto simp: less_Suc_eq_le)
    have "us ! l = ys ! vl" unfolding nth using v lr by auto
    moreover have "us ! r = ys ! vr \<or> vr = vl \<and> us ! r = ys ! l" unfolding nth using v by auto
    moreover have "le (ys ! k') (ys ! l)" if "vr = vl"
      using all [of k'] all [of l] that k' lr le_trans by auto
    ultimately show ?thesis using all [of k'] k' by auto
  qed
qed

lemma select_step:
  assumes lr: "l < r" "r < length xs"
  shows "\<exists>us. select_loop compare order l r xs = select_loop compare order (l + 1) (r - 1) us \<and>
    permutes_part us xs l (r + 1) \<and>
    (even (l + r) \<longrightarrow> us ! ((l + r) div 2) = xs ! ((l + r) div 2)) \<and>
    (odd (l + r) \<longrightarrow> framed xs l r \<longrightarrow> framed us (l + 1) (r - 1))"
proof -
  let ?ys = "if le (xs ! l) (xs ! r) then xs else swapped xs l r"
  have ys: "permutes_part ?ys xs l (r + 1)" using lr by (auto intro!: permutes_part_swap)
  have len: "length ?ys = length xs" by simp
  have lower: "le (?ys ! l) (?ys ! r)" using not_le lr by (auto simp: nth_swapped)
  have mid: "?ys ! ((l + r) div 2) = xs ! ((l + r) div 2)" if "even (l + r)"
  proof -
    have "l < (l + r) div 2" "(l + r) div 2 < r" using lr(1) that by presburger+
    then show ?thesis by simp
  qed
  have "k = l \<or> k = r" if "l \<le> k" "k \<le> r" "k < l + 1 \<or> r - 1 < k" for k using that by arith
  then have "le (?ys ! l) (?ys ! k) \<and> le (?ys ! k) (?ys ! r)" if "l \<le> k" "k \<le> r" "k < l + 1 \<or> r - 1 < k" for k
    using lower that le_refl by metis
  then have "extremes ?ys l r (l + 1) (r - 1) (l, r)"
    using lr unfolding extremes_def fst_conv snd_conv by (intro conjI allI impI) (simp_all del: if_image_distrib)
  then obtain v l' r' where scan: "select_scan compare order ?ys (l + 1) (r - 1) (l, r) = Some v"
    and v: "extremes ?ys l r l' r' v" "l' + r' = l + r" "r' \<le> l'" "l' \<le> r' + 1"
    using select_scan_extremes [of ?ys l r "l + 1" "r - 1" "(l, r)"] lr len by auto
  obtain vl vr where vv: "v = (vl, vr)" by (cases v)
  let ?us = "swapped (swapped ?ys vl l) vr r"
  note sw = select_swaps [OF v(1) [unfolded vv] lr(1) _ v(3,4,2)]
  have us: "permutes_part ?us xs l (r + 1)" using permutes_part_trans [OF sw(1) ys] lr len by simp
  have "vl < length xs" "vr < length xs" using v(1) lr by (auto simp: vv extremes_def)
  then have "select_loop compare order l r xs = select_loop compare order (l + 1) (r - 1) ?us"
    using lr scan by (subst select_loop.simps) (cases "le (xs ! l) (xs ! r)"; simp add: vv)
  moreover have "even (l + r) \<longrightarrow> ?us ! ((l + r) div 2) = xs ! ((l + r) div 2)"
    using sw(2) mid lr len by simp
  moreover have "odd (l + r) \<longrightarrow> framed xs l r \<longrightarrow> framed ?us (l + 1) (r - 1)"
    using framed_smaller [OF framed_part [OF _ us lr(2)]] sw(3) lr len by simp
  ultimately show ?thesis using us by blast
qed

lemma select_loop_even:
  assumes "l + r + 1 = length xs" and "odd (l + r)" and "framed xs l r" and "l \<le> r + 1"
  shows "\<exists>ys. select_loop compare order l r xs = Some ys \<and> mset ys = mset xs \<and> sorted_wrt le ys"
  using assms
proof (induction "r - l" arbitrary: l r xs rule: less_induct)
  case less
  show ?case
  proof (cases "l < r")
    case True
    then obtain us where us: "select_loop compare order l r xs = select_loop compare order (l + 1) (r - 1) us"
      "permutes_part us xs l (r + 1)" "framed us (l + 1) (r - 1)"
      using select_step [of l r xs] less.prems by auto
    have "length us = length xs" "mset us = mset xs"
      using us(2) permutes_part_length by (auto simp: permutes_part_def)
    moreover have "r - 1 - (l + 1) < r - l" "l + 1 + (r - 1) = l + r" "l + 1 \<le> r - 1 + 1" using True by simp_all
    ultimately show ?thesis using less.hyps [of "r - 1" "l + 1" us] us(1,3) less.prems(1,2) by simp
  next
    case False
    then have "l = r + 1" using less.prems(2,4) by presburger
    then have "i < l \<or> r < j" if "i < j" for i j using that by arith
    then have "sorted_wrt le xs"
      using less.prems(3) unfolding framed_def sorted_wrt_iff_nth_less by blast
    then show ?thesis using False by (subst select_loop.simps) simp
  qed
qed

lemma select_loop_odd:
  assumes "l + r + 1 = length xs" and "even (l + r)" and "l \<le> r"
  shows "\<exists>ys. select_loop compare order l r xs = Some ys \<and> mset ys = mset xs \<and>
    ys ! ((l + r) div 2) = xs ! ((l + r) div 2)"
  using assms
proof (induction "r - l" arbitrary: l r xs rule: less_induct)
  case less
  show ?case
  proof (cases "l < r")
    case True
    then obtain us where us: "select_loop compare order l r xs = select_loop compare order (l + 1) (r - 1) us"
      "permutes_part us xs l (r + 1)" "us ! ((l + r) div 2) = xs ! ((l + r) div 2)"
      using select_step [of l r xs] less.prems by auto
    have "length us = length xs" "mset us = mset xs"
      using us(2) permutes_part_length by (auto simp: permutes_part_def)
    moreover have "l + 1 \<le> r - 1" using True less.prems(2) by presburger
    moreover have "r - 1 - (l + 1) < r - l" "l + 1 + (r - 1) = l + r" using True by simp_all
    ultimately show ?thesis using less.hyps [of "r - 1" "l + 1" us] us(1,3) less.prems(1,2) by simp
  next
    case False
    then show ?thesis using less.prems by (subst select_loop.simps) simp
  qed
qed

end

text \<open>Reversal.\<close>

lemma reverse_loop_nth:
  assumes "l + r + 1 = length xs"
  shows "\<exists>ys. reverse_loop l r xs = Some ys \<and> length ys = length xs \<and>
    (\<forall>k. ys ! k = (if l \<le> k \<and> k \<le> r then xs ! (l + r - k) else xs ! k))"
  using assms
proof (induction "r - l" arbitrary: l r xs rule: less_induct)
  case less
  show ?case
  proof (cases "l < r")
    case True
    let ?ys = "swapped xs l r"
    have "r - 1 - (l + 1) < r - l" "l + 1 + (r - 1) + 1 = length ?ys" using True less.prems by simp_all
    then obtain zs where zs: "reverse_loop (l + 1) (r - 1) ?ys = Some zs" "length zs = length xs"
      "\<forall>k. zs ! k = (if l + 1 \<le> k \<and> k \<le> r - 1 then ?ys ! (l + 1 + (r - 1) - k) else ?ys ! k)"
      using less.hyps [of "r - 1" "l + 1" ?ys] by auto
    have len: "l < length xs" "r < length xs" using less.prems by simp_all
    have "zs ! k = (if l \<le> k \<and> k \<le> r then xs ! (l + r - k) else xs ! k)" for k
    proof -
      have "l + 1 + (r - 1) - k = l + r - k" using True by simp
      moreover have "l + r - k \<noteq> l" "l + r - k \<noteq> r" if "l + 1 \<le> k" "k \<le> r - 1" using that by arith+
      ultimately show ?thesis using zs(3) True unfolding nth_swapped [OF len] by auto
    qed
    then show ?thesis using zs(1,2) True len by (subst reverse_loop.simps) simp
  next
    case False
    then have "l + r - k = k" if "l \<le> k" "k \<le> r" for k using that by simp
    then show ?thesis using False by (subst reverse_loop.simps) simp
  qed
qed

lemma reverses: "XReversed xs = Some (rev xs)"
proof (cases xs)
  case (Cons x xs')
  then obtain ys where ys: "XReversed xs = Some ys" "length ys = length xs"
    "\<forall>k. ys ! k = (if k \<le> length xs - 1 then xs ! (length xs - 1 - k) else xs ! k)"
    using reverse_loop_nth [of 0 "length xs - 1" xs] by (auto simp: XReversed_def)
  then have "ys = rev xs" by (intro nth_equalityI) (auto simp: rev_nth)
  then show ?thesis using ys(1) by simp
qed (simp add: XReversed_def reverse_loop.simps)

text \<open>Binary search: outside the part still searched there is no match.\<close>

lemma compare_before:
  assumes "total_compare compare" and "compare x y \<le> 0"
  shows "compare y v = - 1 \<Longrightarrow> compare x v = - 1" and "compare x v = 1 \<Longrightarrow> compare y v = 1"
proof -
  note D = total_compareD [OF assms(1)]
  show "compare x v = - 1" if "compare y v = - 1"
  proof -
    have "\<not> compare v y \<le> 0" using that D(2) [of v y] by simp
    then have "\<not> compare v x \<le> 0" using D(3) [of v x y] assms(2) by blast
    then show ?thesis using D(1) [of x v] D(2) [of x v] by auto
  qed
  show "compare y v = 1" if "compare x v = 1"
  proof -
    have "\<not> compare y v \<le> 0" using that D(3) [of x y v] assms(2) by auto
    then show ?thesis using D(1) [of y v] by auto
  qed
qed

lemma search_loop_spec:
  assumes tc: "total_compare compare" and s: "sorted_wrt (in_order compare XSORT_ASC) xs"
    and n: "length xs < 2 ^ 63" and first: "compare (xs ! 0) v \<noteq> 1"
    and "r < length xs" "l \<le> r + 1"
    and "\<And>k. k < l \<Longrightarrow> compare (xs ! k) v = - 1" "\<And>k. r < k \<Longrightarrow> k < length xs \<Longrightarrow> compare (xs ! k) v = 1"
  shows "\<exists>res. search_loop compare v xs l r = Some res \<and>
    (case res of Some i \<Rightarrow> i < length xs \<and> compare (xs ! i) v = 0
     | None \<Rightarrow> \<forall>i<length xs. compare (xs ! i) v \<noteq> 0)"
  using assms(5-)
proof (induction "r + 1 - l" arbitrary: l r rule: less_induct)
  case less
  note D = total_compareD [OF tc]
  have mono: "compare (xs ! i) (xs ! j) \<le> 0" if "i < j" "j < length xs" for i j
    using s that in_order_asc [OF tc] by (simp add: sorted_wrt_iff_nth_less)
  show ?case
  proof (cases "l \<le> r")
    case False
    have "compare (xs ! k) v \<noteq> 0" if "k < length xs" for k
      using less.prems(3) [of k] less.prems(4) [of k] that False by (cases "k < l") auto
    then show ?thesis using False by (subst search_loop.simps) simp
  next
    case True
    let ?s = "(l + r) div 2"
    have s: "l \<le> ?s" "?s \<le> r" "?s < length xs" using True less.prems(1) by auto
    have sel: "size_add l r div 2 = ?s" using True less.prems(1) n by (simp add: size_max_def)
    consider "compare (xs ! ?s) v = 0" | "compare (xs ! ?s) v = - 1" | "compare (xs ! ?s) v = 1"
      using D(1) by blast
    then show ?thesis
    proof cases
      case 1
      then show ?thesis using True s sel by (subst search_loop.simps) (simp add: XCompare_defs)
    next
      case 2
      have "compare (xs ! k) v = - 1" if "k < ?s + 1" for k
        using 2 compare_before(1) [OF tc mono [of k ?s]] that s by (cases "k = ?s") auto
      moreover have "r + 1 - (?s + 1) < r + 1 - l" "?s + 1 \<le> r + 1" using s by simp_all
      ultimately show ?thesis
        using less.hyps [of r "?s + 1"] less.prems(1,4) True s sel 2
        by (subst search_loop.simps) (simp add: XCompare_defs)
    next
      case 3
      have pos: "?s \<noteq> 0"
      proof
        assume "?s = 0"
        then show False using 3 first by simp
      qed
      have "compare (xs ! k) v = 1" if "?s - 1 < k" "k < length xs" for k
        using 3 compare_before(2) [OF tc mono [of ?s k]] that pos by (cases "k = ?s") auto
      moreover have "?s - 1 + 1 - l < r + 1 - l" "l \<le> ?s - 1 + 1" "?s - 1 < length xs" "size_sub ?s 1 = ?s - 1"
        using s pos True by simp_all
      ultimately show ?thesis
        using less.hyps [of "?s - 1" l] less.prems(3) True s sel 3
        by (subst search_loop.simps) (simp add: XCompare_defs)
    qed
  qed
qed

text \<open>When even the first element is greater, the right end wraps round.\<close>

lemma search_loop_wraps:
  assumes tc: "total_compare compare" and s: "sorted_wrt (in_order compare XSORT_ASC) xs"
    and n: "length xs < 2 ^ 63" and first: "compare (xs ! 0) v = 1" and "r < length xs"
  shows "search_loop compare v xs 0 r = None"
  using assms(5)
proof (induction r rule: less_induct)
  case (less r)
  let ?s = "r div 2"
  have g: "compare (xs ! ?s) v = 1"
  proof (cases "?s = 0")
    case False
    then have "compare (xs ! 0) (xs ! ?s) \<le> 0"
      using s less.prems in_order_asc [OF tc] by (simp add: sorted_wrt_iff_nth_less)
    then show ?thesis using compare_before(2) [OF tc] first by blast
  qed (use first in simp)
  have sel: "size_add 0 r div 2 = ?s" using less.prems n by (simp add: size_max_def)
  have next_step: "search_loop compare v xs 0 r = search_loop compare v xs 0 (size_sub ?s 1)"
    using g sel less.prems by (subst search_loop.simps) (simp add: XCompare_defs)
  show ?case
  proof (cases "?s = 0")
    case True
    have "search_loop compare v xs 0 (size_sub 0 1) = None"
      using n by (subst search_loop.simps) (simp add: size_sub_def size_add_def get_at_def)
    then show ?thesis using next_step True by simp
  next
    case False
    then show ?thesis using next_step less.IH [of "?s - 1"] less.prems by simp
  qed
qed

section \<open>Properties\<close>

text \<open>
  Insertion, Shell and bubble sort return a permutation of the array in the order asked for, for any
  comparison that keeps its contract. Shell sort also takes the empty array; for it the bound of the outer
  loop of the other two wraps.
\<close>

theorem simple_sorts_sort:
  assumes "total_compare compare" and "xs \<noteq> []"
    and "f \<in> {XInsertSort, XShellSort, XBubbleSort}"
  shows "\<exists>ys. f compare order xs = Some ys \<and> mset ys = mset xs \<and> sorted_wrt (in_order compare order) ys"
  using assms comparison.insert_sorts [OF comparison.intro [OF assms(1)]]
    comparison.shell_sorts [OF comparison.intro [OF assms(1)]]
    comparison.bubble_sorts [OF comparison.intro [OF assms(1)]]
  by blast

lemma simple_sorts_sort_witness:
  "\<exists>ys. XShellSort int_compare XSORT_DESC [3, 1, 2, 3] = Some ys \<and> mset ys = mset [3, 1, 2, 3] \<and>
    sorted_wrt (in_order int_compare XSORT_DESC) ys"
  by (rule simple_sorts_sort [OF int_compare_total]) simp_all

text \<open>
  Selection sort from both ends sorts an array of even length. When the length is odd and at least one it
  returns a permutation, but the element in the middle stays where it was, whatever the other elements are:
  the step that would leave three elements exchanges only the outer two.
\<close>

theorem select_sort_by_parity:
  assumes "total_compare compare" and "xs \<noteq> []"
  shows "\<exists>ys. XSelectSort compare order xs = Some ys \<and> mset ys = mset xs \<and>
    (if even (length xs) then sorted_wrt (in_order compare order) ys
     else ys ! (length xs div 2) = xs ! (length xs div 2))"
proof (cases "even (length xs)")
  case True
  then have "odd (0 + (length xs - 1))" using assms(2) by (simp add: Suc_le_eq)
  moreover have "comparison.framed compare order xs 0 (length xs - 1)"
    by (auto simp: comparison.framed_def [OF comparison.intro [OF assms(1)]])
  ultimately show ?thesis
    using comparison.select_loop_even [OF comparison.intro [OF assms(1)], of 0 "length xs - 1" xs order] assms(2) True
    by (simp add: XSelectSort_def Suc_le_eq)
next
  case False
  then have "(length xs - 1) div 2 = length xs div 2" "even (0 + (length xs - 1))"
    by (auto elim!: oddE)
  then show ?thesis
    using comparison.select_loop_odd [OF comparison.intro [OF assms(1)], of 0 "length xs - 1" xs order] assms(2) False
    by (auto simp: XSelectSort_def)
qed

lemma select_sort_by_parity_witness:
  "\<exists>ys. XSelectSort int_compare XSORT_ASC [2, 3, 1] = Some ys \<and> mset ys = mset [2, 3, 1] \<and>
    (if even (length [2, 3, 1 :: int]) then sorted_wrt (in_order int_compare XSORT_ASC) ys
     else ys ! (length [2, 3, 1 :: int] div 2) = [2, 3, 1] ! (length [2, 3, 1 :: int] div 2))"
  by (rule select_sort_by_parity [OF int_compare_total]) simp

text \<open>
  C30: Binary search in an array sorted upwards: when the first element is not greater than the value, it returns
  an element equal to the value, or NULL when there is none. When every element is greater than the value it
  reads outside the array, because the upper bound, a size, goes from 0 to the largest size.
\<close>

theorem binary_search:
  assumes "total_compare compare" and "sorted_wrt (in_order compare XSORT_ASC) xs"
    and "length xs < 2 ^ 63" and "xs \<noteq> []"
  shows "if compare (xs ! 0) v = XCompare_Greater then XBinarySearch compare v xs = None
    else \<exists>res. XBinarySearch compare v xs = Some res \<and>
      (case res of Some i \<Rightarrow> i < length xs \<and> compare (xs ! i) v = XCompare_Equality
       | None \<Rightarrow> \<forall>x\<in>set xs. compare x v \<noteq> XCompare_Equality)"
proof -
  have "XBinarySearch compare v xs = search_loop compare v xs 0 (length xs - 1)"
    using assms(4) by (simp add: XBinarySearch_def)
  moreover have "length xs - 1 < length xs" using assms(4) by simp
  ultimately show ?thesis
    using search_loop_spec [OF assms(1-3), of v "length xs - 1" 0]
      search_loop_wraps [OF assms(1-3), of v "length xs - 1"]
    by (fastforce simp: XCompare_defs in_set_conv_nth split: option.splits)
qed

lemma binary_search_witness:
  "if int_compare ([1, 4, 4, 9] ! 0) 4 = XCompare_Greater then XBinarySearch int_compare 4 [1, 4, 4, 9] = None
    else \<exists>res. XBinarySearch int_compare 4 [1, 4, 4, 9] = Some res \<and>
      (case res of Some i \<Rightarrow> i < length [1, 4, 4, 9 :: int] \<and> int_compare ([1, 4, 4, 9] ! i) 4 = XCompare_Equality
       | None \<Rightarrow> \<forall>x\<in>set [1, 4, 4, 9]. int_compare x 4 \<noteq> XCompare_Equality)"
  by (rule binary_search [OF int_compare_total]) (simp_all add: in_order_def int_compare_def XCompare_defs)

end
