(* ===== verification/QuickProps.thy ===== *)
theory QuickProps
  imports SortProps
begin

text \<open>
  Quick sort: the partition by a moving pit ends and splits the interval at the pit, and both drivers, the
  one with an explicit stack and the recursive one that hands short intervals to insertion sort, sort.
\<close>

context comparison
begin

lemma GetMidIndex_within:
  assumes "left \<le> right" and "right < length xs"
  shows "\<exists>i. GetMidIndex compare left right xs = Some i \<and> left \<le> i \<and> i \<le> right"
proof -
  have "left + (right - left) div 2 \<le> right" using assms(1) by simp
  then show ?thesis using assms by (simp add: GetMidIndex_def Let_def)
qed

lemma scan_down_spec:
  assumes "b \<le> e" and "e < length xs" and "piv < length xs"
  shows "\<exists>e1. scan_down compare order xs piv b e = Some e1 \<and> b \<le> e1 \<and> e1 \<le> e \<and>
    (\<forall>k. e1 < k \<longrightarrow> k \<le> e \<longrightarrow> le (xs ! piv) (xs ! k)) \<and> (b < e1 \<longrightarrow> le (xs ! e1) (xs ! piv))"
  using assms(1,2)
proof (induction "e - b" arbitrary: e)
  case 0
  then show ?case by (subst scan_down.simps) auto
next
  case (Suc n)
  then have be: "b < e" "n = e - 1 - b" by simp_all
  show ?case
  proof (cases "le (xs ! e) (xs ! piv)")
    case True
    then show ?thesis using be Suc.prems assms(3) by (subst scan_down.simps) auto
  next
    case False
    have lower: "b \<le> e - 1" "e - 1 < length xs" using be(1) Suc.prems(2) by simp_all
    obtain e1 where e1: "scan_down compare order xs piv b (e - 1) = Some e1" "b \<le> e1" "e1 \<le> e - 1"
      "\<forall>k. e1 < k \<longrightarrow> k \<le> e - 1 \<longrightarrow> le (xs ! piv) (xs ! k)" "b < e1 \<longrightarrow> le (xs ! e1) (xs ! piv)"
      using Suc.hyps(1) [OF be(2) lower] by blast
    have "le (xs ! piv) (xs ! k)" if "e1 < k" "k \<le> e" for k
      using that e1(4) not_le [OF False] by (cases "k = e") auto
    then show ?thesis using e1 be(1) False Suc.prems(2) assms(3) by (subst scan_down.simps) auto
  qed
qed

lemma scan_up_spec:
  assumes "b \<le> e" and "e < length xs" and "piv < length xs"
  shows "\<exists>b1. scan_up compare order xs piv b e = Some b1 \<and> b \<le> b1 \<and> b1 \<le> e \<and>
    (\<forall>k. b \<le> k \<longrightarrow> k < b1 \<longrightarrow> le (xs ! k) (xs ! piv)) \<and> (b1 < e \<longrightarrow> \<not> le (xs ! b1) (xs ! piv))"
  using assms(1,2)
proof (induction "e - b" arbitrary: b)
  case 0
  then show ?case by (subst scan_up.simps) auto
next
  case (Suc n)
  then have be: "b < e" "n = e - (b + 1)" by simp_all
  show ?case
  proof (cases "le (xs ! b) (xs ! piv)")
    case True
    obtain b1 where b1: "scan_up compare order xs piv (b + 1) e = Some b1" "b + 1 \<le> b1" "b1 \<le> e"
      "\<forall>k. b + 1 \<le> k \<longrightarrow> k < b1 \<longrightarrow> le (xs ! k) (xs ! piv)" "b1 < e \<longrightarrow> \<not> le (xs ! b1) (xs ! piv)"
      using Suc.hyps(1) [OF be(2)] be(1) Suc.prems(2) by auto
    have "le (xs ! k) (xs ! piv)" if "b \<le> k" "k < b1" for k
      using that b1(4) True by (cases "k = b") auto
    then show ?thesis using b1 be(1) True Suc.prems(2) assms(3) by (subst scan_up.simps) auto
  next
    case False
    then show ?thesis using be Suc.prems assms(3) by (subst scan_up.simps) auto
  qed
qed

text \<open>The pit is at \<open>b\<close>; what lies before it comes before the pit's value, what lies behind \<open>e\<close> after it.\<close>

definition pit_inv :: "nat \<Rightarrow> nat \<Rightarrow> nat \<Rightarrow> nat \<Rightarrow> 'a list \<Rightarrow> bool" where
  "pit_inv left right b e xs \<longleftrightarrow> left \<le> b \<and> b \<le> e \<and> e \<le> right \<and> right < length xs \<and>
     (\<forall>k. left \<le> k \<longrightarrow> k < b \<longrightarrow> le (xs ! k) (xs ! b)) \<and>
     (\<forall>k. e < k \<longrightarrow> k \<le> right \<longrightarrow> le (xs ! b) (xs ! k))"

lemma pit_step:
  assumes inv: "pit_inv left right b e xs" and be: "b < e"
  shows "\<exists>b1 e1 zs. pit_loop compare order b b e xs = pit_loop compare order b1 b1 e1 zs \<and>
    pit_inv left right b1 e1 zs \<and> permutes_part zs xs left (right + 1) \<and> e1 - b1 < e - b"
proof -
  have lims: "left \<le> b" "e \<le> right" "right < length xs" using inv by (auto simp: pit_inv_def)
  obtain e1 where e1: "scan_down compare order xs b b e = Some e1" "b \<le> e1" "e1 \<le> e"
    "\<forall>k. e1 < k \<longrightarrow> k \<le> e \<longrightarrow> le (xs ! b) (xs ! k)" "b < e1 \<longrightarrow> le (xs ! e1) (xs ! b)"
    using scan_down_spec [of b e xs b] be lims by auto
  have behind: "le (xs ! b) (xs ! k)" if "e1 < k" "k \<le> right" for k
    using that e1(4) inv by (cases "k \<le> e") (auto simp: pit_inv_def)
  show ?thesis
  proof (cases "b < e1")
    case False
    then have "e1 = b" using e1(2) by simp
    moreover have "scan_up compare order xs b b b = Some b" by (subst scan_up.simps) simp
    ultimately have "pit_loop compare order b b e xs = pit_loop compare order b b b xs"
      using be e1(1) by (subst pit_loop.simps) (simp add: Let_def)
    moreover have "pit_inv left right b b xs" using inv behind \<open>e1 = b\<close> by (auto simp: pit_inv_def)
    ultimately show ?thesis using be by (metis diff_self_eq_0 permutes_part_refl zero_less_diff)
  next
    case True
    let ?ys = "swapped xs b e1"
    have len: "b < length xs" "e1 < length xs" using True e1(3) lims by simp_all
    note nth = nth_swapped [OF len]
    obtain b1 where b1: "scan_up compare order ?ys e1 b e1 = Some b1" "b \<le> b1" "b1 \<le> e1"
      "\<forall>k. b \<le> k \<longrightarrow> k < b1 \<longrightarrow> le (?ys ! k) (xs ! b)" "b1 < e1 \<longrightarrow> \<not> le (?ys ! b1) (xs ! b)"
      using scan_up_spec [of b e1 ?ys e1] e1(2) len by (auto simp: nth)
    have more: "b < b1" using b1(2,3,5) True e1(5) by (cases "b1 = b") (auto simp: nth)
    let ?zs = "swapped ?ys e1 b1"
    have len1: "e1 < length ?ys" "b1 < length ?ys" using len b1(3) by simp_all
    note nth1 = nth_swapped [OF len1]
    have "pit_loop compare order b b e xs = pit_loop compare order b1 b1 e1 (if b1 < e1 then ?zs else ?ys)"
      using be e1(1) True len len1 b1(1,3) by (subst pit_loop.simps) (simp add: Let_def)
    moreover have "?ys = ?zs" if "\<not> b1 < e1" using that b1(3) by simp
    ultimately have step: "pit_loop compare order b b e xs = pit_loop compare order b1 b1 e1 ?zs" by simp
    have pit: "?zs ! b1 = xs ! b" using len len1 more by (auto simp: nth_list_update)
    have "le (?zs ! k) (?zs ! b1)" if k: "left \<le> k" "k < b1" for k
    proof (cases "k < b")
      case True
      then have "?zs ! k = xs ! k" unfolding nth1 nth using more b1(3) by auto
      then show ?thesis using inv k True unfolding pit by (auto simp: pit_inv_def)
    next
      case False
      then have "?zs ! k = ?ys ! k" unfolding nth1 using k b1(3) by auto
      then show ?thesis using k False b1(4) unfolding pit by auto
    qed
    moreover have "le (?zs ! b1) (?zs ! k)" if k: "e1 < k" "k \<le> right" for k
    proof -
      have "?zs ! k = xs ! k" unfolding nth1 nth using k b1(3) True by auto
      then show ?thesis using behind [OF k] unfolding pit by simp
    qed
    ultimately have "pit_inv left right b1 e1 ?zs"
      using lims more b1(3) e1(3) by (auto simp: pit_inv_def)
    moreover have "permutes_part ?zs xs left (right + 1)"
      using lims more b1(3) e1(2,3) len
      by (intro permutes_part_trans [OF permutes_part_swap permutes_part_swap]) auto
    moreover have "e1 - b1 < e - b" using more e1(3) b1(3) by simp
    ultimately show ?thesis using step by blast
  qed
qed

text \<open>What a partition leaves: everything on either side of the pit stands on the right side of it.\<close>

definition split_at :: "'a list \<Rightarrow> nat \<Rightarrow> nat \<Rightarrow> nat \<Rightarrow> bool" where
  "split_at ys left right piv \<longleftrightarrow> left \<le> piv \<and> piv \<le> right \<and>
     (\<forall>k. left \<le> k \<longrightarrow> k \<le> piv \<longrightarrow> le (ys ! k) (ys ! piv)) \<and>
     (\<forall>k. piv \<le> k \<longrightarrow> k \<le> right \<longrightarrow> le (ys ! piv) (ys ! k))"

lemma pit_loop_splits:
  assumes "pit_inv left right b e xs"
  shows "\<exists>piv ys. pit_loop compare order b b e xs = Some (piv, ys) \<and> permutes_part ys xs left (right + 1) \<and>
    split_at ys left right piv"
  using assms
proof (induction "e - b" arbitrary: b e xs rule: less_induct)
  case less
  show ?case
  proof (cases "b < e")
    case True
    obtain b1 e1 zs where z: "pit_loop compare order b b e xs = pit_loop compare order b1 b1 e1 zs"
      "pit_inv left right b1 e1 zs" "permutes_part zs xs left (right + 1)" "e1 - b1 < e - b"
      using pit_step [OF less.prems True] by blast
    then show ?thesis using less.hyps [OF z(4,2)] permutes_part_trans by metis
  next
    case False
    then have "split_at xs left right b"
      using less.prems unfolding split_at_def pit_inv_def by (metis le_neq_implies_less le_refl order.trans not_less)
    then show ?thesis using False by (subst pit_loop.simps) auto
  qed
qed

lemma One_splits:
  assumes "left \<le> right" and "right < length xs"
  shows "\<exists>piv ys. QuicPitSort_One compare order left right xs = Some (piv, ys) \<and>
    permutes_part ys xs left (right + 1) \<and> split_at ys left right piv"
proof -
  obtain i where i: "GetMidIndex compare left right xs = Some i" "left \<le> i" "i \<le> right"
    using GetMidIndex_within [OF assms] by blast
  let ?ys = "swapped xs i left"
  have "pit_inv left right left right ?ys" using assms by (auto simp: pit_inv_def)
  then obtain piv zs where z: "pit_loop compare order left left right ?ys = Some (piv, zs)"
    "permutes_part zs ?ys left (right + 1)" "split_at zs left right piv"
    using pit_loop_splits by blast
  have "permutes_part ?ys xs left (right + 1)" using assms i by (intro permutes_part_swap) auto
  then have "permutes_part zs xs left (right + 1)" by (rule permutes_part_trans [OF z(2)])
  then show ?thesis using z i assms by (simp add: QuicPitSort_One_def)
qed

text \<open>The driver with a stack: intervals in ascending order; any two elements not in one of them are in order.\<close>

definition within :: "(nat \<times> nat) list \<Rightarrow> nat \<Rightarrow> nat \<Rightarrow> bool" where
  "within st p q \<longleftrightarrow> (\<exists>(l, r)\<in>set st. l \<le> p \<and> q \<le> r)"

definition stack_inv :: "(nat \<times> nat) list \<Rightarrow> 'a list \<Rightarrow> bool" where
  "stack_inv st xs \<longleftrightarrow> (\<forall>(l, r)\<in>set st. l \<le> r \<and> r < length xs) \<and>
     sorted_wrt (\<lambda>(l, r) (l', r'). r < l') st \<and>
     (\<forall>p q. p < q \<longrightarrow> q < length xs \<longrightarrow> \<not> within st p q \<longrightarrow> le (xs ! p) (xs ! q))"

text \<open>An element of a permuted part stands for some element of the part, any other for itself.\<close>

lemma part_value:
  assumes "permutes_part ys xs l (r + 1)" and "r < length xs"
  obtains k' where "ys ! k = xs ! k'" and "l \<le> k \<and> k \<le> r \<longrightarrow> l \<le> k' \<and> k' \<le> r" and "\<not> (l \<le> k \<and> k \<le> r) \<longrightarrow> k' = k"
  using permutes_part_values [OF assms(1), of k] assms
  by (cases "l \<le> k \<and> k \<le> r") (auto simp: permutes_part_def less_Suc_eq_le)

definition pieces :: "nat \<Rightarrow> nat \<Rightarrow> nat \<Rightarrow> (nat \<times> nat) list \<Rightarrow> (nat \<times> nat) list" where
  "pieces left right piv st =
     (if left < piv - 1 then [(left, piv - 1)] else []) @ (if piv + 1 < right then [(piv + 1, right)] else []) @ st"

lemma stack_inv_split:
  assumes inv: "stack_inv ((left, right) # st) xs" and ys: "permutes_part ys xs left (right + 1)"
    and sp: "split_at ys left right piv"
  shows "stack_inv (pieces left right piv st) ys"
proof -
  let ?st = "pieces left right piv st"
  have lr: "left \<le> right" "right < length xs" and st: "\<forall>(l, r)\<in>set st. right < l \<and> l \<le> r \<and> r < length xs"
    "sorted_wrt (\<lambda>(l, r) (l', r'). r < l') st"
    and old: "\<And>p q. p < q \<Longrightarrow> q < length xs \<Longrightarrow> \<not> within ((left, right) # st) p q \<Longrightarrow> le (xs ! p) (xs ! q)"
    using inv by (auto simp: stack_inv_def)
  have len: "length ys = length xs" by (rule permutes_part_length [OF ys])
  have piv: "left \<le> piv" "piv \<le> right" using sp by (auto simp: split_at_def)
  have "le (ys ! p) (ys ! q)" if pq: "p < q" "q < length ys" "\<not> within ?st p q" for p q
  proof (cases "left \<le> p \<and> q \<le> right")
    case True
    have "\<not> q \<le> piv - 1" if "piv \<noteq> 0" using that pq True by (auto simp: within_def pieces_def)
    moreover have "\<not> piv + 1 \<le> p" using pq True by (auto simp: within_def pieces_def)
    ultimately have "p \<le> piv" "piv \<le> q" by (cases "piv = 0"; simp)+
    then have "le (ys ! p) (ys ! piv)" "le (ys ! piv) (ys ! q)" using sp True by (auto simp: split_at_def)
    then show ?thesis by (rule le_trans)
  next
    case False
    obtain p' where p': "ys ! p = xs ! p'" "left \<le> p \<and> p \<le> right \<longrightarrow> left \<le> p' \<and> p' \<le> right"
      "\<not> (left \<le> p \<and> p \<le> right) \<longrightarrow> p' = p" by (rule part_value [OF ys lr(2)])
    obtain q' where q': "ys ! q = xs ! q'" "left \<le> q \<and> q \<le> right \<longrightarrow> left \<le> q' \<and> q' \<le> right"
      "\<not> (left \<le> q \<and> q \<le> right) \<longrightarrow> q' = q" by (rule part_value [OF ys lr(2)])
    have "\<not> (l \<le> p' \<and> q' \<le> r)" if "(l, r) \<in> set st" for l r
    proof -
      have "\<not> (l \<le> p \<and> q \<le> r)" using pq(3) that by (auto simp: within_def pieces_def)
      moreover have "right < l" using st(1) that by auto
      ultimately show ?thesis
        using p'(2,3) q'(2,3) pq(1) by (cases "left \<le> p \<and> p \<le> right"; cases "left \<le> q \<and> q \<le> right") auto
    qed
    moreover have "p' < q' \<and> q' < length xs \<and> \<not> (left \<le> p' \<and> q' \<le> right)"
      using p'(2,3) q'(2,3) pq len lr(2) False
      by (cases "left \<le> p \<and> p \<le> right"; cases "left \<le> q \<and> q \<le> right") auto
    ultimately show ?thesis unfolding p'(1) q'(1) by (intro old) (auto simp: within_def)
  qed
  moreover have "\<forall>(l, r)\<in>set ?st. l \<le> r \<and> r < length ys" using st(1) lr piv len by (auto simp: pieces_def)
  moreover have "sorted_wrt (\<lambda>(l, r) (l', r'). r < l') ?st"
  proof -
    have "\<forall>x\<in>set st. (\<lambda>(l, r) (l', r'). r < l') (a, b) x" if "b \<le> right" for a b
      using st(1) that by auto
    then show ?thesis using st(2) lr piv by (simp add: pieces_def, linarith)
  qed
  ultimately show ?thesis by (simp add: stack_inv_def)
qed

definition stack_size :: "(nat \<times> nat) list \<Rightarrow> nat" where
  "stack_size st = sum_list (map (\<lambda>(l, r). r - l + 1) st)"

lemma quick_stack_sorts:
  assumes "stack_inv st xs"
  shows "\<exists>ys. quick_stack compare order st xs = Some ys \<and> mset ys = mset xs \<and> sorted_wrt le ys"
  using assms
proof (induction "stack_size st" arbitrary: st xs rule: less_induct)
  case less
  show ?case
  proof (cases st)
    case Nil
    then have "sorted_wrt le xs" using less.prems by (simp add: stack_inv_def within_def sorted_wrt_iff_nth_less)
    then show ?thesis using Nil by (subst quick_stack.simps) simp
  next
    case (Cons i st1)
    obtain left right where i: "i = (left, right)" by (cases i)
    have lr: "left \<le> right" "right < length xs" using less.prems by (auto simp: stack_inv_def Cons i)
    obtain piv ys where one: "QuicPitSort_One compare order left right xs = Some (piv, ys)"
      "permutes_part ys xs left (right + 1)" "split_at ys left right piv"
      using One_splits [OF lr] by blast
    have inv: "stack_inv (pieces left right piv st1) ys"
      by (rule stack_inv_split [OF _ one(2,3)]) (use less.prems Cons i in simp)
    have "stack_size (pieces left right piv st1) < stack_size st"
      using one(3) by (auto simp: stack_size_def pieces_def Cons i split_at_def)
    then obtain zs where "quick_stack compare order (pieces left right piv st1) ys = Some zs" "mset zs = mset ys"
      "sorted_wrt le zs"
      using less.hyps [OF _ inv] by blast
    moreover have "quick_stack compare order st xs = quick_stack compare order (pieces left right piv st1) ys"
      using one(1) by (subst quick_stack.simps) (simp add: Cons i Let_def pieces_def)
    ultimately show ?thesis using one(2) by (auto simp: permutes_part_def)
  qed
qed

lemma stack_sorts:
  "\<exists>ys. XQuicPitSort_Stack compare order xs = Some ys \<and> mset ys = mset xs \<and> sorted_wrt le ys"
proof (cases "xs = []")
  case False
  then have "stack_inv [(0, length xs - 1)] xs" by (auto simp: stack_inv_def within_def)
  then show ?thesis using quick_stack_sorts False by (simp add: XQuicPitSort_Stack_def)
qed (simp add: XQuicPitSort_Stack_def)

text \<open>The recursive driver.\<close>

lemma on_part_sorts:
  assumes "l \<le> r" and "r < length xs"
  shows "\<exists>ys. on_part (XInsertSort compare order) l (r - l + 1) xs = Some ys \<and>
    permutes_part ys xs l (r + 1) \<and> ordered le ys l (r + 1)"
proof -
  let ?m = "take (r - l + 1) (drop l xs)"
  have m: "length ?m = r - l + 1" "?m \<noteq> []" using assms by auto
  obtain ms where ms: "XInsertSort compare order ?m = Some ms" "mset ms = mset ?m" "sorted_wrt le ms"
    using insert_sorts [OF m(2)] by blast
  have lms: "length ms = r - l + 1" using ms(2) m(1) by (metis size_mset)
  let ?ys = "take l xs @ ms @ drop (l + (r - l + 1)) xs"
  have "xs = take l xs @ ?m @ drop (l + (r - l + 1)) xs"
    by (metis add.commute append_take_drop_id drop_drop)
  then have "mset ?ys = mset xs" using ms(2) by (metis mset_append)
  moreover have "?ys ! k = xs ! k" if "k < l \<or> r + 1 \<le> k" for k
    using that assms lms by (auto simp: nth_append)
  moreover have "ordered le ?ys l (r + 1)"
    unfolding ordered_def
  proof (intro allI impI)
    fix p q assume pq: "l \<le> p" "p < q" "q < r + 1"
    have "?ys ! k = ms ! (k - l)" if "l \<le> k" "k < r + 1" for k
      using that assms lms by (auto simp: nth_append)
    then show "le (?ys ! p) (?ys ! q)"
      using ms(3) pq lms by (simp add: sorted_wrt_iff_nth_less)
  qed
  ultimately show ?thesis using ms(1) by (auto simp: on_part_def permutes_part_def)
qed

lemma ordered_join:
  assumes sp: "split_at ys l r piv" and r: "r < length ys"
    and zs: "permutes_part zs ys l piv" "ordered le zs l piv"
    and us: "permutes_part us zs (piv + 1) (r + 1)" "ordered le us (piv + 1) (r + 1)"
  shows "ordered le us l (r + 1)"
  unfolding ordered_def
proof (intro allI impI)
  have piv: "l \<le> piv" "piv \<le> r" using sp by (auto simp: split_at_def)
  have lens: "length zs = length ys" by (rule permutes_part_length [OF zs(1)])
  have mid: "us ! piv = ys ! piv" using zs(1) us(1) by (simp add: permutes_part_def)
  have before: "le (us ! k) (us ! piv) \<and> us ! k = zs ! k" if k: "l \<le> k" "k < piv" for k
  proof -
    obtain k' where "l \<le> k'" "k' < piv" "zs ! k = ys ! k'"
      using permutes_part_values [OF zs(1) k] piv r by auto
    moreover have "us ! k = zs ! k" using us(1) k by (simp add: permutes_part_def)
    ultimately show ?thesis using sp unfolding mid by (auto simp: split_at_def)
  qed
  have behind: "le (us ! piv) (us ! k)" if k: "piv < k" "k \<le> r" for k
  proof -
    obtain k' where k': "piv + 1 \<le> k'" "k' < r + 1" "us ! k = zs ! k'"
      using permutes_part_values [OF us(1), of k] k r lens by auto
    then have "zs ! k' = ys ! k'" using zs(1) by (simp add: permutes_part_def)
    then show ?thesis using sp k' unfolding mid by (auto simp: split_at_def)
  qed
  fix p q assume pq: "l \<le> p" "p < q" "q < r + 1"
  consider "q < piv" | "q = piv" | "p = piv" | "piv < p" | "p < piv" "piv < q" using pq(2) by linarith
  then show "le (us ! p) (us ! q)"
  proof cases
    case 1
    then show ?thesis using before [of p] before [of q] zs(2) pq by (auto simp: ordered_def)
  next
    case 5
    then show ?thesis using before [of p] behind [of q] pq le_trans [of "us ! p" "us ! piv" "us ! q"] by auto
  qed (use before [of p] behind [of q] us(2) pq in \<open>auto simp: ordered_def\<close>)
qed

lemma Recur_sorts:
  assumes "r < length xs"
  shows "\<exists>ys. QuicPitSort_Recur compare order l r xs = Some ys \<and> permutes_part ys xs l (r + 1) \<and>
    ordered le ys l (r + 1)"
  using assms
proof (induction "r - l" arbitrary: l r xs rule: less_induct)
  case less
  consider "r \<le> l" | "l < r" "r - l + 1 \<le> 13" | "l < r" "\<not> r - l + 1 \<le> 13" by linarith
  then show ?case
  proof cases
    case 1
    then show ?thesis by (subst QuicPitSort_Recur.simps) (auto simp: ordered_def)
  next
    case 2
    then show ?thesis using on_part_sorts [of l r xs] less.prems by (subst QuicPitSort_Recur.simps) simp
  next
    case 3
    obtain piv ys where one: "QuicPitSort_One compare order l r xs = Some (piv, ys)"
      "permutes_part ys xs l (r + 1)" "split_at ys l r piv"
      using One_splits [of l r xs] 3 less.prems by auto
    have ly: "length ys = length xs" by (rule permutes_part_length [OF one(2)])
    have piv: "l \<le> piv" "piv \<le> r" using one(3) by (auto simp: split_at_def)
    obtain zs where zs: "QuicPitSort_Recur compare order l (piv - 1) ys = Some zs" "permutes_part zs ys l piv"
      "ordered le zs l piv"
    proof (cases "piv = 0")
      case True
      then have "QuicPitSort_Recur compare order l (piv - 1) ys = Some ys" by (subst QuicPitSort_Recur.simps) simp
      then show ?thesis using that [of ys] True by (simp add: ordered_def)
    next
      case False
      have "piv - 1 - l < r - l" "piv - 1 < length ys" using 3 piv less.prems ly by linarith+
      then show ?thesis using less.hyps [of "piv - 1" l ys] that False by auto
    qed
    have lz: "length zs = length ys" by (rule permutes_part_length [OF zs(2)])
    have fewer: "r - (piv + 1) < r - l" using 3 piv by linarith
    obtain us where us: "QuicPitSort_Recur compare order (piv + 1) r zs = Some us"
      "permutes_part us zs (piv + 1) (r + 1)" "ordered le us (piv + 1) (r + 1)"
      using less.hyps [OF fewer, of zs] less.prems ly lz by auto
    have "permutes_part us xs l (r + 1)"
      using permutes_part_trans [OF permutes_part_wider [OF us(2)] permutes_part_trans [OF permutes_part_wider [OF zs(2)] one(2)]]
        piv by simp
    moreover have "ordered le us l (r + 1)"
      by (rule ordered_join [OF one(3) _ zs(2,3) us(2,3)]) (use less.prems ly in simp)
    ultimately show ?thesis using 3 one(1) zs(1) us(1) by (subst QuicPitSort_Recur.simps) simp
  qed
qed

lemma quick_sorts:
  "\<exists>ys. XQuickSort compare order xs = Some ys \<and> mset ys = mset xs \<and> sorted_wrt le ys"
proof (cases "xs = []")
  case True
  then show ?thesis by (simp add: XQuickSort_def QuicPitSort_Recur.simps)
next
  case False
  then obtain ys where ys: "XQuickSort compare order xs = Some ys" "permutes_part ys xs 0 (length xs)"
    "ordered le ys 0 (length xs)"
    using Recur_sorts [of "length xs - 1" xs 0] by (auto simp: XQuickSort_def)
  then have "length ys = length xs" by (metis permutes_part_length)
  then show ?thesis using ys ordered_all [of le ys] by (auto simp: permutes_part_def)
qed

end

section \<open>Properties\<close>

text \<open>
  C13: Quick sort, by recursion with insertion sort for at most 13 elements or with an explicit stack, ends and
  returns a permutation of any array in the order asked for.
\<close>

theorem quick_sort_sorts:
  assumes "total_compare compare" and "f \<in> {XQuickSort, XQuicPitSort_Stack}"
  shows "\<exists>ys. f compare order xs = Some ys \<and> mset ys = mset xs \<and> sorted_wrt (in_order compare order) ys"
  using assms(2) comparison.quick_sorts [OF comparison.intro [OF assms(1)]]
    comparison.stack_sorts [OF comparison.intro [OF assms(1)]]
  by blast

lemma quick_sort_sorts_witness:
  "\<exists>ys. XQuickSort int_compare XSORT_ASC [5, 1, 4, 1] = Some ys \<and> mset ys = mset [5, 1, 4, 1] \<and>
    sorted_wrt (in_order int_compare XSORT_ASC) ys"
  by (rule quick_sort_sorts [OF int_compare_total]) simp

end
