(* ===== verification/HeapProps.thy ===== *)
theory HeapProps
  imports SortProps
begin

text \<open>
  Heaps in arrays: sifting down repairs a heap that is broken at one node, building makes a heap of any
  array, and heap sort sorts. The direction of the heap is the argument \<open>neg\<close> of the source.
\<close>

context comparison
begin

text \<open>\<open>above neg x y\<close>: the value \<open>x\<close> may be the parent of \<open>y\<close>.\<close>

definition above :: "bool \<Rightarrow> 'a \<Rightarrow> 'a \<Rightarrow> bool" where
  "above neg x y \<longleftrightarrow> (if neg then le y x else le x y)"

lemma above_refl [simp]: "above neg x x"
  by (simp add: above_def)

lemma above_trans: "above neg x y \<Longrightarrow> above neg y z \<Longrightarrow> above neg x z"
  using le_trans by (auto simp: above_def split: if_splits)

lemma above_total: "\<not> above neg x y \<Longrightarrow> above neg y x"
  using not_le by (auto simp: above_def split: if_splits)

text \<open>The first \<open>n\<close> elements are a heap from node \<open>lo\<close> on, except below \<open>hole\<close>.\<close>

definition heap_but :: "bool \<Rightarrow> 'a list \<Rightarrow> nat \<Rightarrow> nat \<Rightarrow> nat \<Rightarrow> bool" where
  "heap_but neg xs n lo hole \<longleftrightarrow>
     (\<forall>c. 0 < c \<longrightarrow> c < n \<longrightarrow> lo \<le> (c - 1) div 2 \<longrightarrow> (c - 1) div 2 \<noteq> hole \<longrightarrow> above neg (xs ! ((c - 1) div 2)) (xs ! c)) \<and>
     (\<forall>c. c < n \<longrightarrow> c = 2 * hole + 1 \<or> c = 2 * hole + 2 \<longrightarrow> 0 < hole \<longrightarrow> lo \<le> (hole - 1) div 2 \<longrightarrow>
       above neg (xs ! ((hole - 1) div 2)) (xs ! c))"

definition heap_from :: "bool \<Rightarrow> 'a list \<Rightarrow> nat \<Rightarrow> nat \<Rightarrow> bool" where
  "heap_from neg xs n lo \<longleftrightarrow>
     (\<forall>c. 0 < c \<longrightarrow> c < n \<longrightarrow> lo \<le> (c - 1) div 2 \<longrightarrow> above neg (xs ! ((c - 1) div 2)) (xs ! c))"

lemma child_cases: "0 < c \<Longrightarrow> (c - 1) div 2 = p \<longleftrightarrow> c = 2 * p + 1 \<or> c = 2 * p + (2 :: nat)"
  by presburger

lemma heap_but_done:
  assumes "heap_but neg xs n lo hole" and "\<And>c. c < n \<Longrightarrow> c = 2 * hole + 1 \<or> c = 2 * hole + 2 \<Longrightarrow> above neg (xs ! hole) (xs ! c)"
  shows "heap_from neg xs n lo"
  unfolding heap_from_def
proof (intro allI impI)
  fix c assume c: "0 < c" "c < n" "lo \<le> (c - 1) div 2"
  show "above neg (xs ! ((c - 1) div 2)) (xs ! c)"
  proof (cases "(c - 1) div 2 = hole")
    case True
    then have "c = 2 * hole + 1 \<or> c = 2 * hole + 2" using child_cases [OF c(1)] by blast
    then show ?thesis using assms(2) [OF c(2)] unfolding True by blast
  next
    case False
    then show ?thesis using assms(1) c by (simp add: heap_but_def)
  qed
qed

text \<open>Exchanging the hole with the child that may stand above the other moves the hole down.\<close>

lemma heap_but_swap:
  assumes hb: "heap_but neg xs n lo hole" and child: "child = 2 * hole + 1 \<or> child = 2 * hole + 2" "child < n"
    and n: "n \<le> length xs" and lo: "lo \<le> hole"
    and best: "\<And>c. c < n \<Longrightarrow> c = 2 * hole + 1 \<or> c = 2 * hole + 2 \<Longrightarrow> above neg (xs ! child) (xs ! c)"
    and up: "above neg (xs ! child) (xs ! hole)"
  shows "heap_but neg (swapped xs child hole) n lo child"
  unfolding heap_but_def
proof (intro conjI allI impI)
  have len: "child < length xs" "hole < length xs" and ne: "child \<noteq> hole" "hole < child" using child n by auto
  have par: "(child - 1) div 2 = hole" using child(1) by auto
  fix c
  show "above neg (swapped xs child hole ! ((c - 1) div 2)) (swapped xs child hole ! c)"
    if c: "0 < c" "c < n" "lo \<le> (c - 1) div 2" "(c - 1) div 2 \<noteq> child"
  proof -
    consider "(c - 1) div 2 = hole" | "c = hole" "(c - 1) div 2 \<noteq> hole" | "(c - 1) div 2 \<noteq> hole" "c \<noteq> hole" "c \<noteq> child"
      using par by blast
    then show ?thesis
    proof cases
      case 1
      then have "c = 2 * hole + 1 \<or> c = 2 * hole + 2" using child_cases [OF c(1)] by blast
      then show ?thesis using best [OF c(2)] up ne unfolding 1 nth_swapped [OF len] by auto
    next
      case 2
      then have "above neg (xs ! ((hole - 1) div 2)) (xs ! child)"
        using hb child c by (auto simp: heap_but_def)
      then show ?thesis using 2 c(4) ne unfolding nth_swapped [OF len] by auto
    next
      case 3
      then show ?thesis using hb c unfolding nth_swapped [OF len] by (auto simp: heap_but_def)
    qed
  qed
  show "above neg (swapped xs child hole ! ((child - 1) div 2)) (swapped xs child hole ! c)"
    if c: "c < n" "c = 2 * child + 1 \<or> c = 2 * child + 2"
  proof -
    have "(c - 1) div 2 = child" "0 < c" "c \<noteq> hole" "c \<noteq> child" using c(2) ne by auto
    then have "above neg (xs ! child) (xs ! c)" using hb c(1) ne lo by (auto simp: heap_but_def)
    then show ?thesis using \<open>c \<noteq> hole\<close> \<open>c \<noteq> child\<close> unfolding par nth_swapped [OF len] by simp
  qed
qed

lemma AdjustDown_heap:
  assumes "heap_but neg xs n lo parent" and "n \<le> length xs" and "lo \<le> parent"
  shows "\<exists>ys. AdjustDown compare order neg n parent xs = Some ys \<and> permutes_part ys xs 0 n \<and> heap_from neg ys n lo"
  using assms
proof (induction "n - parent" arbitrary: parent xs rule: less_induct)
  case less
  show ?case
  proof (cases "2 * parent + 1 < n")
    case False
    then have "heap_from neg xs n lo" by (intro heap_but_done [OF less.prems(1)]) auto
    then show ?thesis using False by (subst AdjustDown.simps) auto
  next
    case True
    let ?l = "2 * parent + 1" and ?r = "2 * parent + 2"
    define ch where "ch = (if ?r < n \<and> (\<not> le (xs ! ?l) (xs ! ?r)) \<noteq> neg then ?r else ?l)"
    have c: "ch = ?l \<or> ch = ?r" "ch < n" using True by (auto simp: ch_def)
    have pick: "(if ?r < n then do {
        a \<leftarrow> get_at xs ?l; b \<leftarrow> get_at xs ?r;
        Some (if (\<not> le a b) \<noteq> neg then ?r else ?l) } else Some ?l) = Some ch"
      using True less.prems(2) by (auto simp: ch_def)
    have best: "above neg (xs ! ch) (xs ! k)" if "k < n" "k = ?l \<or> k = ?r" for k
      using that not_le by (auto simp: above_def ch_def split: if_splits)
    have step: "AdjustDown compare order neg n parent xs =
        (if le (xs ! ch) (xs ! parent) \<noteq> neg then AdjustDown compare order neg n ch (swapped xs ch parent) else Some xs)"
      using True less.prems(2) c(2) by (subst AdjustDown.simps) (simp only: pick, simp)
    show ?thesis
    proof (cases "le (xs ! ch) (xs ! parent) \<noteq> neg")
      case swap: True
      then have "above neg (xs ! ch) (xs ! parent)" using not_le by (auto simp: above_def)
      then have "heap_but neg (swapped xs ch parent) n lo ch"
        using heap_but_swap [OF less.prems(1) c less.prems(2,3)] best by blast
      moreover have "n - ch < n - parent" "lo \<le> ch" using c less.prems(3) by auto
      ultimately obtain ys where "AdjustDown compare order neg n ch (swapped xs ch parent) = Some ys"
        "permutes_part ys (swapped xs ch parent) 0 n" "heap_from neg ys n lo"
        using less.hyps [of ch "swapped xs ch parent"] less.prems(2) by auto
      moreover have "permutes_part (swapped xs ch parent) xs 0 n"
        using c True less.prems(2) by (intro permutes_part_swap) auto
      ultimately show ?thesis using step swap permutes_part_trans by metis
    next
      case False
      then have "above neg (xs ! parent) (xs ! ch)" using not_le by (auto simp: above_def)
      then have "heap_from neg xs n lo"
        using best above_trans by (intro heap_but_done [OF less.prems(1)]) blast
      then show ?thesis using step False by auto
    qed
  qed
qed

lemma heap_root_2: "2 \<le> n \<Longrightarrow> heap_root n = (n - 2) div 2"
  by (simp add: heap_root_def)

lemma heap_build_heap:
  assumes "2 \<le> length xs" and "heap_from neg xs (length xs) (heap_root (length xs) + 1 - i)"
  shows "\<exists>ys. heap_build compare order neg i xs = Some ys \<and> mset ys = mset xs \<and> heap_from neg ys (length xs) 0"
  using assms
proof (induction "heap_root (length xs) + 1 - i" arbitrary: i xs)
  case 0
  then show ?case by (subst heap_build.simps) auto
next
  case (Suc m)
  let ?root = "heap_root (length xs)"
  have i: "i \<le> ?root" "?root + 1 - i = ?root - i + 1" using Suc.hyps(2) by simp_all
  have "heap_but neg xs (length xs) (?root - i) (?root - i)"
    using Suc.prems(2) unfolding i(2) by (auto simp: heap_from_def heap_but_def)
  then obtain ys where ys: "AdjustDown compare order neg (length xs) (?root - i) xs = Some ys"
    "permutes_part ys xs 0 (length xs)" "heap_from neg ys (length xs) (?root - i)"
    using AdjustDown_heap by blast
  have len: "length ys = length xs" "mset ys = mset xs"
    using permutes_part_length [OF ys(2)] ys(2) by (simp_all add: permutes_part_def)
  have "m = heap_root (length ys) + 1 - (i + 1)" "?root + 1 - (i + 1) = ?root - i" using Suc.hyps(2) len by simp_all
  then obtain zs where "heap_build compare order neg (i + 1) ys = Some zs" "mset zs = mset ys" "heap_from neg zs (length xs) 0"
    using Suc.hyps(1) [of ys "i + 1"] Suc.prems(1) ys(3) len by auto
  then show ?case using ys(1) len i(1) by (subst heap_build.simps) simp
qed

lemma heap_build_all:
  assumes "2 \<le> length xs"
  shows "\<exists>ys. heap_build compare order neg 0 xs = Some ys \<and> mset ys = mset xs \<and> heap_from neg ys (length xs) 0"
proof (rule heap_build_heap [OF assms])
  show "heap_from neg xs (length xs) (heap_root (length xs) + 1 - 0)"
    unfolding heap_from_def heap_root_2 [OF assms]
  proof (intro allI impI)
    fix c assume "0 < c" "c < length xs" "(length xs - 2) div 2 + 1 - 0 \<le> (c - 1) div 2"
    moreover have "(c - 1) div 2 \<le> (length xs - 2) div 2" using calculation(2) by (intro div_le_mono) simp
    ultimately show "above neg (xs ! ((c - 1) div 2)) (xs ! c)" by simp
  qed
qed

lemma heap_top:
  assumes "heap_from neg xs n 0" and "k < n"
  shows "above neg (xs ! 0) (xs ! k)"
  using assms(2)
proof (induction k rule: less_induct)
  case (less k)
  show ?case
  proof (cases "k = 0")
    case False
    then have "above neg (xs ! ((k - 1) div 2)) (xs ! k)" using assms(1) less.prems by (simp add: heap_from_def)
    moreover have "(k - 1) div 2 < k" using False by simp
    ultimately show ?thesis using less.IH [of "(k - 1) div 2"] less.prems above_trans by simp
  qed simp
qed

text \<open>Taking the top to the end of the heap.\<close>

lemma heap_extract_step:
  assumes heap: "heap_from True xs (m + 1) 0" and set: "settled xs (m + 1)" and m: "0 < m" "m < length xs"
  shows "\<exists>zs. AdjustDown compare order True m 0 (swapped xs 0 m) = Some zs \<and> mset zs = mset xs \<and>
    heap_from True zs m 0 \<and> settled zs m"
proof -
  let ?ys = "swapped xs 0 m"
  have len: "0 < length xs" "m < length xs" using m by linarith+
  have "heap_but True ?ys m 0 0"
    using heap unfolding heap_but_def heap_from_def nth_swapped [OF len] by auto
  then obtain zs where zs: "AdjustDown compare order True m 0 ?ys = Some zs" "permutes_part zs ?ys 0 m"
    "heap_from True zs m 0"
    using AdjustDown_heap [of True ?ys m 0 0] m by auto
  have "settled ?ys m"
    unfolding settled_def nth_swapped [OF len] length_list_update
  proof (intro allI impI)
    fix p q assume pq: "p < q" "m \<le> q" "q < length xs"
    have top: "le (xs ! k) (xs ! 0)" if "k < m + 1" for k
      using heap_top [OF heap that] by (simp add: above_def)
    show "le (if p = m then xs ! 0 else if p = 0 then xs ! m else xs ! p)
        (if q = m then xs ! 0 else if q = 0 then xs ! m else xs ! q)"
    proof (cases "q = m")
      case True
      then show ?thesis using top [of p] top [of m] pq by auto
    next
      case False
      then show ?thesis using set pq m by (auto simp: settled_def)
    qed
  qed
  then have "settled zs m" by (rule settled_part [OF _ zs(2)]) (use m in simp)
  moreover have "mset zs = mset xs" using zs(2) len by (simp add: permutes_part_def)
  ultimately show ?thesis using zs by blast
qed

lemma heap_extract_sorts:
  assumes "i < length xs" and "heap_from True xs (length xs - i) 0" and "settled xs (length xs - i)"
  shows "\<exists>ys. heap_extract compare order i xs = Some ys \<and> mset ys = mset xs \<and> sorted_wrt le ys"
  using assms
proof (induction "length xs - i" arbitrary: i xs rule: less_induct)
  case less
  show ?case
  proof (cases "i < length xs - 1")
    case True
    let ?m = "length xs - 1 - i"
    have m: "?m + 1 = length xs - i" "0 < ?m" "?m < length xs" using True by simp_all
    obtain zs where zs: "AdjustDown compare order True ?m 0 (swapped xs 0 ?m) = Some zs" "mset zs = mset xs"
      "heap_from True zs ?m 0" "settled zs ?m"
      using heap_extract_step [OF _ _ m(2,3)] less.prems(2,3) unfolding m(1) by blast
    have len: "length zs = length xs" using zs(2) by (metis size_mset)
    have "length zs - (i + 1) = ?m" "length zs - (i + 1) < length xs - i" "i + 1 < length zs" using len True by simp_all
    then obtain ys where "heap_extract compare order (i + 1) zs = Some ys" "mset ys = mset zs" "sorted_wrt le ys"
      using less.hyps [of zs "i + 1"] zs(3,4) by auto
    moreover have "xs \<noteq> []" using True by auto
    ultimately show ?thesis using zs(1,2) True m by (subst heap_extract.simps) simp
  next
    case False
    then have "length xs - i = 1" using less.prems(1) by simp
    then have "sorted_wrt le xs" using less.prems(3) by (auto simp: settled_def sorted_wrt_iff_nth_less)
    then show ?thesis using False less.prems(1) by (subst heap_extract.simps) simp
  qed
qed

lemma heap_sorts:
  assumes "2 \<le> length xs"
  shows "\<exists>ys. XHeapSort compare order xs = Some ys \<and> mset ys = mset xs \<and> sorted_wrt le ys"
proof -
  obtain ys where ys: "heap_build compare order True 0 xs = Some ys" "mset ys = mset xs" "heap_from True ys (length xs) 0"
    using heap_build_all [OF assms] by blast
  have len: "length ys = length xs" using ys(2) by (metis size_mset)
  obtain zs where "heap_extract compare order 0 ys = Some zs" "mset zs = mset ys" "sorted_wrt le zs"
    using heap_extract_sorts [of 0 ys] ys(3) len assms by (cases xs) (auto simp: settled_def)
  then show ?thesis using ys(1,2) by (simp add: XHeapSort_def)
qed

lemma create_heap:
  assumes "2 \<le> length xs"
  shows "\<exists>ys. XCreateHeap compare order xs = Some ys \<and> mset ys = mset xs \<and>
    (\<forall>c. 0 < c \<longrightarrow> c < length xs \<longrightarrow> le (ys ! ((c - 1) div 2)) (ys ! c))"
  using heap_build_all [OF assms, of False] by (simp add: XCreateHeap_def heap_from_def above_def)

end

section \<open>Properties\<close>

text \<open>
  C14: Heap sort returns a permutation of an array of at least two elements in the order asked for.
\<close>

theorem heap_sort_sorts:
  assumes "total_compare compare" and "2 \<le> length xs"
  shows "\<exists>ys. XHeapSort compare order xs = Some ys \<and> mset ys = mset xs \<and> sorted_wrt (in_order compare order) ys"
  by (rule comparison.heap_sorts [OF comparison.intro [OF assms(1)] assms(2)])

lemma heap_sort_sorts_witness:
  "\<exists>ys. XHeapSort int_compare XSORT_ASC [5, 1, 4] = Some ys \<and> mset ys = mset [5, 1, 4] \<and>
    sorted_wrt (in_order int_compare XSORT_ASC) ys"
  by (rule heap_sort_sorts [OF int_compare_total]) simp

end
