(* ===== verification/PriorityQueue.thy ===== *)
theory PriorityQueue
  imports SortOrder
begin

text \<open>
  The priority queue of \<open>XContainer/XQueue/XPriorityQueue/XPriorityQueue_virtual.c\<close>, a heap in a vector.
  The record holds the elements of the vector, the direction, the comparison that gives the priority and the
  comparison of the container base class, which the initialisation leaves unset and which removal uses.
  \<open>room\<close> says whether the vector can take another element. A call through the unset comparison, or an
  access outside the elements, is \<open>None\<close>.
\<close>

record 'a XPriorityQueue =
  pq_items :: "'a list"
  pq_order :: XSortOrder
  pq_compare :: "'a compare"
  pq_match :: "'a compare option"

definition XPriorityQueue_init :: "'a compare \<Rightarrow> XSortOrder \<Rightarrow> 'a XPriorityQueue" where
  "XPriorityQueue_init compare order =
     \<lparr>pq_items = [], pq_order = order, pq_compare = compare, pq_match = None\<rparr>"

partial_function (option) AdjustUp ::
  "'a compare \<Rightarrow> XSortOrder \<Rightarrow> nat \<Rightarrow> 'a list \<Rightarrow> 'a list option" where
  "AdjustUp compare order child xs = do {
     let parent = size_sub child 1 div 2;
     c \<leftarrow> get_at xs child;
     p \<leftarrow> get_at xs parent;
     ys \<leftarrow> (if in_order compare order c p then XSwap xs child parent else Some xs);
     if parent = 0 then Some ys else AdjustUp compare order parent ys
   }"

text \<open>When the right child is the one to exchange, the loop goes on at the left one.\<close>

partial_function (option) AdjustDwon ::
  "'a compare \<Rightarrow> XSortOrder \<Rightarrow> nat \<Rightarrow> nat \<Rightarrow> 'a list \<Rightarrow> 'a list option" where
  "AdjustDwon compare order n parent xs =
     (if 2 * parent + 1 < n then do {
        l \<leftarrow> get_at xs (2 * parent + 1);
        pick \<leftarrow> (if 2 * parent + 2 < n then do {
                  r \<leftarrow> get_at xs (2 * parent + 2);
                  Some (if in_order compare order l r then 2 * parent + 1 else 2 * parent + 2)
                } else Some (2 * parent + 1));
        c \<leftarrow> get_at xs pick;
        p \<leftarrow> get_at xs parent;
        if in_order compare order c p then do {
          ys \<leftarrow> XSwap xs pick parent;
          AdjustDwon compare order n (2 * parent + 1) ys
        }
        else Some xs
      }
      else Some xs)"

definition VXPriorityQueue_push :: "bool \<Rightarrow> 'a XPriorityQueue \<Rightarrow> 'a \<Rightarrow> 'a XPriorityQueue option" where
  "VXPriorityQueue_push room q value = do {
     let items = (if room then pq_items q @ [value] else pq_items q);
     let n = size_sub (length items) 1;
     ys \<leftarrow> (if 0 < n then AdjustUp (pq_compare q) (pq_order q) n items else Some items);
     Some (q\<lparr>pq_items := ys\<rparr>)
   }"

definition VXPriorityQueue_pop :: "'a XPriorityQueue \<Rightarrow> 'a XPriorityQueue option" where
  "VXPriorityQueue_pop q =
     (if pq_items q = [] then Some q
      else do {
        let items = pq_items q;
        let n = length items;
        ys \<leftarrow> (if 1 < n then AdjustDwon (pq_compare q) (pq_order q) n 0 (items[0 := items ! (n - 1)])
               else Some items);
        Some (q\<lparr>pq_items := take (n - 1) ys\<rparr>)
      })"

definition VXPriorityQueue_top :: "'a XPriorityQueue \<Rightarrow> 'a option" where
  "VXPriorityQueue_top q = (if pq_items q = [] then None else Some (pq_items q ! 0))"

text \<open>The buffer's new content, if any, and the queue afterwards.\<close>

definition VXPriorityQueue_receive :: "'a XPriorityQueue \<Rightarrow> ('a option \<times> 'a XPriorityQueue) option" where
  "VXPriorityQueue_receive q =
     (case VXPriorityQueue_top q of
        None \<Rightarrow> Some (None, q)
      | Some x \<Rightarrow> map_option (\<lambda>q'. (Some x, q')) (VXPriorityQueue_pop q))"

text \<open>
  Removal: \<open>xs\<close> is the block of the vector, of which the first \<open>size\<close> slots are in use; the
  slot just given up is still read.
\<close>

partial_function (option) pq_remove_loop ::
  "'a compare \<Rightarrow> XSortOrder \<Rightarrow> 'a \<Rightarrow> nat \<Rightarrow> nat \<Rightarrow> nat \<Rightarrow> nat \<Rightarrow> 'a list \<Rightarrow> (nat \<times> 'a list) option" where
  "pq_remove_loop compare order value n i removed current_size xs =
     (if i < current_size \<and> removed < n then do {
        x \<leftarrow> get_at xs i;
        if compare x value = XCompare_Equality then do {
          moved \<leftarrow> get_at xs (current_size - 1);
          let ys = (if i < current_size - 1 then xs[i := moved] else xs);
          zs \<leftarrow> (if 0 < current_size - 1 then do {
                  c \<leftarrow> get_at ys i;
                  p \<leftarrow> get_at ys (if i = 0 then 0 else (i - 1) div 2);
                  if 0 < i \<and> (order = XSORT_ASC \<and> compare c p = XCompare_Less \<or>
                      order = XSORT_DESC \<and> compare c p = XCompare_Greater)
                  then AdjustUp compare order i ys
                  else AdjustDwon compare order (current_size - 1) i ys
                } else Some ys);
          pq_remove_loop compare order value n i (removed + 1) (current_size - 1) zs
        }
        else pq_remove_loop compare order value n (i + 1) removed current_size xs
      }
      else Some (removed, take current_size xs))"

definition XPriorityQueue_remove :: "'a XPriorityQueue \<Rightarrow> 'a \<Rightarrow> nat \<Rightarrow> (nat \<times> 'a XPriorityQueue) option" where
  "XPriorityQueue_remove q value n =
     (if n = 0 \<or> pq_items q = [] then Some (0, q)
      else do {
        compare \<leftarrow> pq_match q;
        (removed, xs) \<leftarrow> pq_remove_loop compare (pq_order q) value n 0 0 (length (pq_items q)) (pq_items q);
        Some (removed, q\<lparr>pq_items := xs\<rparr>)
      })"

end
