(* ===== verification/PriorityQueueProps.thy ===== *)
theory PriorityQueueProps
  imports PriorityQueue SortProps HeapProps
begin

text \<open>
  The priority queue. Pushing keeps the heap, so the element received after any number of pushes comes first
  in the order; receiving does not keep it, and can lose one of two elements of equal priority; removing
  through another comparison can take out the wrong element.
\<close>

definition heap_parent :: "nat \<Rightarrow> nat" where
  "heap_parent c = (c - 1) div 2"

lemma heap_parent_less: "0 < c \<Longrightarrow> heap_parent c < c"
  by (simp add: heap_parent_def)

lemma heap_parent_child: "0 < c \<Longrightarrow> heap_parent c = p \<longleftrightarrow> c = 2 * p + 1 \<or> c = 2 * p + 2"
  unfolding heap_parent_def by presburger

context comparison
begin

text \<open>A heap but for the element at \<open>c\<close>, which may come before its parent.\<close>

definition up_inv :: "'a list \<Rightarrow> nat \<Rightarrow> bool" where
  "up_inv xs c \<longleftrightarrow>
     (\<forall>d. 0 < d \<longrightarrow> d < length xs \<longrightarrow> d \<noteq> c \<longrightarrow> le (xs ! heap_parent d) (xs ! d)) \<and>
     (\<forall>d. 0 < c \<longrightarrow> 0 < d \<longrightarrow> d < length xs \<longrightarrow> heap_parent d = c \<longrightarrow> le (xs ! heap_parent c) (xs ! d))"

lemma up_inv_swap:
  assumes inv: "up_inv xs c" and c: "0 < c" "c < length xs" and ord: "le (xs ! c) (xs ! heap_parent c)"
  shows "up_inv (swapped xs c (heap_parent c)) (heap_parent c)"
proof -
  define p where "p = heap_parent c"
  have p: "p < c" "p < length xs" using c heap_parent_less [OF c(1)] by (simp_all add: p_def)
  note nth = nth_swapped [OF c(2) p(2)]
  have heap: "le (xs ! heap_parent d) (xs ! d)" if "0 < d" "d < length xs" "d \<noteq> c" for d
    using inv that by (simp add: up_inv_def)
  have below: "le (xs ! p) (xs ! d)" if "0 < d" "d < length xs" "heap_parent d = c" for d
    using inv that c(1) by (simp add: up_inv_def p_def)
  have ord': "le (xs ! c) (xs ! p)" using ord by (simp add: p_def)
  have "le (swapped xs c p ! heap_parent d) (swapped xs c p ! d)" if d: "0 < d" "d < length xs" "d \<noteq> p" for d
  proof -
    have dp: "heap_parent d \<noteq> d" using heap_parent_less [OF d(1)] by simp
    consider "d = c" | "d \<noteq> c" "heap_parent d = p" | "d \<noteq> c" "heap_parent d = c"
      | "d \<noteq> c" "heap_parent d \<noteq> p" "heap_parent d \<noteq> c" by blast
    then show ?thesis
    proof cases
      case 1
      then show ?thesis unfolding nth using ord' p(1) by (simp add: p_def)
    next
      case 2
      then have "le (xs ! c) (xs ! d)" using heap [OF d(1,2)] le_trans [OF ord'] by simp
      then show ?thesis unfolding nth using 2 d(3) p(1) by simp
    next
      case 3
      then show ?thesis unfolding nth using below [OF d(1,2)] d(3) p(1) by simp
    next
      case 4
      then show ?thesis unfolding nth using heap [OF d(1,2)] d(3) by simp
    qed
  qed
  moreover have "le (swapped xs c p ! heap_parent p) (swapped xs c p ! d)"
    if d: "0 < p" "0 < d" "d < length xs" "heap_parent d = p" for d
  proof -
    have up: "le (xs ! heap_parent p) (xs ! p)" using heap [OF d(1) p(2)] p(1) by simp
    have ne: "heap_parent p \<noteq> p" "heap_parent p \<noteq> c" "d \<noteq> p"
      using heap_parent_less [OF d(1)] heap_parent_less [OF d(2)] p(1) d(4) by auto
    have "le (xs ! heap_parent p) (xs ! d)" if "d \<noteq> c"
      using heap [OF d(2,3) that] le_trans [OF up] d(4) by simp
    then show ?thesis unfolding nth using up ne by simp
  qed
  ultimately show ?thesis by (simp add: up_inv_def flip: p_def)
qed

lemma up_inv_keep:
  assumes inv: "up_inv xs c" and c: "0 < c" "c < length xs" and ord: "\<not> le (xs ! c) (xs ! heap_parent c)"
  shows "up_inv xs (heap_parent c)"
proof -
  have heap: "le (xs ! heap_parent d) (xs ! d)" if "0 < d" "d < length xs" for d
    using inv that not_le [OF ord] by (cases "d = c") (simp_all add: up_inv_def)
  moreover have "heap_parent c < length xs" using heap_parent_less [OF c(1)] c(2) by simp
  ultimately show ?thesis using le_trans unfolding up_inv_def by metis
qed

lemma AdjustUp_heap:
  assumes "0 < c" and "c < length xs" and "up_inv xs c"
  shows "\<exists>ys. AdjustUp compare order c xs = Some ys \<and> mset ys = mset xs \<and> heap_from False ys (length xs) 0"
  using assms
proof (induction c arbitrary: xs rule: less_induct)
  case (less c)
  let ?p = "heap_parent c"
  let ?ys = "if le (xs ! c) (xs ! ?p) then swapped xs c ?p else xs"
  have p: "?p < c" "?p < length xs" using less.prems heap_parent_less [of c] by auto
  have ys: "up_inv ?ys ?p" "length ?ys = length xs" "mset ?ys = mset xs"
    using up_inv_swap [OF less.prems(3,1,2)] up_inv_keep [OF less.prems(3,1,2)] less.prems(2) p by simp_all
  have nonempty: "xs \<noteq> []" using less.prems(2) by auto
  have sub: "size_sub c 1 div 2 = ?p" using less.prems(1) by (simp add: heap_parent_def)
  have step: "AdjustUp compare order c xs = (if ?p = 0 then Some ?ys else AdjustUp compare order ?p ?ys)"
    using less.prems(2) p(2) nonempty by (subst AdjustUp.simps) (simp only: Let_def sub, simp)
  show ?case
  proof (cases "?p = 0")
    case True
    then have "heap_from False ?ys (length xs) 0"
      using ys(1,2) by (simp add: up_inv_def heap_from_def above_def heap_parent_def)
    then show ?thesis using step True ys(3) by (metis option.inject)
  next
    case False
    then have "?p < length ?ys" "0 < ?p" using p(2) ys(2) by simp_all
    then obtain zs where "AdjustUp compare order ?p ?ys = Some zs" "mset zs = mset ?ys"
      "heap_from False zs (length ?ys) 0"
      using less.IH [OF p(1) _ _ ys(1)] by blast
    then show ?thesis using step False ys(2,3) by (metis option.inject)
  qed
qed

lemma push_items:
  assumes "heap_from False xs (length xs) 0" and "xs \<noteq> []"
  shows "\<exists>zs. AdjustUp compare order (length xs) (xs @ [x]) = Some zs \<and> mset zs = add_mset x (mset xs) \<and>
    heap_from False zs (length zs) 0"
proof -
  have "le ((xs @ [x]) ! heap_parent d) ((xs @ [x]) ! d)" if "0 < d" "d < length xs" for d
    using assms(1) heap_parent_less [OF that(1)] that
    by (simp add: heap_from_def above_def heap_parent_def nth_append)
  moreover have "heap_parent d \<noteq> length xs" if "0 < d" "d < length (xs @ [x])" for d
    using heap_parent_less [OF that(1)] that(2) by simp
  ultimately have "up_inv (xs @ [x]) (length xs)"
    using assms(2) unfolding up_inv_def by (auto simp: less_Suc_eq)
  then obtain zs where zs: "AdjustUp compare order (length xs) (xs @ [x]) = Some zs" "mset zs = mset (xs @ [x])"
    "heap_from False zs (length (xs @ [x])) 0"
    using AdjustUp_heap [of "length xs" "xs @ [x]"] assms(2) by auto
  moreover have "length zs = length (xs @ [x])" using zs(2) by (metis size_mset)
  ultimately show ?thesis by simp
qed

end

section \<open>The queue\<close>

definition pq_heap :: "'a XPriorityQueue \<Rightarrow> bool" where
  "pq_heap q \<longleftrightarrow> (\<forall>c. 0 < c \<longrightarrow> c < length (pq_items q) \<longrightarrow>
     in_order (pq_compare q) (pq_order q) (pq_items q ! ((c - 1) div 2)) (pq_items q ! c))"

fun pq_push_all :: "'a XPriorityQueue \<Rightarrow> 'a list \<Rightarrow> 'a XPriorityQueue option" where
  "pq_push_all q [] = Some q"
| "pq_push_all q (x # xs) = do {
     q' \<leftarrow> VXPriorityQueue_push True q x;
     pq_push_all q' xs
   }"

lemma pq_heap_code [code]:
  "pq_heap q \<longleftrightarrow> (\<forall>c\<in>set [1..<length (pq_items q)].
     in_order (pq_compare q) (pq_order q) (pq_items q ! ((c - 1) div 2)) (pq_items q ! c))"
  by (auto simp: pq_heap_def)

lemma pq_heap_from:
  assumes "total_compare (pq_compare q)"
  shows "pq_heap q \<longleftrightarrow>
    comparison.heap_from (pq_compare q) (pq_order q) False (pq_items q) (length (pq_items q)) 0"
  by (simp add: pq_heap_def comparison.heap_from_def [OF comparison.intro [OF assms]]
      comparison.above_def [OF comparison.intro [OF assms]])

lemma pq_push_heap:
  assumes tc: "total_compare (pq_compare q)" and heap: "pq_heap q"
  shows "\<exists>q'. VXPriorityQueue_push True q x = Some q' \<and> pq_heap q' \<and>
    mset (pq_items q') = add_mset x (mset (pq_items q)) \<and> pq_compare q' = pq_compare q \<and> pq_order q' = pq_order q"
proof (cases "pq_items q = []")
  case True
  then show ?thesis by (simp add: VXPriorityQueue_push_def pq_heap_def)
next
  case False
  obtain zs where zs: "AdjustUp (pq_compare q) (pq_order q) (length (pq_items q)) (pq_items q @ [x]) = Some zs"
    "mset zs = add_mset x (mset (pq_items q))"
    "comparison.heap_from (pq_compare q) (pq_order q) False zs (length zs) 0"
    using comparison.push_items [OF comparison.intro [OF tc] heap [unfolded pq_heap_from [OF tc]] False] by blast
  then show ?thesis
    using False pq_heap_from [of "q\<lparr>pq_items := zs\<rparr>"] tc by (simp add: VXPriorityQueue_push_def)
qed

lemma pq_push_all_heap:
  assumes "total_compare (pq_compare q)" and "pq_heap q"
  shows "\<exists>q'. pq_push_all q xs = Some q' \<and> pq_heap q' \<and> mset (pq_items q') = mset xs + mset (pq_items q) \<and>
    pq_compare q' = pq_compare q \<and> pq_order q' = pq_order q"
  using assms
proof (induction xs arbitrary: q)
  case (Cons x xs)
  obtain q1 where q1: "VXPriorityQueue_push True q x = Some q1" "pq_heap q1"
    "mset (pq_items q1) = add_mset x (mset (pq_items q))" "pq_compare q1 = pq_compare q" "pq_order q1 = pq_order q"
    using pq_push_heap [OF Cons.prems] by blast
  then obtain q2 where "pq_push_all q1 xs = Some q2" "pq_heap q2" "mset (pq_items q2) = mset xs + mset (pq_items q1)"
    "pq_compare q2 = pq_compare q1" "pq_order q2 = pq_order q1"
    using Cons.IH [of q1] Cons.prems by auto
  then show ?case using q1 by auto
qed simp

lemma pq_top_first:
  assumes tc: "total_compare (pq_compare q)" and "pq_heap q" and "y \<in> set (pq_items q)"
  shows "in_order (pq_compare q) (pq_order q) (pq_items q ! 0) y"
proof -
  obtain k where "k < length (pq_items q)" "y = pq_items q ! k" using assms(3) by (auto simp: in_set_conv_nth)
  then show ?thesis
    using comparison.heap_top [OF comparison.intro [OF tc] assms(2) [unfolded pq_heap_from [OF tc]]]
    by (simp add: comparison.above_def [OF comparison.intro [OF tc]])
qed

lemma AdjustDwon_returns:
  assumes "n \<le> length xs"
  shows "\<exists>ys. AdjustDwon compare order n parent xs = Some ys \<and> length ys = length xs"
  using assms
proof (induction "n - parent" arbitrary: parent xs rule: less_induct)
  case less
  show ?case
  proof (cases "2 * parent + 1 < n")
    case True
    have step: "\<exists>ys. AdjustDwon compare order n (2 * parent + 1) zs = Some ys \<and> length ys = length xs"
      if "length zs = length xs" for zs
      using less.hyps [of "2 * parent + 1" zs] less.prems True that by auto
    then show ?thesis
      using True less.prems by (subst AdjustDwon.simps) (auto split: if_splits)
  next
    case False
    then show ?thesis by (subst AdjustDwon.simps) simp
  qed
qed

lemma pq_receive_returns:
  assumes "pq_items q \<noteq> []"
  shows "\<exists>q'. VXPriorityQueue_receive q = Some (Some (pq_items q ! 0), q') \<and>
    length (pq_items q') = length (pq_items q) - 1"
proof (cases "1 < length (pq_items q)")
  case True
  obtain ys where "AdjustDwon (pq_compare q) (pq_order q) (length (pq_items q)) 0
      ((pq_items q)[0 := pq_items q ! (length (pq_items q) - 1)]) = Some ys" "length ys = length (pq_items q)"
    using AdjustDwon_returns [where n = "length (pq_items q)" and parent = 0 and compare = "pq_compare q" and
        order = "pq_order q" and xs = "(pq_items q)[0 := pq_items q ! (length (pq_items q) - 1)]"]
    by auto
  then show ?thesis
    using assms True by (simp add: VXPriorityQueue_receive_def VXPriorityQueue_top_def VXPriorityQueue_pop_def)
next
  case False
  then show ?thesis
    using assms by (simp add: VXPriorityQueue_receive_def VXPriorityQueue_top_def VXPriorityQueue_pop_def)
qed

text \<open>Whatever the comparison, sifting up permutes the elements and leaves those after the child.\<close>

lemma AdjustUp_permutes:
  assumes "0 < c" and "c < length xs"
  shows "\<exists>zs. AdjustUp cmp order c xs = Some zs \<and> mset zs = mset xs \<and> (\<forall>j>c. j < length xs \<longrightarrow> zs ! j = xs ! j)"
  using assms
proof (induction c arbitrary: xs rule: less_induct)
  case (less c)
  let ?p = "heap_parent c"
  let ?ys = "if in_order cmp order (xs ! c) (xs ! ?p) then swapped xs c ?p else xs"
  have p: "?p < c" "?p < length xs" using less.prems heap_parent_less [of c] by auto
  have ys: "length ?ys = length xs" "mset ?ys = mset xs" "\<forall>j>c. j < length xs \<longrightarrow> ?ys ! j = xs ! j"
    using less.prems(2) p by (simp_all add: nth_swapped)
  have nonempty: "xs \<noteq> []" using less.prems(2) by auto
  have sub: "size_sub c 1 div 2 = ?p" using less.prems(1) by (simp add: heap_parent_def)
  have step: "AdjustUp cmp order c xs = (if ?p = 0 then Some ?ys else AdjustUp cmp order ?p ?ys)"
    using less.prems(2) p(2) nonempty by (subst AdjustUp.simps) (simp only: Let_def sub, simp)
  show ?case
  proof (cases "?p = 0")
    case True
    then show ?thesis using step ys(2,3) by (metis option.inject)
  next
    case False
    then have "0 < ?p" "?p < length ?ys" using p(2) ys(1) by simp_all
    from less.IH [OF p(1) this] obtain zs where zs: "AdjustUp cmp order ?p ?ys = Some zs" "mset zs = mset ?ys"
      "\<forall>j>?p. j < length ?ys \<longrightarrow> zs ! j = ?ys ! j"
      by blast
    have "zs ! j = xs ! j" if "c < j" "j < length xs" for j
      using zs(3) ys(1,3) that less_trans [OF p(1) that(1)] by metis
    then show ?thesis using step False zs(1,2) ys(2) by (intro exI [of _ zs]) (simp only: if_False simp_thms, blast)
  qed
qed

text \<open>One step up: the element of the child's place is then that of its parent.\<close>

lemma AdjustUp_exchanges:
  assumes "0 < c" and "c < length xs" and ord: "in_order cmp order (xs ! c) (xs ! heap_parent c)"
  shows "\<exists>zs. AdjustUp cmp order c xs = Some zs \<and> mset zs = mset xs \<and> zs ! c = xs ! heap_parent c"
proof -
  let ?p = "heap_parent c" and ?ys = "swapped xs c (heap_parent c)"
  have p: "?p < c" "?p < length xs" using assms heap_parent_less [of c] by auto
  have nonempty: "xs \<noteq> []" using assms(2) by auto
  have ys: "length ?ys = length xs" "mset ?ys = mset xs" "?ys ! c = xs ! ?p"
    using assms(2) p by (simp_all add: nth_swapped)
  have sub: "size_sub c 1 div 2 = ?p" using assms(1) by (simp add: heap_parent_def)
  have step: "AdjustUp cmp order c xs = (if ?p = 0 then Some ?ys else AdjustUp cmp order ?p ?ys)"
    using assms(2) ord p(2) nonempty by (subst AdjustUp.simps) (simp only: Let_def sub, simp)
  show ?thesis
  proof (cases "?p = 0")
    case False
    then obtain zs where "AdjustUp cmp order ?p ?ys = Some zs" "mset zs = mset ?ys" "zs ! c = ?ys ! c"
      using AdjustUp_permutes [where c = ?p and xs = ?ys and cmp = cmp and order = order] p assms(2) ys(1) by auto
    then show ?thesis using step False ys by simp
  qed (use step ys in simp)
qed

lemma pq_remove_loop_skips:
  assumes "\<forall>y\<in>set ys. cmp y v \<noteq> XCompare_Equality" and "0 < n" and "i \<le> length ys"
  shows "pq_remove_loop cmp order v n i 0 (length ys + 1) (ys @ [c]) =
    pq_remove_loop cmp order v n (length ys) 0 (length ys + 1) (ys @ [c])"
  using assms(3)
proof (induction "length ys - i" arbitrary: i)
  case (Suc d)
  then have i: "i < length ys" by simp
  then have "cmp (ys ! i) v \<noteq> XCompare_Equality" using assms(1) by simp
  then have "pq_remove_loop cmp order v n i 0 (length ys + 1) (ys @ [c]) =
      pq_remove_loop cmp order v n (i + 1) 0 (length ys + 1) (ys @ [c])"
    using i assms(2) by (subst pq_remove_loop.simps) (simp add: nth_append)
  then show ?case using Suc.hyps(1) [of "i + 1"] Suc.hyps(2) i by simp
qed simp

text \<open>The last element is searched for, and found to come before its parent.\<close>

lemma pq_remove_last:
  assumes ys: "ys \<noteq> []" "\<forall>y\<in>set ys. cmp y v \<noteq> XCompare_Equality" and c: "cmp c v = XCompare_Equality" and n: "0 < n"
    and up: "order = XSORT_ASC \<and> cmp c (ys ! heap_parent (length ys)) = XCompare_Less \<or>
      order = XSORT_DESC \<and> cmp c (ys ! heap_parent (length ys)) = XCompare_Greater"
  shows "\<exists>zs. pq_remove_loop cmp order v n 0 0 (length ys + 1) (ys @ [c]) = Some (1, zs) \<and>
    add_mset (ys ! heap_parent (length ys)) (mset zs) = mset (ys @ [c])"
proof -
  let ?k = "length ys" and ?xs = "ys @ [c]"
  have k: "0 < ?k" "heap_parent ?k < ?k" using ys(1) heap_parent_less [of ?k] by simp_all
  have par: "?xs ! heap_parent ?k = ys ! heap_parent ?k" "(?k - 1) div 2 = heap_parent ?k"
    using k by (simp_all add: nth_append heap_parent_def)
  have "in_order cmp order (?xs ! ?k) (?xs ! heap_parent ?k)"
    using up unfolding par(1) by (auto simp: in_order_def XCompare_defs)
  then obtain zs where zs: "AdjustUp cmp order ?k ?xs = Some zs" "mset zs = mset ?xs" "zs ! ?k = ys ! heap_parent ?k"
    using AdjustUp_exchanges [of ?k ?xs cmp order] k(1) par(1) by auto
  have len: "length zs = ?k + 1" using mset_eq_length [OF zs(2)] by simp
  have "pq_remove_loop cmp order v n ?k 0 (?k + 1) ?xs = pq_remove_loop cmp order v n ?k 1 ?k zs"
    using n c k up zs(1) par by (subst pq_remove_loop.simps) (simp add: nth_append)
  also have "\<dots> = Some (1, take ?k zs)" by (subst pq_remove_loop.simps) simp
  finally have "pq_remove_loop cmp order v n 0 0 (?k + 1) ?xs = Some (1, take ?k zs)"
    using pq_remove_loop_skips [where cmp = cmp and order = order and i = 0 and c = c] ys(2) n by simp
  moreover have "zs = take ?k zs @ [zs ! ?k]" using len by (metis Suc_eq_plus1 lessI take_Suc_conv_app_nth take_all order_refl)
  then have "add_mset (zs ! ?k) (mset (take ?k zs)) = mset zs" by (metis mset_append add_mset_add_single mset_single_iff_right)
  ultimately show ?thesis using zs(2,3) by auto
qed

definition pq_of :: "'a compare \<Rightarrow> XSortOrder \<Rightarrow> 'a list \<Rightarrow> 'a XPriorityQueue" where
  "pq_of compare order items = \<lparr>pq_items = items, pq_order = order, pq_compare = compare, pq_match = None\<rparr>"

lemma receive_seven:
  assumes "in_order compare order b l" and "\<not> in_order compare order a b" and "\<not> in_order compare order c a"
    and "\<not> in_order compare order d a"
  shows "VXPriorityQueue_receive (pq_of compare order [x, a, b, c, d, e, l]) =
    Some (Some x, pq_of compare order [b, a, l, c, d, e])"
proof -
  have "AdjustDwon compare order 7 1 [b, a, l, c, d, e, l] = Some [b, a, l, c, d, e, l]"
    using assms by (subst AdjustDwon.simps) (simp add: nth_Cons')
  then have "AdjustDwon compare order 7 0 [l, a, b, c, d, e, l] = Some [b, a, l, c, d, e, l]"
    using assms by (subst AdjustDwon.simps) (simp add: nth_Cons')
  then show ?thesis
    by (simp add: VXPriorityQueue_receive_def VXPriorityQueue_top_def VXPriorityQueue_pop_def pq_of_def eval_nat_numeral)
qed

lemma receive_four:
  assumes "in_order compare order g h" and "\<not> in_order compare order f g" and "in_order compare order h f"
  shows "VXPriorityQueue_receive (pq_of compare order [y, f, g, h]) = Some (Some y, pq_of compare order [g, h, h])"
proof -
  have "AdjustDwon compare order 4 3 [g, h, h, f] = Some [g, h, h, f]"
    by (subst AdjustDwon.simps) simp
  then have "AdjustDwon compare order 4 1 [g, f, h, h] = Some [g, h, h, f]"
    using assms by (subst AdjustDwon.simps) (simp add: nth_Cons')
  then have "AdjustDwon compare order 4 0 [h, f, g, h] = Some [g, h, h, f]"
    using assms by (subst AdjustDwon.simps) (simp add: nth_Cons')
  then show ?thesis
    by (simp add: VXPriorityQueue_receive_def VXPriorityQueue_top_def VXPriorityQueue_pop_def pq_of_def eval_nat_numeral)
qed

declare AdjustUp.simps [code] AdjustDwon.simps [code] pq_remove_loop.simps [code]

section \<open>Properties\<close>

text \<open>
  C31: After any number of elements has been pushed onto a new queue, the element received first is one of them
  and comes before all of them in the queue's order, and one element fewer is left.
\<close>

theorem pq_first_received:
  assumes "total_compare compare" and "xs \<noteq> []"
  shows "\<exists>q q' x. pq_push_all (XPriorityQueue_init compare order) xs = Some q \<and> mset (pq_items q) = mset xs \<and>
    VXPriorityQueue_receive q = Some (Some x, q') \<and> x \<in> set xs \<and> (\<forall>y\<in>set xs. in_order compare order x y) \<and>
    length (pq_items q') = length xs - 1"
proof -
  let ?q0 = "XPriorityQueue_init compare order"
  have "pq_heap ?q0" by (simp add: pq_heap_def XPriorityQueue_init_def)
  then obtain q where q: "pq_push_all ?q0 xs = Some q" "pq_heap q" "mset (pq_items q) = mset xs"
    "pq_compare q = compare" "pq_order q = order"
    using pq_push_all_heap [of ?q0 xs] assms(1) by (auto simp: XPriorityQueue_init_def)
  have same: "set (pq_items q) = set xs" "length (pq_items q) = length xs"
    using mset_eq_setD [OF q(3)] mset_eq_length [OF q(3)] by simp_all
  then have ne: "pq_items q \<noteq> []" using assms(2) by auto
  then show ?thesis
    using q(1,3) same pq_receive_returns [OF ne] pq_top_first [of q] assms(1) q(2,4,5)
    by (auto simp: nth_mem) (metis length_greater_0_conv nth_mem)
qed

lemma pq_first_received_witness:
  "\<exists>q q' x. pq_push_all (XPriorityQueue_init int_compare XSORT_DESC) [3, 8, 5] = Some q \<and>
    mset (pq_items q) = mset [3, 8, 5] \<and> VXPriorityQueue_receive q = Some (Some x, q') \<and> x \<in> set [3, 8, 5] \<and>
    (\<forall>y\<in>set [3, 8, 5]. in_order int_compare XSORT_DESC x y) \<and> length (pq_items q') = length [3, 8, 5 :: int] - 1"
  by (rule pq_first_received [OF int_compare_total]) simp

text \<open>
  C39: Receiving does not keep the heap: the loop that sifts down goes on below the left child when it exchanged the
  right one. From any heap of seven elements whose third comes strictly before the second, the second strictly
  before the fourth and fifth, and the sixth strictly before the seventh, receiving leaves the sixth below the
  seventh, which it comes before. And from any heap of four elements whose third comes strictly before the
  second, when the second and fourth have one priority, the second is lost and the fourth stays in the queue
  twice.
\<close>

theorem pq_receive_breaks_heap:
  assumes "total_compare compare" and "le = in_order compare order"
  shows "(pq_heap (pq_of compare order [x, a, b, c, d, e, l]) \<and> \<not> le a b \<and> \<not> le c a \<and> \<not> le d a \<and> \<not> le l e \<longrightarrow>
      VXPriorityQueue_receive (pq_of compare order [x, a, b, c, d, e, l]) =
        Some (Some x, pq_of compare order [b, a, l, c, d, e]) \<and>
      \<not> pq_heap (pq_of compare order [b, a, l, c, d, e])) \<and>
    (pq_heap (pq_of compare order [y, f, g, h]) \<and> \<not> le f g \<and> le h f \<longrightarrow>
      VXPriorityQueue_receive (pq_of compare order [y, f, g, h]) = Some (Some y, pq_of compare order [g, h, h]))"
proof -
  have so: "sort_order le" using in_order_sort_order [OF assms(1)] assms(2) by simp
  have heap: "le (xs ! ((k - 1) div 2)) (xs ! k)" if "pq_heap (pq_of compare order xs)" "0 < k" "k < length xs" for xs k
    using that assms(2) by (simp add: pq_heap_def pq_of_def)
  have seven: "VXPriorityQueue_receive (pq_of compare order [x, a, b, c, d, e, l]) =
        Some (Some x, pq_of compare order [b, a, l, c, d, e]) \<and>
      \<not> pq_heap (pq_of compare order [b, a, l, c, d, e])" if H: "pq_heap (pq_of compare order [x, a, b, c, d, e, l])" "\<not> le a b" "\<not> le c a" "\<not> le d a" "\<not> le l e"
  proof -
    have "le b l" using heap [OF H(1), of 6] by simp
    then have "VXPriorityQueue_receive (pq_of compare order [x, a, b, c, d, e, l]) =
        Some (Some x, pq_of compare order [b, a, l, c, d, e])"
      using H(2-4) unfolding assms(2) by (rule receive_seven)
    moreover have "\<not> pq_heap (pq_of compare order [b, a, l, c, d, e])"
      using heap [of "[b, a, l, c, d, e]" 5] H(5) by auto
    ultimately show ?thesis by simp
  qed
  have four: "VXPriorityQueue_receive (pq_of compare order [y, f, g, h]) = Some (Some y, pq_of compare order [g, h, h])" if H: "pq_heap (pq_of compare order [y, f, g, h])" "\<not> le f g" "le h f"
  proof -
    have "le g f" using sort_order.not_le [OF so H(2)] .
    moreover have "le f h" using heap [OF H(1), of 3] by simp
    ultimately have "le g h" using sort_order.le_trans [OF so] by blast
    then show ?thesis using H(2,3) sort_order.le_refl [OF so] unfolding assms(2) by (intro receive_four)
  qed
  show ?thesis using seven four by blast
qed

lemma pq_receive_breaks_heap_witness:
  "VXPriorityQueue_receive (pq_of int_compare XSORT_ASC [1, 3, 2, 6, 7, 4, 5]) =
      Some (Some 1, pq_of int_compare XSORT_ASC [2, 3, 5, 6, 7, 4]) \<and>
    VXPriorityQueue_receive (pq_of int_compare XSORT_ASC [1, 5, 2, 5]) = Some (Some 1, pq_of int_compare XSORT_ASC [2, 5, 5])"
proof -
  have "pq_heap (pq_of int_compare XSORT_ASC [1, 3, 2, 6, 7, 4, 5])" "pq_heap (pq_of int_compare XSORT_ASC [1, 5, 2, 5])"
    by code_simp+
  then show ?thesis
    using pq_receive_breaks_heap [OF int_compare_total refl, of XSORT_ASC 1 3 2 6 7 4 5 1 5 2 5]
    by (simp add: in_order_asc int_compare_total int_compare_def XCompare_defs)
qed

text \<open>
  C40: Removal repairs the heap with the comparison it searches with. When that is not the priority, as in the
  thread pool, which searches by address, it can report an element removed that stays in the queue and drop
  another: if only the last element of the queue is searched for, and it comes before its parent in the heap
  by the comparison searched with, the parent goes. On a queue whose base class has no comparison, as it is
  initialised, removal from a queue that is not empty calls through NULL.
\<close>

theorem pq_remove_wrong_element:
  assumes "ys \<noteq> []" and "\<forall>y\<in>set ys. search y v \<noteq> XCompare_Equality" and "search c v = XCompare_Equality" and "0 < n"
    and "pq_items q = ys @ [c]" and "pq_match q = Some search"
    and "pq_order q = XSORT_ASC \<and> search c (ys ! ((length ys - 1) div 2)) = XCompare_Less \<or>
      pq_order q = XSORT_DESC \<and> search c (ys ! ((length ys - 1) div 2)) = XCompare_Greater"
  shows "(\<exists>zs. XPriorityQueue_remove q v n = Some (1, q\<lparr>pq_items := zs\<rparr>) \<and> c \<in> set zs \<and>
      add_mset (ys ! ((length ys - 1) div 2)) (mset zs) = mset (pq_items q)) \<and>
    XPriorityQueue_remove (q\<lparr>pq_match := pq_match (XPriorityQueue_init compare order)\<rparr>) v n = None"
proof -
  obtain zs where zs: "pq_remove_loop search (pq_order q) v n 0 0 (length ys + 1) (ys @ [c]) = Some (1, zs)"
    "add_mset (ys ! heap_parent (length ys)) (mset zs) = mset (ys @ [c])"
    using pq_remove_last [where cmp = search and order = "pq_order q" and ys = ys and c = c] assms(1-4,7)
    unfolding heap_parent_def by blast
  have "heap_parent (length ys) < length ys" using assms(1) by (intro heap_parent_less) simp
  then have "ys ! heap_parent (length ys) \<noteq> c" using assms(2,3) nth_mem by metis
  moreover have "c \<in># add_mset (ys ! heap_parent (length ys)) (mset zs)" using zs(2) by simp
  ultimately have "c \<in> set zs" by auto
  moreover have "XPriorityQueue_remove q v n = Some (1, q\<lparr>pq_items := zs\<rparr>)"
    using zs(1) assms(4,5,6) by (simp add: XPriorityQueue_remove_def)
  moreover have "XPriorityQueue_remove (q\<lparr>pq_match := pq_match (XPriorityQueue_init compare order)\<rparr>) v n = None"
    using assms(4,5) by (simp add: XPriorityQueue_remove_def XPriorityQueue_init_def)
  ultimately show ?thesis using zs(2) assms(5) by (auto simp: heap_parent_def)
qed

definition three_tasks :: "(int \<times> int) XPriorityQueue" where
  "three_tasks = \<lparr>pq_items = [(1, 5), (2, 9), (3, 1)], pq_order = XSORT_ASC, pq_compare = (\<lambda>x y. int_compare (fst x) (fst y)),
     pq_match = Some (\<lambda>x y. int_compare (snd x) (snd y))\<rparr>"

lemma pq_remove_wrong_element_witness:
  "\<exists>zs. XPriorityQueue_remove three_tasks (0, 1) 1 = Some (1, three_tasks\<lparr>pq_items := zs\<rparr>) \<and> (3, 1) \<in> set zs \<and>
    add_mset (1, 5) (mset zs) = mset [(1, 5), (2, 9), (3, 1)]"
  using pq_remove_wrong_element [of "[(1, 5), (2, 9)]" "\<lambda>x y. int_compare (snd x) (snd y)" "(0, 1)" "(3, 1)" 1 three_tasks]
  by (simp add: three_tasks_def int_compare_def XCompare_defs)

end
