(* ===== verification/XTree.thy ===== *)
theory XTree
  imports SortOrder
begin

text \<open>
  Linked trees, as in \<open>XCode/XAlgorithm/XTree/XTreeObject.c\<close>, \<open>XBinaryTree/XBinaryTree.c\<close>
  and the search and insertion of \<open>XBalancedBinaryTree/XBalancedBinaryTree.c\<close>. Nodes live in a
  store, a partial map from addresses to node records; a pointer is an address or NULL (\<open>None\<close>).
  Following NULL or a pointer to memory that was freed makes an operation \<open>None\<close>, and so does a loop
  that does not end. The node types derived from \<open>XTreeNode\<close> extend its record, so that the operations
  here work on all of them.
\<close>

section \<open>Nodes\<close>

type_synonym addr = nat
type_synonym ptr = "addr option"
type_synonym 'n store = "addr \<rightharpoonup> 'n"

datatype XBTreeNodeType = XBTreeLChild | XBTreeRChild

record 'a XTreeNode =
  parentNode :: ptr
  LChild :: ptr
  RChild :: ptr
  node_data :: 'a

definition XTreeNode_GetChild :: "XBTreeNodeType \<Rightarrow> ('a, 'b) XTreeNode_scheme \<Rightarrow> ptr" where
  "XTreeNode_GetChild ty n = (case ty of XBTreeLChild \<Rightarrow> LChild n | XBTreeRChild \<Rightarrow> RChild n)"

definition XTreeNode_SetChild ::
  "XBTreeNodeType \<Rightarrow> ptr \<Rightarrow> ('a, 'b) XTreeNode_scheme \<Rightarrow> ('a, 'b) XTreeNode_scheme" where
  "XTreeNode_SetChild ty p n =
     (case ty of XBTreeLChild \<Rightarrow> n\<lparr>LChild := p\<rparr> | XBTreeRChild \<Rightarrow> n\<lparr>RChild := p\<rparr>)"

definition deref :: "'n store \<Rightarrow> ptr \<Rightarrow> 'n option" where
  "deref h p = Option.bind p h"

definition modify :: "'n store \<Rightarrow> ptr \<Rightarrow> ('n \<Rightarrow> 'n) \<Rightarrow> 'n store option" where
  "modify h p f = do { a \<leftarrow> p; n \<leftarrow> h a; Some (h(a \<mapsto> f n)) }"

lemma deref_simps [simp]: "deref h (Some a) = h a" "deref h None = None"
  by (simp_all add: deref_def)

lemma modify_simps [simp]:
  "h a = Some n \<Longrightarrow> modify h (Some a) f = Some (h(a \<mapsto> f n))" "modify h None f = None"
  by (simp_all add: modify_def)

text \<open>The slot of the parent that points to a node, if there is one, and the assignment through it.\<close>

definition XTreeNode_getChildrenParentRef ::
  "('a, 'b) XTreeNode_scheme store \<Rightarrow> ptr \<Rightarrow> (addr \<times> XBTreeNodeType) option option" where
  "XTreeNode_getChildrenParentRef h x = do {
     n \<leftarrow> deref h x;
     (case parentNode n of
        None \<Rightarrow> Some None
      | Some p \<Rightarrow> do {
          m \<leftarrow> h p;
          Some (if XTreeNode_GetChild XBTreeLChild m = x then Some (p, XBTreeLChild)
                else if XTreeNode_GetChild XBTreeRChild m = x then Some (p, XBTreeRChild) else None)
        })
   }"

definition store_ref ::
  "('a, 'b) XTreeNode_scheme store \<Rightarrow> (addr \<times> XBTreeNodeType) option \<Rightarrow> ptr \<Rightarrow>
    ('a, 'b) XTreeNode_scheme store option" where
  "store_ref h ref v = do { (p, ty) \<leftarrow> ref; modify h (Some p) (XTreeNode_SetChild ty v) }"

section \<open>Rotation\<close>

text \<open>The results are the pointer returned, the root and the store.\<close>

definition XBTree_SpinRR ::
  "ptr \<Rightarrow> ptr \<Rightarrow> ('a, 'b) XTreeNode_scheme store \<Rightarrow> (ptr \<times> ptr \<times> ('a, 'b) XTreeNode_scheme store) option" where
  "XBTree_SpinRR root nodes h =
     (if nodes = None then Some (None, root, h)
      else do {
        n \<leftarrow> deref h nodes;
        let NewNode = LChild n;
        if NewNode = None then Some (None, root, h)
        else do {
          let pater = parentNode n;
          (root1, h1) \<leftarrow> (if pater = None then Some (NewNode, h)
                        else do {
                          ref \<leftarrow> XTreeNode_getChildrenParentRef h nodes;
                          h1 \<leftarrow> store_ref h ref NewNode;
                          Some (root, h1)
                        });
          h2 \<leftarrow> modify h1 NewNode (parentNode_update (\<lambda>_. pater));
          h3 \<leftarrow> modify h2 nodes (parentNode_update (\<lambda>_. NewNode));
          m \<leftarrow> deref h3 NewNode;
          h4 \<leftarrow> modify h3 nodes (LChild_update (\<lambda>_. RChild m));
          h5 \<leftarrow> (if RChild m \<noteq> None then modify h4 (RChild m) (parentNode_update (\<lambda>_. nodes)) else Some h4);
          h6 \<leftarrow> modify h5 NewNode (RChild_update (\<lambda>_. nodes));
          Some (NewNode, root1, h6)
        }
      })"

definition XBTree_SpinLL ::
  "ptr \<Rightarrow> ptr \<Rightarrow> ('a, 'b) XTreeNode_scheme store \<Rightarrow> (ptr \<times> ptr \<times> ('a, 'b) XTreeNode_scheme store) option" where
  "XBTree_SpinLL root nodes h =
     (if nodes = None then Some (None, root, h)
      else do {
        n \<leftarrow> deref h nodes;
        let NewNode = RChild n;
        if NewNode = None then Some (None, root, h)
        else do {
          let pater = parentNode n;
          (root1, h1) \<leftarrow> (if pater = None then Some (NewNode, h)
                        else do {
                          ref \<leftarrow> XTreeNode_getChildrenParentRef h nodes;
                          h1 \<leftarrow> store_ref h ref NewNode;
                          Some (root, h1)
                        });
          h2 \<leftarrow> modify h1 NewNode (parentNode_update (\<lambda>_. pater));
          h3 \<leftarrow> modify h2 nodes (parentNode_update (\<lambda>_. NewNode));
          m \<leftarrow> deref h3 NewNode;
          h4 \<leftarrow> modify h3 nodes (RChild_update (\<lambda>_. LChild m));
          h5 \<leftarrow> (if LChild m \<noteq> None then modify h4 (LChild m) (parentNode_update (\<lambda>_. nodes)) else Some h4);
          h6 \<leftarrow> modify h5 NewNode (LChild_update (\<lambda>_. nodes));
          Some (NewNode, root1, h6)
        }
      })"

section \<open>Search and insertion\<close>

text \<open>\<open>rule\<close> is the comparison rule applied to the comparison of the container.\<close>

partial_function (option) XBBTree_findNode ::
  "('a \<Rightarrow> 'k \<Rightarrow> int) \<Rightarrow> 'k \<Rightarrow> ('a, 'b) XTreeNode_scheme store \<Rightarrow> ptr \<Rightarrow> ptr option" where
  "XBBTree_findNode rule v h CurNode =
     (if CurNode = None then Some None
      else do {
        n \<leftarrow> deref h CurNode;
        if rule (node_data n) v = XCompare_Equality then Some CurNode
        else if rule (node_data n) v = XCompare_Less then XBBTree_findNode rule v h (RChild n)
        else XBBTree_findNode rule v h (LChild n)
      })"

definition link_child ::
  "XBTreeNodeType \<Rightarrow> ptr \<Rightarrow> ptr \<Rightarrow> ('a, 'b) XTreeNode_scheme store \<Rightarrow> ('a, 'b) XTreeNode_scheme store option" where
  "link_child ty insertNode currentNode h = do {
     h1 \<leftarrow> modify h currentNode (XTreeNode_SetChild ty insertNode);
     modify h1 insertNode (\<lambda>n. n\<lparr>parentNode := currentNode, LChild := None, RChild := None\<rparr>)
   }"

partial_function (option) insert_align_loop ::
  "('a \<Rightarrow> 'a \<Rightarrow> int) \<Rightarrow> ptr \<Rightarrow> ptr \<Rightarrow> ('a, 'b) XTreeNode_scheme store \<Rightarrow>
    ('a, 'b) XTreeNode_scheme store option" where
  "insert_align_loop lessRule insertNode currentNode h = do {
     m \<leftarrow> deref h insertNode;
     n \<leftarrow> deref h currentNode;
     if lessRule (node_data m) (node_data n) = XCompare_Less
     then if LChild n = None then link_child XBTreeLChild insertNode currentNode h
          else insert_align_loop lessRule insertNode (LChild n) h
     else if RChild n = None then link_child XBTreeRChild insertNode currentNode h
          else insert_align_loop lessRule insertNode (RChild n) h
   }"

text \<open>The node already holds its data. The root is \<open>None\<close> when there is no variable for it.\<close>

definition XBBTree_insertAlign ::
  "('a \<Rightarrow> 'a \<Rightarrow> int) \<Rightarrow> ptr option \<Rightarrow> ptr \<Rightarrow> ('a, 'b) XTreeNode_scheme store \<Rightarrow>
    ('a, 'b) XTreeNode_scheme store option" where
  "XBBTree_insertAlign lessRule this_root insertNode h =
     (case this_root of
        Some (Some root) \<Rightarrow> insert_align_loop lessRule insertNode (Some root) h
      | _ \<Rightarrow> Some h)"

section \<open>Traversal and deletion\<close>

text \<open>The explicit stack, a vector that is taken to grow as needed, has its top first.\<close>

partial_function (option) preorder_loop ::
  "('a, 'b) XTreeNode_scheme store \<Rightarrow> ptr list \<Rightarrow> ptr list \<Rightarrow> ptr list option" where
  "preorder_loop h stack vec =
     (case stack of
        [] \<Rightarrow> Some vec
      | currentNode # st \<Rightarrow> do {
          n \<leftarrow> deref h currentNode;
          let st1 = (if RChild n \<noteq> None then RChild n # st else st);
          let st2 = (if LChild n \<noteq> None then LChild n # st1 else st1);
          preorder_loop h st2 (vec @ [currentNode])
        })"

partial_function (option) inorder_loop ::
  "('a, 'b) XTreeNode_scheme store \<Rightarrow> ptr list \<Rightarrow> ptr \<Rightarrow> ptr list \<Rightarrow> ptr list option" where
  "inorder_loop h stack currentNode vec =
     (if stack = [] \<and> currentNode = None then Some vec
      else if currentNode \<noteq> None then do {
        n \<leftarrow> deref h currentNode;
        inorder_loop h (currentNode # stack) (LChild n) vec
      }
      else do {
        n \<leftarrow> deref h (hd stack);
        inorder_loop h (tl stack) (RChild n) (vec @ [hd stack])
      })"

text \<open>The second stack of the postorder, again with its top first, is copied from top to bottom.\<close>

partial_function (option) postorder_loop ::
  "('a, 'b) XTreeNode_scheme store \<Rightarrow> ptr list \<Rightarrow> ptr list \<Rightarrow> ptr list option" where
  "postorder_loop h stack traversing =
     (case stack of
        [] \<Rightarrow> Some traversing
      | currentNode # st \<Rightarrow> do {
          n \<leftarrow> deref h currentNode;
          let st1 = (if LChild n \<noteq> None then LChild n # st else st);
          let st2 = (if RChild n \<noteq> None then RChild n # st1 else st1);
          postorder_loop h st2 (currentNode # traversing)
        })"

datatype XBTreeTraversing = XBTreePreorder | XBTreeInorder | XBTreePostorder

definition XBTree_TraversingToXVector ::
  "('a, 'b) XTreeNode_scheme store \<Rightarrow> ptr \<Rightarrow> XBTreeTraversing \<Rightarrow> ptr list option option" where
  "XBTree_TraversingToXVector h this_root Traversing =
     (if this_root = None then Some None
      else map_option Some
        (case Traversing of
           XBTreePreorder \<Rightarrow> preorder_loop h [this_root] []
         | XBTreeInorder \<Rightarrow> inorder_loop h [] this_root []
         | XBTreePostorder \<Rightarrow> postorder_loop h [this_root] []))"

text \<open>Freeing a tree: the store afterwards and the data passed to the destructor, in order.\<close>

partial_function (option) delete_loop ::
  "ptr list \<Rightarrow> ('a, 'b) XTreeNode_scheme store \<Rightarrow> 'a list \<Rightarrow>
    (('a, 'b) XTreeNode_scheme store \<times> 'a list) option" where
  "delete_loop stack h log =
     (case stack of
        [] \<Rightarrow> Some (h, log)
      | currentNode # st \<Rightarrow>
          (case currentNode of
             None \<Rightarrow> delete_loop st h log
           | Some a \<Rightarrow> do {
               n \<leftarrow> h a;
               let st1 = (if LChild n \<noteq> None then LChild n # st else st);
               let st2 = (if RChild n \<noteq> None then RChild n # st1 else st1);
               delete_loop st2 (h(a := None)) (log @ [node_data n])
             }))"

definition XTree_delete ::
  "ptr \<Rightarrow> ('a, 'b) XTreeNode_scheme store \<Rightarrow> (('a, 'b) XTreeNode_scheme store \<times> 'a list) option" where
  "XTree_delete this_root h = (if this_root = None then Some (h, []) else delete_loop [this_root] h [])"

end
