(* ===== verification/XRedBlackTree.thy ===== *)
theory XRedBlackTree
  imports XTree
begin

text \<open>
  The red-black tree of \<open>XCode/XAlgorithm/XTree/XRedBlackTree/XRedBlackTree.c\<close>, which the maps and sets
  of the library are built on: insertion and removal of a node with the repair of the colours, and the
  successor of a node. Removal unlinks a node and returns it to the caller, which frees it.
\<close>

datatype XRBTreeColor = XRBTreeRed | XRBTreeBlack

record 'a XRBTreeNode = "'a XTreeNode" +
  color :: XRBTreeColor

type_synonym 'a rb_store = "'a XRBTreeNode store"

definition XRBTree_SetColor :: "ptr \<Rightarrow> XRBTreeColor \<Rightarrow> 'a rb_store \<Rightarrow> 'a rb_store option" where
  "XRBTree_SetColor x c h = modify h x (color_update (\<lambda>_. c))"

abbreviation XRBTree_SetBlack :: "ptr \<Rightarrow> 'a rb_store \<Rightarrow> 'a rb_store option" where
  "XRBTree_SetBlack x h \<equiv> XRBTree_SetColor x XRBTreeBlack h"

abbreviation XRBTree_SetRed :: "ptr \<Rightarrow> 'a rb_store \<Rightarrow> 'a rb_store option" where
  "XRBTree_SetRed x h \<equiv> XRBTree_SetColor x XRBTreeRed h"

text \<open>\<open>x != NULL && XRBTree_IsRed(x)\<close> and \<open>x == NULL || XRBTree_IsBlack(x)\<close>.\<close>

definition red_node :: "'a rb_store \<Rightarrow> ptr \<Rightarrow> bool option" where
  "red_node h x = (if x = None then Some False else map_option (\<lambda>n. color n = XRBTreeRed) (deref h x))"

definition black_node :: "'a rb_store \<Rightarrow> ptr \<Rightarrow> bool option" where
  "black_node h x = (if x = None then Some True else map_option (\<lambda>n. color n = XRBTreeBlack) (deref h x))"

section \<open>Insertion\<close>

text \<open>Memory is the outcome \<open>new\<close> of the allocation; the node is red and has no relatives.\<close>

definition XRBTree_init :: "'a \<Rightarrow> 'a XRBTreeNode" where
  "XRBTree_init pvData =
     \<lparr>parentNode = None, LChild = None, RChild = None, node_data = pvData, color = XRBTreeRed\<rparr>"

definition XRBTree_create_ex :: "ptr \<Rightarrow> 'a \<Rightarrow> 'a rb_store \<Rightarrow> ptr \<times> 'a rb_store" where
  "XRBTree_create_ex new pvData h =
     (case new of None \<Rightarrow> (None, h) | Some a \<Rightarrow> (Some a, h(a \<mapsto> XRBTree_init pvData)))"

definition XRBTree_AdjustNoOne ::
  "ptr \<Rightarrow> ptr \<Rightarrow> ptr \<Rightarrow> ptr \<Rightarrow> 'a rb_store \<Rightarrow> (bool \<times> ptr \<times> 'a rb_store) option" where
  "XRBTree_AdjustNoOne currentNode LPpater LPgrandpa LPuncle h = do {
     red \<leftarrow> red_node h LPuncle;
     if red then do {
       h1 \<leftarrow> XRBTree_SetBlack LPpater h;
       h2 \<leftarrow> XRBTree_SetBlack LPuncle h1;
       h3 \<leftarrow> XRBTree_SetRed LPgrandpa h2;
       Some (True, LPgrandpa, h3)
     }
     else Some (False, currentNode, h)
   }"

text \<open>One round with the parent on side \<open>ty\<close> of the grandparent: the two branches mirror each other.\<close>

definition spin_to :: "XBTreeNodeType \<Rightarrow> ptr \<Rightarrow> ptr \<Rightarrow> 'a rb_store \<Rightarrow> (ptr \<times> ptr \<times> 'a rb_store) option" where
  "spin_to ty root nodes h =
     (case ty of XBTreeLChild \<Rightarrow> XBTree_SpinLL root nodes h | XBTreeRChild \<Rightarrow> XBTree_SpinRR root nodes h)"

definition other :: "XBTreeNodeType \<Rightarrow> XBTreeNodeType" where
  "other ty = (case ty of XBTreeLChild \<Rightarrow> XBTreeRChild | XBTreeRChild \<Rightarrow> XBTreeLChild)"

definition insert_adjust_side ::
  "XBTreeNodeType \<Rightarrow> ptr \<Rightarrow> ptr \<Rightarrow> ptr \<Rightarrow> ptr \<Rightarrow> 'a rb_store \<Rightarrow> (ptr \<times> ptr \<times> 'a rb_store) option" where
  "insert_adjust_side ty root currentNode LPpater LPgrandpa h = do {
     g \<leftarrow> deref h LPgrandpa;
     (recoloured, cur, h1) \<leftarrow>
       XRBTree_AdjustNoOne currentNode LPpater LPgrandpa (XTreeNode_GetChild (other ty) g) h;
     if recoloured then Some (root, cur, h1)
     else do {
       p \<leftarrow> deref h1 LPpater;
       (root1, cur1, pater1, grandpa1, h2) \<leftarrow>
         (if currentNode = XTreeNode_GetChild (other ty) p then do {
            (_, root1, h2) \<leftarrow> spin_to ty root LPpater h1;
            c \<leftarrow> deref h2 LPpater;
            q \<leftarrow> deref h2 (parentNode c);
            Some (root1, LPpater, parentNode c, parentNode q, h2)
          }
          else Some (root, currentNode, LPpater, LPgrandpa, h1));
       if pater1 \<noteq> None \<and> grandpa1 \<noteq> None then do {
         h3 \<leftarrow> XRBTree_SetBlack pater1 h2;
         h4 \<leftarrow> XRBTree_SetRed grandpa1 h3;
         (_, root2, h5) \<leftarrow> spin_to (other ty) root1 grandpa1 h4;
         Some (root2, cur1, h5)
       }
       else Some (root1, cur1, h2)
     }
   }"

partial_function (option) insert_adjust_loop ::
  "ptr \<Rightarrow> ptr \<Rightarrow> 'a rb_store \<Rightarrow> (ptr \<times> 'a rb_store) option" where
  "insert_adjust_loop root currentNode h = do {
     c \<leftarrow> deref h currentNode;
     red \<leftarrow> red_node h (parentNode c);
     if red then do {
       p \<leftarrow> deref h (parentNode c);
       (case parentNode p of
          None \<Rightarrow> map_option (Pair root) (XRBTree_SetBlack (parentNode c) h)
        | Some g \<Rightarrow> do {
            gn \<leftarrow> h g;
            (root1, cur1, h1) \<leftarrow>
              insert_adjust_side (if parentNode c = LChild gn then XBTreeLChild else XBTreeRChild)
                root currentNode (parentNode c) (Some g) h;
            insert_adjust_loop root1 cur1 h1
          })
     }
     else Some (root, h)
   }"

definition XRBTree_insertAdjust :: "ptr \<Rightarrow> ptr \<Rightarrow> 'a rb_store \<Rightarrow> (ptr \<times> 'a rb_store) option" where
  "XRBTree_insertAdjust root currentNode h = do {
     (root1, h1) \<leftarrow> insert_adjust_loop root currentNode h;
     if root1 \<noteq> None then map_option (Pair root1) (XRBTree_SetBlack root1 h1) else Some (root1, h1)
   }"

definition XRBTree_insertNode ::
  "('a \<Rightarrow> 'a \<Rightarrow> int) \<Rightarrow> ptr option \<Rightarrow> addr \<Rightarrow> 'a rb_store \<Rightarrow> (ptr \<times> ptr option \<times> 'a rb_store) option" where
  "XRBTree_insertNode lessRule this_root insertNode h = do {
     h1 \<leftarrow> XBBTree_insertAlign lessRule this_root (Some insertNode) h;
     (case this_root of
        None \<Rightarrow> map_option (\<lambda>h2. (Some insertNode, None, h2)) (XRBTree_SetBlack (Some insertNode) h1)
      | Some None \<Rightarrow>
          map_option (\<lambda>h2. (Some insertNode, Some (Some insertNode), h2)) (XRBTree_SetBlack (Some insertNode) h1)
      | Some (Some root) \<Rightarrow> do {
          (root2, h2) \<leftarrow> XRBTree_insertAdjust (Some root) (Some insertNode) h1;
          Some (Some insertNode, Some root2, h2)
        })
   }"

definition XRBTree_insert ::
  "('a \<Rightarrow> 'a \<Rightarrow> int) \<Rightarrow> ptr option \<Rightarrow> ptr \<Rightarrow> 'a \<Rightarrow> 'a rb_store \<Rightarrow> (ptr \<times> ptr option \<times> 'a rb_store) option" where
  "XRBTree_insert lessRule this_root new pvData h =
     (case XRBTree_create_ex new pvData h of
        (None, h1) \<Rightarrow> Some (None, this_root, h1)
      | (Some a, h1) \<Rightarrow> XRBTree_insertNode lessRule this_root a h1)"

section \<open>Removal\<close>

text \<open>
  One round with the node on side \<open>ty\<close> of its parent. When the brother is missing, or black with
  black children, the parent is next; otherwise the rotations finish the repair and the root is next. The
  colour of the brother is set before it is tested for NULL.
\<close>

definition erase_adjust_side ::
  "XBTreeNodeType \<Rightarrow> ptr \<Rightarrow> ptr \<Rightarrow> 'a rb_store \<Rightarrow> (ptr \<times> ptr \<times> ptr \<times> 'a rb_store) option" where
  "erase_adjust_side ty root LPpater h = do {
     p \<leftarrow> deref h LPpater;
     red \<leftarrow> red_node h (XTreeNode_GetChild (other ty) p);
     (root1, h1) \<leftarrow>
       (if red then do {
          h1 \<leftarrow> XRBTree_SetBlack (XTreeNode_GetChild (other ty) p) h;
          h2 \<leftarrow> XRBTree_SetRed LPpater h1;
          (_, root1, h3) \<leftarrow> spin_to ty root LPpater h2;
          Some (root1, h3)
        }
        else Some (root, h));
     p1 \<leftarrow> deref h1 LPpater;
     let brother = XTreeNode_GetChild (other ty) p1;
     if brother = None then Some (root1, LPpater, parentNode p1, h1)
     else do {
       b \<leftarrow> deref h1 brother;
       near \<leftarrow> black_node h1 (XTreeNode_GetChild ty b);
       far \<leftarrow> black_node h1 (XTreeNode_GetChild (other ty) b);
       if near \<and> far then do {
         h2 \<leftarrow> XRBTree_SetRed brother h1;
         p2 \<leftarrow> deref h2 LPpater;
         Some (root1, LPpater, parentNode p2, h2)
       }
       else do {
         (root2, brother2, h2) \<leftarrow>
           (if far then do {
              h3 \<leftarrow> (if XTreeNode_GetChild ty b \<noteq> None then XRBTree_SetBlack (XTreeNode_GetChild ty b) h1 else Some h1);
              h4 \<leftarrow> XRBTree_SetRed brother h3;
              (_, root2, h5) \<leftarrow> spin_to (other ty) root1 brother h4;
              p2 \<leftarrow> deref h5 LPpater;
              Some (root2, XTreeNode_GetChild (other ty) p2, h5)
            }
            else Some (root1, brother, h1));
         p3 \<leftarrow> deref h2 LPpater;
         h6 \<leftarrow> XRBTree_SetColor brother2 (color p3) h2;
         h7 \<leftarrow> XRBTree_SetBlack LPpater h6;
         b2 \<leftarrow> deref h7 brother2;
         h8 \<leftarrow> (if XTreeNode_GetChild (other ty) b2 \<noteq> None
               then XRBTree_SetBlack (XTreeNode_GetChild (other ty) b2) h7 else Some h7);
         (_, root3, h9) \<leftarrow> spin_to ty root2 LPpater h8;
         Some (root3, root3, LPpater, h9)
       }
     }
   }"

partial_function (option) erase_adjust_loop ::
  "ptr \<Rightarrow> ptr \<Rightarrow> ptr \<Rightarrow> 'a rb_store \<Rightarrow> (ptr \<times> ptr \<times> 'a rb_store) option" where
  "erase_adjust_loop root nodes LPpater h = do {
     black \<leftarrow> black_node h nodes;
     if black \<and> nodes \<noteq> root then do {
       p \<leftarrow> deref h LPpater;
       (root1, nodes1, pater1, h1) \<leftarrow>
         erase_adjust_side (if LChild p = nodes then XBTreeLChild else XBTreeRChild) root LPpater h;
       erase_adjust_loop root1 nodes1 pater1 h1
     }
     else Some (root, nodes, h)
   }"

definition eraseAdjustTree :: "ptr \<Rightarrow> ptr \<Rightarrow> ptr \<Rightarrow> 'a rb_store \<Rightarrow> (ptr \<times> 'a rb_store) option" where
  "eraseAdjustTree root nodes LPpater h = do {
     (root1, nodes1, h1) \<leftarrow> erase_adjust_loop root nodes LPpater h;
     if nodes1 \<noteq> None then map_option (Pair root1) (XRBTree_SetBlack nodes1 h1) else Some (root1, h1)
   }"

definition rb_OneChild_erase :: "ptr \<Rightarrow> ptr \<Rightarrow> 'a rb_store \<Rightarrow> (ptr \<times> 'a rb_store) option" where
  "rb_OneChild_erase root eraseNode h = do {
     n \<leftarrow> deref h eraseNode;
     let Pchild = (if LChild n = None then RChild n else LChild n);
     let parent = parentNode n;
     (root1, h1) \<leftarrow> (if parent \<noteq> None then do {
                     ref \<leftarrow> XTreeNode_getChildrenParentRef h eraseNode;
                     h1 \<leftarrow> store_ref h ref Pchild;
                     Some (root, h1)
                   }
                   else Some (Pchild, h));
     h2 \<leftarrow> (if Pchild \<noteq> None then modify h1 Pchild (parentNode_update (\<lambda>_. parent)) else Some h1);
     if color n = XRBTreeBlack \<and> root1 \<noteq> None then eraseAdjustTree root1 Pchild parent h2 else Some (root1, h2)
   }"

partial_function (option) leftmost :: "('a, 'b) XTreeNode_scheme store \<Rightarrow> ptr \<Rightarrow> ptr option" where
  "leftmost h x = do {
     n \<leftarrow> deref h x;
     if LChild n \<noteq> None then leftmost h (LChild n) else Some x
   }"

text \<open>\<open>room\<close> says whether the buffer for the exchange of the data could be allocated.\<close>

definition rb_TwoChild_erase :: "bool \<Rightarrow> ptr \<Rightarrow> ptr \<Rightarrow> 'a rb_store \<Rightarrow> (ptr \<times> ptr \<times> 'a rb_store) option" where
  "rb_TwoChild_erase room root eraseNode h = do {
     n \<leftarrow> deref h eraseNode;
     LPreplace \<leftarrow> leftmost h (RChild n);
     if \<not> room then Some (None, root, h)
     else do {
       m \<leftarrow> deref h LPreplace;
       h1 \<leftarrow> modify h eraseNode (node_data_update (\<lambda>_. node_data m));
       h2 \<leftarrow> modify h1 LPreplace (node_data_update (\<lambda>_. node_data n));
       (root1, h3) \<leftarrow> rb_OneChild_erase root LPreplace h2;
       Some (LPreplace, root1, h3)
     }
   }"

definition XRBTree_removeNode :: "bool \<Rightarrow> ptr \<Rightarrow> ptr \<Rightarrow> 'a rb_store \<Rightarrow> (ptr \<times> ptr \<times> 'a rb_store) option" where
  "XRBTree_removeNode room root findErase h =
     (if findErase = None then Some (None, root, h)
      else do {
        n \<leftarrow> deref h findErase;
        if LChild n \<noteq> None \<and> RChild n \<noteq> None then rb_TwoChild_erase room root findErase h
        else do {
          (root1, h1) \<leftarrow> rb_OneChild_erase root findErase h;
          Some (findErase, root1, h1)
        }
      })"

definition XRBTree_remove ::
  "('a \<Rightarrow> 'k \<Rightarrow> int) \<Rightarrow> bool \<Rightarrow> ptr \<Rightarrow> 'k \<Rightarrow> 'a rb_store \<Rightarrow> (ptr \<times> ptr \<times> 'a rb_store) option" where
  "XRBTree_remove rule room root pvData h = do {
     findErase \<leftarrow> XBBTree_findNode rule pvData h root;
     if findErase = None then Some (None, root, h) else XRBTree_removeNode room root findErase h
   }"

section \<open>Successor\<close>

partial_function (option) ascend :: "('a, 'b) XTreeNode_scheme store \<Rightarrow> ptr \<Rightarrow> ptr \<Rightarrow> ptr option" where
  "ascend h current parent =
     (if parent = None then Some None
      else do {
        p \<leftarrow> deref h parent;
        if current = RChild p then ascend h parent (parentNode p) else Some parent
      })"

definition XRBTree_findSuccessor :: "('a, 'b) XTreeNode_scheme store \<Rightarrow> ptr \<Rightarrow> ptr option" where
  "XRBTree_findSuccessor h node =
     (if node = None then Some None
      else do {
        n \<leftarrow> deref h node;
        if RChild n \<noteq> None then leftmost h (RChild n) else ascend h node (parentNode n)
      })"

end
