(* ===== verification/XMap.thy ===== *)
theory XMap
  imports XRedBlackTree "HOL-Library.Word"
begin

text \<open>
  The ordered map of \<open>XContainer/XMap/XMap/XMap.c\<close> on a red-black tree of pairs, with the shared data
  blocks of \<open>XData/XSharedData/XSharedData.c\<close>. A map that copies on write points to a block that holds
  the root and a count of the maps that point to it; any other map holds the root itself. Keys and values are
  plain values: what their copy and destroy callbacks do is not represented. The memory is the store of the
  nodes and the store of the blocks.
\<close>

section \<open>Shared blocks\<close>

record XSharedData =
  refCount :: "32 word"
  shared_data :: ptr

record ('k, 'v) map_memory =
  map_nodes :: "('k \<times> 'v) rb_store"
  map_blocks :: "XSharedData store"

text \<open>The block of the outcome \<open>new\<close> of the allocation; its data is NULL when none is given.\<close>

definition XSharedData_create_ex :: "ptr \<Rightarrow> ptr \<Rightarrow> ('k, 'v) map_memory \<Rightarrow> ptr \<times> ('k, 'v) map_memory" where
  "XSharedData_create_ex new v H =
     (case new of
        None \<Rightarrow> (None, H)
      | Some b \<Rightarrow> (Some b, H\<lparr>map_blocks := (map_blocks H)(b \<mapsto> \<lparr>refCount = 1, shared_data = v\<rparr>)\<rparr>))"

definition XSharedData_addRef :: "ptr \<Rightarrow> ('k, 'v) map_memory \<Rightarrow> ('k, 'v) map_memory option" where
  "XSharedData_addRef sd H =
     (case sd of
        None \<Rightarrow> Some H
      | Some b \<Rightarrow> do {
          s \<leftarrow> map_blocks H b;
          Some (H\<lparr>map_blocks := (map_blocks H)(b \<mapsto> s\<lparr>refCount := refCount s + 1\<rparr>)\<rparr>)
        })"

definition XSharedData_release :: "ptr \<Rightarrow> ('k, 'v) map_memory \<Rightarrow> (bool \<times> ('k, 'v) map_memory) option" where
  "XSharedData_release sd H =
     (case sd of
        None \<Rightarrow> Some (False, H)
      | Some b \<Rightarrow> do {
          s \<leftarrow> map_blocks H b;
          let H1 = H\<lparr>map_blocks := (map_blocks H)(b \<mapsto> s\<lparr>refCount := refCount s - 1\<rparr>)\<rparr>;
          if refCount s \<le>s 1 then Some (True, H1\<lparr>map_blocks := (map_blocks H1)(b := None)\<rparr>)
          else Some (False, H1)
        })"

text \<open>\<open>deleter\<close> works on its argument and the memory.\<close>

definition XSharedData_release_with ::
  "ptr \<Rightarrow> (ptr \<Rightarrow> 'm \<times> ('k, 'v) map_memory \<Rightarrow> ('m \<times> ('k, 'v) map_memory) option) \<Rightarrow>
    'm \<times> ('k, 'v) map_memory \<Rightarrow> (bool \<times> 'm \<times> ('k, 'v) map_memory) option" where
  "XSharedData_release_with sd deleter mH =
     (case sd of
        None \<Rightarrow> Some (False, mH)
      | Some b \<Rightarrow> do {
          s \<leftarrow> map_blocks (snd mH) b;
          let H1 = (snd mH)\<lparr>map_blocks := (map_blocks (snd mH))(b \<mapsto> s\<lparr>refCount := refCount s - 1\<rparr>)\<rparr>;
          if refCount s \<le>s 1 then do {
            (m2, H2) \<leftarrow> deleter (shared_data s) (fst mH, H1);
            Some (True, m2, H2\<lparr>map_blocks := (map_blocks H2)(b := None)\<rparr>)
          }
          else Some (False, fst mH, H1)
        })"

definition XSharedData_isShared :: "ptr \<Rightarrow> ('k, 'v) map_memory \<Rightarrow> bool option" where
  "XSharedData_isShared sd H =
     (if sd = None then Some False else map_option (\<lambda>s. 1 <s refCount s) (deref (map_blocks H) sd))"

section \<open>The map and its root\<close>

record 'k XMap =
  m_useCow :: bool
  m_compare :: "'k \<Rightarrow> 'k \<Rightarrow> int"
  m_data :: ptr
  m_capacity :: nat
  m_size :: nat
  m_pairBuffer :: bool

definition XMap_init :: "('k \<Rightarrow> 'k \<Rightarrow> int) \<Rightarrow> bool \<Rightarrow> 'k XMap" where
  "XMap_init compare useCow =
     \<lparr>m_useCow = useCow, m_compare = compare, m_data = None, m_capacity = 0, m_size = 0, m_pairBuffer = False\<rparr>"

text \<open>What the allocations of one call give: the vector of nodes, the node of the copy with a number, the
  node to insert, a block, the buffers for a pair, for the exchange of data and for a key.\<close>

record map_alloc =
  vector_ok :: bool
  copy_node :: "nat \<Rightarrow> ptr"
  new_node :: ptr
  new_block :: ptr
  buffer_ok :: bool
  room_ok :: bool
  key_ok :: bool

definition XCompareRuleTwo_XMap :: "('k \<Rightarrow> 'k \<Rightarrow> int) \<Rightarrow> 'k \<times> 'v \<Rightarrow> 'k \<times> 'v \<Rightarrow> int" where
  "XCompareRuleTwo_XMap compare pvPrevValue pvNextValue = compare (fst pvPrevValue) (fst pvNextValue)"

definition XCompareRuleOne_XMap :: "('k \<Rightarrow> 'k \<Rightarrow> int) \<Rightarrow> 'k \<times> 'v \<Rightarrow> 'k \<Rightarrow> int" where
  "XCompareRuleOne_XMap compare v CompareValue = compare (fst v) CompareValue"

text \<open>Where the root is: in the map or in the block. A map that copies on write may have no block.\<close>

datatype root_ref = MapRoot | BlockRoot addr

definition XMap_root_ptr :: "'k XMap \<Rightarrow> root_ref option" where
  "XMap_root_ptr m = (if m_useCow m then map_option BlockRoot (m_data m) else Some MapRoot)"

definition read_root :: "'k XMap \<Rightarrow> ('k, 'v) map_memory \<Rightarrow> root_ref \<Rightarrow> ptr option" where
  "read_root m H r =
     (case r of MapRoot \<Rightarrow> Some (m_data m) | BlockRoot b \<Rightarrow> map_option shared_data (map_blocks H b))"

definition write_root ::
  "ptr \<Rightarrow> 'k XMap \<Rightarrow> ('k, 'v) map_memory \<Rightarrow> root_ref \<Rightarrow> ('k XMap \<times> ('k, 'v) map_memory) option" where
  "write_root root m H r =
     (case r of
        MapRoot \<Rightarrow> Some (m\<lparr>m_data := root\<rparr>, H)
      | BlockRoot b \<Rightarrow>
          map_option (\<lambda>B. (m, H\<lparr>map_blocks := B\<rparr>)) (modify (map_blocks H) (Some b) (shared_data_update (\<lambda>_. root))))"

definition XMap_root :: "'k XMap \<Rightarrow> ('k, 'v) map_memory \<Rightarrow> ptr option" where
  "XMap_root m H = (case XMap_root_ptr m of None \<Rightarrow> Some None | Some r \<Rightarrow> read_root m H r)"

section \<open>Detaching\<close>

text \<open>Copying the nodes of a tree, in the order given, into a new tree; it stops when a node cannot be had.\<close>

fun copy_nodes ::
  "('k \<Rightarrow> 'k \<Rightarrow> int) \<Rightarrow> (nat \<Rightarrow> ptr) \<Rightarrow> nat \<Rightarrow> ptr list \<Rightarrow> ptr \<Rightarrow> ('k \<times> 'v) rb_store \<Rightarrow>
    (bool \<times> ptr \<times> ('k \<times> 'v) rb_store) option" where
  "copy_nodes compare new i [] newRoot h = Some (True, newRoot, h)"
| "copy_nodes compare new i (oldNode # nodes) newRoot h = do {
     n \<leftarrow> deref h oldNode;
     (case XRBTree_create_ex (new i) (node_data n) h of
        (None, h1) \<Rightarrow> Some (False, newRoot, h1)
      | (Some a, h1) \<Rightarrow> do {
          (_, this_root, h2) \<leftarrow> XRBTree_insertNode (XCompareRuleTwo_XMap compare) (Some newRoot) a h1;
          root1 \<leftarrow> this_root;
          copy_nodes compare new (i + 1) nodes root1 h2
        })
   }"

definition VXMapDetachIfNeeded ::
  "map_alloc \<Rightarrow> 'k XMap \<Rightarrow> ('k, 'v) map_memory \<Rightarrow> (bool \<times> 'k XMap \<times> ('k, 'v) map_memory) option" where
  "VXMapDetachIfNeeded al m H =
     (if \<not> m_useCow m then Some (True, m, H)
      else do {
        shared \<leftarrow> XSharedData_isShared (m_data m) H;
        if \<not> shared then Some (True, m, H)
        else do {
          oldRoot \<leftarrow> XMap_root m H;
          if oldRoot = None then Some (True, m, H)
          else if \<not> vector_ok al then Some (False, m, H)
          else do {
            traversal \<leftarrow> XBTree_TraversingToXVector (map_nodes H) oldRoot XBTreePreorder;
            nodes \<leftarrow> traversal;
            (success, newRoot, h1) \<leftarrow> copy_nodes (m_compare m) (copy_node al) 0 nodes None (map_nodes H);
            let H1 = H\<lparr>map_nodes := h1\<rparr>;
            if \<not> success then do {
              (h2, _) \<leftarrow> XTree_delete newRoot h1;
              Some (False, m, H\<lparr>map_nodes := h2\<rparr>)
            }
            else (case XSharedData_create_ex (new_block al) None H1 of
                (None, H2) \<Rightarrow> do {
                  (h3, _) \<leftarrow> XTree_delete newRoot (map_nodes H2);
                  Some (False, m, H2\<lparr>map_nodes := h3\<rparr>)
                }
              | (Some b, H2) \<Rightarrow> do {
                  B \<leftarrow> modify (map_blocks H2) (Some b) (shared_data_update (\<lambda>_. newRoot));
                  (_, H3) \<leftarrow> XSharedData_release (m_data m) (H2\<lparr>map_blocks := B\<rparr>);
                  Some (True, m\<lparr>m_data := Some b\<rparr>, H3)
                })
          }
        }
      })"

section \<open>Search\<close>

definition VXMap_find :: "'k XMap \<Rightarrow> ('k, 'v) map_memory \<Rightarrow> 'k \<Rightarrow> ptr option" where
  "VXMap_find m H key =
     (if m_size m = 0 then Some None
      else do {
        root \<leftarrow> XMap_root m H;
        XBBTree_findNode (XCompareRuleOne_XMap (m_compare m)) key (map_nodes H) root
      })"

definition VXMap_value :: "'k XMap \<Rightarrow> ('k, 'v) map_memory \<Rightarrow> 'k \<Rightarrow> 'v option option" where
  "VXMap_value m H key = do {
     it \<leftarrow> VXMap_find m H key;
     if it = None then Some None else map_option (\<lambda>n. Some (snd (node_data n))) (deref (map_nodes H) it)
   }"

section \<open>Insertion and removal\<close>

text \<open>The block of the first insertion, which may be refused.\<close>

definition ensure_block ::
  "map_alloc \<Rightarrow> 'k XMap \<Rightarrow> ('k, 'v) map_memory \<Rightarrow> 'k XMap \<times> ('k, 'v) map_memory" where
  "ensure_block al m H =
     (if m_useCow m \<and> m_data m = None
      then (let (b, H1) = XSharedData_create_ex (new_block al) None H in (m\<lparr>m_data := b\<rparr>, H1))
      else (m, H))"

text \<open>Without a place for the root the new node is coloured and counted, but linked nowhere.\<close>

definition link_new_node ::
  "map_alloc \<Rightarrow> 'k \<Rightarrow> 'v \<Rightarrow> 'k XMap \<Rightarrow> ('k, 'v) map_memory \<Rightarrow> (bool \<times> 'k XMap \<times> ('k, 'v) map_memory) option" where
  "link_new_node al pvKey pvValue m H =
     (case XRBTree_create_ex (new_node al) (pvKey, pvValue) (map_nodes H) of
        (None, h1) \<Rightarrow> Some (False, m, H\<lparr>map_nodes := h1\<rparr>)
      | (Some a, h1) \<Rightarrow> do {
          this_root \<leftarrow> (case XMap_root_ptr m of
                          None \<Rightarrow> Some None
                        | Some r \<Rightarrow> map_option Some (read_root m H r));
          (inserted, root1, h2) \<leftarrow> XRBTree_insertNode (XCompareRuleTwo_XMap (m_compare m)) this_root a h1;
          (m2, H2) \<leftarrow> (case (XMap_root_ptr m, root1) of
                      (Some r, Some root) \<Rightarrow> write_root root m (H\<lparr>map_nodes := h2\<rparr>) r
                    | _ \<Rightarrow> Some (m, H\<lparr>map_nodes := h2\<rparr>));
          if inserted = None then Some (False, m2, H2)
          else Some (True, m2\<lparr>m_capacity := m_capacity m2 + 1, m_size := m_size m2 + 1\<rparr>, H2)
        })"

definition VXMap_insert ::
  "map_alloc \<Rightarrow> 'k \<Rightarrow> 'v \<Rightarrow> 'k XMap \<Rightarrow> ('k, 'v) map_memory \<Rightarrow> (bool \<times> 'k XMap \<times> ('k, 'v) map_memory) option" where
  "VXMap_insert al pvKey pvValue m H = do {
     (detached, m1, H1) \<leftarrow> VXMapDetachIfNeeded al m H;
     if \<not> detached then Some (False, m1, H1)
     else do {
       it \<leftarrow> VXMap_find m1 H1 pvKey;
       if it \<noteq> None then do {
         h2 \<leftarrow> modify (map_nodes H1) it (node_data_update (\<lambda>_. (pvKey, pvValue)));
         Some (True, m1, H1\<lparr>map_nodes := h2\<rparr>)
       }
       else if \<not> (m_pairBuffer m1 \<or> buffer_ok al) then Some (False, m1, H1)
       else (let (m2, H2) = ensure_block al (m1\<lparr>m_pairBuffer := True\<rparr>) H1 in link_new_node al pvKey pvValue m2 H2)
     }
   }"

text \<open>Taking the node with a key out of the tree, and freeing it.\<close>

definition tree_remove ::
  "map_alloc \<Rightarrow> 'k \<Rightarrow> 'k XMap \<Rightarrow> ('k, 'v) map_memory \<Rightarrow> (bool \<times> 'k XMap \<times> ('k, 'v) map_memory) option" where
  "tree_remove al key m H =
     (case XMap_root_ptr m of
        None \<Rightarrow> Some (False, m, H)
      | Some r \<Rightarrow> do {
          root \<leftarrow> read_root m H r;
          (toRemove, root1, h1) \<leftarrow>
            XRBTree_remove (XCompareRuleOne_XMap (m_compare m)) (room_ok al) root key (map_nodes H);
          (m1, H1) \<leftarrow> write_root root1 m (H\<lparr>map_nodes := h1\<rparr>) r;
          (case toRemove of
             None \<Rightarrow> Some (False, m1, H1)
           | Some a \<Rightarrow>
               if map_nodes H1 a = None then None
               else Some (True, m1\<lparr>m_capacity := m_capacity m1 - 1, m_size := m_size m1 - 1\<rparr>,
                 H1\<lparr>map_nodes := (map_nodes H1)(a := None)\<rparr>))
        })"

definition VXMap_remove ::
  "map_alloc \<Rightarrow> 'k \<Rightarrow> 'k XMap \<Rightarrow> ('k, 'v) map_memory \<Rightarrow> (bool \<times> 'k XMap \<times> ('k, 'v) map_memory) option" where
  "VXMap_remove al key m H = do {
     (detached, m1, H1) \<leftarrow> VXMapDetachIfNeeded al m H;
     if \<not> detached then Some (False, m1, H1) else tree_remove al key m1 H1
   }"

text \<open>The position after an erased entry is always the end. The position erased is a node of the tree.\<close>

definition VXMap_erase ::
  "map_alloc \<Rightarrow> ptr \<Rightarrow> 'k XMap \<Rightarrow> ('k, 'v) map_memory \<Rightarrow> (ptr \<times> 'k XMap \<times> ('k, 'v) map_memory) option" where
  "VXMap_erase al it m H =
     (if it = None then Some (None, m, H)
      else do {
        n \<leftarrow> deref (map_nodes H) it;
        if \<not> key_ok al then Some (None, m, H)
        else do {
          (detached, m1, H1) \<leftarrow> VXMapDetachIfNeeded al m H;
          if \<not> detached then Some (None, m1, H1)
          else map_option (\<lambda>(_, m2, H2). (None, m2, H2)) (tree_remove al (fst (node_data n)) m1 H1)
        }
      })"

section \<open>Clearing, copying, moving and destroying\<close>

definition delete_nodes :: "ptr \<Rightarrow> ('k, 'v) map_memory \<Rightarrow> ('k, 'v) map_memory option" where
  "delete_nodes root H = map_option (\<lambda>(h, _). H\<lparr>map_nodes := h\<rparr>) (XTree_delete root (map_nodes H))"

definition VXMap_clear :: "'k XMap \<Rightarrow> ('k, 'v) map_memory \<Rightarrow> ('k XMap \<times> ('k, 'v) map_memory) option" where
  "VXMap_clear m H =
     (if m_size m = 0 then Some (m, H)
      else do {
        shared \<leftarrow> (if m_useCow m then XSharedData_isShared (m_data m) H else Some False);
        if shared then do {
          (_, H1) \<leftarrow> XSharedData_release (m_data m) H;
          Some (m\<lparr>m_data := None, m_capacity := 0, m_size := 0\<rparr>, H1)
        }
        else do {
          root \<leftarrow> XMap_root m H;
          H1 \<leftarrow> delete_nodes root H;
          r \<leftarrow> XMap_root_ptr m;
          (m2, H2) \<leftarrow> write_root None m H1 r;
          Some (m2\<lparr>m_capacity := 0, m_size := 0\<rparr>, H2)
        }
      })"

definition VXMapDataDelete ::
  "ptr \<Rightarrow> 'k XMap \<times> ('k, 'v) map_memory \<Rightarrow> ('k XMap \<times> ('k, 'v) map_memory) option" where
  "VXMapDataDelete root mH =
     map_option (\<lambda>H1. ((fst mH)\<lparr>m_data := None, m_capacity := 0, m_size := 0\<rparr>, H1)) (delete_nodes root (snd mH))"

text \<open>Giving up what a map points to, as copying, moving and destroying do.\<close>

definition release_data :: "'k XMap \<Rightarrow> ('k, 'v) map_memory \<Rightarrow> ('k XMap \<times> ('k, 'v) map_memory) option" where
  "release_data m H =
     (if m_useCow m then map_option snd (XSharedData_release_with (m_data m) VXMapDataDelete (m, H))
      else map_option (\<lambda>H1. (m\<lparr>m_data := None\<rparr>, H1)) (delete_nodes (m_data m) H))"

definition VXMap_deinit :: "'k XMap \<Rightarrow> ('k, 'v) map_memory \<Rightarrow> ('k XMap \<times> ('k, 'v) map_memory) option" where
  "VXMap_deinit m H = do {
     (m1, H1) \<leftarrow> release_data m H;
     Some (m1\<lparr>m_capacity := 0, m_size := 0, m_pairBuffer := False\<rparr>, H1)
   }"

text \<open>\<open>object\<close> is \<open>None\<close> when the target is not initialised. \<open>same_memory\<close> says whether the two maps use
  one memory pool. When the nodes cannot be copied, the size of the target is not set.\<close>

definition VXClass_copy ::
  "map_alloc \<Rightarrow> bool \<Rightarrow> 'k XMap option \<Rightarrow> 'k XMap \<Rightarrow> ('k, 'v) map_memory \<Rightarrow> ('k XMap \<times> ('k, 'v) map_memory) option" where
  "VXClass_copy al same_memory object src H =
     (if object \<noteq> None \<and> m_useCow src \<and> \<not> same_memory then map_option (\<lambda>m. (m, H)) object
      else do {
        (m1, H1) \<leftarrow> (case object of
                     None \<Rightarrow> Some (XMap_init (m_compare src) (m_useCow src), H)
                   | Some m \<Rightarrow> release_data m H);
        if m_useCow src then do {
          H2 \<leftarrow> XSharedData_addRef (m_data src) H1;
          Some (m1\<lparr>m_data := m_data src, m_capacity := m_capacity src, m_size := m_size src\<rparr>, H2)
        }
        else if m_data src = None then
          Some (m1\<lparr>m_data := None, m_capacity := m_capacity src, m_size := m_size src\<rparr>, H1)
        else if \<not> vector_ok al then Some (m1, H1)
        else do {
          traversal \<leftarrow> XBTree_TraversingToXVector (map_nodes H1) (m_data src) XBTreePreorder;
          nodes \<leftarrow> traversal;
          (success, newRoot, h2) \<leftarrow> copy_nodes (m_compare m1) (copy_node al) 0 nodes None (map_nodes H1);
          if \<not> success then map_option (Pair m1) (delete_nodes newRoot (H1\<lparr>map_nodes := h2\<rparr>))
          else Some (m1\<lparr>m_data := newRoot, m_capacity := m_capacity src, m_size := m_size src\<rparr>,
            H1\<lparr>map_nodes := h2\<rparr>)
        }
      })"

text \<open>The two maps exchange their contents after the target has given up its own.\<close>

definition VXClass_move ::
  "'k XMap option \<Rightarrow> 'k XMap \<Rightarrow> ('k, 'v) map_memory \<Rightarrow> ('k XMap \<times> 'k XMap \<times> ('k, 'v) map_memory) option" where
  "VXClass_move object src H = do {
     (m1, H1) \<leftarrow> (case object of
                  None \<Rightarrow> Some (XMap_init (m_compare src) (m_useCow src), H)
                | Some m \<Rightarrow> map_option (\<lambda>(m1, H1). (m1\<lparr>m_capacity := 0, m_size := 0\<rparr>, H1)) (release_data m H));
     Some (src, m1, H1)
   }"

text \<open>The new map is given; it has the mode and the comparison of the source.\<close>

definition XMap_create_copy ::
  "map_alloc \<Rightarrow> 'k XMap \<Rightarrow> ('k, 'v) map_memory \<Rightarrow> ('k XMap \<times> ('k, 'v) map_memory) option" where
  "XMap_create_copy al src H = VXClass_copy al True (Some (XMap_init (m_compare src) (m_useCow src))) src H"

definition XMap_create_move ::
  "'k XMap \<Rightarrow> ('k, 'v) map_memory \<Rightarrow> ('k XMap \<times> 'k XMap \<times> ('k, 'v) map_memory) option" where
  "XMap_create_move src H = VXClass_move (Some (XMap_init (m_compare src) (m_useCow src))) src H"

definition XMap_detach :: "map_alloc \<Rightarrow> 'k XMap \<Rightarrow> ('k, 'v) map_memory \<Rightarrow> ('k XMap \<times> ('k, 'v) map_memory) option" where
  "XMap_detach al m H = map_option snd (VXMapDetachIfNeeded al m H)"

definition XMap_isDetached :: "'k XMap \<Rightarrow> ('k, 'v) map_memory \<Rightarrow> bool option" where
  "XMap_isDetached m H = (if m_useCow m then map_option Not (XSharedData_isShared (m_data m) H) else Some True)"

section \<open>Iteration\<close>

definition XMap_begin :: "'k XMap \<Rightarrow> ('k, 'v) map_memory \<Rightarrow> ptr option" where
  "XMap_begin m H =
     (if m_data m = None then Some None
      else do {
        root \<leftarrow> XMap_root m H;
        if root = None then Some None else leftmost (map_nodes H) root
      })"

definition XMap_iterator_add :: "('k, 'v) map_memory \<Rightarrow> ptr \<Rightarrow> ptr option" where
  "XMap_iterator_add H it =
     (if it = None then Some None
      else do {
        n \<leftarrow> deref (map_nodes H) it;
        if RChild n \<noteq> None then leftmost (map_nodes H) (RChild n) else ascend (map_nodes H) it (parentNode n)
      })"

partial_function (option) for_each_iterator ::
  "('k, 'v) map_memory \<Rightarrow> ptr \<Rightarrow> ('k \<times> 'v) list \<Rightarrow> ('k \<times> 'v) list option" where
  "for_each_iterator H it seen =
     (if it = None then Some seen
      else do {
        n \<leftarrow> deref (map_nodes H) it;
        next_it \<leftarrow> XMap_iterator_add H it;
        for_each_iterator H next_it (seen @ [node_data n])
      })"

definition VXMapBase_keys :: "'k XMap \<Rightarrow> ('k, 'v) map_memory \<Rightarrow> 'k list option" where
  "VXMapBase_keys m H = do { it \<leftarrow> XMap_begin m H; map_option (map fst) (for_each_iterator H it []) }"

definition VXMapBase_values :: "'k XMap \<Rightarrow> ('k, 'v) map_memory \<Rightarrow> 'v list option" where
  "VXMapBase_values m H = do { it \<leftarrow> XMap_begin m H; map_option (map snd) (for_each_iterator H it []) }"

text \<open>
  Removal by a predicate, of \<open>XMapBase.c\<close>, for any map: the virtual calls are arguments. The keys are
  copied first.
\<close>

fun removeIf_loop ::
  "('s \<Rightarrow> 'k \<Rightarrow> 'v option option) \<Rightarrow> ('k \<Rightarrow> 's \<Rightarrow> (bool \<times> 's) option) \<Rightarrow> ('k \<Rightarrow> 'v \<Rightarrow> bool) \<Rightarrow>
    'k list \<Rightarrow> nat \<Rightarrow> 's \<Rightarrow> (nat \<times> 's) option" where
  "removeIf_loop value_op remove_op pred [] removed s = Some (removed, s)"
| "removeIf_loop value_op remove_op pred (pvKey # keys) removed s = do {
     pvValue \<leftarrow> value_op s pvKey;
     (case pvValue of
        None \<Rightarrow> removeIf_loop value_op remove_op pred keys removed s
      | Some v \<Rightarrow>
          if pred pvKey v then do {
            (ok, s1) \<leftarrow> remove_op pvKey s;
            removeIf_loop value_op remove_op pred keys (if ok then removed + 1 else removed) s1
          }
          else removeIf_loop value_op remove_op pred keys removed s)
   }"

definition XMapBase_removeIf ::
  "('s \<Rightarrow> 'k list option) \<Rightarrow> ('s \<Rightarrow> 'k \<Rightarrow> 'v option option) \<Rightarrow> ('k \<Rightarrow> 's \<Rightarrow> (bool \<times> 's) option) \<Rightarrow>
    ('k \<Rightarrow> 'v \<Rightarrow> bool) \<Rightarrow> 's \<Rightarrow> (nat \<times> 's) option" where
  "XMapBase_removeIf keys_op value_op remove_op pred s = do {
     keys \<leftarrow> keys_op s;
     removeIf_loop value_op remove_op pred keys 0 s
   }"

end
