(* ===== verification/TreeShape.thy ===== *)
theory TreeShape
  imports XTree "HOL-Library.Tree"
begin

text \<open>
  What a store of linked nodes represents: a tree of addresses with labels, where every node of the store
  has the parent and the children the tree gives it. A path into a tree (the context of a subtree) is a list
  of crumbs, innermost first. Rotations and searches are proved against such trees.
\<close>

section \<open>Trees, paths and stores\<close>

type_synonym 'c atree = "(addr \<times> 'c) tree"

datatype 'c crumb = InL "addr \<times> 'c" "'c atree" | InR "'c atree" "addr \<times> 'c"

fun node_ptr :: "'c atree \<Rightarrow> ptr" where
  "node_ptr Leaf = None"
| "node_ptr (Node l (a, c) r) = Some a"

fun crumb_addr :: "'c crumb \<Rightarrow> addr" where
  "crumb_addr (InL (a, c) r) = a"
| "crumb_addr (InR l (a, c)) = a"

definition path_ptr :: "'c crumb list \<Rightarrow> ptr" where
  "path_ptr ps = (case ps of [] \<Rightarrow> None | p # ps \<Rightarrow> Some (crumb_addr p))"

fun plug :: "'c atree \<Rightarrow> 'c crumb list \<Rightarrow> 'c atree" where
  "plug t [] = t"
| "plug t (InL x r # ps) = plug (Node t x r) ps"
| "plug t (InR l x # ps) = plug (Node l x t) ps"

text \<open>The nodes before and after the hole of a path, in order.\<close>

fun before :: "'c crumb list \<Rightarrow> (addr \<times> 'c) list" where
  "before [] = []"
| "before (InL x r # ps) = before ps"
| "before (InR l x # ps) = before ps @ inorder l @ [x]"

fun after :: "'c crumb list \<Rightarrow> (addr \<times> 'c) list" where
  "after [] = []"
| "after (InL x r # ps) = x # inorder r @ after ps"
| "after (InR l x # ps) = after ps"

text \<open>\<open>f\<close> reads the label of a node.\<close>

fun shape :: "(('a, 'b) XTreeNode_scheme \<Rightarrow> 'c) \<Rightarrow> ('a, 'b) XTreeNode_scheme store \<Rightarrow> ptr \<Rightarrow> 'c atree \<Rightarrow> bool" where
  "shape f h par Leaf \<longleftrightarrow> True"
| "shape f h par (Node l (a, c) r) \<longleftrightarrow>
     (\<exists>n. h a = Some n \<and> parentNode n = par \<and> LChild n = node_ptr l \<and> RChild n = node_ptr r \<and> f n = c \<and>
       shape f h (Some a) l \<and> shape f h (Some a) r)"

fun path_shape :: "(('a, 'b) XTreeNode_scheme \<Rightarrow> 'c) \<Rightarrow> ('a, 'b) XTreeNode_scheme store \<Rightarrow> 'c crumb list \<Rightarrow> ptr \<Rightarrow> bool" where
  "path_shape f h [] q \<longleftrightarrow> True"
| "path_shape f h (InL (a, c) r # ps) q \<longleftrightarrow>
     (\<exists>n. h a = Some n \<and> parentNode n = path_ptr ps \<and> LChild n = q \<and> RChild n = node_ptr r \<and> f n = c \<and>
       shape f h (Some a) r \<and> path_shape f h ps (Some a))"
| "path_shape f h (InR l (a, c) # ps) q \<longleftrightarrow>
     (\<exists>n. h a = Some n \<and> parentNode n = path_ptr ps \<and> LChild n = node_ptr l \<and> RChild n = q \<and> f n = c \<and>
       shape f h (Some a) l \<and> path_shape f h ps (Some a))"

definition addrs :: "'c atree \<Rightarrow> addr set" where
  "addrs t = fst ` set_tree t"

fun path_addrs :: "'c crumb list \<Rightarrow> addr set" where
  "path_addrs [] = {}"
| "path_addrs (InL x r # ps) = insert (fst x) (addrs r \<union> path_addrs ps)"
| "path_addrs (InR l x # ps) = insert (fst x) (addrs l \<union> path_addrs ps)"

fun no_sharing :: "'c atree \<Rightarrow> bool" where
  "no_sharing Leaf \<longleftrightarrow> True"
| "no_sharing (Node l (a, c) r) \<longleftrightarrow>
     a \<notin> addrs l \<and> a \<notin> addrs r \<and> addrs l \<inter> addrs r = {} \<and> no_sharing l \<and> no_sharing r"

fun path_no_sharing :: "'c crumb list \<Rightarrow> bool" where
  "path_no_sharing [] \<longleftrightarrow> True"
| "path_no_sharing (InL x r # ps) \<longleftrightarrow>
     fst x \<notin> addrs r \<and> fst x \<notin> path_addrs ps \<and> addrs r \<inter> path_addrs ps = {} \<and> no_sharing r \<and> path_no_sharing ps"
| "path_no_sharing (InR l x # ps) \<longleftrightarrow>
     fst x \<notin> addrs l \<and> fst x \<notin> path_addrs ps \<and> addrs l \<inter> path_addrs ps = {} \<and> no_sharing l \<and> path_no_sharing ps"

text \<open>The root and the store represent the tree.\<close>

definition holds ::
  "(('a, 'b) XTreeNode_scheme \<Rightarrow> 'c) \<Rightarrow> ('a, 'b) XTreeNode_scheme store \<Rightarrow> ptr \<Rightarrow> 'c atree \<Rightarrow> bool" where
  "holds f h root t \<longleftrightarrow> root = node_ptr t \<and> shape f h None t \<and> no_sharing t"

text \<open>The same, seen from a subtree and its path.\<close>

definition focus ::
  "(('a, 'b) XTreeNode_scheme \<Rightarrow> 'c) \<Rightarrow> ('a, 'b) XTreeNode_scheme store \<Rightarrow> ptr \<Rightarrow> 'c atree \<Rightarrow> 'c crumb list \<Rightarrow> bool" where
  "focus f h root t ps \<longleftrightarrow>
     root = node_ptr (plug t ps) \<and> shape f h (path_ptr ps) t \<and> path_shape f h ps (node_ptr t) \<and>
     no_sharing t \<and> path_no_sharing ps \<and> addrs t \<inter> path_addrs ps = {}"

text \<open>Nodes that are not in the tree stay as they are.\<close>

definition same_outside :: "'n store \<Rightarrow> 'n store \<Rightarrow> addr set \<Rightarrow> bool" where
  "same_outside h' h A \<longleftrightarrow> (\<forall>x. x \<notin> A \<longrightarrow> h' x = h x)"

section \<open>Basic facts\<close>

lemma addrs_simps [simp]:
  "addrs Leaf = {}" "addrs (Node l x r) = insert (fst x) (addrs l \<union> addrs r)"
  by (auto simp: addrs_def)

lemma path_ptr_simps [simp]:
  "path_ptr [] = None" "path_ptr (InL x r # ps) = Some (fst x)" "path_ptr (InR l x # ps) = Some (fst x)"
  by (cases x; simp add: path_ptr_def)+

lemma node_ptr_Node [simp]: "node_ptr (Node l x r) = Some (fst x)"
  by (cases x) simp

lemma node_ptr_None [simp]: "node_ptr t = None \<longleftrightarrow> t = Leaf" "None = node_ptr t \<longleftrightarrow> t = Leaf"
  by (cases t; simp)+

lemma node_ptr_Some: "node_ptr t = Some a \<longleftrightarrow> (\<exists>l c r. t = Node l (a, c) r)"
  by (cases t) auto

lemma node_ptr_addrs: "node_ptr t = Some a \<Longrightarrow> a \<in> addrs t"
  by (auto simp: node_ptr_Some)

lemma path_ptr_addrs: "path_ptr ps = Some a \<Longrightarrow> a \<in> path_addrs ps"
  by (cases ps rule: path_addrs.cases) auto

lemma finite_addrs [simp]: "finite (addrs t)"
  by (simp add: addrs_def)

lemma inorder_plug: "inorder (plug t ps) = before ps @ inorder t @ after ps"
  by (induction t ps rule: plug.induct) auto

lemma addrs_inorder: "addrs t = fst ` set (inorder t)"
  by (simp add: addrs_def)

lemma addrs_plug [simp]: "addrs (plug t ps) = addrs t \<union> path_addrs ps"
  by (induction t ps rule: plug.induct) auto

lemma no_sharing_plug:
  "no_sharing (plug t ps) \<longleftrightarrow> no_sharing t \<and> path_no_sharing ps \<and> addrs t \<inter> path_addrs ps = {}"
proof (induction t ps rule: plug.induct)
  case (2 t x r ps)
  then show ?case by (cases x) (auto simp: Int_Un_distrib Int_Un_distrib2)
next
  case (3 t l x ps)
  then show ?case by (cases x) (auto simp: Int_Un_distrib Int_Un_distrib2)
qed simp

lemma no_sharing_distinct: "no_sharing t \<longleftrightarrow> distinct (map fst (inorder t))"
  by (induction t rule: no_sharing.induct) (auto simp: addrs_inorder)

lemma shape_plug:
  "shape f h None (plug t ps) \<longleftrightarrow> shape f h (path_ptr ps) t \<and> path_shape f h ps (node_ptr t)"
proof (induction t ps rule: plug.induct)
  case (2 t x r ps)
  then show ?case by (cases x) auto
next
  case (3 t l x ps)
  then show ?case by (cases x) auto
qed simp

lemma focus_holds: "focus f h root t ps \<longleftrightarrow> holds f h root (plug t ps)"
  by (auto simp: focus_def holds_def shape_plug no_sharing_plug)

lemma shape_frame [simp]: "a \<notin> addrs t \<Longrightarrow> shape f (h(a := v)) par t = shape f h par t"
  by (induction t arbitrary: par rule: no_sharing.induct) auto

lemma path_shape_frame [simp]: "a \<notin> path_addrs ps \<Longrightarrow> path_shape f (h(a := v)) ps q = path_shape f h ps q"
  by (induction f h ps q rule: path_shape.induct) auto

lemma shape_same: "(\<And>x. x \<in> addrs t \<Longrightarrow> h' x = h x) \<Longrightarrow> shape f h' par t = shape f h par t"
  by (induction t arbitrary: par rule: no_sharing.induct) auto

lemma holds_same: "holds f h root t \<Longrightarrow> (\<And>x. x \<in> addrs t \<Longrightarrow> h' x = h x) \<Longrightarrow> holds f h' root t"
  using shape_same [of t h' h] by (auto simp: holds_def)

lemma shape_dom: "shape f h par t \<Longrightarrow> x \<in> addrs t \<Longrightarrow> h x \<noteq> None"
  by (induction t arbitrary: par rule: no_sharing.induct) auto

lemma node_ptr_plug: "ps \<noteq> [] \<Longrightarrow> node_ptr (plug t ps) = node_ptr (plug t' ps)"
proof (induction t ps arbitrary: t' rule: plug.induct)
  case (2 t x r ps)
  then show ?case by (cases ps) auto
next
  case (3 t l x ps)
  then show ?case by (cases ps) auto
qed simp

lemma same_outside_refl [simp]: "same_outside h h A"
  by (simp add: same_outside_def)

lemma same_outside_trans: "same_outside h2 h1 A \<Longrightarrow> same_outside h1 h0 A \<Longrightarrow> same_outside h2 h0 A"
  by (simp add: same_outside_def)

lemma same_outside_wider: "same_outside h2 h1 A \<Longrightarrow> A \<subseteq> B \<Longrightarrow> same_outside h2 h1 B"
  by (auto simp: same_outside_def)

lemma same_outside_upd: "same_outside h' h A \<Longrightarrow> a \<in> A \<Longrightarrow> same_outside (h'(a := v)) h A"
  by (auto simp: same_outside_def)

end
