(* ===== verification/TreeSpin.thy ===== *)
theory TreeSpin
  imports TreeShape
begin

text \<open>
  Rotation, replacement of a child, search, insertion at a leaf, traversal and deletion, each against the
  tree that the store represents.
\<close>

section \<open>Changing a link\<close>

text \<open>The label does not depend on the links.\<close>

definition link_free :: "(('a, 'b) XTreeNode_scheme \<Rightarrow> 'c) \<Rightarrow> bool" where
  "link_free f \<longleftrightarrow>
     (\<forall>n p. f (n\<lparr>parentNode := p\<rparr>) = f n \<and> f (n\<lparr>LChild := p\<rparr>) = f n \<and> f (n\<lparr>RChild := p\<rparr>) = f n)"

lemma link_freeD:
  "link_free f \<Longrightarrow> f (parentNode_update (\<lambda>_. p) n) = f n"
  "link_free f \<Longrightarrow> f (LChild_update (\<lambda>_. p) n) = f n"
  "link_free f \<Longrightarrow> f (RChild_update (\<lambda>_. p) n) = f n"
  by (simp_all add: link_free_def)

lemma node_ptr_not: "a \<notin> addrs t \<Longrightarrow> node_ptr t \<noteq> Some a"
  by (cases t) auto

text \<open>The slot of the parent that holds the top of the subtree is overwritten.\<close>

lemma replace_slot:
  assumes f: "link_free f" and n: "h a = Some n" "parentNode n = path_ptr ps" and ps: "ps \<noteq> []"
    and path: "path_shape f h ps (Some a)" and a: "a \<notin> path_addrs ps" and sh: "path_no_sharing ps"
  shows "\<exists>p m. path_ptr ps = Some p \<and> p \<in> path_addrs ps \<and>
    XTreeNode_getChildrenParentRef h (Some a) \<bind> (\<lambda>ref. store_ref h ref v) = Some (h(p \<mapsto> m)) \<and>
    path_shape f (h(p \<mapsto> m)) ps v"
proof (cases ps)
  case (Cons c qs)
  show ?thesis
  proof (cases c)
    case (InL x r)
    then show ?thesis
      using Cons assms by (cases x) (auto simp: link_freeD XTreeNode_getChildrenParentRef_def store_ref_def
        XTreeNode_GetChild_def XTreeNode_SetChild_def)
  next
    case (InR l x)
    then have "node_ptr l \<noteq> Some a" using Cons a by (intro node_ptr_not) auto
    then show ?thesis
      using Cons InR assms by (cases x) (auto simp: link_freeD XTreeNode_getChildrenParentRef_def store_ref_def
        XTreeNode_GetChild_def XTreeNode_SetChild_def)
  qed
qed (use ps in simp)

section \<open>Rotation\<close>

lemma SpinRR_focus:
  assumes f: "link_free f" and foc: "focus f h root (Node (Node x (b, cb) y) (a, ca) z) ps"
  shows "\<exists>root' h'. XBTree_SpinRR root (Some a) h = Some (Some b, root', h') \<and>
    focus f h' root' (Node x (b, cb) (Node y (a, ca) z)) ps \<and>
    same_outside h' h (addrs (Node (Node x (b, cb) y) (a, ca) z) \<union> path_addrs ps)"
proof (cases "ps = []")
  case True
  then show ?thesis
    using foc f by (cases y) (auto simp: link_freeD focus_def XBTree_SpinRR_def Let_def same_outside_def Int_Un_distrib Int_Un_distrib2 Int_commute)
next
  case False
  obtain n where n: "h a = Some n" "parentNode n = path_ptr ps" using foc by (auto simp: focus_def)
  obtain p m where pm: "path_ptr ps = Some p" "p \<in> path_addrs ps"
    "XTreeNode_getChildrenParentRef h (Some a) \<bind> (\<lambda>ref. store_ref h ref (Some b)) = Some (h(p \<mapsto> m))"
    "path_shape f (h(p \<mapsto> m)) ps (Some b)"
    using replace_slot [where f = f and h = h and a = a and n = n and ps = ps and v = "Some b"] f n False foc
    by (auto simp: focus_def)
  obtain r where r: "XTreeNode_getChildrenParentRef h (Some a) = Some r" "store_ref h r (Some b) = Some (h(p \<mapsto> m))"
    using pm(3) by (auto simp: bind_eq_Some_conv)
  have out: "p \<notin> addrs x" "p \<notin> addrs y" "p \<notin> addrs z" "p \<noteq> a" "p \<noteq> b"
    using foc pm(2) by (auto simp: focus_def)
  have root: "root = node_ptr (plug (Node x (b, cb) (Node y (a, ca) z)) ps)"
    using foc node_ptr_plug [OF False] unfolding focus_def by metis
  show ?thesis
    using foc f n pm r out unfolding focus_def root
    by (cases y) (auto simp: link_freeD XBTree_SpinRR_def Let_def same_outside_def Int_Un_distrib Int_Un_distrib2 Int_commute)
qed

lemma SpinLL_focus:
  assumes f: "link_free f" and foc: "focus f h root (Node x (a, ca) (Node y (b, cb) z)) ps"
  shows "\<exists>root' h'. XBTree_SpinLL root (Some a) h = Some (Some b, root', h') \<and>
    focus f h' root' (Node (Node x (a, ca) y) (b, cb) z) ps \<and>
    same_outside h' h (addrs (Node x (a, ca) (Node y (b, cb) z)) \<union> path_addrs ps)"
proof (cases "ps = []")
  case True
  then show ?thesis
    using foc f by (cases y) (auto simp: link_freeD focus_def XBTree_SpinLL_def Let_def same_outside_def Int_Un_distrib Int_Un_distrib2 Int_commute)
next
  case False
  obtain n where n: "h a = Some n" "parentNode n = path_ptr ps" using foc by (auto simp: focus_def)
  obtain p m where pm: "path_ptr ps = Some p" "p \<in> path_addrs ps"
    "XTreeNode_getChildrenParentRef h (Some a) \<bind> (\<lambda>ref. store_ref h ref (Some b)) = Some (h(p \<mapsto> m))"
    "path_shape f (h(p \<mapsto> m)) ps (Some b)"
    using replace_slot [where f = f and h = h and a = a and n = n and ps = ps and v = "Some b"] f n False foc
    by (auto simp: focus_def)
  obtain r where r: "XTreeNode_getChildrenParentRef h (Some a) = Some r" "store_ref h r (Some b) = Some (h(p \<mapsto> m))"
    using pm(3) by (auto simp: bind_eq_Some_conv)
  have out: "p \<notin> addrs x" "p \<notin> addrs y" "p \<notin> addrs z" "p \<noteq> a" "p \<noteq> b"
    using foc pm(2) by (auto simp: focus_def)
  have root: "root = node_ptr (plug (Node (Node x (a, ca) y) (b, cb) z) ps)"
    using foc node_ptr_plug [OF False] unfolding focus_def by metis
  show ?thesis
    using foc f n pm r out unfolding focus_def root
    by (cases y) (auto simp: link_freeD XBTree_SpinLL_def Let_def same_outside_def Int_Un_distrib Int_Un_distrib2 Int_commute)
qed

end
