(* ===== verification/RedBlackShape.thy ===== *)
theory RedBlackShape
  imports TreeSpin XRedBlackTree
begin

text \<open>
  Red-black trees of addresses: the label of a node is its colour and its data. A view says that the store
  represents a subtree in its context and otherwise is the store it was; the operations are proved to lead
  from view to view. The colour and height conditions of a tree are split between a subtree and its path.
\<close>

section \<open>Views\<close>

definition rb_label :: "'a XRBTreeNode \<Rightarrow> XRBTreeColor \<times> 'a" where
  "rb_label n = (color n, node_data n)"

type_synonym 'a rb_tree = "(XRBTreeColor \<times> 'a) atree"
type_synonym 'a rb_path = "(XRBTreeColor \<times> 'a) crumb list"

definition view :: "'a rb_store \<Rightarrow> 'a rb_store \<Rightarrow> ptr \<Rightarrow> 'a rb_tree \<Rightarrow> 'a rb_path \<Rightarrow> bool" where
  "view h0 h root t ps \<longleftrightarrow> focus rb_label h root t ps \<and> same_outside h h0 (addrs t \<union> path_addrs ps)"

lemma rb_label_link_free [simp]: "link_free rb_label"
  by (simp add: link_free_def rb_label_def)

lemma view_up:
  "view h0 h root t (InL x r # ps) = view h0 h root (Node t x r) ps"
  "view h0 h root t (InR l x # ps) = view h0 h root (Node l x t) ps"
  by (simp_all add: view_def focus_holds Un_ac)

lemma view_node:
  assumes "view h0 h root (Node l (a, c, d) r) ps"
  shows "\<exists>n. h a = Some n \<and> parentNode n = path_ptr ps \<and> LChild n = node_ptr l \<and> RChild n = node_ptr r \<and>
    color n = c \<and> node_data n = d"
  using assms by (auto simp: view_def focus_def rb_label_def)

lemma view_SetColor:
  assumes "view h0 h root (Node l (a, c, d) r) ps"
  shows "\<exists>h'. XRBTree_SetColor (Some a) c' h = Some h' \<and> view h0 h' root (Node l (a, c', d) r) ps"
  using assms node_ptr_plug [of ps "Node l (a, c, d) r" "Node l (a, c', d) r"]
  by (cases "ps = []")
    (auto simp: view_def focus_def rb_label_def XRBTree_SetColor_def same_outside_def)

lemma view_SpinRR:
  assumes "view h0 h root (Node (Node x (b, cb) y) (a, ca) z) ps"
  shows "\<exists>root' h'. XBTree_SpinRR root (Some a) h = Some (Some b, root', h') \<and>
    view h0 h' root' (Node x (b, cb) (Node y (a, ca) z)) ps"
proof -
  obtain root' h' where "XBTree_SpinRR root (Some a) h = Some (Some b, root', h')"
    "focus rb_label h' root' (Node x (b, cb) (Node y (a, ca) z)) ps"
    "same_outside h' h (addrs (Node (Node x (b, cb) y) (a, ca) z) \<union> path_addrs ps)"
    using SpinRR_focus [of rb_label h root x b cb y a ca z ps] assms by (auto simp: view_def)
  then show ?thesis using assms by (auto simp: view_def same_outside_def)
qed

lemma view_SpinLL:
  assumes "view h0 h root (Node x (a, ca) (Node y (b, cb) z)) ps"
  shows "\<exists>root' h'. XBTree_SpinLL root (Some a) h = Some (Some b, root', h') \<and>
    view h0 h' root' (Node (Node x (a, ca) y) (b, cb) z) ps"
proof -
  obtain root' h' where "XBTree_SpinLL root (Some a) h = Some (Some b, root', h')"
    "focus rb_label h' root' (Node (Node x (a, ca) y) (b, cb) z) ps"
    "same_outside h' h (addrs (Node x (a, ca) (Node y (b, cb) z)) \<union> path_addrs ps)"
    using SpinLL_focus [of rb_label h root x a ca y b cb z ps] assms by (auto simp: view_def)
  then show ?thesis using assms by (auto simp: view_def same_outside_def)
qed

text \<open>Both sides at once: a node with a near and a far subtree.\<close>

definition mk :: "XBTreeNodeType \<Rightarrow> 'c atree \<Rightarrow> addr \<times> 'c \<Rightarrow> 'c atree \<Rightarrow> 'c atree" where
  "mk ty near x far = (case ty of XBTreeLChild \<Rightarrow> Node near x far | XBTreeRChild \<Rightarrow> Node far x near)"

definition near_crumb :: "XBTreeNodeType \<Rightarrow> addr \<times> 'c \<Rightarrow> 'c atree \<Rightarrow> 'c crumb" where
  "near_crumb ty x far = (case ty of XBTreeLChild \<Rightarrow> InL x far | XBTreeRChild \<Rightarrow> InR far x)"

lemma other_other [simp]: "other (other ty) = ty"
  by (cases ty) (simp_all add: other_def)

lemma mk_other: "mk (other ty) near x far = mk ty far x near"
  by (cases ty) (simp_all add: other_def mk_def)

lemma mk_Leaf [simp]: "mk ty near x far \<noteq> Leaf" "Leaf \<noteq> mk ty near x far"
  by (cases ty; simp add: mk_def)+

lemma node_ptr_mk [simp]: "node_ptr (mk ty near x far) = Some (fst x)"
  by (cases ty) (simp_all add: mk_def)

lemma addrs_mk [simp]: "addrs (mk ty near x far) = insert (fst x) (addrs near \<union> addrs far)"
  by (cases ty) (auto simp: mk_def)

lemma mk_cases:
  assumes "t \<noteq> Leaf" obtains near x far where "t = mk ty near x far"
  using assms by (cases t; cases ty) (auto simp: mk_def)

lemma view_near: "view h0 h root t (near_crumb ty x far # ps) = view h0 h root (mk ty t x far) ps"
  by (cases ty) (simp_all add: near_crumb_def mk_def view_up)

lemma view_far: "view h0 h root t (near_crumb (other ty) x near # ps) = view h0 h root (mk ty near x t) ps"
  by (simp add: view_near mk_other)

lemma path_ptr_near [simp]: "path_ptr (near_crumb ty x far # ps) = Some (fst x)"
  by (cases ty) (simp_all add: near_crumb_def)

lemma view_mk:
  assumes "view h0 h root (mk ty near (a, c, d) far) ps"
  shows "\<exists>n. h a = Some n \<and> parentNode n = path_ptr ps \<and> XTreeNode_GetChild ty n = node_ptr near \<and>
    XTreeNode_GetChild (other ty) n = node_ptr far \<and> color n = c \<and> node_data n = d"
  using assms view_node by (cases ty) (fastforce simp: mk_def other_def XTreeNode_GetChild_def)+

lemma view_SetColor_mk:
  assumes "view h0 h root (mk ty near (a, c, d) far) ps"
  shows "\<exists>h'. XRBTree_SetColor (Some a) c' h = Some h' \<and> view h0 h' root (mk ty near (a, c', d) far) ps"
  using assms view_SetColor by (cases ty) (fastforce simp: mk_def)+

text \<open>Turning to a side brings the top of the far subtree up.\<close>

lemma view_spin_to:
  assumes "view h0 h root (mk ty x (a, ca) (mk ty y (b, cb) z)) ps"
  shows "\<exists>root' h'. spin_to ty root (Some a) h = Some (Some b, root', h') \<and>
    view h0 h' root' (mk ty (mk ty x (a, ca) y) (b, cb) z) ps"
  using assms view_SpinLL [of h0 h root x a ca y b cb z ps] view_SpinRR [of h0 h root z b cb y a ca x ps]
  by (cases ty) (auto simp: mk_def spin_to_def)

lemma view_spin_back:
  assumes "view h0 h root (mk ty (mk ty x (b, cb) y) (a, ca) z) ps"
  shows "\<exists>root' h'. spin_to (other ty) root (Some a) h = Some (Some b, root', h') \<and>
    view h0 h' root' (mk ty x (b, cb) (mk ty y (a, ca) z)) ps"
  using view_spin_to [of h0 h root "other ty" z a ca y b cb x ps] assms by (simp add: mk_other)

lemma view_addr:
  assumes "view h0 h root (mk ty near x far) ps"
  shows "fst x \<notin> addrs near" "fst x \<notin> addrs far" "addrs near \<inter> addrs far = {}"
  using assms by (cases x; cases ty; auto simp: view_def focus_def mk_def)+

section \<open>Colours and black heights\<close>

fun tree_color :: "'a rb_tree \<Rightarrow> XRBTreeColor" where
  "tree_color Leaf = XRBTreeBlack"
| "tree_color (Node l (a, c, d) r) = c"

fun black_height :: "'a rb_tree \<Rightarrow> nat" where
  "black_height Leaf = 0"
| "black_height (Node l (a, c, d) r) = black_height l + (if c = XRBTreeBlack then 1 else 0)"

fun colors_ok :: "'a rb_tree \<Rightarrow> bool" where
  "colors_ok Leaf \<longleftrightarrow> True"
| "colors_ok (Node l (a, c, d) r) \<longleftrightarrow>
     (c = XRBTreeRed \<longrightarrow> tree_color l = XRBTreeBlack \<and> tree_color r = XRBTreeBlack) \<and> colors_ok l \<and> colors_ok r"

fun heights_ok :: "'a rb_tree \<Rightarrow> bool" where
  "heights_ok Leaf \<longleftrightarrow> True"
| "heights_ok (Node l (a, c, d) r) \<longleftrightarrow> black_height l = black_height r \<and> heights_ok l \<and> heights_ok r"

definition balanced_rb :: "'a rb_tree \<Rightarrow> bool" where
  "balanced_rb t \<longleftrightarrow> colors_ok t \<and> heights_ok t"

definition red_black :: "'a rb_tree \<Rightarrow> bool" where
  "red_black t \<longleftrightarrow> balanced_rb t \<and> tree_color t = XRBTreeBlack"

fun crumb_color :: "(XRBTreeColor \<times> 'a) crumb \<Rightarrow> XRBTreeColor" where
  "crumb_color (InL (a, c, d) r) = c"
| "crumb_color (InR l (a, c, d)) = c"

fun sibling :: "'c crumb \<Rightarrow> 'c atree" where
  "sibling (InL x r) = r"
| "sibling (InR l x) = l"

definition path_color :: "'a rb_path \<Rightarrow> XRBTreeColor" where
  "path_color ps = (case ps of [] \<Rightarrow> XRBTreeBlack | p # ps \<Rightarrow> crumb_color p)"

text \<open>All is well around a hole for a subtree of black height \<open>n\<close>; the root is black.\<close>

fun path_ok :: "'a rb_path \<Rightarrow> nat \<Rightarrow> bool" where
  "path_ok [] n \<longleftrightarrow> True"
| "path_ok (p # ps) n \<longleftrightarrow>
     balanced_rb (sibling p) \<and> black_height (sibling p) = n \<and>
     (crumb_color p = XRBTreeRed \<longrightarrow> tree_color (sibling p) = XRBTreeBlack \<and> path_color ps = XRBTreeBlack \<and> ps \<noteq> []) \<and>
     path_ok ps (if crumb_color p = XRBTreeBlack then n + 1 else n)"

lemma not_black [simp]: "c \<noteq> XRBTreeBlack \<longleftrightarrow> c = XRBTreeRed" "c \<noteq> XRBTreeRed \<longleftrightarrow> c = XRBTreeBlack"
  by (cases c; simp)+

lemma balanced_Node:
  "balanced_rb (Node l (a, c, d) r) \<longleftrightarrow>
     (c = XRBTreeRed \<longrightarrow> tree_color l = XRBTreeBlack \<and> tree_color r = XRBTreeBlack) \<and>
     black_height l = black_height r \<and> balanced_rb l \<and> balanced_rb r"
  by (auto simp: balanced_rb_def)

lemma balanced_Leaf [simp]: "balanced_rb Leaf"
  by (simp add: balanced_rb_def)

fun close :: "'c atree \<Rightarrow> 'c crumb \<Rightarrow> 'c atree" where
  "close t (InL x r) = Node t x r"
| "close t (InR l x) = Node l x t"

lemma plug_Cons: "plug t (p # ps) = plug (close t p) ps"
  by (cases p) simp_all

lemma tree_color_close [simp]: "tree_color (close t p) = crumb_color p"
  by (cases "(t, p)" rule: close.cases; cases p rule: crumb_color.cases) auto

lemma black_height_close:
  "black_height t = black_height (sibling p) \<Longrightarrow>
    black_height (close t p) = (if crumb_color p = XRBTreeBlack then black_height t + 1 else black_height t)"
  by (cases p rule: crumb_color.cases) simp_all

lemma balanced_close:
  "balanced_rb (close t p) \<longleftrightarrow>
     (crumb_color p = XRBTreeRed \<longrightarrow> tree_color t = XRBTreeBlack \<and> tree_color (sibling p) = XRBTreeBlack) \<and>
     black_height t = black_height (sibling p) \<and> balanced_rb t \<and> balanced_rb (sibling p)"
  by (cases p rule: crumb_color.cases) (auto simp: balanced_Node)

lemma path_color_Cons [simp]: "path_color (p # ps) = crumb_color p"
  by (simp add: path_color_def)

lemma path_color_Nil [simp]: "path_color [] = XRBTreeBlack"
  by (simp add: path_color_def)

lemma path_ok_plug:
  assumes "path_ok ps (black_height t)" and "balanced_rb t"
    and "path_color ps = XRBTreeRed \<longrightarrow> tree_color t = XRBTreeBlack" and "ps = [] \<longrightarrow> tree_color t = XRBTreeBlack"
  shows "red_black (plug t ps)"
  using assms
proof (induction ps arbitrary: t)
  case (Cons p ps)
  then have eq: "black_height t = black_height (sibling p)" by simp
  show ?case
    unfolding plug_Cons
  proof (rule Cons.IH)
    show "path_ok ps (black_height (close t p))" "balanced_rb (close t p)"
      using Cons.prems by (simp_all add: black_height_close [OF eq] balanced_close)
    show "path_color ps = XRBTreeRed \<longrightarrow> tree_color (close t p) = XRBTreeBlack"
      "ps = [] \<longrightarrow> tree_color (close t p) = XRBTreeBlack"
      using Cons.prems by (cases "crumb_color p"; simp)+
  qed
qed (simp add: red_black_def)

lemma plug_path_ok:
  assumes "red_black (plug t ps)"
  shows "path_ok ps (black_height t) \<and> balanced_rb t \<and> (path_color ps = XRBTreeRed \<longrightarrow> tree_color t = XRBTreeBlack) \<and>
    (ps = [] \<longrightarrow> tree_color t = XRBTreeBlack)"
  using assms
proof (induction ps arbitrary: t)
  case (Cons p ps)
  have IH: "path_ok ps (black_height (close t p))" "balanced_rb (close t p)"
    "path_color ps = XRBTreeRed \<longrightarrow> crumb_color p = XRBTreeBlack" "ps = [] \<longrightarrow> crumb_color p = XRBTreeBlack"
    using Cons.IH [of "close t p"] Cons.prems by (simp_all add: plug_Cons)
  then have eq: "black_height t = black_height (sibling p)" by (simp add: balanced_close)
  show ?case
    using IH eq black_height_close [OF eq] by (cases "crumb_color p"; cases "path_color ps"; auto simp: balanced_close)
qed (simp add: red_black_def)

text \<open>The data with its addresses, in order, without the colours.\<close>

definition entries :: "'a rb_tree \<Rightarrow> (addr \<times> 'a) list" where
  "entries t = map (\<lambda>(a, c, d). (a, d)) (inorder t)"

end
