(* ===== verification/RedBlackInsert.thy ===== *)
theory RedBlackInsert
  imports RedBlackShape
begin

text \<open>Insertion into the red-black tree.\<close>

lemma balanced_mk:
  "balanced_rb (mk ty near (a, c, d) far) \<longleftrightarrow>
     (c = XRBTreeRed \<longrightarrow> tree_color near = XRBTreeBlack \<and> tree_color far = XRBTreeBlack) \<and>
     black_height near = black_height far \<and> balanced_rb near \<and> balanced_rb far"
  by (cases ty) (auto simp: mk_def balanced_Node)

lemma tree_color_mk [simp]: "tree_color (mk ty near (a, c, d) far) = c"
  by (cases ty) (simp_all add: mk_def)

lemma black_height_mk:
  "black_height near = black_height far \<Longrightarrow>
    black_height (mk ty near (a, c, d) far) = black_height near + (if c = XRBTreeBlack then 1 else 0)"
  by (cases ty) (simp_all add: mk_def)

lemma view_colors:
  assumes "view h0 h root (mk ty near x far) ps"
  shows "red_node h (node_ptr near) = Some (tree_color near = XRBTreeRed)"
    and "black_node h (node_ptr near) = Some (tree_color near = XRBTreeBlack)"
proof -
  have v: "view h0 h root near (near_crumb ty x far # ps)" using assms by (simp add: view_near)
  show "red_node h (node_ptr near) = Some (tree_color near = XRBTreeRed)"
    "black_node h (node_ptr near) = Some (tree_color near = XRBTreeBlack)"
    using v view_node by (cases near rule: tree_color.cases; fastforce simp: red_node_def black_node_def)+
qed

lemma view_colors_far:
  assumes "view h0 h root (mk ty near x far) ps"
  shows "red_node h (node_ptr far) = Some (tree_color far = XRBTreeRed)"
    and "black_node h (node_ptr far) = Some (tree_color far = XRBTreeBlack)"
  using view_colors [of h0 h root "other ty" far x near ps] assms by (simp_all add: mk_other)

section \<open>One round\<close>

text \<open>The parent on side \<open>ty\<close> of the grandparent, the uncle on the other side.\<close>

lemma adjust_red_uncle:
  assumes v: "view h0 h root (mk ty (mk ty' A (p, XRBTreeRed, dp) B) (g, cg, dg) (Node U1 (u, XRBTreeRed, du) U2)) ps"
  shows "\<exists>h'. insert_adjust_side ty root cur (Some p) (Some g) h = Some (root, Some g, h') \<and>
    view h0 h' root (mk ty (mk ty' A (p, XRBTreeBlack, dp) B) (g, XRBTreeRed, dg) (Node U1 (u, XRBTreeBlack, du) U2)) ps"
proof -
  let ?U = "\<lambda>c. Node U1 (u, c, du) U2" and ?P = "\<lambda>c. mk ty' A (p, c, dp) B"
  obtain gn where gn: "h g = Some gn" "XTreeNode_GetChild (other ty) gn = Some u"
    using view_mk [OF v] by auto
  have red: "red_node h (Some u) = Some True" using view_colors_far [OF v] by simp
  obtain h1 where h1: "XRBTree_SetBlack (Some p) h = Some h1" "view h0 h1 root (mk ty (?P XRBTreeBlack) (g, cg, dg) (?U XRBTreeRed)) ps"
    using view_SetColor_mk [of h0 h root ty' A p XRBTreeRed dp B "near_crumb ty (g, cg, dg) (?U XRBTreeRed) # ps" XRBTreeBlack] v
    by (auto simp: view_near)
  obtain h2 where h2: "XRBTree_SetBlack (Some u) h1 = Some h2" "view h0 h2 root (mk ty (?P XRBTreeBlack) (g, cg, dg) (?U XRBTreeBlack)) ps"
    using view_SetColor [of h0 h1 root U1 u XRBTreeRed du U2 "near_crumb (other ty) (g, cg, dg) (?P XRBTreeBlack) # ps" XRBTreeBlack] h1(2)
    by (auto simp: view_far)
  obtain h3 where h3: "XRBTree_SetRed (Some g) h2 = Some h3" "view h0 h3 root (mk ty (?P XRBTreeBlack) (g, XRBTreeRed, dg) (?U XRBTreeBlack)) ps"
    using view_SetColor_mk [OF h2(2)] by blast
  show ?thesis
    using gn red h1(1) h2(1) h3 by (simp add: insert_adjust_side_def XRBTree_AdjustNoOne_def)
qed

lemma adjust_outer:
  assumes v: "view h0 h root (mk ty (mk ty C (p, XRBTreeRed, dp) B) (g, cg, dg) U) ps"
    and U: "tree_color U = XRBTreeBlack" and cur: "C = Node C1 (c, cc, dc) C2"
  shows "\<exists>root' h'. insert_adjust_side ty root (Some c) (Some p) (Some g) h = Some (root', Some c, h') \<and>
    view h0 h' root' (mk ty C (p, XRBTreeBlack, dp) (mk ty B (g, XRBTreeRed, dg) U)) ps"
proof -
  let ?P = "\<lambda>c. mk ty C (p, c, dp) B"
  obtain gn where gn: "h g = Some gn" "XTreeNode_GetChild (other ty) gn = node_ptr U"
    using view_mk [OF v] by auto
  have red: "red_node h (node_ptr U) = Some False" using view_colors_far [OF v] U by simp
  have vp: "view h0 h root (?P XRBTreeRed) (near_crumb ty (g, cg, dg) U # ps)" using v by (simp add: view_near)
  obtain pn where pn: "h p = Some pn" "XTreeNode_GetChild (other ty) pn = node_ptr B"
    using view_mk [OF vp] by auto
  have B: "Some c \<noteq> node_ptr B" using view_addr(3) [OF vp] cur node_ptr_addrs [of B c] by auto
  obtain h1 where h1: "XRBTree_SetBlack (Some p) h = Some h1" "view h0 h1 root (mk ty (?P XRBTreeBlack) (g, cg, dg) U) ps"
    using view_SetColor_mk [OF vp] by (auto simp: view_near)
  obtain h2 where h2: "XRBTree_SetRed (Some g) h1 = Some h2" "view h0 h2 root (mk ty (?P XRBTreeBlack) (g, XRBTreeRed, dg) U) ps"
    using view_SetColor_mk [OF h1(2)] by blast
  obtain root' h3 where h3: "spin_to (other ty) root (Some g) h2 = Some (Some p, root', h3)"
    "view h0 h3 root' (mk ty C (p, XRBTreeBlack, dp) (mk ty B (g, XRBTreeRed, dg) U)) ps"
    using view_spin_back [OF h2(2)] by blast
  show ?thesis
    using gn red pn B h1(1) h2(1) h3 by (simp add: insert_adjust_side_def XRBTree_AdjustNoOne_def)
qed

lemma adjust_inner:
  assumes v: "view h0 h root (mk ty (mk ty A (p, XRBTreeRed, dp) (mk ty C1 (c, cc, dc) C2)) (g, cg, dg) U) ps"
    and U: "tree_color U = XRBTreeBlack"
  shows "\<exists>root' h'. insert_adjust_side ty root (Some c) (Some p) (Some g) h = Some (root', Some p, h') \<and>
    view h0 h' root' (mk ty (mk ty A (p, XRBTreeRed, dp) C1) (c, XRBTreeBlack, dc) (mk ty C2 (g, XRBTreeRed, dg) U)) ps"
proof -
  let ?Q = "\<lambda>x. mk ty (mk ty A (p, XRBTreeRed, dp) C1) (c, x, dc) C2"
  obtain gn where gn: "h g = Some gn" "XTreeNode_GetChild (other ty) gn = node_ptr U"
    using view_mk [OF v] by auto
  have red: "red_node h (node_ptr U) = Some False" using view_colors_far [OF v] U by simp
  have vp: "view h0 h root (mk ty A (p, XRBTreeRed, dp) (mk ty C1 (c, cc, dc) C2)) (near_crumb ty (g, cg, dg) U # ps)"
    using v by (simp add: view_near)
  obtain pn where pn: "h p = Some pn" "XTreeNode_GetChild (other ty) pn = Some c"
    using view_mk [OF vp] by auto
  obtain root1 h1 where h1: "spin_to ty root (Some p) h = Some (Some c, root1, h1)"
    "view h0 h1 root1 (?Q cc) (near_crumb ty (g, cg, dg) U # ps)"
    using view_spin_to [OF vp] by blast
  obtain pn' where pn': "h1 p = Some pn'" "parentNode pn' = Some c"
    using view_mk [of h0 h1 root1 ty A p XRBTreeRed dp C1 "near_crumb ty (c, cc, dc) C2 # near_crumb ty (g, cg, dg) U # ps"] h1(2)
    by (auto simp: view_near)
  obtain cn where cn: "h1 c = Some cn" "parentNode cn = Some g"
    using view_mk [OF h1(2)] by auto
  obtain h2 where h2: "XRBTree_SetBlack (Some c) h1 = Some h2" "view h0 h2 root1 (mk ty (?Q XRBTreeBlack) (g, cg, dg) U) ps"
    using view_SetColor_mk [OF h1(2)] by (auto simp: view_near)
  obtain h3 where h3: "XRBTree_SetRed (Some g) h2 = Some h3" "view h0 h3 root1 (mk ty (?Q XRBTreeBlack) (g, XRBTreeRed, dg) U) ps"
    using view_SetColor_mk [OF h2(2)] by blast
  obtain root' h4 where h4: "spin_to (other ty) root1 (Some g) h3 = Some (Some c, root', h4)"
    "view h0 h4 root' (mk ty (mk ty A (p, XRBTreeRed, dp) C1) (c, XRBTreeBlack, dc) (mk ty C2 (g, XRBTreeRed, dg) U)) ps"
    using view_spin_back [OF h3(2)] by blast
  show ?thesis
    using gn red pn pn' cn h1(1) h2(1) h3(1) h4 by (simp add: insert_adjust_side_def XRBTree_AdjustNoOne_def)
qed

section \<open>The loop\<close>

lemma crumb_near: "\<exists>ty a c d far. p = near_crumb ty (a, c, d) far"
proof (cases p)
  case (InL x far)
  then show ?thesis by (cases x) (auto simp: near_crumb_def intro!: exI [of _ XBTreeLChild])
next
  case (InR far x)
  then show ?thesis by (cases x) (auto simp: near_crumb_def intro!: exI [of _ XBTreeRChild])
qed

lemma near_crumb_simps [simp]:
  "crumb_color (near_crumb ty (a, c, d) far) = c" "sibling (near_crumb ty x far) = far"
  by (cases ty; simp add: near_crumb_def)+

lemma plug_near: "plug t (near_crumb ty x far # ps) = plug (mk ty t x far) ps"
  by (cases ty) (simp_all add: near_crumb_def mk_def)

lemma view_path_color:
  assumes "view h0 h root t ps"
  shows "red_node h (path_ptr ps) = Some (path_color ps = XRBTreeRed)"
proof (cases ps)
  case (Cons p qs)
  obtain ty a c d far where p: "p = near_crumb ty (a, c, d) far" using crumb_near [of p] by blast
  then show ?thesis
    using view_mk [of h0 h root ty t a c d far qs] assms Cons by (auto simp: view_near red_node_def)
qed (simp add: red_node_def)

lemma view_top:
  assumes "view h0 h root t ps" and "t \<noteq> Leaf"
  shows "\<exists>a n. node_ptr t = Some a \<and> h a = Some n \<and> parentNode n = path_ptr ps"
  using assms view_node by (cases t rule: tree_color.cases) fastforce+

lemma entries_simps [simp]:
  "entries Leaf = []" "entries (Node l (a, c, d) r) = entries l @ (a, d) # entries r"
  by (simp_all add: entries_def)

lemma entries_plug:
  "entries (plug t ps) = map (\<lambda>(a, c, d). (a, d)) (before ps) @ entries t @ map (\<lambda>(a, c, d). (a, d)) (after ps)"
  by (simp add: entries_def inorder_plug)

lemma entries_mk:
  "entries (mk ty near (a, c, d) far) =
    (case ty of XBTreeLChild \<Rightarrow> entries near @ (a, d) # entries far | XBTreeRChild \<Rightarrow> entries far @ (a, d) # entries near)"
  by (cases ty) (simp_all add: mk_def)

lemma insert_loop_stops:
  assumes "view h0 h root t ps" and "t \<noteq> Leaf" and "path_color ps = XRBTreeBlack"
  shows "insert_adjust_loop root (node_ptr t) h = Some (root, h)"
proof -
  obtain a n where "node_ptr t = Some a" "h a = Some n" "parentNode n = path_ptr ps"
    using view_top [OF assms(1,2)] by blast
  then show ?thesis
    using view_path_color [OF assms(1)] assms(3) by (subst insert_adjust_loop.simps) simp
qed

lemma insert_loop_step:
  assumes v: "view h0 h root t (near_crumb tp (p, XRBTreeRed, dp) B # near_crumb ty (g, cg, dg) U # ps)" and t: "t \<noteq> Leaf"
  shows "insert_adjust_loop root (node_ptr t) h =
    insert_adjust_side ty root (node_ptr t) (Some p) (Some g) h \<bind> (\<lambda>(root1, cur1, h1). insert_adjust_loop root1 cur1 h1)"
proof -
  obtain a n where n: "node_ptr t = Some a" "h a = Some n" "parentNode n = Some p"
    using view_top [OF v t] by auto
  have red: "red_node h (Some p) = Some True" using view_path_color [OF v] by simp
  have vp: "view h0 h root (mk tp t (p, XRBTreeRed, dp) B) (near_crumb ty (g, cg, dg) U # ps)"
    using v by (simp add: view_near)
  obtain pn where pn: "h p = Some pn" "parentNode pn = Some g" using view_mk [OF vp] by auto
  have vg: "view h0 h root (mk ty (mk tp t (p, XRBTreeRed, dp) B) (g, cg, dg) U) ps" using vp by (simp add: view_near)
  obtain gn where gn: "h g = Some gn" "XTreeNode_GetChild ty gn = Some p" "XTreeNode_GetChild (other ty) gn = node_ptr U"
    using view_mk [OF vg] by auto
  have "p \<notin> addrs U" using view_addr(3) [OF vg] by auto
  then have "node_ptr U \<noteq> Some p" by (rule node_ptr_not)
  then have "(if Some p = LChild gn then XBTreeLChild else XBTreeRChild) = ty"
    using gn by (cases ty) (auto simp: XTreeNode_GetChild_def other_def)
  then show ?thesis
    using n red pn gn by (subst insert_adjust_loop.simps) simp
qed

fun blacken :: "'a rb_tree \<Rightarrow> 'a rb_tree" where
  "blacken Leaf = Leaf"
| "blacken (Node l (a, c, d) r) = Node l (a, XRBTreeBlack, d) r"

lemma blacken_simps [simp]:
  "tree_color (blacken t) = XRBTreeBlack" "entries (blacken t) = entries t" "blacken t = Leaf \<longleftrightarrow> t = Leaf"
  by (cases t rule: blacken.cases; simp)+

lemma balanced_blacken: "balanced_rb t \<Longrightarrow> red_black (blacken t)"
  by (cases t rule: blacken.cases) (auto simp: red_black_def balanced_Node)

definition fixed_up :: "'a rb_store \<Rightarrow> ptr \<Rightarrow> 'a rb_store \<Rightarrow> 'a rb_tree \<Rightarrow> bool" where
  "fixed_up h0 root h t \<longleftrightarrow> (\<exists>t'. view h0 h root t' [] \<and> t' \<noteq> Leaf \<and> red_black (blacken t') \<and> entries t' = entries t)"

lemma fixed_up_plug:
  assumes "view h0 h root t ps" and "t \<noteq> Leaf" and "balanced_rb t" and "path_ok ps (black_height t)"
    and "path_color ps = XRBTreeRed \<longrightarrow> tree_color t = XRBTreeBlack" and "entries t = entries t0"
  shows "fixed_up h0 root h (plug t0 ps)"
proof -
  have v: "view h0 h root (plug t ps) []"
    using assms(1) by (simp add: view_def focus_holds)
  have "plug t ps \<noteq> Leaf" using assms(2)
    by (metis addrs_plug addrs_simps(1) insert_not_empty neq_Leaf_iff addrs_simps(2) sup_eq_bot_iff)
  moreover have "balanced_rb (plug t ps)"
  proof (cases "ps = []")
    case False
    have "red_black (plug t ps)" by (rule path_ok_plug) (use assms False in simp_all)
    then show ?thesis by (simp add: red_black_def)
  qed (use assms in simp)
  moreover have "entries (plug t ps) = entries (plug t0 ps)" using assms(6) by (simp add: entries_plug)
  ultimately show ?thesis using v balanced_blacken unfolding fixed_up_def by blast
qed

lemma insert_loop_fixes:
  assumes "view h0 h root t ps" and "t \<noteq> Leaf" and "balanced_rb t" and "tree_color t = XRBTreeRed"
    and "path_ok ps (black_height t)"
  shows "\<exists>root' h'. insert_adjust_loop root (node_ptr t) h = Some (root', h') \<and> fixed_up h0 root' h' (plug t ps)"
  using assms
proof (induction "length ps" arbitrary: h root t ps rule: less_induct)
  case less
  note v = less.prems(1) and t = less.prems(2,3,4) and ok = less.prems(5)
  show ?case
  proof (cases "path_color ps")
    case XRBTreeBlack
    then show ?thesis
      using insert_loop_stops [OF v t(1)] fixed_up_plug [OF v t(1,2) ok] by auto
  next
    case XRBTreeRed
    then obtain x y qs where "ps = x # y # qs"
      using ok by (cases ps; cases "tl ps") auto
    moreover obtain tp p cp dp B where "x = near_crumb tp (p, cp, dp) B" using crumb_near [of x] by blast
    moreover obtain ty g cg dg U where "y = near_crumb ty (g, cg, dg) U" using crumb_near [of y] by blast
    ultimately have ps: "ps = near_crumb tp (p, XRBTreeRed, dp) B # near_crumb ty (g, XRBTreeBlack, dg) U # qs"
      using XRBTreeRed ok by (auto; metis)
    have okB: "balanced_rb B" "black_height B = black_height t" "tree_color B = XRBTreeBlack"
      and okU: "balanced_rb U" "black_height U = black_height t" and okq: "path_ok qs (black_height t + 1)"
      using ok by (simp_all add: ps)
    note step = insert_loop_step [OF v [unfolded ps] t(1)]
    have vg: "view h0 h root (mk ty (mk tp t (p, XRBTreeRed, dp) B) (g, XRBTreeBlack, dg) U) qs"
      using v by (simp add: ps view_near)
    show ?thesis
    proof (cases "tree_color U")
      case XRBTreeRed
      then obtain U1 u du U2 where U: "U = Node U1 (u, XRBTreeRed, du) U2"
        by (cases U rule: tree_color.cases) auto
      let ?t' = "mk ty (mk tp t (p, XRBTreeBlack, dp) B) (g, XRBTreeRed, dg) (Node U1 (u, XRBTreeBlack, du) U2)"
      obtain h' where h': "insert_adjust_side ty root (node_ptr t) (Some p) (Some g) h = Some (root, Some g, h')"
        "view h0 h' root ?t' qs"
        using adjust_red_uncle [OF vg [unfolded U]] by blast
      have "balanced_rb ?t'" "black_height ?t' = black_height t + 1"
        using t okB okU by (auto simp: balanced_mk black_height_mk U balanced_Node)
      then have "\<exists>root2 h2. insert_adjust_loop root (node_ptr ?t') h' = Some (root2, h2) \<and>
          fixed_up h0 root2 h2 (plug ?t' qs)"
        using okq h'(2) by (intro less.hyps) (simp_all add: ps)
      moreover have "entries (plug ?t' qs) = entries (plug t ps)"
        by (simp add: ps plug_near entries_plug entries_mk U split: XBTreeNodeType.split)
      ultimately show ?thesis using step h'(1) by (auto simp: fixed_up_def)
    next
      case XRBTreeBlack
      show ?thesis
      proof (cases "tp = ty")
        case True
        let ?t' = "mk ty t (p, XRBTreeBlack, dp) (mk ty B (g, XRBTreeRed, dg) U)"
        obtain C1 c cc dc C2 where C: "t = Node C1 (c, cc, dc) C2" using t(1) by (cases t rule: tree_color.cases) auto
        obtain root' h' where h': "insert_adjust_side ty root (node_ptr t) (Some p) (Some g) h = Some (root', node_ptr t, h')"
          "view h0 h' root' ?t' qs"
          using adjust_outer [OF vg [unfolded True] XRBTreeBlack C] C by auto
        have "insert_adjust_loop root' (node_ptr t) h' = Some (root', h')"
          by (rule insert_loop_stops [of h0 _ _ _ "near_crumb ty (p, XRBTreeBlack, dp) (mk ty B (g, XRBTreeRed, dg) U) # qs"])
            (use h'(2) t(1) in \<open>simp_all add: view_near\<close>)
        moreover have "fixed_up h0 root' h' (plug (mk ty (mk ty t (p, XRBTreeRed, dp) B) (g, XRBTreeBlack, dg) U) qs)"
          by (rule fixed_up_plug [OF h'(2)])
            (use t okB okU okq XRBTreeBlack in \<open>auto simp: balanced_mk black_height_mk entries_mk split: XBTreeNodeType.splits\<close>)
        ultimately show ?thesis using step h'(1) True by (simp add: ps plug_near)
      next
        case False
        then have tp: "tp = other ty" by (cases tp; cases ty; simp add: other_def)
        obtain C1 c cc dc C2 where C: "t = mk ty C1 (c, cc, dc) C2" using mk_cases [OF t(1)] by (metis prod.collapse)
        let ?P = "\<lambda>x. mk ty B (p, x, dp) C1"
        let ?t' = "mk ty (?P XRBTreeRed) (c, XRBTreeBlack, dc) (mk ty C2 (g, XRBTreeRed, dg) U)"
        obtain root' h' where h': "insert_adjust_side ty root (node_ptr t) (Some p) (Some g) h = Some (root', Some p, h')"
          "view h0 h' root' ?t' qs"
          using adjust_inner [of h0 h root ty B p dp C1 c cc dc C2 g XRBTreeBlack dg U qs] vg XRBTreeBlack C
          by (auto simp: tp mk_other)
        have "insert_adjust_loop root' (node_ptr (?P XRBTreeRed)) h' = Some (root', h')"
          by (rule insert_loop_stops [of h0 _ _ _ "near_crumb ty (c, XRBTreeBlack, dc) (mk ty C2 (g, XRBTreeRed, dg) U) # qs"])
            (use h'(2) in \<open>simp_all add: view_near\<close>)
        moreover have "fixed_up h0 root' h' (plug (mk ty (mk ty B (p, XRBTreeRed, dp) t) (g, XRBTreeBlack, dg) U) qs)"
          by (rule fixed_up_plug [OF h'(2)])
            (use t okB okU okq XRBTreeBlack in
              \<open>auto simp: C balanced_mk black_height_mk entries_mk split: XBTreeNodeType.splits\<close>)
        ultimately show ?thesis using step h'(1) by (simp add: ps plug_near tp mk_other)
      qed
    qed
  qed
qed

lemma insertAdjust_red_black:
  assumes "view h0 h root t ps" and "t \<noteq> Leaf" and "balanced_rb t" and "tree_color t = XRBTreeRed"
    and "path_ok ps (black_height t)"
  shows "\<exists>root' h' t'. XRBTree_insertAdjust root (node_ptr t) h = Some (root', h') \<and> view h0 h' root' t' [] \<and>
    red_black t' \<and> entries t' = entries (plug t ps)"
proof -
  obtain root1 h1 where 1: "insert_adjust_loop root (node_ptr t) h = Some (root1, h1)" "fixed_up h0 root1 h1 (plug t ps)"
    using insert_loop_fixes [OF assms] by blast
  then obtain l a c d r where t': "view h0 h1 root1 (Node l (a, c, d) r) []" "red_black (blacken (Node l (a, c, d) r))"
    "entries (Node l (a, c, d) r) = entries (plug t ps)"
    unfolding fixed_up_def by (metis blacken.cases)
  then have "root1 = Some a" by (simp add: view_def focus_def)
  then show ?thesis
    using 1(1) t' view_SetColor [OF t'(1)] by (fastforce simp: XRBTree_insertAdjust_def)
qed

section \<open>Where a node is linked\<close>

abbreviation in_sequence :: "('a \<Rightarrow> 'a \<Rightarrow> int) \<Rightarrow> (addr \<times> 'a) list \<Rightarrow> bool" where
  "in_sequence cmp es \<equiv> sorted_wrt (\<lambda>x y. cmp (snd x) (snd y) \<le> 0) es"

text \<open>An element goes behind the entries that are not greater.\<close>

definition splits_at :: "('a \<Rightarrow> 'a \<Rightarrow> int) \<Rightarrow> 'a \<Rightarrow> (addr \<times> 'a) list \<Rightarrow> (addr \<times> 'a) list \<Rightarrow> bool" where
  "splits_at cmp x L R \<longleftrightarrow> (\<forall>e\<in>set L. cmp x (snd e) \<noteq> - 1) \<and> (\<forall>e\<in>set R. cmp x (snd e) = - 1)"

abbreviation strip :: "(addr \<times> XRBTreeColor \<times> 'a) list \<Rightarrow> (addr \<times> 'a) list" where
  "strip xs \<equiv> map (\<lambda>(a, c, d). (a, d)) xs"

lemma compare_less:
  assumes "total_compare cmp" and "cmp x d = - 1" and "cmp d y \<le> 0"
  shows "cmp x y = - 1"
proof -
  have "cmp x y \<le> 0" using total_compareD(3) [OF assms(1), of x d y] assms(2,3) by simp
  moreover have "cmp x y \<noteq> 0"
  proof
    assume "cmp x y = 0"
    then have "cmp y x \<le> 0" using total_compareD(2) [OF assms(1), of y x] by simp
    then have "cmp d x \<le> 0" using total_compareD(3) [OF assms(1)] assms(3) by blast
    then show False using total_compareD(2) [OF assms(1), of d x] assms(2) by simp
  qed
  ultimately show ?thesis using total_compareD(1) [OF assms(1), of x y] by auto
qed

lemma compare_not_less:
  assumes "total_compare cmp" and "cmp x d \<noteq> - 1" and "cmp y d \<le> 0"
  shows "cmp x y \<noteq> - 1"
proof
  assume "cmp x y = - 1"
  then have "cmp x d = - 1" using compare_less [OF assms(1)] assms(3) by blast
  then show False using assms(2) by simp
qed

lemma strip_crumbs:
  "strip (before (InL (a, c, d) r # ps)) = strip (before ps)"
  "strip (after (InL (a, c, d) r # ps)) = (a, d) # entries r @ strip (after ps)"
  "strip (before (InR l (a, c, d) # ps)) = strip (before ps) @ entries l @ [(a, d)]"
  "strip (after (InR l (a, c, d) # ps)) = strip (after ps)"
  by (simp_all add: entries_def)

lemma splits_at_append:
  "splits_at cmp x (L @ L') (R' @ R) \<longleftrightarrow> splits_at cmp x L R \<and> splits_at cmp x L' R'"
  by (auto simp: splits_at_def)

lemma splits_left:
  assumes tc: "total_compare cmp" and es: "in_sequence cmp (entries (plug (Node l (a, c, d) r) ps))"
    and x: "cmp x d = - 1" and s: "splits_at cmp x (strip (before ps)) (strip (after ps))"
  shows "splits_at cmp x (strip (before (InL (a, c, d) r # ps))) (strip (after (InL (a, c, d) r # ps)))"
proof -
  have "\<forall>e\<in>set (entries r). cmp d (snd e) \<le> 0" using es by (simp add: entries_plug sorted_wrt_append)
  then have "splits_at cmp x [] ((a, d) # entries r)"
    using compare_less [OF tc x] x by (simp add: splits_at_def)
  then show ?thesis
    using s splits_at_append [of cmp x "strip (before ps)" "[]" "(a, d) # entries r" "strip (after ps)"]
    unfolding strip_crumbs by simp
qed

lemma splits_right:
  assumes tc: "total_compare cmp" and es: "in_sequence cmp (entries (plug (Node l (a, c, d) r) ps))"
    and x: "cmp x d \<noteq> - 1" and s: "splits_at cmp x (strip (before ps)) (strip (after ps))"
  shows "splits_at cmp x (strip (before (InR l (a, c, d) # ps))) (strip (after (InR l (a, c, d) # ps)))"
proof -
  have "\<forall>e\<in>set (entries l). cmp (snd e) d \<le> 0" using es by (simp add: entries_plug sorted_wrt_append)
  then have "splits_at cmp x (entries l @ [(a, d)]) []"
    using compare_not_less [OF tc x] x by (simp add: splits_at_def)
  then show ?thesis
    using s splits_at_append [of cmp x "strip (before ps)" "entries l @ [(a, d)]" "[]" "strip (after ps)"]
    unfolding strip_crumbs by simp
qed

lemma link_child_view:
  assumes v: "view h0 h root (mk ty Leaf (a, c, d) r) ps" and new: "new \<notin> insert a (addrs r \<union> path_addrs ps)"
    and m: "h new = Some m"
  shows "\<exists>h'. link_child ty (Some new) (Some a) h = Some h' \<and>
    view h0 h' root (Node Leaf (new, color m, node_data m) Leaf) (near_crumb ty (a, c, d) r # ps)"
  using v m new node_ptr_plug [of ps "mk ty Leaf (a, c, d) r" "mk ty (Node Leaf (new, color m, node_data m) Leaf) (a, c, d) r"]
  by (cases ty; cases "ps = []")
    (auto simp: link_child_def view_def focus_def mk_def near_crumb_def rb_label_def XTreeNode_SetChild_def same_outside_def)

lemma align_loop_view:
  assumes tc: "total_compare cmp" and "view h0 h root t ps" and "t \<noteq> Leaf"
    and "new \<notin> addrs t \<union> path_addrs ps" and "h new = Some m"
    and "in_sequence cmp (entries (plug t ps))"
    and "splits_at cmp (node_data m) (strip (before ps)) (strip (after ps))"
  shows "\<exists>h' qs. insert_align_loop cmp (Some new) (node_ptr t) h = Some h' \<and>
    view h0 h' root (Node Leaf (new, color m, node_data m) Leaf) qs \<and> plug Leaf qs = plug t ps \<and> qs \<noteq> [] \<and>
    splits_at cmp (node_data m) (strip (before qs)) (strip (after qs))"
  using assms(2-)
proof (induction t arbitrary: ps)
  case (Node l x r)
  obtain a c d where x: "x = (a, c, d)" by (cases x)
  note v = Node.prems(1) [unfolded x] and new = Node.prems(3) [unfolded x] and m = Node.prems(4)
    and es = Node.prems(5) [unfolded x] and sp = Node.prems(6)
  obtain n where n: "h a = Some n" "LChild n = node_ptr l" "RChild n = node_ptr r" "node_data n = d"
    using view_node [OF v] by auto
  have vl: "view h0 h root l (InL (a, c, d) r # ps)" and vr: "view h0 h root r (InR l (a, c, d) # ps)"
    using v by (simp_all add: view_up)
  show ?case
  proof (cases "cmp (node_data m) d = XCompare_Less")
    case True
    then have sl: "splits_at cmp (node_data m) (strip (before (InL (a, c, d) r # ps))) (strip (after (InL (a, c, d) r # ps)))"
      by (intro splits_left [OF tc es _ sp]) (simp add: XCompare_defs)
    show ?thesis
    proof (cases "l = Leaf")
      case leaf: True
      obtain h' where "link_child XBTreeLChild (Some new) (Some a) h = Some h'"
        "view h0 h' root (Node Leaf (new, color m, node_data m) Leaf) (InL (a, c, d) r # ps)"
        using link_child_view [of h0 h root XBTreeLChild a c d r ps new m] v new m leaf
        by (auto simp: mk_def near_crumb_def)
      then show ?thesis
        using True n m leaf sl x
        by (subst insert_align_loop.simps) (auto simp: leaf intro!: exI [of _ "InL (a, c, d) r # ps"])
    next
      case False
      have "\<exists>h' qs. insert_align_loop cmp (Some new) (node_ptr l) h = Some h' \<and>
          view h0 h' root (Node Leaf (new, color m, node_data m) Leaf) qs \<and>
          plug Leaf qs = plug l (InL (a, c, d) r # ps) \<and> qs \<noteq> [] \<and>
          splits_at cmp (node_data m) (strip (before qs)) (strip (after qs))"
        by (rule Node.IH(1) [OF vl False]) (use new m es sl in auto)
      moreover have "insert_align_loop cmp (Some new) (node_ptr (Node l x r)) h =
          insert_align_loop cmp (Some new) (node_ptr l) h"
        using True False n m x by (subst insert_align_loop.simps) simp
      ultimately show ?thesis by (simp add: x)
    qed
  next
    case False
    then have sr: "splits_at cmp (node_data m) (strip (before (InR l (a, c, d) # ps))) (strip (after (InR l (a, c, d) # ps)))"
      by (intro splits_right [OF tc es _ sp]) (simp add: XCompare_defs)
    show ?thesis
    proof (cases "r = Leaf")
      case leaf: True
      obtain h' where "link_child XBTreeRChild (Some new) (Some a) h = Some h'"
        "view h0 h' root (Node Leaf (new, color m, node_data m) Leaf) (InR l (a, c, d) # ps)"
        using link_child_view [of h0 h root XBTreeRChild a c d l ps new m] v new m leaf
        by (auto simp: mk_def near_crumb_def)
      then show ?thesis
        using False n m leaf sr x
        by (subst insert_align_loop.simps) (auto simp: leaf intro!: exI [of _ "InR l (a, c, d) # ps"])
    next
      case inner: False
      have "\<exists>h' qs. insert_align_loop cmp (Some new) (node_ptr r) h = Some h' \<and>
          view h0 h' root (Node Leaf (new, color m, node_data m) Leaf) qs \<and>
          plug Leaf qs = plug r (InR l (a, c, d) # ps) \<and> qs \<noteq> [] \<and>
          splits_at cmp (node_data m) (strip (before qs)) (strip (after qs))"
        by (rule Node.IH(2) [OF vr inner]) (use new m es sr in auto)
      moreover have "insert_align_loop cmp (Some new) (node_ptr (Node l x r)) h =
          insert_align_loop cmp (Some new) (node_ptr r) h"
        using False inner n m x by (subst insert_align_loop.simps) simp
      ultimately show ?thesis by (simp add: x)
    qed
  qed
qed simp

section \<open>Insertion\<close>

text \<open>The root and the store hold a red-black tree.\<close>

definition rb_holds :: "'a rb_store \<Rightarrow> ptr \<Rightarrow> 'a rb_tree \<Rightarrow> bool" where
  "rb_holds h root t \<longleftrightarrow> holds rb_label h root t \<and> red_black t"

lemma view_holds: "view h0 h root t [] \<longleftrightarrow> holds rb_label h root t \<and> same_outside h h0 (addrs t)"
  by (simp add: view_def focus_holds)

lemma addrs_entries: "addrs t = fst ` set (entries t)"
  by (force simp: addrs_inorder entries_def image_image)

lemma in_sequence_insert:
  assumes tc: "total_compare cmp" and LR: "in_sequence cmp (L @ R)" and s: "splits_at cmp x L R"
  shows "in_sequence cmp (L @ (a, x) # R)"
proof -
  have "cmp (snd e) x \<le> 0" if "e \<in> set L" for e
    using total_compareD(1) [OF tc, of x "snd e"] total_compareD(2) [OF tc, of "snd e" x] s that
    by (auto simp: splits_at_def)
  then show ?thesis using LR s by (auto simp: sorted_wrt_append splits_at_def)
qed

lemma insertNode_red_black:
  assumes tc: "total_compare cmp" and t: "rb_holds h root t" and es: "in_sequence cmp (entries t)"
    and new: "h a = Some (XRBTree_init x)" "a \<notin> addrs t"
  shows "\<exists>root' h' t' L R. XRBTree_insertNode cmp (Some root) a h = Some (Some a, Some root', h') \<and>
    rb_holds h' root' t' \<and> entries t = L @ R \<and> entries t' = L @ (a, x) # R \<and> splits_at cmp x L R \<and>
    same_outside h' h (insert a (addrs t))"
proof (cases "t = Leaf")
  case True
  then have "root = None" using t by (simp add: rb_holds_def holds_def)
  then show ?thesis
    using new True
    by (auto simp: XRBTree_insertNode_def XBBTree_insertAlign_def XRBTree_SetColor_def XRBTree_init_def
      rb_holds_def holds_def rb_label_def red_black_def balanced_Node splits_at_def same_outside_def
      intro!: exI [of _ "Node Leaf (a, XRBTreeBlack, x) Leaf"])
next
  case False
  then obtain b where root: "root = Some b" "root = node_ptr t"
    using t by (cases t) (auto simp: rb_holds_def holds_def)
  have v: "view h h root t []" using t by (simp add: view_holds rb_holds_def)
  obtain h1 qs where 1: "insert_align_loop cmp (Some a) root h = Some h1"
    "view h h1 root (Node Leaf (a, XRBTreeRed, x) Leaf) qs" "plug Leaf qs = t"
    "splits_at cmp x (strip (before qs)) (strip (after qs))"
    using align_loop_view [OF tc v False, of a "XRBTree_init x"] new es root
    by (auto simp: XRBTree_init_def splits_at_def)
  have ok: "path_ok qs 0" using plug_path_ok [of Leaf qs] t 1(3) by (simp add: rb_holds_def)
  obtain root' h2 t' where 2: "XRBTree_insertAdjust root (Some a) h1 = Some (root', h2)" "view h h2 root' t' []"
    "red_black t'" "entries t' = entries (plug (Node Leaf (a, XRBTreeRed, x) Leaf) qs)"
    using insertAdjust_red_black [OF 1(2)] ok by (auto simp: balanced_Node)
  have e: "entries t = strip (before qs) @ strip (after qs)"
    using entries_plug [of Leaf qs] 1(3) by simp
  have "entries t' = strip (before qs) @ (a, x) # strip (after qs)" using 2(4) by (simp add: entries_plug)
  moreover from this have "addrs t' = insert a (addrs t)" by (auto simp: addrs_entries e)
  moreover have "XRBTree_insertNode cmp (Some root) a h = Some (Some a, Some root', h2)"
    using 1(1) 2(1) root by (simp add: XRBTree_insertNode_def XBBTree_insertAlign_def)
  ultimately show ?thesis
    using 1(4) 2(2,3) e by (auto simp: rb_holds_def view_holds)
qed

lemma XRBTree_insert_red_black:
  assumes tc: "total_compare cmp" and t: "rb_holds h root t" and es: "in_sequence cmp (entries t)"
    and new: "h a = None"
  shows "\<exists>root' h' t' L R. XRBTree_insert cmp (Some root) (Some a) x h = Some (Some a, Some root', h') \<and>
    rb_holds h' root' t' \<and> entries t = L @ R \<and> entries t' = L @ (a, x) # R \<and> splits_at cmp x L R \<and>
    same_outside h' h (insert a (addrs t))"
proof -
  let ?h = "h(a \<mapsto> XRBTree_init x)"
  have a: "a \<notin> addrs t" using shape_dom [of rb_label h None t a] t new by (auto simp: rb_holds_def holds_def)
  then have "rb_holds ?h root t" using t by (auto simp: rb_holds_def holds_def)
  from insertNode_red_black [OF tc this es _ a, of x]
  obtain root' h' t' L R where "XRBTree_insertNode cmp (Some root) a ?h = Some (Some a, Some root', h')"
    "rb_holds h' root' t'" "entries t = L @ R" "entries t' = L @ (a, x) # R" "splits_at cmp x L R"
    "same_outside h' ?h (insert a (addrs t))"
    by auto
  moreover from this(6) have "same_outside h' h (insert a (addrs t))" by (auto simp: same_outside_def)
  ultimately show ?thesis by (simp add: XRBTree_insert_def XRBTree_create_ex_def) blast
qed

end
