(* ===== verification/RedBlackErase.thy ===== *)
theory RedBlackErase
  imports RedBlackInsert
begin

text \<open>Removal from the red-black tree.\<close>

section \<open>One round of the repair\<close>

text \<open>
  The subtree on the near side lacks one black node. Either the parent lacks it afterwards (\<open>Up\<close>), or
  the tree is repaired.
\<close>

lemma erase_black_children:
  assumes v: "view h0 h root (mk ty t (p, cp, dp) (mk ty B1 (b, XRBTreeBlack, db) B2)) ps"
    and B: "tree_color B1 = XRBTreeBlack" "tree_color B2 = XRBTreeBlack"
  shows "\<exists>h'. erase_adjust_side ty root (Some p) h = Some (root, Some p, path_ptr ps, h') \<and>
    view h0 h' root (mk ty t (p, cp, dp) (mk ty B1 (b, XRBTreeRed, db) B2)) ps"
proof -
  obtain pn where pn: "h p = Some pn" "XTreeNode_GetChild (other ty) pn = Some b"
    using view_mk [OF v] by auto
  have red: "red_node h (Some b) = Some False" using view_colors_far [OF v] by simp
  have vb: "view h0 h root (mk ty B1 (b, XRBTreeBlack, db) B2) (near_crumb (other ty) (p, cp, dp) t # ps)"
    using v by (simp add: view_far)
  obtain bn where bn: "h b = Some bn" "XTreeNode_GetChild ty bn = node_ptr B1" "XTreeNode_GetChild (other ty) bn = node_ptr B2"
    using view_mk [OF vb] by auto
  obtain h1 where h1: "XRBTree_SetRed (Some b) h = Some h1"
    "view h0 h1 root (mk ty t (p, cp, dp) (mk ty B1 (b, XRBTreeRed, db) B2)) ps"
    using view_SetColor_mk [OF vb] by (auto simp: view_far)
  obtain pn1 where pn1: "h1 p = Some pn1" "parentNode pn1 = path_ptr ps"
    using view_mk [OF h1(2)] by auto
  show ?thesis
    using pn red bn h1 pn1 view_colors [OF vb] view_colors_far [OF vb] B
    by (simp add: erase_adjust_side_def)
qed

text \<open>The last case, with the brother black and the far nephew red; \<open>finish\<close> is the end of the round.\<close>

definition erase_finish :: "XBTreeNodeType \<Rightarrow> ptr \<Rightarrow> ptr \<Rightarrow> ptr \<Rightarrow> 'a rb_store \<Rightarrow> (ptr \<times> ptr \<times> ptr \<times> 'a rb_store) option" where
  "erase_finish ty root LPpater brother h = do {
     p \<leftarrow> deref h LPpater;
     h6 \<leftarrow> XRBTree_SetColor brother (color p) h;
     h7 \<leftarrow> XRBTree_SetBlack LPpater h6;
     b \<leftarrow> deref h7 brother;
     h8 \<leftarrow> (if XTreeNode_GetChild (other ty) b \<noteq> None
           then XRBTree_SetBlack (XTreeNode_GetChild (other ty) b) h7 else Some h7);
     (_, root3, h9) \<leftarrow> spin_to ty root LPpater h8;
     Some (root3, root3, LPpater, h9)
   }"

lemma erase_finish_view:
  assumes v: "view h0 h root (mk ty t (p, cp, dp) (mk ty B1 (b, cb, db) B2)) ps"
    and B2: "tree_color B2 = XRBTreeRed"
  shows "\<exists>root' h'. erase_finish ty root (Some p) (Some b) h = Some (root', root', Some p, h') \<and>
    view h0 h' root' (mk ty (mk ty t (p, XRBTreeBlack, dp) B1) (b, cp, db) (blacken B2)) ps"
proof -
  obtain E1 e de E2 where e: "B2 = mk ty E1 (e, XRBTreeRed, de) E2"
    using mk_cases [of B2 ty] B2 by (metis prod.collapse tree_color.simps(1) tree_color_mk XRBTreeColor.distinct(1))
  let ?B = "\<lambda>cb. mk ty B1 (b, cb, db) B2"
  obtain pn where pn: "h p = Some pn" "color pn = cp" using view_mk [OF v] by auto
  have vb: "view h0 h root (?B cb) (near_crumb (other ty) (p, cp, dp) t # ps)" using v by (simp add: view_far)
  obtain h6 where h6: "XRBTree_SetColor (Some b) cp h = Some h6" "view h0 h6 root (mk ty t (p, cp, dp) (?B cp)) ps"
    using view_SetColor_mk [OF vb] by (auto simp: view_far)
  obtain h7 where h7: "XRBTree_SetBlack (Some p) h6 = Some h7" "view h0 h7 root (mk ty t (p, XRBTreeBlack, dp) (?B cp)) ps"
    using view_SetColor_mk [OF h6(2)] by blast
  have vb7: "view h0 h7 root (?B cp) (near_crumb (other ty) (p, XRBTreeBlack, dp) t # ps)"
    using h7(2) by (simp add: view_far)
  obtain bn where bn: "h7 b = Some bn" "XTreeNode_GetChild (other ty) bn = Some e"
    using view_mk [OF vb7] e by auto
  have "view h0 h7 root (mk ty E1 (e, XRBTreeRed, de) E2)
      (near_crumb (other ty) (b, cp, db) B1 # near_crumb (other ty) (p, XRBTreeBlack, dp) t # ps)"
    using vb7 e by (simp add: view_far)
  from view_SetColor_mk [OF this] obtain h8 where h8: "XRBTree_SetBlack (Some e) h7 = Some h8"
    "view h0 h8 root (mk ty t (p, XRBTreeBlack, dp) (mk ty B1 (b, cp, db) (mk ty E1 (e, XRBTreeBlack, de) E2))) ps"
    by (auto simp: view_far)
  obtain root' h9 where h9: "spin_to ty root (Some p) h8 = Some (Some b, root', h9)"
    "view h0 h9 root' (mk ty (mk ty t (p, XRBTreeBlack, dp) B1) (b, cp, db) (mk ty E1 (e, XRBTreeBlack, de) E2)) ps"
    using view_spin_to [OF h8(2)] by blast
  have "mk ty E1 (e, XRBTreeBlack, de) E2 = blacken B2" using e by (cases ty) (simp_all add: mk_def)
  then show ?thesis
    using pn h6(1) h7(1) bn h8(1) h9 by (simp add: erase_finish_def)
qed

lemma erase_side_finish:
  assumes v: "view h0 h root (mk ty t (p, cp, dp) (mk ty B1 (b, XRBTreeBlack, db) B2)) ps"
    and B2: "tree_color B2 = XRBTreeRed"
  shows "erase_adjust_side ty root (Some p) h = erase_finish ty root (Some p) (Some b) h"
proof -
  obtain pn where pn: "h p = Some pn" "XTreeNode_GetChild (other ty) pn = Some b"
    using view_mk [OF v] by auto
  have red: "red_node h (Some b) = Some False" using view_colors_far [OF v] by simp
  have vb: "view h0 h root (mk ty B1 (b, XRBTreeBlack, db) B2) (near_crumb (other ty) (p, cp, dp) t # ps)"
    using v by (simp add: view_far)
  obtain bn where bn: "h b = Some bn" "XTreeNode_GetChild ty bn = node_ptr B1" "XTreeNode_GetChild (other ty) bn = node_ptr B2"
    using view_mk [OF vb] by auto
  show ?thesis
    using pn red bn view_colors [OF vb] view_colors_far [OF vb] B2
    by (simp add: erase_adjust_side_def erase_finish_def)
qed

lemma erase_near_nephew:
  assumes v: "view h0 h root (mk ty t (p, cp, dp) (mk ty (mk ty N1 (n, XRBTreeRed, dn) N2) (b, XRBTreeBlack, db) B2)) ps"
    and B2: "tree_color B2 = XRBTreeBlack"
  shows "\<exists>root' h'. erase_adjust_side ty root (Some p) h = erase_finish ty root' (Some p) (Some n) h' \<and>
    view h0 h' root' (mk ty t (p, cp, dp) (mk ty N1 (n, XRBTreeBlack, dn) (mk ty N2 (b, XRBTreeRed, db) B2))) ps"
proof -
  let ?N = "\<lambda>c. mk ty N1 (n, c, dn) N2"
  obtain pn where pn: "h p = Some pn" "XTreeNode_GetChild (other ty) pn = Some b"
    using view_mk [OF v] by auto
  have red: "red_node h (Some b) = Some False" using view_colors_far [OF v] by simp
  have vb: "view h0 h root (mk ty (?N XRBTreeRed) (b, XRBTreeBlack, db) B2) (near_crumb (other ty) (p, cp, dp) t # ps)"
    using v by (simp add: view_far)
  obtain bn where bn: "h b = Some bn" "XTreeNode_GetChild ty bn = Some n" "XTreeNode_GetChild (other ty) bn = node_ptr B2"
    using view_mk [OF vb] by auto
  have "view h0 h root (?N XRBTreeRed) (near_crumb ty (b, XRBTreeBlack, db) B2 # near_crumb (other ty) (p, cp, dp) t # ps)"
    using vb by (simp add: view_near)
  from view_SetColor_mk [OF this] obtain h1 where h1: "XRBTree_SetBlack (Some n) h = Some h1"
    "view h0 h1 root (mk ty (?N XRBTreeBlack) (b, XRBTreeBlack, db) B2) (near_crumb (other ty) (p, cp, dp) t # ps)"
    by (auto simp: view_near)
  obtain h2 where h2: "XRBTree_SetRed (Some b) h1 = Some h2"
    "view h0 h2 root (mk ty (?N XRBTreeBlack) (b, XRBTreeRed, db) B2) (near_crumb (other ty) (p, cp, dp) t # ps)"
    using view_SetColor_mk [OF h1(2)] by blast
  obtain root' h3 where h3: "spin_to (other ty) root (Some b) h2 = Some (Some n, root', h3)"
    "view h0 h3 root' (mk ty N1 (n, XRBTreeBlack, dn) (mk ty N2 (b, XRBTreeRed, db) B2)) (near_crumb (other ty) (p, cp, dp) t # ps)"
    using view_spin_back [OF h2(2)] by blast
  have v3: "view h0 h3 root' (mk ty t (p, cp, dp) (mk ty N1 (n, XRBTreeBlack, dn) (mk ty N2 (b, XRBTreeRed, db) B2))) ps"
    using h3(2) by (simp add: view_far)
  obtain pn3 where pn3: "h3 p = Some pn3" "XTreeNode_GetChild (other ty) pn3 = Some n"
    using view_mk [OF v3] by auto
  have far: "black_node h (node_ptr B2) = Some True" "black_node h (Some n) = Some False"
    using view_colors_far [OF vb] view_colors [OF vb] B2 by simp_all
  show ?thesis
    using pn red bn h1(1) h2(1) h3(1) pn3 far v3
    by (intro exI [of _ root'] exI [of _ h3]) (simp add: erase_adjust_side_def erase_finish_def)
qed

text \<open>A red brother is turned up first; the round goes on with the black brother below the now red parent.\<close>

lemma erase_red_brother:
  assumes v: "view h0 h root (mk ty t (p, cp, dp) (mk ty B1 (b, XRBTreeRed, db) B2)) ps"
    and B1: "tree_color B1 = XRBTreeBlack" "B1 \<noteq> Leaf"
  shows "\<exists>root' h'. erase_adjust_side ty root (Some p) h = erase_adjust_side ty root' (Some p) h' \<and>
    view h0 h' root' (mk ty t (p, XRBTreeRed, dp) B1) (near_crumb ty (b, XRBTreeBlack, db) B2 # ps)"
proof -
  let ?B = "\<lambda>c. mk ty B1 (b, c, db) B2"
  obtain pn where pn: "h p = Some pn" "XTreeNode_GetChild (other ty) pn = Some b"
    using view_mk [OF v] by auto
  have red: "red_node h (Some b) = Some True" using view_colors_far [OF v] by simp
  have "view h0 h root (?B XRBTreeRed) (near_crumb (other ty) (p, cp, dp) t # ps)" using v by (simp add: view_far)
  from view_SetColor_mk [OF this] obtain h1 where h1: "XRBTree_SetBlack (Some b) h = Some h1"
    "view h0 h1 root (mk ty t (p, cp, dp) (?B XRBTreeBlack)) ps"
    by (auto simp: view_far)
  obtain h2 where h2: "XRBTree_SetRed (Some p) h1 = Some h2" "view h0 h2 root (mk ty t (p, XRBTreeRed, dp) (?B XRBTreeBlack)) ps"
    using view_SetColor_mk [OF h1(2)] by blast
  obtain root' h3 where h3: "spin_to ty root (Some p) h2 = Some (Some b, root', h3)"
    "view h0 h3 root' (mk ty t (p, XRBTreeRed, dp) B1) (near_crumb ty (b, XRBTreeBlack, db) B2 # ps)"
    using view_spin_to [OF h2(2)] by (auto simp: view_near)
  obtain pn3 where pn3: "h3 p = Some pn3" "XTreeNode_GetChild (other ty) pn3 = node_ptr B1"
    using view_mk [OF h3(2)] by auto
  have "red_node h3 (node_ptr B1) = Some False" using view_colors_far [OF h3(2)] B1 by simp
  then show ?thesis
    using pn red h1(1) h2(1) h3 pn3
    by (intro exI [of _ root'] exI [of _ h3]) (simp add: erase_adjust_side_def)
qed

section \<open>The repair\<close>

lemma balanced_mk_tree [simp]: "black_height (blacken t) = black_height t + (if tree_color t = XRBTreeRed then 1 else 0)"
  by (cases t rule: blacken.cases) simp_all

lemma balanced_blacken_rb: "balanced_rb t \<Longrightarrow> balanced_rb (blacken t)"
  using balanced_blacken by (auto simp: red_black_def)

text \<open>What a round leads to: everything is in order, or the parent is next.\<close>

definition repaired :: "'a rb_store \<Rightarrow> ptr \<Rightarrow> 'a rb_store \<Rightarrow> (addr \<times> 'a) list \<Rightarrow> bool" where
  "repaired h0 root h es \<longleftrightarrow> (\<exists>t. view h0 h root t [] \<and> red_black t \<and> entries t = es)"

lemma repaired_plug:
  assumes "view h0 h root t ps" and "balanced_rb t" and "path_ok ps (black_height t)"
    and "path_color ps = XRBTreeRed \<longrightarrow> tree_color t = XRBTreeBlack" and "ps = [] \<longrightarrow> tree_color t = XRBTreeBlack"
    and "es = strip (before ps) @ entries t @ strip (after ps)"
  shows "repaired h0 root h es"
  unfolding repaired_def
  using assms path_ok_plug [of ps t]
  by (intro exI [of _ "plug t ps"]) (simp add: view_def focus_holds entries_plug)

lemma path_ok_red: "path_ok ps n \<Longrightarrow> path_color ps = XRBTreeRed \<Longrightarrow> ps \<noteq> []"
  by (cases ps) simp_all

lemma strip_near:
  "strip (before (near_crumb ty (a, c, d) far # ps)) @ entries t @ strip (after (near_crumb ty (a, c, d) far # ps)) =
   strip (before ps) @ entries (mk ty t (a, c, d) far) @ strip (after ps)"
  by (cases ty) (simp_all add: near_crumb_def mk_def entries_def)

text \<open>The subtree and its brother below the parent, the brother black: the round ends the repair or moves up.\<close>

lemma erase_round_black:
  assumes v: "view h0 h root (mk ty t (p, cp, dp) B) ps" and B: "tree_color B = XRBTreeBlack" "B \<noteq> Leaf"
    and bal: "balanced_rb t" "balanced_rb B" "black_height B = black_height t + 1" "tree_color t = XRBTreeBlack"
    and ok: "path_ok ps (if cp = XRBTreeBlack then black_height t + 2 else black_height t + 1)"
    and pc: "cp = XRBTreeRed \<longrightarrow> path_color ps = XRBTreeBlack \<and> ps \<noteq> []"
  shows "(\<exists>h' t'. erase_adjust_side ty root (Some p) h = Some (root, Some p, path_ptr ps, h') \<and>
      view h0 h' root t' ps \<and> t' \<noteq> Leaf \<and> node_ptr t' = Some p \<and> tree_color t' = cp \<and>
      balanced_rb (blacken t') \<and> (cp = XRBTreeBlack \<longrightarrow> balanced_rb t') \<and>
      black_height t' = (if cp = XRBTreeBlack then black_height t + 1 else black_height t) \<and>
      entries t' = entries (mk ty t (p, cp, dp) B)) \<or>
    (\<exists>root' h'. erase_adjust_side ty root (Some p) h = Some (root', root', Some p, h') \<and>
      repaired h0 root' h' (strip (before ps) @ entries (mk ty t (p, cp, dp) B) @ strip (after ps)))"
proof -
  obtain B1 b db B2 where Beq: "B = mk ty B1 (b, XRBTreeBlack, db) B2"
    using mk_cases [of B ty] B by (metis prod.collapse tree_color_mk)
  have bB: "black_height B1 = black_height t" "black_height B2 = black_height t" "balanced_rb B1" "balanced_rb B2"
    using bal by (simp_all add: Beq balanced_mk black_height_mk)
  note v = v [unfolded Beq]
  consider (up) "tree_color B1 = XRBTreeBlack" "tree_color B2 = XRBTreeBlack"
    | (far) "tree_color B2 = XRBTreeRed" | (near) "tree_color B1 = XRBTreeRed" "tree_color B2 = XRBTreeBlack"
    by (metis not_black(1))
  then show ?thesis
  proof cases
    case up
    let ?t = "mk ty t (p, cp, dp) (mk ty B1 (b, XRBTreeRed, db) B2)"
    obtain h' where "erase_adjust_side ty root (Some p) h = Some (root, Some p, path_ptr ps, h')" "view h0 h' root ?t ps"
      using erase_black_children [OF v up] by blast
    moreover have "balanced_rb (blacken ?t)" "cp = XRBTreeBlack \<longrightarrow> balanced_rb ?t"
      "black_height ?t = (if cp = XRBTreeBlack then black_height t + 1 else black_height t)"
      using bal bB up by (cases ty; simp add: mk_def balanced_Node)+
    moreover have "entries ?t = entries (mk ty t (p, cp, dp) B)"
      by (simp add: Beq entries_mk split: XBTreeNodeType.split)
    ultimately show ?thesis by (intro disjI1) (auto intro!: exI [of _ ?t])
  next
    case far
    obtain root' h' where r: "erase_finish ty root (Some p) (Some b) h = Some (root', root', Some p, h')"
      "view h0 h' root' (mk ty (mk ty t (p, XRBTreeBlack, dp) B1) (b, cp, db) (blacken B2)) ps"
      using erase_finish_view [OF v far] by blast
    have "repaired h0 root' h' (strip (before ps) @ entries (mk ty t (p, cp, dp) B) @ strip (after ps))"
      by (rule repaired_plug [OF r(2)])
        (use bal bB far ok pc path_ok_red [OF ok] in \<open>auto simp: balanced_mk black_height_mk balanced_blacken_rb Beq entries_mk
          split: XBTreeNodeType.splits\<close>)
    then show ?thesis using r(1) erase_side_finish [OF v far] by auto
  next
    case near
    then obtain N1 n dn N2 where N: "B1 = mk ty N1 (n, XRBTreeRed, dn) N2"
      using mk_cases [of B1 ty] by (metis prod.collapse tree_color.simps(1) tree_color_mk XRBTreeColor.distinct(1))
    obtain root1 h1 where 1: "erase_adjust_side ty root (Some p) h = erase_finish ty root1 (Some p) (Some n) h1"
      "view h0 h1 root1 (mk ty t (p, cp, dp) (mk ty N1 (n, XRBTreeBlack, dn) (mk ty N2 (b, XRBTreeRed, db) B2))) ps"
      using erase_near_nephew [OF v [unfolded N] near(2)] by blast
    obtain root' h' where r: "erase_finish ty root1 (Some p) (Some n) h1 = Some (root', root', Some p, h')"
      "view h0 h' root' (mk ty (mk ty t (p, XRBTreeBlack, dp) N1) (n, cp, dn) (blacken (mk ty N2 (b, XRBTreeRed, db) B2))) ps"
      using erase_finish_view [OF 1(2)] by auto
    have bN: "black_height N1 = black_height t" "black_height N2 = black_height t" "balanced_rb N1" "balanced_rb N2"
      "tree_color N1 = XRBTreeBlack" "tree_color N2 = XRBTreeBlack"
      using bB by (simp_all add: N balanced_mk black_height_mk)
    have bl: "blacken (mk ty N2 (b, XRBTreeRed, db) B2) = mk ty N2 (b, XRBTreeBlack, db) B2"
      by (cases ty) (simp_all add: mk_def)
    have "repaired h0 root' h' (strip (before ps) @ entries (mk ty t (p, cp, dp) B) @ strip (after ps))"
      by (rule repaired_plug [OF r(2) [unfolded bl]])
        (use bal bB bN near ok pc path_ok_red [OF ok] in \<open>auto simp: balanced_mk black_height_mk Beq N entries_mk
          split: XBTreeNodeType.splits\<close>)
    then show ?thesis using r(1) 1(1) by auto
  qed
qed

section \<open>The loop\<close>

abbreviation around :: "'a rb_path \<Rightarrow> (addr \<times> 'a) list \<Rightarrow> (addr \<times> 'a) list" where
  "around ps es \<equiv> strip (before ps) @ es @ strip (after ps)"

lemma view_black_top:
  assumes "view h0 h root t ps"
  shows "black_node h (node_ptr t) = Some (tree_color t = XRBTreeBlack)"
  using view_node [of h0 h root _ _ _ _ _ ps] assms
  by (cases t rule: tree_color.cases) (fastforce simp: black_node_def)+

lemma view_root:
  assumes "view h0 h root t ps"
  shows "node_ptr t = root \<longleftrightarrow> ps = []"
proof (cases ps)
  case (Cons p qs)
  have "\<exists>a. node_ptr (plug Leaf ps) = Some a \<and> a \<in> path_addrs ps"
  proof -
    have "plug Leaf ps \<noteq> Leaf" using Cons addrs_plug [of Leaf ps] path_ptr_addrs [of ps]
      by (metis addrs_simps(1) empty_iff path_ptr_def list.case(2) sup_bot.left_neutral)
    then obtain a where "node_ptr (plug Leaf ps) = Some a" by (cases "plug Leaf ps") auto
    then show ?thesis using node_ptr_addrs [of "plug Leaf ps"] by auto
  qed
  then obtain a where "root = Some a" "a \<in> path_addrs ps"
    using assms node_ptr_plug [of ps t Leaf] Cons by (auto simp: view_def focus_def)
  then show ?thesis using assms Cons node_ptr_addrs [of t a] by (auto simp: view_def focus_def)
qed (use assms in \<open>simp add: view_def focus_def\<close>)

lemma repaired_exit:
  assumes "repaired h0 root h es"
  shows "\<exists>h'. eraseAdjustTree root root pater h = Some (root, h') \<and> repaired h0 root h' es"
proof -
  obtain t where t: "view h0 h root t []" "red_black t" "entries t = es" using assms by (auto simp: repaired_def)
  have root: "root = node_ptr t" using view_root [OF t(1)] by simp
  have loop: "erase_adjust_loop root root pater h = Some (root, root, h)"
    using view_black_top [OF t(1)] root by (subst erase_adjust_loop.simps) simp
  show ?thesis
  proof (cases t rule: tree_color.cases)
    case 1
    then show ?thesis using loop assms root by (simp add: eraseAdjustTree_def)
  next
    case (2 l a c d r)
    then have "c = XRBTreeBlack" using t(2) by (simp add: red_black_def)
    then obtain h' where "XRBTree_SetBlack root h = Some h'" "view h0 h' root t []"
      using view_SetColor t(1) 2 root by fastforce
    then show ?thesis using loop t 2 root by (auto simp: eraseAdjustTree_def repaired_def)
  qed
qed

lemma erase_exit:
  assumes v: "view h0 h root t ps" and "tree_color t = XRBTreeRed \<or> ps = []"
    and bal: "balanced_rb (blacken t)" and ok: "path_ok ps (black_height t + 1)"
  shows "\<exists>root' h'. eraseAdjustTree root (node_ptr t) (path_ptr ps) h = Some (root', h') \<and>
    repaired h0 root' h' (around ps (entries t))"
proof -
  have loop: "erase_adjust_loop root (node_ptr t) (path_ptr ps) h = Some (root, node_ptr t, h)"
    using view_black_top [OF v] view_root [OF v] assms(2) by (subst erase_adjust_loop.simps) auto
  show ?thesis
  proof (cases t rule: tree_color.cases)
    case 1
    then have "ps = []" using assms(2) by simp
    then have "repaired h0 root h (around ps (entries t))"
      using v 1 by (intro repaired_plug [OF v]) simp_all
    then show ?thesis using loop 1 by (simp add: eraseAdjustTree_def)
  next
    case (2 l a c d r)
    obtain h' where h': "XRBTree_SetBlack (Some a) h = Some h'" "view h0 h' root (blacken t) ps"
      using view_SetColor v 2 by fastforce
    have "path_ok ps (black_height (blacken t))" using ok assms(2) by (cases "tree_color t") auto
    then have "repaired h0 root h' (around ps (entries t))"
      by (intro repaired_plug [OF h'(2) bal]) simp_all
    then show ?thesis using loop h'(1) 2 by (simp add: eraseAdjustTree_def)
  qed
qed

lemma erase_step:
  assumes v: "view h0 h root t (near_crumb ty (p, cp, dp) B # qs)" and t: "tree_color t = XRBTreeBlack" and B: "B \<noteq> Leaf"
  shows "eraseAdjustTree root (node_ptr t) (Some p) h =
    erase_adjust_side ty root (Some p) h \<bind> (\<lambda>(root1, nodes1, pater1, h1). eraseAdjustTree root1 nodes1 pater1 h1)"
proof -
  have vp: "view h0 h root (mk ty t (p, cp, dp) B) qs" using v by (simp add: view_near)
  obtain pn where pn: "h p = Some pn" "XTreeNode_GetChild ty pn = node_ptr t" "XTreeNode_GetChild (other ty) pn = node_ptr B"
    using view_mk [OF vp] by auto
  obtain b where "node_ptr B = Some b" "b \<in> addrs B" using B by (cases B) auto
  then have "node_ptr B \<noteq> node_ptr t" using view_addr(3) [OF vp] node_ptr_addrs [of t b] by auto
  then have side: "(if LChild pn = node_ptr t then XBTreeLChild else XBTreeRChild) = ty"
    using pn by (cases ty) (auto simp: XTreeNode_GetChild_def other_def)
  have "node_ptr t \<noteq> root" using view_root [OF v] by simp
  then have "erase_adjust_loop root (node_ptr t) (Some p) h =
      erase_adjust_side ty root (Some p) h \<bind> (\<lambda>(root1, nodes1, pater1, h1). erase_adjust_loop root1 nodes1 pater1 h1)"
    using view_black_top [OF v] t pn side by (subst erase_adjust_loop.simps) simp
  then show ?thesis by (simp add: eraseAdjustTree_def split_def bind_assoc)
qed

lemma eraseAdjust_repairs:
  assumes "view h0 h root t ps" and "balanced_rb (blacken t)" and "tree_color t = XRBTreeBlack \<longrightarrow> balanced_rb t"
    and "path_ok ps (black_height t + 1)"
  shows "\<exists>root' h'. eraseAdjustTree root (node_ptr t) (path_ptr ps) h = Some (root', h') \<and>
    repaired h0 root' h' (around ps (entries t))"
  using assms
proof (induction "length ps" arbitrary: h root t ps rule: less_induct)
  case less
  note v = less.prems(1) and ok = less.prems(4)
  show ?case
  proof (cases "tree_color t = XRBTreeRed \<or> ps = []")
    case True
    then show ?thesis using erase_exit [OF v True less.prems(2) ok] by blast
  next
    case False
    then have t: "tree_color t = XRBTreeBlack" "balanced_rb t" using less.prems(3) by auto
    obtain p0 qs where "ps = p0 # qs" using False by (cases ps) auto
    moreover obtain ty p cp dp B where "p0 = near_crumb ty (p, cp, dp) B" using crumb_near [of p0] by blast
    ultimately have ps: "ps = near_crumb ty (p, cp, dp) B # qs" by simp
    have B: "balanced_rb B" "black_height B = black_height t + 1" "B \<noteq> Leaf"
      and pc: "cp = XRBTreeRed \<longrightarrow> tree_color B = XRBTreeBlack \<and> path_color qs = XRBTreeBlack \<and> qs \<noteq> []"
      and okq: "path_ok qs (if cp = XRBTreeBlack then black_height t + 2 else black_height t + 1)"
      using ok by (auto simp: ps)
    note step = erase_step [OF v [unfolded ps] t(1) B(3)]
    have vp: "view h0 h root (mk ty t (p, cp, dp) B) qs" using v by (simp add: ps view_near)
    have es: "around ps (entries t) = around qs (entries (mk ty t (p, cp, dp) B))"
      unfolding ps by (rule strip_near)
    show ?thesis
    proof (cases "tree_color B")
      case XRBTreeBlack
      from erase_round_black [OF vp XRBTreeBlack B(3) t(2) B(1,2) t(1) okq] pc
      consider (up) h' t' where "erase_adjust_side ty root (Some p) h = Some (root, Some p, path_ptr qs, h')"
          "view h0 h' root t' qs" "node_ptr t' = Some p" "tree_color t' = cp" "balanced_rb (blacken t')"
          "cp = XRBTreeBlack \<longrightarrow> balanced_rb t'"
          "black_height t' = (if cp = XRBTreeBlack then black_height t + 1 else black_height t)"
          "entries t' = entries (mk ty t (p, cp, dp) B)"
        | (finished) root' h' where "erase_adjust_side ty root (Some p) h = Some (root', root', Some p, h')"
          "repaired h0 root' h' (around qs (entries (mk ty t (p, cp, dp) B)))"
        by auto
      then show ?thesis
      proof cases
        case up
        have "path_ok qs (black_height t' + 1)" using okq up(7) by (cases cp) simp_all
        then have "\<exists>root2 h2. eraseAdjustTree root (node_ptr t') (path_ptr qs) h' = Some (root2, h2) \<and>
            repaired h0 root2 h2 (around qs (entries t'))"
          using up by (intro less.hyps) (simp_all add: ps)
        then show ?thesis using step up(1,3,8) es by (simp add: ps)
      next
        case finished
        then show ?thesis using step repaired_exit [OF finished(2), of "Some p"] es by (auto simp: ps)
      qed
    next
      case XRBTreeRed
      then obtain B1 b db B2 where Beq: "B = mk ty B1 (b, XRBTreeRed, db) B2"
        using mk_cases [OF B(3)] by (metis prod.collapse tree_color_mk)
      have cp: "cp = XRBTreeBlack" using pc XRBTreeRed by (cases cp) simp_all
      have bB: "tree_color B1 = XRBTreeBlack" "tree_color B2 = XRBTreeBlack" "balanced_rb B1" "balanced_rb B2"
        "black_height B1 = black_height t + 1" "black_height B2 = black_height t + 1"
        using B by (auto simp: Beq balanced_mk black_height_mk)
      then have B1: "B1 \<noteq> Leaf" by auto
      let ?qs = "near_crumb ty (b, XRBTreeBlack, db) B2 # qs"
      obtain root1 h1 where 1: "erase_adjust_side ty root (Some p) h = erase_adjust_side ty root1 (Some p) h1"
        "view h0 h1 root1 (mk ty t (p, XRBTreeRed, dp) B1) ?qs"
        using erase_red_brother [OF vp [unfolded Beq] bB(1) B1] by blast
      have ok': "path_ok ?qs (if XRBTreeRed = XRBTreeBlack then black_height t + 2 else black_height t + 1)"
        using okq bB cp by simp
      have es': "around ?qs (entries (mk ty t (p, XRBTreeRed, dp) B1)) = around ps (entries t)"
        unfolding es strip_near by (simp add: entries_mk Beq split: XBTreeNodeType.split)
      from erase_round_black [OF 1(2) bB(1) B1 t(2) bB(3,5) t(1) ok']
      consider (up) h' t' where "erase_adjust_side ty root1 (Some p) h1 = Some (root1, Some p, path_ptr ?qs, h')"
          "view h0 h' root1 t' ?qs" "node_ptr t' = Some p" "tree_color t' = XRBTreeRed" "balanced_rb (blacken t')"
          "black_height t' = black_height t" "entries t' = entries (mk ty t (p, XRBTreeRed, dp) B1)"
        | (finished) root' h' where "erase_adjust_side ty root1 (Some p) h1 = Some (root', root', Some p, h')"
          "repaired h0 root' h' (around ?qs (entries (mk ty t (p, XRBTreeRed, dp) B1)))"
        by auto
      then show ?thesis
      proof cases
        case up
        have "path_ok ?qs (black_height t' + 1)" using ok' up(6) by simp
        from erase_exit [OF up(2) _ up(5) this] up(4)
        have "\<exists>root2 h2. eraseAdjustTree root1 (node_ptr t') (path_ptr ?qs) h' = Some (root2, h2) \<and>
            repaired h0 root2 h2 (around ?qs (entries t'))"
          by blast
        then show ?thesis using step up(1,3,7) es' 1(1) unfolding ps by (simp del: near_crumb_simps)
      next
        case finished
        then show ?thesis using step repaired_exit [OF finished(2), of "Some p"] es' 1(1) unfolding ps by auto
      qed
    qed
  qed
qed

end
