(* ===== verification/RedBlackRemove.thy ===== *)
theory RedBlackRemove
  imports RedBlackErase
begin

text \<open>Removal of a node: unlinking, the exchange with the successor, search and the successor itself.\<close>

section \<open>Paths put together\<close>

lemma plug_append: "plug t (ks @ ps) = plug (plug t ks) ps"
  by (induction t ks rule: plug.induct) simp_all

lemma before_append: "before (ks @ ps) = before ps @ before ks"
  by (induction ks rule: before.induct) simp_all

lemma after_append: "after (ks @ ps) = after ks @ after ps"
  by (induction ks rule: after.induct) simp_all

lemma view_append: "view h0 h root t (ks @ ps) = view h0 h root (plug t ks) ps"
  by (simp add: view_def focus_holds plug_append before_append)
    (metis addrs_plug plug_append)

lemma view_plug: "view h0 h root (plug t ps) [] = view h0 h root t ps"
  using view_append [of h0 h root t ps "[]"] by simp

text \<open>The leftmost node of a subtree.\<close>

lemma leftmost_path:
  assumes "t \<noteq> Leaf"
  shows "\<exists>b c d r ks. t = plug (Node Leaf (b, c, d) r) ks \<and> before ks = []"
  using assms
proof (induction t)
  case (Node l x r)
  obtain a c d where x: "x = (a, c, d)" by (cases x)
  show ?case
  proof (cases "l = Leaf")
    case True
    then show ?thesis using x by (intro exI [of _ a] exI [of _ c] exI [of _ d] exI [of _ r] exI [of _ "[]"]) simp
  next
    case False
    then obtain b c' d' r' ks where "l = plug (Node Leaf (b, c', d') r') ks" "before ks = []" using Node.IH(1) by blast
    then show ?thesis
      by (intro exI [of _ b] exI [of _ c'] exI [of _ d'] exI [of _ r'] exI [of _ "ks @ [InL x r]"])
        (simp add: plug_append before_append)
  qed
qed simp

lemma leftmost_view:
  assumes "view h0 h root (plug (Node Leaf (b, c, d) r) ks) ps" and "before ks = []"
  shows "leftmost h (node_ptr (plug (Node Leaf (b, c, d) r) ks)) = Some (Some b)"
  using assms
proof (induction ks arbitrary: ps rule: rev_induct)
  case Nil
  then show ?case using view_node [of h0 h root Leaf b c d r ps] by (subst leftmost.simps) auto
next
  case (snoc k ks)
  let ?t = "plug (Node Leaf (b, c, d) r) ks"
  obtain x s where k: "k = InL x s" using snoc.prems(2) by (cases k) (simp_all add: before_append)
  obtain a cx dx where x: "x = (a, cx, dx)" by (cases x)
  have v: "view h0 h root (Node ?t (a, cx, dx) s) ps" using snoc.prems(1) by (simp add: k x plug_append)
  have "?t \<noteq> Leaf" using addrs_plug [of "Node Leaf (b, c, d) r" ks] by (cases ?t) auto
  moreover have "leftmost h (node_ptr ?t) = Some (Some b)"
    using snoc.IH [of "InL (a, cx, dx) s # ps"] v snoc.prems(2) by (simp add: view_up before_append)
  ultimately show ?case
    using view_node [OF v] by (subst leftmost.simps) (auto simp: plug_append k x)
qed

section \<open>Unlinking\<close>

lemma shape_reparent:
  assumes "shape rb_label h par t" and "no_sharing t" and "t \<noteq> Leaf"
  shows "\<exists>h'. modify h (node_ptr t) (parentNode_update (\<lambda>_. q)) = Some h' \<and> shape rb_label h' q t \<and>
    same_outside h' h (addrs t)"
  using assms by (cases t) (auto simp: rb_label_def same_outside_def)

lemma unlink_view:
  assumes v: "view h h root (Node l (a, c, d) r) ps" and one: "l = Leaf \<or> r = Leaf"
    and t: "t = (if l = Leaf then r else l)"
  shows "\<exists>root1 h1 h2. (if path_ptr ps \<noteq> None then do {
        ref \<leftarrow> XTreeNode_getChildrenParentRef h (Some a);
        h1 \<leftarrow> store_ref h ref (node_ptr t);
        Some (root, h1)
      } else Some (node_ptr t, h)) = Some (root1, h1) \<and>
    (if node_ptr t \<noteq> None then modify h1 (node_ptr t) (parentNode_update (\<lambda>_. path_ptr ps)) else Some h1) = Some h2 \<and>
    view h h2 root1 t ps"
proof -
  have foc: "focus rb_label h root (Node l (a, c, d) r) ps" using v by (simp add: view_def)
  have sub: "shape rb_label h (Some a) t" "no_sharing t" "addrs t \<inter> path_addrs ps = {}" "addrs t \<subseteq> addrs l \<union> addrs r"
    using foc by (auto simp: focus_def t)
  obtain root1 h1 where 1: "(if path_ptr ps \<noteq> None then do {
        ref \<leftarrow> XTreeNode_getChildrenParentRef h (Some a);
        h1 \<leftarrow> store_ref h ref (node_ptr t);
        Some (root, h1)
      } else Some (node_ptr t, h)) = Some (root1, h1)"
    "path_shape rb_label h1 ps (node_ptr t)" "same_outside h1 h (path_addrs ps)" "root1 = node_ptr (plug t ps)"
  proof (cases "ps = []")
    case True
    show ?thesis by (rule that [of "node_ptr t" h]) (simp_all add: True)
  next
    case False
    obtain n where n: "h a = Some n" "parentNode n = path_ptr ps" using foc by (auto simp: focus_def)
    have path: "path_shape rb_label h ps (Some a)" "a \<notin> path_addrs ps" "path_no_sharing ps"
      using foc by (simp_all add: focus_def)
    obtain p m where p: "path_ptr ps = Some p" "p \<in> path_addrs ps"
      "XTreeNode_getChildrenParentRef h (Some a) \<bind> (\<lambda>ref. store_ref h ref (node_ptr t)) = Some (h(p \<mapsto> m))"
      "path_shape rb_label (h(p \<mapsto> m)) ps (node_ptr t)"
      using replace_slot [where f = rb_label and h = h and a = a and n = n and ps = ps and v = "node_ptr t",
          OF rb_label_link_free n False path] by blast
    have "root = node_ptr (plug t ps)"
      using node_ptr_plug [OF False, of "Node l (a, c, d) r" t] foc by (simp add: focus_def)
    then show ?thesis
      by (intro that [of root "h(p \<mapsto> m)"])
        (use p in \<open>auto simp: same_outside_def bind_eq_Some_conv\<close>)
  qed
  have sh1: "shape rb_label h1 (Some a) t"
    using shape_same [of t h1 h] 1(3) sub(1,3) by (auto simp: same_outside_def)
  show ?thesis
  proof (cases "t = Leaf")
    case True
    then show ?thesis using 1 foc by (auto simp: view_def focus_def same_outside_def)
  next
    case False
    obtain h2 where 2: "modify h1 (node_ptr t) (parentNode_update (\<lambda>_. path_ptr ps)) = Some h2"
      "shape rb_label h2 (path_ptr ps) t" "same_outside h2 h1 (addrs t)"
      using shape_reparent [OF sh1 sub(2) False] by blast
    have "path_shape rb_label h2 ps (node_ptr t)"
    proof -
      have "\<forall>x\<in>path_addrs ps. h2 x = h1 x" using 2(3) sub(3) by (auto simp: same_outside_def)
      then have "path_shape rb_label h2 ps q = path_shape rb_label h1 ps q" for q
      proof (induction ps arbitrary: q rule: path_addrs.induct)
        case (2 x r ps)
        then show ?case using shape_same [of r h2 h1] by (cases x) auto
      next
        case (3 l x ps)
        then show ?case using shape_same [of l h2 h1] by (cases x) auto
      qed simp
      then show ?thesis using 1(2) by simp
    qed
    then have "view h h2 root1 t ps"
      using 1(3,4) 2(2,3) sub foc by (auto simp: view_def focus_def same_outside_def)
    then show ?thesis using 1(1) 2(1) False by auto
  qed
qed

lemma OneChild_red_black:
  assumes v: "view h h root (Node l (a, c, d) r) ps" and one: "l = Leaf \<or> r = Leaf"
    and rb: "red_black (plug (Node l (a, c, d) r) ps)"
  shows "\<exists>root' h'. rb_OneChild_erase root (Some a) h = Some (root', h') \<and>
    repaired h root' h' (around ps (entries l @ entries r))"
proof -
  define t where "t = (if l = Leaf then r else l)"
  obtain root1 h1 h2 where u: "(if path_ptr ps \<noteq> None then do {
        ref \<leftarrow> XTreeNode_getChildrenParentRef h (Some a);
        h1 \<leftarrow> store_ref h ref (node_ptr t);
        Some (root, h1)
      } else Some (node_ptr t, h)) = Some (root1, h1)"
    "(if node_ptr t \<noteq> None then modify h1 (node_ptr t) (parentNode_update (\<lambda>_. path_ptr ps)) else Some h1) = Some h2"
    "view h h2 root1 t ps"
    using unlink_view [OF v one t_def] by blast
  obtain n where n: "h a = Some n" "parentNode n = path_ptr ps" "LChild n = node_ptr l" "RChild n = node_ptr r" "color n = c"
    using view_node [OF v] by auto
  have child: "(if LChild n = None then RChild n else LChild n) = node_ptr t" using n by (simp add: t_def)
  have start: "rb_OneChild_erase root (Some a) h =
      (if c = XRBTreeBlack \<and> root1 \<noteq> None then eraseAdjustTree root1 (node_ptr t) (path_ptr ps) h2 else Some (root1, h2))"
    unfolding rb_OneChild_erase_def
    using n u(1,2) child by (simp only: deref_simps bind.bind_lunit Let_def case_prod_conv)
  have ok: "path_ok ps (black_height (Node l (a, c, d) r))" "balanced_rb (Node l (a, c, d) r)"
    "ps = [] \<longrightarrow> c = XRBTreeBlack"
    using plug_path_ok [OF rb] by simp_all
  then have bal: "balanced_rb t" "black_height (Node l (a, c, d) r) = black_height t + (if c = XRBTreeBlack then 1 else 0)"
    by (auto simp: t_def balanced_Node)
  have es: "entries t = entries l @ entries r" using one by (auto simp: t_def)
  show ?thesis
  proof (cases "c = XRBTreeBlack \<and> root1 \<noteq> None")
    case True
    then show ?thesis
      using eraseAdjust_repairs [OF u(3) balanced_blacken_rb [OF bal(1)]] bal ok(1) start es by simp
  next
    case False
    have leaf: "t = Leaf"
    proof (cases c)
      case XRBTreeRed
      then have "black_height t = 0" "tree_color t = XRBTreeBlack" using ok(2) one by (auto simp: t_def balanced_Node)
      then show ?thesis by (cases t rule: tree_color.cases) auto
    next
      case XRBTreeBlack
      then have "root1 = None" using False by simp
      then have "plug t ps = Leaf" using u(3) by (simp add: view_def focus_def)
      then have "addrs t = {}" using addrs_plug [of t ps] by simp
      then show ?thesis by (cases t) auto
    qed
    have ps: "c = XRBTreeBlack \<Longrightarrow> ps = []"
      using False u(3) view_root [OF u(3)] leaf by auto
    have "repaired h root1 h2 (around ps (entries t))"
      by (rule repaired_plug [OF u(3) bal(1)]) (use leaf ps ok bal in \<open>cases c; auto\<close>)+
    then show ?thesis using start False es by auto
  qed
qed

section \<open>Removal of a node\<close>

lemma view_SetData:
  assumes "view h0 h root (Node l (a, c, d) r) ps"
  shows "\<exists>h'. modify h (Some a) (node_data_update (\<lambda>_. d')) = Some h' \<and> view h0 h' root (Node l (a, c, d') r) ps"
  using assms node_ptr_plug [of ps "Node l (a, c, d) r" "Node l (a, c, d') r"]
  by (cases "ps = []") (auto simp: view_def focus_def rb_label_def same_outside_def)

lemma red_black_data:
  assumes "red_black (plug (Node l (a, c, d) r) ps)"
  shows "red_black (plug (Node l (a, c, d') r) ps)"
proof -
  have "path_ok ps (black_height (Node l (a, c, d') r))" "balanced_rb (Node l (a, c, d') r)"
    "path_color ps = XRBTreeRed \<longrightarrow> c = XRBTreeBlack" "ps = [] \<longrightarrow> c = XRBTreeBlack"
    using plug_path_ok [OF assms] by (cases c; simp add: balanced_Node)+
  then show ?thesis by (intro path_ok_plug) simp_all
qed

lemma addr_focus:
  assumes "a \<in> addrs t"
  shows "\<exists>l c d r ps. t = plug (Node l (a, c, d) r) ps"
  using assms
proof (induction t)
  case (Node l x r)
  obtain a' c d where x: "x = (a', c, d)" by (cases x)
  consider "a = a'" | "a \<in> addrs l" | "a \<in> addrs r" using Node.prems x by auto
  then show ?case
  proof cases
    case 1
    then show ?thesis using x by (metis plug.simps(1))
  next
    case 2
    then obtain l' c' d' r' ps where "l = plug (Node l' (a, c', d') r') ps" using Node.IH(1) by blast
    then have "Node l x r = plug (Node l' (a, c', d') r') (ps @ [InL x r])" by (simp add: plug_append)
    then show ?thesis by blast
  next
    case 3
    then obtain l' c' d' r' ps where "r = plug (Node l' (a, c', d') r') ps" using Node.IH(2) by blast
    then have "Node l x r = plug (Node l' (a, c', d') r') (ps @ [InR l x])" by (simp add: plug_append)
    then show ?thesis by blast
  qed
qed simp

lemma repaired_holds:
  "repaired h root h' es \<longleftrightarrow> (\<exists>t. rb_holds h' root t \<and> entries t = es \<and> same_outside h' h (fst ` set es))"
  by (auto simp: repaired_def rb_holds_def view_holds addrs_entries)

lemma TwoChild_red_black:
  assumes v: "view h h root (Node l (a, c, d) r) ps" and two: "l \<noteq> Leaf" "r \<noteq> Leaf"
    and rb: "red_black (plug (Node l (a, c, d) r) ps)"
  shows "\<exists>b d' R h2 root' h'. rb_TwoChild_erase True root (Some a) h = Some (Some b, root', h') \<and>
    leftmost h (RChild (the (h a))) = Some (Some b) \<and>
    entries (plug (Node l (a, c, d) r) ps) = strip (before ps) @ entries l @ (a, d) # (b, d') # R \<and>
    repaired h2 root' h' (strip (before ps) @ entries l @ (a, d') # R) \<and> same_outside h2 h {a, b} \<and>
    h2 b = Some (the (h b)\<lparr>node_data := d\<rparr>)"
proof -
  obtain b cb d' rb ks where r: "r = plug (Node Leaf (b, cb, d') rb) ks" "before ks = []"
    using leftmost_path [OF two(2)] by blast
  let ?R = "\<lambda>e. plug (Node Leaf (b, cb, e) rb) ks"
  obtain n where n: "h a = Some n" "RChild n = node_ptr r" "node_data n = d"
    using view_node [OF v] by auto
  have vr: "view h h root (?R d') (InR l (a, c, d) # ps)" using v r by (simp add: view_up)
  have lm: "leftmost h (RChild n) = Some (Some b)" using leftmost_view [OF vr r(2)] n r by simp
  have "view h h root (Node Leaf (b, cb, d') rb) (ks @ InR l (a, c, d) # ps)" using vr by (simp add: view_append)
  from view_node [OF this] obtain m where m: "h b = Some m" "node_data m = d'" by auto
  obtain h1 where h1: "modify h (Some a) (node_data_update (\<lambda>_. d')) = Some h1"
    "view h h1 root (Node l (a, c, d') (?R d')) ps"
    using view_SetData [OF v] r by blast
  have "view h h1 root (Node Leaf (b, cb, d') rb) (ks @ InR l (a, c, d') # ps)"
    using h1(2) by (simp add: view_append view_up)
  from view_SetData [OF this] obtain h2 where h2: "modify h1 (Some b) (node_data_update (\<lambda>_. d)) = Some h2"
    "view h h2 root (Node Leaf (b, cb, d) rb) (ks @ InR l (a, c, d') # ps)"
    by blast
  have v2: "view h2 h2 root (Node Leaf (b, cb, d) rb) (ks @ InR l (a, c, d') # ps)"
    using h2(2) by (simp add: view_def)
  have ab: "a \<noteq> b" using vr r by (auto simp: view_def focus_def)
  have rb2: "red_black (plug (Node Leaf (b, cb, d) rb) (ks @ InR l (a, c, d') # ps))"
  proof -
    have "red_black (plug (Node l (a, c, d') (?R d')) ps)" using red_black_data [OF rb] r by simp
    then have "red_black (plug (Node Leaf (b, cb, d') rb) (ks @ InR l (a, c, d') # ps))" by (simp add: plug_append)
    then show ?thesis by (rule red_black_data)
  qed
  obtain root' h' where o: "rb_OneChild_erase root (Some b) h2 = Some (root', h')"
    "repaired h2 root' h' (around (ks @ InR l (a, c, d') # ps) (entries rb))"
    using OneChild_red_black [OF v2 _ rb2] by auto
  have es: "around (ks @ InR l (a, c, d') # ps) (entries rb) =
      strip (before ps) @ entries l @ (a, d') # entries rb @ strip (after ks) @ strip (after ps)"
    using r(2) by (simp add: before_append after_append entries_def)
  have "entries r = (b, d') # entries rb @ strip (after ks)"
    unfolding r(1) entries_plug using r(2) by simp
  then have es0: "entries (plug (Node l (a, c, d) r) ps) =
      strip (before ps) @ entries l @ (a, d) # (b, d') # entries rb @ strip (after ks) @ strip (after ps)"
    by (simp add: entries_plug)
  have "rb_TwoChild_erase True root (Some a) h = Some (Some b, root', h')"
    using n lm m h1(1) h2(1) o(1) by (simp add: rb_TwoChild_erase_def)
  moreover have "same_outside h2 h {a, b}" "h2 b = Some (the (h b)\<lparr>node_data := d\<rparr>)"
    using h1(1) h2(1) n m ab by (auto simp: same_outside_def modify_def)
  ultimately show ?thesis using lm n o(2) es es0 by auto
qed

lemma distinct_middle: "distinct (map fst (X @ (a, d) # Y)) \<Longrightarrow> a \<notin> fst ` set (X @ Y)"
  by auto

text \<open>
  The node returned is the node asked for, or the next one in order, which has given it its data; it
  holds the data to be removed.
\<close>

lemma removeNode_red_black:
  assumes t: "rb_holds h root t" and a: "a \<in> addrs t"
  shows "\<exists>b d L R root' h' t'. XRBTree_removeNode True root (Some a) h = Some (Some b, root', h') \<and>
    rb_holds h' root' t' \<and> (\<exists>n. h' b = Some n \<and> node_data n = d) \<and> same_outside h' h (addrs t) \<and>
    (b = a \<and> entries t = L @ (a, d) # R \<and> entries t' = L @ R \<or>
     (\<exists>d'. entries t = L @ (a, d) # (b, d') # R \<and> entries t' = L @ (a, d') # R))"
proof -
  obtain l c d r ps where t_eq: "t = plug (Node l (a, c, d) r) ps" using addr_focus [OF a] by blast
  have v: "view h h root (Node l (a, c, d) r) ps"
    using t view_plug [of h h root "Node l (a, c, d) r" ps] by (simp add: rb_holds_def view_holds t_eq)
  have rb: "red_black (plug (Node l (a, c, d) r) ps)" using t by (simp add: rb_holds_def t_eq)
  obtain n where n: "h a = Some n" "LChild n = node_ptr l" "RChild n = node_ptr r" "node_data n = d"
    using view_node [OF v] by auto
  have dist: "distinct (map fst (entries t))"
    using t by (simp add: rb_holds_def holds_def no_sharing_distinct entries_def comp_def split_def)
  show ?thesis
  proof (cases "l = Leaf \<or> r = Leaf")
    case True
    obtain root' h' where 1: "rb_OneChild_erase root (Some a) h = Some (root', h')"
      "repaired h root' h' (around ps (entries l @ entries r))"
      using OneChild_red_black [OF v True rb] by blast
    have es: "entries t = (strip (before ps) @ entries l) @ (a, d) # entries r @ strip (after ps)"
      by (simp add: t_eq entries_plug)
    obtain t' where t': "rb_holds h' root' t'" "entries t' = (strip (before ps) @ entries l) @ entries r @ strip (after ps)"
      "same_outside h' h (fst ` set (around ps (entries l @ entries r)))"
      using 1(2) by (auto simp: repaired_holds)
    have "a \<notin> fst ` set (around ps (entries l @ entries r))"
      using distinct_middle [of "strip (before ps) @ entries l" a d "entries r @ strip (after ps)"] dist
      unfolding es by (simp only: append_assoc) blast
    then have "h' a = h a" using t'(3) unfolding same_outside_def by blast
    then have "\<exists>n. h' a = Some n \<and> node_data n = d" using n by simp
    moreover have "same_outside h' h (addrs t)"
      by (rule same_outside_wider [OF t'(3)]) (simp only: addrs_entries es set_append list.set image_Un image_insert, blast)
    moreover have "XRBTree_removeNode True root (Some a) h = Some (Some a, root', h')"
      using True n 1(1) by (auto simp: XRBTree_removeNode_def)
    ultimately show ?thesis using t'(1,2) es by blast
  next
    case False
    obtain b d' R h2 root' h' where 2: "rb_TwoChild_erase True root (Some a) h = Some (Some b, root', h')"
      "entries t = strip (before ps) @ entries l @ (a, d) # (b, d') # R"
      "repaired h2 root' h' (strip (before ps) @ entries l @ (a, d') # R)" "same_outside h2 h {a, b}"
      "h2 b = Some (the (h b)\<lparr>node_data := d\<rparr>)"
      using TwoChild_red_black [OF v _ _ rb] False t_eq by blast
    obtain t' where t': "rb_holds h' root' t'" "entries t' = (strip (before ps) @ entries l) @ (a, d') # R"
      "same_outside h' h2 (fst ` set (strip (before ps) @ entries l @ (a, d') # R))"
      using 2(3) by (auto simp: repaired_holds)
    have "b \<notin> fst ` set (strip (before ps) @ entries l @ (a, d') # R)"
      using distinct_middle [of "strip (before ps) @ entries l @ [(a, d)]" b d' R] dist unfolding 2(2) by simp
    then have "h' b = h2 b" using t'(3) unfolding same_outside_def by blast
    then have "\<exists>n. h' b = Some n \<and> node_data n = d" using 2(5) by simp
    moreover have "same_outside h' h (addrs t)"
      by (rule same_outside_trans [OF same_outside_wider [OF t'(3)] same_outside_wider [OF 2(4)]])
        (simp only: addrs_entries 2(2) set_append list.set image_Un image_insert fst_conv, blast)+
    moreover have "XRBTree_removeNode True root (Some a) h = Some (Some b, root', h')"
      using False n 2(1) by (simp add: XRBTree_removeNode_def)
    moreover have "entries t = (strip (before ps) @ entries l) @ (a, d) # (b, d') # R" using 2(2) by simp
    ultimately show ?thesis using t'(1,2) by blast
  qed
qed

section \<open>Search\<close>

text \<open>The answers for a key do not go down along the entries.\<close>

definition key_order :: "('a \<Rightarrow> 'k \<Rightarrow> int) \<Rightarrow> 'k \<Rightarrow> (addr \<times> 'a) list \<Rightarrow> bool" where
  "key_order rule k es \<longleftrightarrow>
     (\<forall>e\<in>set es. rule (snd e) k \<in> {XCompare_Less, XCompare_Equality, XCompare_Greater}) \<and>
     sorted_wrt (\<lambda>x y. rule (snd x) k \<le> rule (snd y) k) es"

lemma findNode_view:
  assumes "view h0 h root t ps" and "key_order rule k (entries t)"
  shows "\<exists>p. XBBTree_findNode rule k h (node_ptr t) = Some p \<and>
    (case p of None \<Rightarrow> \<forall>e\<in>set (entries t). rule (snd e) k \<noteq> XCompare_Equality
     | Some a \<Rightarrow> \<exists>d. (a, d) \<in> set (entries t) \<and> rule d k = XCompare_Equality)"
  using assms
proof (induction t arbitrary: ps)
  case Leaf
  then show ?case by (subst XBBTree_findNode.simps) simp
next
  case (Node l x r)
  obtain a c d where x: "x = (a, c, d)" by (cases x)
  note v = Node.prems(1) [unfolded x] and ko = Node.prems(2) [unfolded x key_order_def]
  obtain n where n: "h a = Some n" "LChild n = node_ptr l" "RChild n = node_ptr r" "node_data n = d"
    using view_node [OF v] by auto
  have left: "\<forall>e\<in>set (entries l). rule (snd e) k \<le> rule d k" and right: "\<forall>e\<in>set (entries r). rule d k \<le> rule (snd e) k"
    using ko by (auto simp: sorted_wrt_append)
  have kl: "key_order rule k (entries l)" and kr: "key_order rule k (entries r)"
    using ko by (auto simp: sorted_wrt_append key_order_def)
  consider "rule d k = XCompare_Equality" | "rule d k = XCompare_Less" | "rule d k = XCompare_Greater"
    using ko by auto
  then show ?case
  proof cases
    case 1
    then show ?thesis using n x by (subst XBBTree_findNode.simps) auto
  next
    case 2
    then have none: "\<forall>e\<in>set (entries l). rule (snd e) k \<noteq> XCompare_Equality"
      using left by (fastforce simp: XCompare_defs)
    have "view h0 h root r (InR l (a, c, d) # ps)" using v by (simp add: view_up)
    from Node.IH(2) [OF this kr] obtain p where p: "XBBTree_findNode rule k h (node_ptr r) = Some p"
      "case p of None \<Rightarrow> \<forall>e\<in>set (entries r). rule (snd e) k \<noteq> XCompare_Equality
        | Some a \<Rightarrow> \<exists>d. (a, d) \<in> set (entries r) \<and> rule d k = XCompare_Equality"
      by blast
    have "XBBTree_findNode rule k h (node_ptr (Node l x r)) = XBBTree_findNode rule k h (node_ptr r)"
      using n 2 x by (subst XBBTree_findNode.simps) (simp add: XCompare_defs)
    then show ?thesis using p none 2 x by (auto simp: XCompare_defs split: option.splits)
  next
    case 3
    then have none: "\<forall>e\<in>set (entries r). rule (snd e) k \<noteq> XCompare_Equality"
      using right by (fastforce simp: XCompare_defs)
    have "view h0 h root l (InL (a, c, d) r # ps)" using v by (simp add: view_up)
    from Node.IH(1) [OF this kl] obtain p where p: "XBBTree_findNode rule k h (node_ptr l) = Some p"
      "case p of None \<Rightarrow> \<forall>e\<in>set (entries l). rule (snd e) k \<noteq> XCompare_Equality
        | Some a \<Rightarrow> \<exists>d. (a, d) \<in> set (entries l) \<and> rule d k = XCompare_Equality"
      by blast
    have "XBBTree_findNode rule k h (node_ptr (Node l x r)) = XBBTree_findNode rule k h (node_ptr l)"
      using n 3 x by (subst XBBTree_findNode.simps) (simp add: XCompare_defs)
    then show ?thesis using p none 3 x by (auto simp: XCompare_defs split: option.splits)
  qed
qed

lemma findNode_red_black:
  assumes "rb_holds h root t" and "key_order rule k (entries t)"
  shows "\<exists>p. XBBTree_findNode rule k h root = Some p \<and>
    (case p of None \<Rightarrow> \<forall>e\<in>set (entries t). rule (snd e) k \<noteq> XCompare_Equality
     | Some a \<Rightarrow> \<exists>d. (a, d) \<in> set (entries t) \<and> rule d k = XCompare_Equality)"
  using findNode_view [of h h root t "[]" rule k] assms by (simp add: view_holds rb_holds_def holds_def)

end
