(* ===== verification/RedBlackWalk.thy ===== *)
theory RedBlackWalk
  imports RedBlackRemove
begin

text \<open>Walking over a tree: the traversals with a stack, the successor, and the deletion of all nodes.\<close>

section \<open>Traversals\<close>

abbreviation ptrs :: "(addr \<times> 'c) list \<Rightarrow> ptr list" where
  "ptrs xs \<equiv> map (\<lambda>x. Some (fst x)) xs"

definition stacked :: "(('a, 'b) XTreeNode_scheme \<Rightarrow> 'c) \<Rightarrow> ('a, 'b) XTreeNode_scheme store \<Rightarrow> 'c atree list \<Rightarrow> bool" where
  "stacked f h ts \<longleftrightarrow> (\<forall>t\<in>set ts. t \<noteq> Leaf \<and> (\<exists>par. shape f h par t))"

definition pushed :: "'c atree \<Rightarrow> 'c atree list \<Rightarrow> 'c atree list" where
  "pushed t ts = (if t = Leaf then ts else t # ts)"

lemma stacked_pop:
  assumes "stacked f h (t # ts)"
  shows "\<exists>l a c r n. t = Node l (a, c) r \<and> h a = Some n \<and> LChild n = node_ptr l \<and> RChild n = node_ptr r \<and> f n = c \<and>
    stacked f h (pushed l (pushed r ts)) \<and> stacked f h (pushed r (pushed l ts))"
proof -
  obtain l a c r where t: "t = Node l (a, c) r" using assms by (cases t) (auto simp: stacked_def)
  then show ?thesis using assms by (auto simp: stacked_def pushed_def)
qed

lemma ptr_pushed:
  "(if node_ptr t \<noteq> None then node_ptr t # map node_ptr ts else map node_ptr ts) = map node_ptr (pushed t ts)"
  by (simp add: pushed_def)

lemma concat_pushed: "g Leaf = [] \<Longrightarrow> concat (map g (pushed t ts)) = g t @ concat (map g ts)"
  by (simp add: pushed_def)

lemma size_pushed: "size1 t = 1 \<or> True \<Longrightarrow> sum_list (map size (pushed t ts)) = size t + sum_list (map size ts)"
  by (auto simp: pushed_def)

lemma preorder_loop_trees:
  "stacked f h ts \<Longrightarrow>
    preorder_loop h (map node_ptr ts) vec = Some (vec @ concat (map (\<lambda>t. ptrs (preorder t)) ts))"
proof (induction "sum_list (map size ts)" arbitrary: ts vec rule: less_induct)
  case less
  show ?case
  proof (cases ts)
    case Nil
    then show ?thesis by (subst preorder_loop.simps) simp
  next
    case (Cons t rest)
    then obtain l a c r n where t: "t = Node l (a, c) r" "h a = Some n" "LChild n = node_ptr l" "RChild n = node_ptr r"
      "stacked f h (pushed l (pushed r rest))"
      using stacked_pop [of f h t rest] less.prems by auto
    have "preorder_loop h (map node_ptr (pushed l (pushed r rest))) (vec @ [Some a]) =
        Some ((vec @ [Some a]) @ concat (map (\<lambda>t. ptrs (preorder t)) (pushed l (pushed r rest))))"
      by (rule less.hyps) (use t Cons in \<open>simp_all add: size_pushed\<close>)
    moreover have "preorder_loop h (map node_ptr ts) vec = preorder_loop h (map node_ptr (pushed l (pushed r rest))) (vec @ [Some a])"
      using t Cons by (subst preorder_loop.simps) (auto simp: pushed_def Let_def)
    ultimately show ?thesis using Cons t by (simp add: concat_pushed)
  qed
qed

lemma postorder_loop_trees:
  "stacked f h ts \<Longrightarrow>
    postorder_loop h (map node_ptr ts) out = Some (concat (map (\<lambda>t. ptrs (postorder t)) (rev ts)) @ out)"
proof (induction "sum_list (map size ts)" arbitrary: ts out rule: less_induct)
  case less
  show ?case
  proof (cases ts)
    case Nil
    then show ?thesis by (subst postorder_loop.simps) simp
  next
    case (Cons t rest)
    then obtain l a c r n where t: "t = Node l (a, c) r" "h a = Some n" "LChild n = node_ptr l" "RChild n = node_ptr r"
      "stacked f h (pushed r (pushed l rest))"
      using stacked_pop [of f h t rest] less.prems by auto
    have "postorder_loop h (map node_ptr (pushed r (pushed l rest))) (Some a # out) =
        Some (concat (map (\<lambda>t. ptrs (postorder t)) (rev (pushed r (pushed l rest)))) @ Some a # out)"
      by (rule less.hyps) (use t Cons in \<open>simp_all add: size_pushed\<close>)
    moreover have "postorder_loop h (map node_ptr ts) out = postorder_loop h (map node_ptr (pushed r (pushed l rest))) (Some a # out)"
      using t Cons by (subst postorder_loop.simps) (auto simp: pushed_def Let_def)
    ultimately show ?thesis using Cons t by (simp add: pushed_def)
  qed
qed

text \<open>The stack of the inorder holds nodes whose left subtrees are done.\<close>

lemma inorder_loop_tree:
  "shape f h par t \<Longrightarrow>
    inorder_loop h stack (node_ptr t) vec = inorder_loop h stack None (vec @ ptrs (inorder t))"
proof (induction t arbitrary: par stack vec)
  case (Node l x r)
  obtain a c where x: "x = (a, c)" by (cases x)
  obtain n where n: "h a = Some n" "LChild n = node_ptr l" "RChild n = node_ptr r"
    "shape f h (Some a) l" "shape f h (Some a) r"
    using Node.prems x by auto
  have "inorder_loop h stack (node_ptr (Node l x r)) vec = inorder_loop h (Some a # stack) (node_ptr l) vec"
    using n x by (subst inorder_loop.simps) simp
  also have "\<dots> = inorder_loop h (Some a # stack) None (vec @ ptrs (inorder l))"
    by (rule Node.IH(1) [OF n(4)])
  also have "\<dots> = inorder_loop h stack (node_ptr r) (vec @ ptrs (inorder l) @ [Some a])"
    using n by (subst inorder_loop.simps) simp
  also have "\<dots> = inorder_loop h stack None ((vec @ ptrs (inorder l) @ [Some a]) @ ptrs (inorder r))"
    by (rule Node.IH(2) [OF n(5)])
  finally show ?case by (simp add: x)
qed simp

lemma inorder_loop_end: "inorder_loop h [] None vec = Some vec"
  by (subst inorder_loop.simps) simp

section \<open>The successor\<close>

lemma leftmost_first:
  assumes "shape f h par t" and "t \<noteq> Leaf"
  shows "leftmost h (node_ptr t) = Some (Some (fst (hd (inorder t))))"
  using assms
proof (induction t arbitrary: par)
  case (Node l x r)
  obtain a c where x: "x = (a, c)" by (cases x)
  show ?case
  proof (cases "l = Leaf")
    case True
    then show ?thesis using Node.prems x by (subst leftmost.simps) auto
  next
    case False
    then have "inorder l \<noteq> []" by (cases l) simp_all
    then show ?thesis using Node False x by (subst leftmost.simps) auto
  qed
qed simp

lemma ascend_path:
  assumes "path_shape f h ps (Some a)" and "path_no_sharing ps" and "a \<notin> path_addrs ps"
  shows "ascend h (Some a) (path_ptr ps) = Some (case after ps of [] \<Rightarrow> None | e # es \<Rightarrow> Some (fst e))"
  using assms
proof (induction ps arbitrary: a rule: before.induct)
  case 1
  then show ?case by (subst ascend.simps) simp
next
  case (2 x r ps)
  obtain b c where x: "x = (b, c)" by (cases x)
  have "node_ptr r \<noteq> Some a" using 2(4) by (intro node_ptr_not) simp
  then show ?case using 2 x by (subst ascend.simps) auto
next
  case (3 l x ps)
  obtain b c where x: "x = (b, c)" by (cases x)
  then have "ascend h (Some b) (path_ptr ps) = Some (case after ps of [] \<Rightarrow> None | e # es \<Rightarrow> Some (fst e))"
    using 3 by auto
  then show ?case using 3 x by (subst ascend.simps) auto
qed

lemma successor_focus:
  assumes "focus f h root (Node l (a, c) r) ps"
  shows "XRBTree_findSuccessor h (Some a) =
    Some (case inorder r @ after ps of [] \<Rightarrow> None | e # es \<Rightarrow> Some (fst e))"
proof -
  obtain n where n: "h a = Some n" "parentNode n = path_ptr ps" "RChild n = node_ptr r" "shape f h (Some a) r"
    using assms by (auto simp: focus_def)
  show ?thesis
  proof (cases "r = Leaf")
    case True
    then show ?thesis
      using n ascend_path [of f h ps a] assms by (simp add: XRBTree_findSuccessor_def focus_def)
  next
    case False
    then have "inorder r \<noteq> []" by (cases r) simp_all
    then show ?thesis
      using n leftmost_first [OF n(4) False] False
      by (cases "inorder r") (simp_all add: XRBTree_findSuccessor_def)
  qed
qed

lemma focus_of_inorder:
  assumes "inorder t = xs @ (a, c) # ys"
  shows "\<exists>l r ps. t = plug (Node l (a, c) r) ps \<and> before ps @ inorder l = xs \<and> inorder r @ after ps = ys"
  using assms
proof (induction t arbitrary: xs ys)
  case (Node l x r)
  have "inorder l @ x # inorder r = xs @ (a, c) # ys" using Node.prems by simp
  then consider (left) zs where "inorder l = xs @ (a, c) # zs" "ys = zs @ x # inorder r"
    | (here) "inorder l = xs" "x = (a, c)" "inorder r = ys"
    | (right) zs where "inorder r = zs @ (a, c) # ys" "xs = inorder l @ x # zs"
    by (auto simp: append_eq_append_conv2 Cons_eq_append_conv append_eq_Cons_conv)
  then show ?case
  proof cases
    case left
    then obtain l' r' ps where "l = plug (Node l' (a, c) r') ps" "before ps @ inorder l' = xs" "inorder r' @ after ps = zs"
      using Node.IH(1) by blast
    then show ?thesis using left
      by (intro exI [of _ l'] exI [of _ r'] exI [of _ "ps @ [InL x r]"]) (auto simp: plug_append before_append after_append)
  next
    case here
    then show ?thesis by (intro exI [of _ l] exI [of _ r] exI [of _ "[]"]) simp
  next
    case right
    then obtain l' r' ps where "r = plug (Node l' (a, c) r') ps" "before ps @ inorder l' = zs" "inorder r' @ after ps = ys"
      using Node.IH(2) by blast
    then show ?thesis using right
      by (intro exI [of _ l'] exI [of _ r'] exI [of _ "ps @ [InR l x]"]) (auto simp: plug_append before_append after_append)
  qed
qed simp

lemma successor_next:
  assumes "holds f h root t" and "inorder t = xs @ (a, c) # ys"
  shows "XRBTree_findSuccessor h (Some a) = Some (case ys of [] \<Rightarrow> None | e # es \<Rightarrow> Some (fst e))"
proof -
  obtain l r ps where "t = plug (Node l (a, c) r) ps" "inorder r @ after ps = ys"
    using focus_of_inorder [OF assms(2)] by blast
  then show ?thesis using successor_focus [of f h root l a c r ps] assms(1) by (simp add: focus_holds)
qed

section \<open>Deletion\<close>

fun disjoint_trees :: "'c atree list \<Rightarrow> bool" where
  "disjoint_trees [] \<longleftrightarrow> True"
| "disjoint_trees (t # ts) \<longleftrightarrow> no_sharing t \<and> (\<forall>s\<in>set ts. addrs t \<inter> addrs s = {}) \<and> disjoint_trees ts"

lemma disjoint_pushed:
  "disjoint_trees (pushed t ts) \<longleftrightarrow> no_sharing t \<and> (\<forall>s\<in>set ts. addrs t \<inter> addrs s = {}) \<and> disjoint_trees ts"
  by (auto simp: pushed_def)

lemma set_pushed: "(\<Union>s\<in>set (pushed t ts). addrs s) = addrs t \<union> (\<Union>s\<in>set ts. addrs s)"
  by (auto simp: pushed_def)

lemma delete_loop_trees:
  assumes "stacked rb_label h ts" and "disjoint_trees ts"
  shows "\<exists>log'. delete_loop (map node_ptr ts) h log =
      Some (\<lambda>x. if x \<in> (\<Union>t\<in>set ts. addrs t) then None else h x, log') \<and>
    mset log' = mset log + (\<Sum>t\<leftarrow>ts. mset (map snd (entries t)))"
  using assms
proof (induction "sum_list (map size ts)" arbitrary: ts h log rule: less_induct)
  case less
  show ?case
  proof (cases ts)
    case Nil
    then show ?thesis by (subst delete_loop.simps) simp
  next
    case (Cons t rest)
    then obtain l a c r n where t: "t = Node l (a, c) r" "h a = Some n" "LChild n = node_ptr l" "RChild n = node_ptr r"
      "rb_label n = c" "stacked rb_label h (pushed r (pushed l rest))"
      using stacked_pop [of rb_label h t rest] less.prems(1) by auto
    let ?ts = "pushed r (pushed l rest)" and ?h = "h(a := None)"
    have dis: "disjoint_trees ?ts" "a \<notin> (\<Union>s\<in>set ?ts. addrs s)"
      using less.prems(2) Cons t(1) by (auto simp: disjoint_pushed pushed_def)
    have "stacked rb_label ?h ?ts" unfolding stacked_def
    proof (intro ballI conjI)
      fix s assume s: "s \<in> set ?ts"
      then obtain par where "s \<noteq> Leaf" "shape rb_label h par s" using t(6) by (auto simp: stacked_def)
      moreover have "a \<notin> addrs s" using s dis(2) by blast
      ultimately show "s \<noteq> Leaf" "\<exists>par. shape rb_label ?h par s" by auto
    qed
    then obtain log' where IH: "delete_loop (map node_ptr ?ts) ?h (log @ [node_data n]) =
        Some (\<lambda>x. if x \<in> (\<Union>t\<in>set ?ts. addrs t) then None else ?h x, log')"
      "mset log' = mset (log @ [node_data n]) + (\<Sum>t\<leftarrow>?ts. mset (map snd (entries t)))"
      using less.hyps [of ?ts ?h "log @ [node_data n]"] dis(1) Cons t(1) by (auto simp: size_pushed)
    have "delete_loop (map node_ptr ts) h log = delete_loop (map node_ptr ?ts) ?h (log @ [node_data n])"
      using t Cons by (subst delete_loop.simps) (auto simp: pushed_def Let_def)
    moreover have "(\<lambda>x. if x \<in> (\<Union>t\<in>set ?ts. addrs t) then None else ?h x) =
        (\<lambda>x. if x \<in> (\<Union>t\<in>set ts. addrs t) then None else h x)"
      unfolding set_pushed Cons t(1) by (auto simp: fun_eq_iff)
    moreover have "mset log' = mset log + (\<Sum>t\<leftarrow>ts. mset (map snd (entries t)))"
      using IH(2) t(1,5) Cons by (auto simp: pushed_def rb_label_def)
    ultimately show ?thesis using IH(1) by simp
  qed
qed

section \<open>The operations on red-black trees\<close>

lemma node_of_entry:
  assumes "rb_holds h root t" and "(a, d) \<in> set (entries t)"
  shows "\<exists>n. h a = Some n \<and> node_data n = d"
proof -
  have "shape rb_label h par t \<Longrightarrow> (a, c, d) \<in> set_tree t \<Longrightarrow> \<exists>n. h a = Some n \<and> node_data n = d" for par c
    by (induction t arbitrary: par rule: colors_ok.induct) (auto simp: rb_label_def)
  then show ?thesis using assms by (fastforce simp: rb_holds_def holds_def entries_def)
qed

lemma XRBTree_remove_red_black:
  assumes "rb_holds h root t" and "key_order rule k (entries t)"
  shows "if \<forall>e\<in>set (entries t). rule (snd e) k \<noteq> XCompare_Equality
    then XRBTree_remove rule True root k h = Some (None, root, h)
    else \<exists>b d root' h' t' X Y. XRBTree_remove rule True root k h = Some (Some b, root', h') \<and>
      map snd (entries t) = X @ d # Y \<and> rule d k = XCompare_Equality \<and> map snd (entries t') = X @ Y \<and>
      rb_holds h' root' t' \<and>
      addrs t = insert b (addrs t') \<and> b \<notin> addrs t' \<and>
      map_option node_data (h' b) = Some d \<and> same_outside h' h (addrs t)"
proof -
  obtain p where p: "XBBTree_findNode rule k h root = Some p"
    "case p of None \<Rightarrow> \<forall>e\<in>set (entries t). rule (snd e) k \<noteq> XCompare_Equality
     | Some a \<Rightarrow> \<exists>d. (a, d) \<in> set (entries t) \<and> rule d k = XCompare_Equality"
    using findNode_red_black [OF assms] by blast
  show ?thesis
  proof (cases p)
    case None
    then show ?thesis using p by (simp add: XRBTree_remove_def)
  next
    case (Some a)
    then obtain d where d: "(a, d) \<in> set (entries t)" "rule d k = XCompare_Equality" using p(2) by auto
    have dist: "distinct (map fst (entries t))"
      using assms(1) by (simp add: rb_holds_def holds_def no_sharing_distinct entries_def comp_def split_def)
    from d(1) have "a \<in> addrs t" by (force simp: addrs_entries)
    from removeNode_red_black [OF assms(1) this] obtain b d' L R root' h' t' where
      1: "XRBTree_removeNode True root (Some a) h = Some (Some b, root', h')" "rb_holds h' root' t'"
      "\<exists>n. h' b = Some n \<and> node_data n = d'" "same_outside h' h (addrs t)"
      "b = a \<and> entries t = L @ (a, d') # R \<and> entries t' = L @ R \<or>
       (\<exists>d2. entries t = L @ (a, d') # (b, d2) # R \<and> entries t' = L @ (a, d2) # R)"
      by blast
    have "(a, d') \<in> set (entries t)" using 1(5) by auto
    then have dd: "d' = d" using dist d(1) by (auto dest: eq_key_imp_eq_value)
    have es: "map snd (entries t) = map snd L @ d # drop (Suc (length L)) (map snd (entries t))"
      "map snd (entries t') = map snd L @ drop (Suc (length L)) (map snd (entries t))"
      "fst ` set (entries t) = insert b (fst ` set (entries t'))"
      using 1(5) dd by (elim disjE exE conjE; simp add: image_Un insert_commute)+
    moreover have "b \<notin> fst ` set (entries t')"
      using 1(5) dist by (elim disjE exE conjE) (simp_all, blast+)
    ultimately have "addrs t = insert b (addrs t')" "b \<notin> addrs t'" by (simp_all add: addrs_entries)
    note es(1,2) this
    moreover have "XRBTree_remove rule True root k h = Some (Some b, root', h')"
      using p(1) 1(1) Some by (simp add: XRBTree_remove_def)
    moreover have "map_option node_data (h' b) = Some d" using 1(3) dd by auto
    moreover have "(\<forall>e\<in>set (entries t). rule (snd e) k \<noteq> XCompare_Equality) = False" using d by force
    ultimately show ?thesis using d(2) 1(2,4) by (simp only: if_False) blast
  qed
qed

text \<open>
  Without memory for the exchange of the data a node with two children stays, and NULL is returned as when nothing
  matches.
\<close>

lemma XRBTree_remove_room:
  assumes "rb_holds h root t" and "key_order rule k (entries t)"
  shows "XRBTree_remove rule room root k h = XRBTree_remove rule True root k h \<or>
    \<not> room \<and> XRBTree_remove rule room root k h = Some (None, root, h) \<and>
    (\<exists>a n. a \<in> addrs t \<and> h a = Some n \<and> LChild n \<noteq> None \<and> RChild n \<noteq> None \<and> rule (node_data n) k = XCompare_Equality)"
proof (cases room)
  case False
  obtain p where p: "XBBTree_findNode rule k h root = Some p"
    "case p of None \<Rightarrow> \<forall>e\<in>set (entries t). rule (snd e) k \<noteq> XCompare_Equality
     | Some a \<Rightarrow> \<exists>d. (a, d) \<in> set (entries t) \<and> rule d k = XCompare_Equality"
    using findNode_red_black [OF assms] by blast
  show ?thesis
  proof (cases p)
    case None
    then show ?thesis using p(1) by (simp add: XRBTree_remove_def)
  next
    case (Some a)
    then obtain d where d: "(a, d) \<in> set (entries t)" "rule d k = XCompare_Equality" using p(2) by auto
    obtain n where n: "h a = Some n" "node_data n = d" using node_of_entry [OF assms(1) d(1)] by blast
    have addr: "a \<in> addrs t" using d(1) by (force simp: addrs_entries)
    have yes: "XRBTree_remove rule True root k h \<noteq> None"
      using XRBTree_remove_red_black [OF assms] by (auto split: if_splits)
    show ?thesis
    proof (cases "LChild n \<noteq> None \<and> RChild n \<noteq> None")
      case True
      have "leftmost h (RChild n) \<noteq> None"
      proof
        assume "leftmost h (RChild n) = None"
        then show False
          using True yes p(1) Some n(1)
          by (simp add: XRBTree_remove_def XRBTree_removeNode_def rb_TwoChild_erase_def)
      qed
      then obtain q where "leftmost h (RChild n) = Some q" by blast
      then have "XRBTree_remove rule room root k h = Some (None, root, h)"
        using p(1) Some n(1) True \<open>\<not> room\<close>
        by (auto simp: XRBTree_remove_def XRBTree_removeNode_def rb_TwoChild_erase_def)
      then show ?thesis using False True n d(2) addr by blast
    next
      case False
      then show ?thesis using p(1) Some n(1) by (auto simp: XRBTree_remove_def XRBTree_removeNode_def)
    qed
  qed
qed simp

lemma TraversingToXVector_tree:
  assumes "rb_holds h root t"
  shows "XBTree_TraversingToXVector h root order = Some (if root = None then None
    else Some (map (\<lambda>x. Some (fst x)) (case order of XBTreePreorder \<Rightarrow> preorder t
      | XBTreeInorder \<Rightarrow> inorder t | XBTreePostorder \<Rightarrow> postorder t)))"
proof (cases "t = Leaf")
  case True
  then show ?thesis using assms by (simp add: rb_holds_def holds_def XBTree_TraversingToXVector_def)
next
  case False
  have r: "root = node_ptr t" "shape rb_label h None t" using assms by (auto simp: rb_holds_def holds_def)
  have "stacked rb_label h [t]" using False r(2) by (auto simp: stacked_def)
  then have "preorder_loop h [root] [] = Some (ptrs (preorder t))" "postorder_loop h [root] [] = Some (ptrs (postorder t))"
    using preorder_loop_trees [of rb_label h "[t]" "[]"] postorder_loop_trees [of rb_label h "[t]" "[]"] r(1) by simp_all
  moreover have "inorder_loop h [] root [] = Some (ptrs (inorder t))"
    using inorder_loop_tree [OF r(2), of "[]" "[]"] r(1) by (simp add: inorder_loop_end)
  ultimately show ?thesis using r(1) False
    by (cases order) (simp_all add: XBTree_TraversingToXVector_def)
qed

lemma findSuccessor_entries:
  assumes "rb_holds h root t" and "entries t = L @ (a, d) # R"
  shows "XRBTree_findSuccessor h (Some a) = Some (case R of [] \<Rightarrow> None | e # es \<Rightarrow> Some (fst e))"
proof -
  obtain xs c ys where "inorder t = xs @ (a, c, d) # ys" "map (\<lambda>(a, c, d). (a, d)) ys = R"
    using assms(2) by (auto simp: entries_def map_eq_append_conv map_eq_Cons_conv)
  then show ?thesis
    using successor_next [of rb_label h root t xs a "(c, d)" ys] assms(1)
    by (cases ys) (auto simp: rb_holds_def)
qed

lemma XTree_delete_tree:
  assumes "rb_holds h root t"
  shows "\<exists>log. XTree_delete root h = Some (\<lambda>x. if x \<in> addrs t then None else h x, log) \<and>
    mset log = mset (map snd (entries t))"
proof (cases "t = Leaf")
  case True
  then show ?thesis using assms by (simp add: rb_holds_def holds_def XTree_delete_def entries_def)
next
  case False
  have r: "root = node_ptr t" "shape rb_label h None t" "no_sharing t" using assms by (auto simp: rb_holds_def holds_def)
  have "stacked rb_label h [t]" using False r(2) by (auto simp: stacked_def)
  then show ?thesis using delete_loop_trees [of h "[t]" "[]"] r False by (simp add: XTree_delete_def)
qed

end
