(* ===== verification/MapSpec.thy ===== *)
theory MapSpec
  imports XMap RedBlackWalk
begin

text \<open>
  What a map promises: the pairs in strictly increasing order of their keys, and the value such a list gives
  for a key. A key stands for every key that compares equal. The contract of a map is a locale, in which the
  removal by a predicate is proved for any map that keeps it.
\<close>

section \<open>Pairs in order of their keys\<close>

definition keys_sorted :: "('k \<Rightarrow> 'k \<Rightarrow> int) \<Rightarrow> ('k \<times> 'v) list \<Rightarrow> bool" where
  "keys_sorted cmp ps \<longleftrightarrow> sorted_wrt (\<lambda>x y. cmp (fst x) (fst y) = - 1) ps"

definition contents :: "('k \<Rightarrow> 'k \<Rightarrow> int) \<Rightarrow> ('k \<times> 'v) list \<Rightarrow> 'k \<Rightarrow> 'v option" where
  "contents cmp ps k = map_option snd (find (\<lambda>p. cmp (fst p) k = 0) ps)"

definition put_content :: "('k \<Rightarrow> 'k \<Rightarrow> int) \<Rightarrow> 'k \<Rightarrow> 'v option \<Rightarrow> ('k \<Rightarrow> 'v option) \<Rightarrow> 'k \<Rightarrow> 'v option" where
  "put_content cmp k v f = (\<lambda>k'. if cmp k k' = 0 then v else f k')"

lemma find_append: "find P (xs @ ys) = (case find P xs of None \<Rightarrow> find P ys | Some x \<Rightarrow> Some x)"
  by (induction xs) auto

text \<open>The laws of a comparison of keys.\<close>

locale key_laws =
  fixes cmp :: "'k \<Rightarrow> 'k \<Rightarrow> int"
  assumes tc: "total_compare cmp"
begin

lemma cmp_cases: "cmp x y = - 1 \<or> cmp x y = 0 \<or> cmp x y = 1" and cmp_swap: "cmp y x = - cmp x y"
  using total_compareD(1,2) [OF tc] by blast+

lemma cmp_le: "cmp x y \<le> 0 \<Longrightarrow> cmp y z \<le> 0 \<Longrightarrow> cmp x z \<le> 0"
  using total_compareD(3) [OF tc] .

lemma cmp_refl [simp]: "cmp x x = 0"
  using cmp_swap [of x x] by simp

lemma cmp_eq_left: "cmp x y = 0 \<Longrightarrow> cmp x z = cmp y z"
  using cmp_le [of x y z] cmp_le [of y x z] cmp_le [of z x y] cmp_le [of z y x] cmp_cases [of x z] cmp_cases [of y z]
    cmp_swap [of x y] cmp_swap [of x z] cmp_swap [of y z]
  by auto

lemma cmp_eq_right: "cmp x y = 0 \<Longrightarrow> cmp z x = cmp z y"
  using cmp_eq_left [of x y z] cmp_swap [of x z] cmp_swap [of y z] by simp

lemma cmp_less_trans: "cmp x y = - 1 \<Longrightarrow> cmp y z = - 1 \<Longrightarrow> cmp x z = - 1"
  using cmp_le [of x y z] cmp_cases [of x z] cmp_eq_right [of x z y] cmp_swap [of x y] by auto

lemma find_other:
  assumes "\<And>p. p \<in> set ps \<Longrightarrow> cmp (fst p) k \<noteq> 0"
  shows "find (\<lambda>p. cmp (fst p) k = 0) ps = None"
  using assms by (auto simp: find_None_iff)

lemma keys_sorted_split:
  assumes "keys_sorted cmp (L @ (k, v) # R)"
  shows "\<And>p. p \<in> set L \<Longrightarrow> cmp (fst p) k = - 1" and "\<And>p. p \<in> set R \<Longrightarrow> cmp k (fst p) = - 1"
    and "keys_sorted cmp (L @ R)"
  using assms by (auto simp: keys_sorted_def sorted_wrt_append)

lemma contents_split:
  assumes "keys_sorted cmp (L @ (k, v) # R)"
  shows "contents cmp (L @ (k, v) # R) = put_content cmp k (Some v) (contents cmp (L @ R))"
    and "contents cmp (L @ R) = put_content cmp k None (contents cmp (L @ (k, v) # R))"
proof -
  have ne: "cmp (fst p) k' \<noteq> 0" if "cmp k k' = 0" "p \<in> set L \<union> set R" for p k'
    using keys_sorted_split(1,2) [OF assms, of p] that cmp_eq_right [of k k' "fst p"] cmp_swap [of k "fst p"] by auto
  have L: "find (\<lambda>p. cmp (fst p) k' = 0) L = None" and R: "find (\<lambda>p. cmp (fst p) k' = 0) R = None"
    if "cmp k k' = 0" for k'
    unfolding find_None_iff using ne [OF that] by blast+
  show "contents cmp (L @ (k, v) # R) = put_content cmp k (Some v) (contents cmp (L @ R))"
    by (auto simp: fun_eq_iff contents_def put_content_def find_append L split: option.splits)
  show "contents cmp (L @ R) = put_content cmp k None (contents cmp (L @ (k, v) # R))"
    by (auto simp: fun_eq_iff contents_def put_content_def find_append L R split: option.splits)
qed

lemma contents_in:
  assumes "keys_sorted cmp (L @ (k, v) # R)" and "cmp k k' = 0"
  shows "contents cmp (L @ (k, v) # R) k' = Some v"
  using contents_split(1) [OF assms(1)] assms(2) by (simp add: put_content_def)

lemma contents_none: "(\<And>p. p \<in> set ps \<Longrightarrow> cmp (fst p) k \<noteq> 0) \<Longrightarrow> contents cmp ps k = None"
  by (simp add: contents_def find_other)

lemma keys_sorted_insert:
  assumes "keys_sorted cmp (L @ R)" and "\<And>p. p \<in> set L \<Longrightarrow> cmp (fst p) k = - 1" and "\<And>p. p \<in> set R \<Longrightarrow> cmp k (fst p) = - 1"
  shows "keys_sorted cmp (L @ (k, v) # R)"
  using assms by (auto simp: keys_sorted_def sorted_wrt_append)

lemma keys_sorted_replace:
  assumes "keys_sorted cmp (L @ (k, v) # R)" and "cmp k k' = 0"
  shows "keys_sorted cmp (L @ (k', v') # R)"
  using assms cmp_eq_left [OF assms(2)] cmp_eq_right [OF assms(2)]
  by (auto simp: keys_sorted_def sorted_wrt_append)

lemma contents_replace:
  assumes "keys_sorted cmp (L @ (k, v) # R)" and "cmp k k' = 0"
  shows "contents cmp (L @ (k', v') # R) = put_content cmp k' (Some v') (contents cmp (L @ (k, v) # R))"
  using contents_split(1) [OF keys_sorted_replace [OF assms, of v']] contents_split(1) [OF assms(1)]
    cmp_eq_left [OF assms(2)]
  by (auto simp: put_content_def fun_eq_iff)

text \<open>A set of pairs can be in order in one way only.\<close>

lemma keys_sorted_unique:
  "keys_sorted cmp ps \<Longrightarrow> keys_sorted cmp qs \<Longrightarrow> mset ps = mset qs \<Longrightarrow> ps = qs"
proof (induction ps arbitrary: qs)
  case (Cons p ps)
  then obtain q qs' where qs: "qs = q # qs'" by (cases qs) auto
  have "p = q"
  proof (rule ccontr)
    assume "p \<noteq> q"
    moreover have "set (p # ps) = set (q # qs')" using mset_eq_setD [OF Cons.prems(3)] qs by simp
    ultimately have "q \<in> set ps" "p \<in> set qs'" by auto
    then have "cmp (fst p) (fst q) = - 1" "cmp (fst q) (fst p) = - 1"
      using Cons.prems(1,2) qs by (auto simp: keys_sorted_def)
    then show False using cmp_swap [of "fst p" "fst q"] by simp
  qed
  then show ?case using Cons qs by (auto simp: keys_sorted_def)
qed simp

lemma rule_two_total: "total_compare (XCompareRuleTwo_XMap cmp)"
  using tc unfolding total_compare_def XCompareRuleTwo_XMap_def by blast

lemma keys_sorted_sequence:
  assumes "keys_sorted cmp (map snd es)"
  shows "in_sequence (XCompareRuleTwo_XMap cmp) es"
  using assms unfolding keys_sorted_def sorted_wrt_map
  by (rule sorted_wrt_mono_rel [rotated]) (simp add: XCompareRuleTwo_XMap_def)

lemma keys_sorted_key_order:
  assumes "keys_sorted cmp (map snd es)"
  shows "key_order (XCompareRuleOne_XMap cmp) k es"
proof -
  have "cmp x k \<le> cmp y k" if "cmp x y = - 1" for x y
    using cmp_cases [of y k]
  proof (elim disjE)
    assume "cmp y k = - 1"
    then show ?thesis using cmp_less_trans [OF that] by simp
  next
    assume "cmp y k = 0"
    then show ?thesis using cmp_eq_right [of y k x] that by simp
  next
    assume "cmp y k = 1"
    then show ?thesis using cmp_cases [of x k] by auto
  qed
  then have "sorted_wrt (\<lambda>x y. cmp (fst (snd x)) k \<le> cmp (fst (snd y)) k) es"
    using assms unfolding keys_sorted_def sorted_wrt_map by (rule_tac sorted_wrt_mono_rel) auto
  then show ?thesis using cmp_cases by (auto simp: key_order_def XCompareRuleOne_XMap_def XCompare_defs)
qed

end

interpretation int_keys: key_laws int_compare
  by unfold_locales (rule int_compare_total)

end
