(* ===== verification/MapTree.thy ===== *)
theory MapTree
  imports MapSpec
begin

text \<open>
  A map and the tree its root leads to: search and iteration, and the operations of a map that shares its tree
  with no other one. Every lemma says which nodes and blocks may have changed.
\<close>

section \<open>What a map shows\<close>

abbreviation pairs :: "('k \<times> 'v) rb_tree \<Rightarrow> ('k \<times> 'v) list" where
  "pairs t \<equiv> map snd (entries t)"

definition well_keyed :: "('k \<Rightarrow> 'k \<Rightarrow> int) \<Rightarrow> ('k \<times> 'v) rb_tree \<Rightarrow> bool" where
  "well_keyed cmp t \<longleftrightarrow> total_compare cmp \<and> keys_sorted cmp (pairs t)"

definition map_shows :: "'k XMap \<Rightarrow> ('k, 'v) map_memory \<Rightarrow> ('k \<times> 'v) rb_tree \<Rightarrow> bool" where
  "map_shows m H t \<longleftrightarrow>
     (\<exists>root. XMap_root m H = Some root \<and> rb_holds (map_nodes H) root t) \<and>
     well_keyed (m_compare m) t \<and> m_size m = length (entries t)"

definition unshared :: "'k XMap \<Rightarrow> ('k, 'v) map_memory \<Rightarrow> bool" where
  "unshared m H \<longleftrightarrow> (m_useCow m \<longrightarrow> XSharedData_isShared (m_data m) H = Some False)"

lemma well_keyedD: "well_keyed cmp t \<Longrightarrow> key_laws cmp" "well_keyed cmp t \<Longrightarrow> keys_sorted cmp (pairs t)"
  by (simp_all add: well_keyed_def key_laws_def)

lemma rb_holds_Leaf: "rb_holds h None t \<longleftrightarrow> t = Leaf"
  by (auto simp: rb_holds_def holds_def red_black_def)

lemma rb_holds_same: "rb_holds h root t \<Longrightarrow> (\<And>x. x \<in> addrs t \<Longrightarrow> h' x = h x) \<Longrightarrow> rb_holds h' root t"
  using holds_same [of rb_label h root t h'] by (simp add: rb_holds_def)

lemma rb_holds_dom: "rb_holds h root t \<Longrightarrow> x \<in> addrs t \<Longrightarrow> h x \<noteq> None"
  using shape_dom [of rb_label h None t x] by (auto simp: rb_holds_def holds_def)

lemma rb_holds_distinct: "rb_holds h root t \<Longrightarrow> distinct (map fst (entries t))"
  by (simp add: rb_holds_def holds_def no_sharing_distinct entries_def comp_def split_def)

lemma entries_Leaf [simp]: "entries t = [] \<longleftrightarrow> t = Leaf"
  by (cases t) (auto simp: entries_def)

lemma length_entries: "length (entries t) = size t"
  by (simp add: entries_def)

lemma well_keyed_Leaf: "total_compare cmp \<Longrightarrow> well_keyed cmp Leaf"
  by (simp add: well_keyed_def keys_sorted_def entries_def)

lemma XMap_root_counts [simp]:
  "XMap_root (m\<lparr>m_size := n\<rparr>) H = XMap_root m H" "XMap_root (m\<lparr>m_capacity := n\<rparr>) H = XMap_root m H"
  "XMap_root (m\<lparr>m_pairBuffer := p\<rparr>) H = XMap_root m H"
  by (simp_all add: XMap_root_def XMap_root_ptr_def read_root_def split: option.split)

lemma XMap_root_nodes [simp]: "XMap_root m (H\<lparr>map_nodes := h\<rparr>) = XMap_root m H"
  by (simp add: XMap_root_def XMap_root_ptr_def read_root_def split: option.split)

section \<open>Search and iteration\<close>

lemma find_shows:
  assumes "map_shows m H t"
  shows "\<exists>p. VXMap_find m H k = Some p \<and>
    (case p of None \<Rightarrow> \<forall>q\<in>set (pairs t). m_compare m (fst q) k \<noteq> 0
     | Some a \<Rightarrow> \<exists>L k' v R. entries t = L @ (a, (k', v)) # R \<and> m_compare m k' k = 0)"
proof (cases "m_size m = 0")
  case True
  then have "t = Leaf" using assms by (simp add: map_shows_def)
  then show ?thesis using True by (simp add: VXMap_find_def entries_def)
next
  case False
  let ?cmp = "m_compare m"
  obtain root where root: "XMap_root m H = Some root" "rb_holds (map_nodes H) root t" "well_keyed ?cmp t"
    using assms by (auto simp: map_shows_def)
  have "key_order (XCompareRuleOne_XMap ?cmp) k (entries t)"
    by (rule key_laws.keys_sorted_key_order [OF well_keyedD [OF root(3)]])
  from findNode_red_black [OF root(2) this] obtain p where
    p: "XBBTree_findNode (XCompareRuleOne_XMap ?cmp) k (map_nodes H) root = Some p"
    "case p of None \<Rightarrow> \<forall>e\<in>set (entries t). XCompareRuleOne_XMap ?cmp (snd e) k \<noteq> XCompare_Equality
     | Some a \<Rightarrow> \<exists>d. (a, d) \<in> set (entries t) \<and> XCompareRuleOne_XMap ?cmp d k = XCompare_Equality"
    by blast
  have "case p of None \<Rightarrow> \<forall>q\<in>set (pairs t). ?cmp (fst q) k \<noteq> 0
     | Some a \<Rightarrow> \<exists>L k' v R. entries t = L @ (a, (k', v)) # R \<and> ?cmp k' k = 0"
    using p(2) by (auto simp: XCompareRuleOne_XMap_def XCompare_defs in_set_conv_decomp split: option.splits)
  then show ?thesis using p(1) root(1) False by (simp add: VXMap_find_def)
qed

lemma contents_entry:
  assumes "well_keyed cmp t" and "entries t = L @ (a, (k', v)) # R" and "cmp k' k = 0"
  shows "contents cmp (pairs t) k = Some v"
  using key_laws.contents_in [OF well_keyedD(1) [OF assms(1)], of "map snd L" k' v "map snd R" k]
    well_keyedD(2) [OF assms(1)] assms(2,3) by simp

lemma value_shows:
  assumes "map_shows m H t"
  shows "VXMap_value m H k = Some (contents (m_compare m) (pairs t) k)"
proof -
  obtain p where p: "VXMap_find m H k = Some p"
    "case p of None \<Rightarrow> \<forall>q\<in>set (pairs t). m_compare m (fst q) k \<noteq> 0
     | Some a \<Rightarrow> \<exists>L k' v R. entries t = L @ (a, (k', v)) # R \<and> m_compare m k' k = 0"
    using find_shows [OF assms] by blast
  obtain root where root: "rb_holds (map_nodes H) root t" "well_keyed (m_compare m) t"
    using assms by (auto simp: map_shows_def)
  show ?thesis
  proof (cases p)
    case None
    then have "contents (m_compare m) (pairs t) k = None"
      using p(2) by (intro key_laws.contents_none [OF well_keyedD(1) [OF root(2)]]) auto
    then show ?thesis using p(1) None by (simp add: VXMap_value_def)
  next
    case (Some a)
    then obtain L k' v R where e: "entries t = L @ (a, (k', v)) # R" "m_compare m k' k = 0" using p(2) by auto
    then obtain n where "map_nodes H a = Some n" "node_data n = (k', v)"
      using node_of_entry [OF root(1), of a "(k', v)"] by auto
    then show ?thesis using p(1) Some contents_entry [OF root(2) e] by (simp add: VXMap_value_def)
  qed
qed

lemma for_each_entries:
  assumes "rb_holds (map_nodes H) root t"
  shows "entries t = L @ R \<Longrightarrow>
    for_each_iterator H (case R of [] \<Rightarrow> None | e # _ \<Rightarrow> Some (fst e)) seen = Some (seen @ map snd R)"
proof (induction R arbitrary: L seen)
  case Nil
  then show ?case by (subst for_each_iterator.simps) simp
next
  case (Cons e R)
  obtain a d where e: "e = (a, d)" by (cases e)
  obtain n where n: "map_nodes H a = Some n" "node_data n = d"
    using node_of_entry [OF assms, of a d] Cons.prems e by auto
  have "XMap_iterator_add H (Some a) = XRBTree_findSuccessor (map_nodes H) (Some a)"
    by (simp add: XMap_iterator_add_def XRBTree_findSuccessor_def)
  also have "\<dots> = Some (case R of [] \<Rightarrow> None | e # es \<Rightarrow> Some (fst e))"
    by (rule findSuccessor_entries [OF assms]) (use Cons.prems e in auto)
  finally have "for_each_iterator H (Some a) seen =
      for_each_iterator H (case R of [] \<Rightarrow> None | e # es \<Rightarrow> Some (fst e)) (seen @ [d])"
    using n by (subst for_each_iterator.simps) simp
  also have "\<dots> = Some ((seen @ [d]) @ map snd R)"
    by (rule Cons.IH [of "L @ [e]"]) (use Cons.prems in simp)
  finally show ?case by (simp add: e)
qed

lemma iteration_shows:
  assumes "map_shows m H t"
  shows "\<exists>it. XMap_begin m H = Some it \<and> for_each_iterator H it [] = Some (pairs t)"
proof -
  obtain root where root: "XMap_root m H = Some root" "rb_holds (map_nodes H) root t"
    using assms by (auto simp: map_shows_def)
  have "XMap_begin m H = Some (case entries t of [] \<Rightarrow> None | e # _ \<Rightarrow> Some (fst e))"
  proof (cases "t = Leaf")
    case True
    then show ?thesis using root by (auto simp: XMap_begin_def rb_holds_def holds_def entries_def)
  next
    case False
    have "root = node_ptr t" "shape rb_label (map_nodes H) None t" using root(2) by (auto simp: rb_holds_def holds_def)
    then have "leftmost (map_nodes H) root = Some (Some (fst (hd (inorder t))))" "root \<noteq> None"
      using leftmost_first False by auto
    moreover have "m_data m \<noteq> None"
    proof
      assume "m_data m = None"
      then have "XMap_root m H = Some None"
        by (simp add: XMap_root_def XMap_root_ptr_def read_root_def)
      then show False using root(1) \<open>root \<noteq> None\<close> by simp
    qed
    moreover have "inorder t \<noteq> []" using False by (cases t) simp_all
    then have "(case entries t of [] \<Rightarrow> None | e # _ \<Rightarrow> Some (fst e)) = Some (fst (hd (inorder t)))"
      by (cases "inorder t") (auto simp: entries_def split_def)
    ultimately show ?thesis using root(1) by (simp add: XMap_begin_def)
  qed
  then show ?thesis using for_each_entries [OF root(2), of "[]" "entries t" "[]"] by simp
qed

lemma keys_shows: "map_shows m H t \<Longrightarrow> VXMapBase_keys m H = Some (map fst (pairs t))"
  and values_shows: "map_shows m H t \<Longrightarrow> VXMapBase_values m H = Some (map snd (pairs t))"
  using iteration_shows [of m H t] by (auto simp: VXMapBase_keys_def VXMapBase_values_def)

section \<open>Writing to the tree\<close>

text \<open>The place of the root takes a new one; nothing else of the map and of the blocks changes.\<close>

lemma write_root_shows:
  assumes "XMap_root_ptr m = Some r" and "read_root m H r = Some root"
  shows "\<exists>m' H'. write_root root' m (H\<lparr>map_nodes := h'\<rparr>) r = Some (m', H') \<and> map_nodes H' = h' \<and>
    XMap_root m' H' = Some root' \<and> m' = m\<lparr>m_data := m_data m'\<rparr> \<and> (m_useCow m \<longrightarrow> m' = m) \<and>
    (\<forall>b. map_option refCount (map_blocks H' b) = map_option refCount (map_blocks H b)) \<and>
    (\<forall>b. m_useCow m \<longrightarrow> m_data m \<noteq> Some b \<longrightarrow> map_blocks H' b = map_blocks H b) \<and>
    (\<not> m_useCow m \<longrightarrow> map_blocks H' = map_blocks H)"
proof (cases r)
  case MapRoot
  then have "\<not> m_useCow m" using assms(1) by (auto simp: XMap_root_ptr_def split: if_splits)
  then show ?thesis using MapRoot by (simp add: write_root_def XMap_root_def XMap_root_ptr_def read_root_def)
next
  case (BlockRoot b)
  then have "m_useCow m" "m_data m = Some b" using assms(1) by (auto simp: XMap_root_ptr_def split: if_splits)
  moreover obtain s where "map_blocks H b = Some s" using assms(2) BlockRoot by (auto simp: read_root_def)
  ultimately show ?thesis using BlockRoot
    by (auto simp: write_root_def XMap_root_def XMap_root_ptr_def read_root_def)
qed

text \<open>What an operation on the tree of a map may have changed: the nodes \<open>A\<close>, and in the blocks the root in the
  map's own block.\<close>

definition only_changes ::
  "'k XMap \<Rightarrow> ('k, 'v) map_memory \<Rightarrow> ('k, 'v) map_memory \<Rightarrow> addr set \<Rightarrow> bool" where
  "only_changes m H H' A \<longleftrightarrow>
     same_outside (map_nodes H') (map_nodes H) A \<and>
     (\<forall>b. map_option refCount (map_blocks H' b) = map_option refCount (map_blocks H b)) \<and>
     (\<forall>b. \<not> (m_useCow m \<and> m_data m = Some b) \<longrightarrow> map_blocks H' b = map_blocks H b)"

definition same_place :: "'k XMap \<Rightarrow> 'k XMap \<Rightarrow> bool" where
  "same_place m' m \<longleftrightarrow>
     m_useCow m' = m_useCow m \<and> m_compare m' = m_compare m \<and> (m_useCow m \<longrightarrow> m_data m' = m_data m)"

lemma distinct_split:
  "distinct (map fst (L @ (a, d) # R)) \<Longrightarrow> L @ (a, d) # R = L' @ (a, d') # R' \<Longrightarrow> L = L' \<and> d = d' \<and> R = R'"
proof (induction L arbitrary: L')
  case Nil
  then show ?case by (cases L') auto
next
  case (Cons e L)
  then obtain K where K: "L' = e # K" by (cases L') auto
  then have "L = K \<and> d = d' \<and> R = R'" 
    using Cons.IH [of K] Cons.prems by (simp del: map_append)
  then show ?case using K by simp
qed

lemma overwrite_entry:
  assumes "rb_holds h root t" and "entries t = L @ (a, d) # R"
  shows "\<exists>h' t'. modify h (Some a) (node_data_update (\<lambda>_. d')) = Some h' \<and> rb_holds h' root t' \<and>
    entries t' = L @ (a, d') # R \<and> same_outside h' h {a}"
proof -
  have "a \<in> addrs t" using assms(2) by (simp add: addrs_entries)
  then obtain l c d0 r ps where t: "t = plug (Node l (a, c, d0) r) ps" using addr_focus by blast
  have v: "view h h root (Node l (a, c, d0) r) ps"
    using assms(1) view_plug [of h h root "Node l (a, c, d0) r" ps] by (simp add: rb_holds_def view_holds t)
  obtain h' where h': "modify h (Some a) (node_data_update (\<lambda>_. d')) = Some h'" "view h h' root (Node l (a, c, d') r) ps"
    using view_SetData [OF v] by blast
  let ?t = "plug (Node l (a, c, d') r) ps"
  have "rb_holds h' root ?t"
    using h'(2) view_plug [of h h' root "Node l (a, c, d') r" ps] red_black_data [of l a c d0 r ps d'] assms(1)
    by (simp add: rb_holds_def view_holds t)
  moreover have e: "entries t = (strip (before ps) @ entries l) @ (a, d0) # (entries r @ strip (after ps))"
    "entries ?t = (strip (before ps) @ entries l) @ (a, d') # (entries r @ strip (after ps))"
    by (simp_all add: t entries_plug)
  have "L = strip (before ps) @ entries l \<and> d = d0 \<and> R = entries r @ strip (after ps)"
  proof (rule distinct_split)
    show "distinct (map fst (L @ (a, d) # R))" using rb_holds_distinct [OF assms(1)] unfolding assms(2) .
    show "L @ (a, d) # R = (strip (before ps) @ entries l) @ (a, d0) # (entries r @ strip (after ps))"
      using e(1) unfolding assms(2) .
  qed
  moreover have "same_outside h' h {a}" using h'(1) by (auto simp: modify_def same_outside_def bind_eq_Some_conv)
  ultimately show ?thesis using h'(1) e(2) by blast
qed

lemma overwrite_map:
  assumes m: "map_shows m H t" and e: "entries t = L @ (a, (k', v')) # R" and k: "m_compare m k' k = 0"
  shows "\<exists>h' t'. modify (map_nodes H) (Some a) (node_data_update (\<lambda>_. (k, v))) = Some h' \<and>
    map_shows m (H\<lparr>map_nodes := h'\<rparr>) t' \<and> addrs t' = addrs t \<and>
    contents (m_compare m) (pairs t') = put_content (m_compare m) k (Some v) (contents (m_compare m) (pairs t)) \<and>
    only_changes m H (H\<lparr>map_nodes := h'\<rparr>) (addrs t)"
proof -
  obtain root where root: "XMap_root m H = Some root" "rb_holds (map_nodes H) root t" "well_keyed (m_compare m) t"
    "m_size m = length (entries t)"
    using m by (auto simp: map_shows_def)
  note laws = well_keyedD(1) [OF root(3)]
  obtain h' t' where h': "modify (map_nodes H) (Some a) (node_data_update (\<lambda>_. (k, v))) = Some h'"
    "rb_holds h' root t'" "entries t' = L @ (a, (k, v)) # R" "same_outside h' (map_nodes H) {a}"
    using overwrite_entry [OF root(2) e] by blast
  have sorted: "keys_sorted (m_compare m) (map snd L @ (k', v') # map snd R)"
    using well_keyedD(2) [OF root(3)] e by simp
  have "well_keyed (m_compare m) t'"
    using key_laws.keys_sorted_replace [OF laws sorted k, of v] h'(3) laws by (simp add: well_keyed_def key_laws_def)
  moreover have "XMap_root m (H\<lparr>map_nodes := h'\<rparr>) = Some root"
    using root(1) by (simp add: XMap_root_def read_root_def split: option.splits root_ref.splits)
  ultimately have "map_shows m (H\<lparr>map_nodes := h'\<rparr>) t'"
    using h'(2,3) root(4) e by (simp add: map_shows_def)
  moreover have "contents (m_compare m) (pairs t') = put_content (m_compare m) k (Some v) (contents (m_compare m) (pairs t))"
    using key_laws.contents_replace [OF laws sorted k, of v] h'(3) e by simp
  moreover have "addrs t' = addrs t" using h'(3) e by (simp add: addrs_entries)
  moreover have "only_changes m H (H\<lparr>map_nodes := h'\<rparr>) (addrs t)"
    using h'(4) e by (auto simp: only_changes_def same_outside_def addrs_entries)
  ultimately show ?thesis using h'(1) by blast
qed

lemma insert_new_map:
  assumes m: "map_shows m H t" and r: "XMap_root_ptr m = Some r" and a: "map_nodes H a = None"
    and new: "\<forall>q\<in>set (pairs t). m_compare m (fst q) k \<noteq> 0"
  shows "\<exists>root root1 h5 m' H' t'. read_root m H r = Some root \<and>
    XRBTree_insertNode (XCompareRuleTwo_XMap (m_compare m)) (Some root) a ((map_nodes H)(a \<mapsto> XRBTree_init (k, v))) =
      Some (Some a, Some root1, h5) \<and>
    write_root root1 m (H\<lparr>map_nodes := h5\<rparr>) r = Some (m', H') \<and> m' = m\<lparr>m_data := m_data m'\<rparr> \<and>
    map_shows (m'\<lparr>m_capacity := m_capacity m' + 1, m_size := m_size m' + 1\<rparr>) H' t' \<and> addrs t' = insert a (addrs t) \<and>
    contents (m_compare m) (pairs t') = put_content (m_compare m) k (Some v) (contents (m_compare m) (pairs t)) \<and>
    only_changes m H H' (insert a (addrs t)) \<and> same_place m' m \<and>
    (\<exists>L R. entries t = L @ R \<and> entries t' = L @ (a, (k, v)) # R)"
proof -
  let ?cmp = "m_compare m"
  obtain root where root: "read_root m H r = Some root" "rb_holds (map_nodes H) root t" "well_keyed ?cmp t"
    "m_size m = length (entries t)"
    using m r by (auto simp: map_shows_def XMap_root_def)
  note laws = well_keyedD(1) [OF root(3)]
  obtain root1 h5 t' L R where i: "XRBTree_insert (XCompareRuleTwo_XMap ?cmp) (Some root) (Some a) (k, v) (map_nodes H) =
      Some (Some a, Some root1, h5)"
    "rb_holds h5 root1 t'" "entries t = L @ R" "entries t' = L @ (a, (k, v)) # R"
    "splits_at (XCompareRuleTwo_XMap ?cmp) (k, v) L R" "same_outside h5 (map_nodes H) (insert a (addrs t))"
    using XRBTree_insert_red_black [OF key_laws.rule_two_total [OF laws] root(2)
      key_laws.keys_sorted_sequence [OF laws well_keyedD(2) [OF root(3)]] a, of "(k, v)"] by blast
  have "?cmp (fst p) k = - 1" if p: "p \<in> set (map snd L)" for p
  proof -
    have "?cmp k (fst p) \<noteq> - 1" using p i(5) by (auto simp: splits_at_def XCompareRuleTwo_XMap_def)
    moreover have "?cmp (fst p) k \<noteq> 0" using p new i(3) by auto
    ultimately show ?thesis 
      using key_laws.cmp_cases [OF laws, of "fst p" k] key_laws.cmp_swap [OF laws, of "fst p" k] by auto
  qed
  moreover have "?cmp k (fst p) = - 1" if "p \<in> set (map snd R)" for p
    using that i(5) by (auto simp: splits_at_def XCompareRuleTwo_XMap_def)
  ultimately have sorted: "keys_sorted ?cmp (map snd L @ (k, v) # map snd R)"
    using well_keyedD(2) [OF root(3)] i(3) by (intro key_laws.keys_sorted_insert [OF laws]) simp_all
  obtain m' H' where w: "write_root root1 m (H\<lparr>map_nodes := h5\<rparr>) r = Some (m', H')" "map_nodes H' = h5"
    "XMap_root m' H' = Some root1" "m' = m\<lparr>m_data := m_data m'\<rparr>" "m_useCow m \<longrightarrow> m' = m"
    "\<forall>b. map_option refCount (map_blocks H' b) = map_option refCount (map_blocks H b)"
    "\<forall>b. m_useCow m \<longrightarrow> m_data m \<noteq> Some b \<longrightarrow> map_blocks H' b = map_blocks H b"
    "\<not> m_useCow m \<longrightarrow> map_blocks H' = map_blocks H"
    using write_root_shows [OF r root(1), of root1 h5] by blast
  have "XMap_root (m'\<lparr>m_capacity := m_capacity m' + 1, m_size := m_size m' + 1\<rparr>) H' = Some root1"
    using w(3) by simp
  moreover have "m_compare m' = ?cmp" "m_size m' = m_size m" "m_useCow m' = m_useCow m"
    using arg_cong [OF w(4), of m_compare] arg_cong [OF w(4), of m_size] arg_cong [OF w(4), of m_useCow] by simp_all
  ultimately have "map_shows (m'\<lparr>m_capacity := m_capacity m' + 1, m_size := m_size m' + 1\<rparr>) H' t'" "same_place m' m"
    using i(2,3,4) sorted w(2,5) root(3,4) by (auto simp: map_shows_def well_keyed_def same_place_def)
  moreover have "contents ?cmp (pairs t') = put_content ?cmp k (Some v) (contents ?cmp (pairs t))"
    using key_laws.contents_split(1) [OF laws sorted] i(3,4) by simp
  moreover have "addrs t' = insert a (addrs t)" using i(3,4) by (auto simp: addrs_entries)
  moreover have "only_changes m H H' (insert a (addrs t))"
    using w(2,6,7,8) i(6) by (auto simp: only_changes_def)
  moreover have "XRBTree_insertNode (XCompareRuleTwo_XMap ?cmp) (Some root) a ((map_nodes H)(a \<mapsto> XRBTree_init (k, v))) =
      Some (Some a, Some root1, h5)"
    using i(1) by (simp add: XRBTree_insert_def XRBTree_create_ex_def)
  ultimately show ?thesis using root(1) w(1,4) i(3,4) by blast
qed

text \<open>
  Removal from the tree of a map. It is refused when the node with the key has two children and there is no
  memory for the exchange of their data.
\<close>

lemma tree_remove_map:
  assumes m: "map_shows m H t"
  shows "\<exists>r m' H' t'. tree_remove al k m H = Some (r, m', H') \<and>
    (r \<longrightarrow> contents (m_compare m) (pairs t) k \<noteq> None) \<and>
    (room_ok al \<longrightarrow> r = (contents (m_compare m) (pairs t) k \<noteq> None)) \<and>
    map_shows m' H' t' \<and> pairs t' = (if r then filter (\<lambda>p. m_compare m (fst p) k \<noteq> 0) (pairs t) else pairs t) \<and>
    contents (m_compare m) (pairs t') = (if r then put_content (m_compare m) k None (contents (m_compare m) (pairs t))
      else contents (m_compare m) (pairs t)) \<and>
    addrs t' \<subseteq> addrs t \<and> (\<forall>x\<in>addrs t - addrs t'. map_nodes H' x = None) \<and>
    only_changes m H H' (addrs t) \<and> same_place m' m"
proof -
  let ?cmp = "m_compare m" and ?rule = "XCompareRuleOne_XMap (m_compare m)"
  obtain root where root: "XMap_root m H = Some root" "rb_holds (map_nodes H) root t" "well_keyed ?cmp t"
    "m_size m = length (entries t)"
    using m by (auto simp: map_shows_def)
  note laws = well_keyedD(1) [OF root(3)]
  show ?thesis
  proof (cases "XMap_root_ptr m")
    case None
    then have "t = Leaf" using root(1,2) by (simp add: XMap_root_def rb_holds_Leaf)
    then show ?thesis using None m
      by (intro exI [of _ False] exI [of _ m] exI [of _ H] exI [of _ t])
        (auto simp: tree_remove_def entries_def contents_def only_changes_def same_place_def)
  next
    case (Some r)
    then have read: "read_root m H r = Some root" using root(1) by (simp add: XMap_root_def)
    have order: "key_order ?rule k (entries t)"
      by (rule key_laws.keys_sorted_key_order [OF laws well_keyedD(2) [OF root(3)]])
    note remove = XRBTree_remove_red_black [OF root(2) order]
    have stays: ?thesis if eq: "XRBTree_remove ?rule (room_ok al) root k (map_nodes H) = Some (None, root, map_nodes H)"
      and none: "room_ok al \<Longrightarrow> contents ?cmp (pairs t) k = None"
    proof -
      have "write_root root m H r = Some (m, H)"
        using read Some by (auto simp: write_root_def read_root_def XMap_root_ptr_def fun_upd_idem split: root_ref.splits if_splits)
      then have "tree_remove al k m H = Some (False, m, H)" using eq Some read by (simp add: tree_remove_def)
      then show ?thesis using none m
        by (intro exI [of _ False] exI [of _ m] exI [of _ H] exI [of _ t]) (auto simp: only_changes_def same_place_def)
    qed
    show ?thesis
    proof (cases "\<forall>e\<in>set (entries t). ?rule (snd e) k \<noteq> XCompare_Equality")
      case True
      then have "XRBTree_remove ?rule True root k (map_nodes H) = Some (None, root, map_nodes H)" using remove by simp
      then have eq: "XRBTree_remove ?rule (room_ok al) root k (map_nodes H) = Some (None, root, map_nodes H)"
        using XRBTree_remove_room [OF root(2) order, of "room_ok al"] by auto
      have other: "\<forall>p\<in>set (pairs t). ?cmp (fst p) k \<noteq> 0"
        using True by (auto simp: XCompareRuleOne_XMap_def XCompare_defs)
      then have "contents ?cmp (pairs t) k = None" by (intro key_laws.contents_none [OF laws]) auto
      then show ?thesis by (intro stays eq)
    next
      case False
      obtain b d root1 h1 t' X Y where 1: "XRBTree_remove ?rule True root k (map_nodes H) = Some (Some b, root1, h1)"
        "pairs t = X @ d # Y" "?rule d k = XCompare_Equality" "pairs t' = X @ Y"
        "rb_holds h1 root1 t'" "addrs t = insert b (addrs t')" "b \<notin> addrs t'"
        "map_option node_data (h1 b) = Some d" "same_outside h1 (map_nodes H) (addrs t)"
        using remove unfolding if_not_P [OF False] by blast
      obtain k' v where d: "d = (k', v)" by (cases d)
      have kk: "?cmp k' k = 0" using 1(3) d by (simp add: XCompareRuleOne_XMap_def XCompare_defs)
      have sorted: "keys_sorted ?cmp (X @ (k', v) # Y)" using well_keyedD(2) [OF root(3)] 1(2) d by simp
      note split = key_laws.keys_sorted_split [OF laws sorted]
      have "?cmp (fst p) k \<noteq> 0" if "p \<in> set X \<union> set Y" for p
        using that split(1,2) [of p] key_laws.cmp_eq_right [OF laws kk, of "fst p"]
          key_laws.cmp_swap [OF laws, of k' "fst p"] by auto
      then have "filter (\<lambda>p. ?cmp (fst p) k \<noteq> 0) (pairs t) = X @ Y"
        using kk d unfolding 1(2) by (simp add: filter_id_conv)
      then have fs: "pairs t' = filter (\<lambda>p. ?cmp (fst p) k \<noteq> 0) (pairs t)" using 1(4) by simp
      have cs: "contents ?cmp (pairs t') = put_content ?cmp k None (contents ?cmp (pairs t))"
        unfolding 1(4) using key_laws.contents_split(2) [OF laws sorted] key_laws.cmp_eq_left [OF laws kk] 1(2) d
        by (simp add: put_content_def)
      have found: "contents ?cmp (pairs t) k \<noteq> None"
        using key_laws.contents_in [OF laws sorted kk] 1(2) d by simp
      obtain m1 H1 where w: "write_root root1 m (H\<lparr>map_nodes := h1\<rparr>) r = Some (m1, H1)" "map_nodes H1 = h1"
        "XMap_root m1 H1 = Some root1" "m1 = m\<lparr>m_data := m_data m1\<rparr>" "m_useCow m \<longrightarrow> m1 = m"
        "\<forall>b. map_option refCount (map_blocks H1 b) = map_option refCount (map_blocks H b)"
        "\<forall>b. m_useCow m \<longrightarrow> m_data m \<noteq> Some b \<longrightarrow> map_blocks H1 b = map_blocks H b"
        "\<not> m_useCow m \<longrightarrow> map_blocks H1 = map_blocks H"
        using write_root_shows [OF Some read, of root1 h1] by blast
      let ?m = "m1\<lparr>m_capacity := m_capacity m1 - 1, m_size := m_size m1 - 1\<rparr>"
      let ?H = "H1\<lparr>map_nodes := h1(b := None)\<rparr>"
      have "m_compare m1 = ?cmp" "m_size m1 = m_size m" "m_useCow m1 = m_useCow m"
        using arg_cong [OF w(4), of m_compare] arg_cong [OF w(4), of m_size] arg_cong [OF w(4), of m_useCow] by simp_all
      moreover have "length (entries t) = length (entries t') + 1"
        using arg_cong [OF 1(2), of length] arg_cong [OF 1(4), of length] by simp
      moreover have "rb_holds (h1(b := None)) root1 t'"
        by (rule rb_holds_same [OF 1(5)]) (use 1(7) in auto)
      ultimately have shown: "map_shows ?m ?H t'" "same_place ?m m"
        using root(4) w(3,5) split(3) 1(4) laws
        by (auto simp: map_shows_def well_keyed_def key_laws_def same_place_def)
      have ch: "only_changes m H ?H (addrs t)"
        using w(2,6,7,8) 1(6,9) by (auto simp: only_changes_def same_outside_def)
      have gone: "addrs t' \<subseteq> addrs t" "\<forall>x\<in>addrs t - addrs t'. map_nodes ?H x = None" using 1(6,7) by auto
      from XRBTree_remove_room [OF root(2) order, of "room_ok al"] show ?thesis
      proof (elim disjE conjE)
        assume "XRBTree_remove ?rule (room_ok al) root k (map_nodes H) = XRBTree_remove ?rule True root k (map_nodes H)"
        then have "tree_remove al k m H = Some (True, ?m, ?H)"
          using Some read 1(1,8) w(1,2) by (auto simp: tree_remove_def)
        then show ?thesis using fs cs found shown ch gone
          by (intro exI [of _ True] exI [of _ ?m] exI [of _ ?H] exI [of _ t']) simp
      next
        assume "\<not> room_ok al" "XRBTree_remove ?rule (room_ok al) root k (map_nodes H) = Some (None, root, map_nodes H)"
        then show ?thesis by (intro stays) simp_all
      qed
    qed
  qed
qed

end
