(* ===== verification/MapOps.thy ===== *)
theory MapOps
  imports MapTree
begin

text \<open>
  Insertion, removal and clearing of a map that shares its tree with no other map, the contract of a map
  as a locale, and the removal by a predicate.
\<close>

section \<open>Operations of an unshared map\<close>

lemma detach_unshared: "unshared m H \<Longrightarrow> VXMapDetachIfNeeded al m H = Some (True, m, H)"
  by (simp add: VXMapDetachIfNeeded_def unshared_def)

text \<open>Where an insertion works: at the place the map has, or at a new empty block.\<close>

definition placed ::
  "map_alloc \<Rightarrow> 'k XMap \<Rightarrow> ('k, 'v) map_memory \<Rightarrow> 'k XMap \<Rightarrow> ('k, 'v) map_memory \<Rightarrow> bool" where
  "placed al m H m3 H3 \<longleftrightarrow>
     H3 = H \<and> same_place m3 m \<or>
     m_useCow m \<and> m_data m = None \<and>
     (\<exists>b. new_block al = Some b \<and> m3 = m\<lparr>m_pairBuffer := True, m_data := Some b\<rparr> \<and>
       H3 = H\<lparr>map_blocks := (map_blocks H)(b \<mapsto> \<lparr>refCount = 1, shared_data = None\<rparr>)\<rparr>)"

definition fresh_for_insert :: "map_alloc \<Rightarrow> 'k XMap \<Rightarrow> ('k, 'v) map_memory \<Rightarrow> bool" where
  "fresh_for_insert al m H \<longleftrightarrow>
     (\<forall>a. new_node al = Some a \<longrightarrow> map_nodes H a = None) \<and>
     (m_useCow m \<and> m_data m = None \<longrightarrow> (\<exists>b. new_block al = Some b \<and> map_blocks H b = None))"

lemma same_place_refl [simp]: "same_place m m"
  by (simp add: same_place_def)

lemma same_place_counts [simp]:
  "same_place (m\<lparr>m_size := n\<rparr>) m' = same_place m m'" "same_place (m\<lparr>m_capacity := n\<rparr>) m' = same_place m m'"
  "same_place (m\<lparr>m_pairBuffer := p\<rparr>) m' = same_place m m'"
  by (simp_all add: same_place_def)

lemma map_shows_buffer [simp]: "map_shows (m\<lparr>m_pairBuffer := p\<rparr>) H t = map_shows m H t"
  by (simp add: map_shows_def)

lemma only_changes_refl [simp]: "only_changes m H H A"
  by (simp add: only_changes_def)

lemma insert_unshared:
  assumes m: "map_shows m H t" and un: "unshared m H" and fresh: "fresh_for_insert al m H"
  shows "\<exists>m' H' t' m3 H3.
    VXMap_insert al k v m H =
      Some (contents (m_compare m) (pairs t) k \<noteq> None \<or> (m_pairBuffer m \<or> buffer_ok al) \<and> new_node al \<noteq> None, m', H') \<and>
    map_shows m' H' t' \<and>
    contents (m_compare m) (pairs t') =
      (if contents (m_compare m) (pairs t) k \<noteq> None \<or> (m_pairBuffer m \<or> buffer_ok al) \<and> new_node al \<noteq> None
       then put_content (m_compare m) k (Some v) (contents (m_compare m) (pairs t)) else contents (m_compare m) (pairs t)) \<and>
    addrs t \<subseteq> addrs t' \<and> addrs t' \<subseteq> addrs t \<union> set_option (new_node al) \<and>
    placed al m H m3 H3 \<and> only_changes m3 H3 H' (addrs t') \<and> same_place m' m3"
proof -
  let ?cmp = "m_compare m"
  obtain p where p: "VXMap_find m H k = Some p"
    "case p of None \<Rightarrow> \<forall>q\<in>set (pairs t). ?cmp (fst q) k \<noteq> 0
     | Some a \<Rightarrow> \<exists>L k' v' R. entries t = L @ (a, (k', v')) # R \<and> ?cmp k' k = 0"
    using find_shows [OF m] by blast
  have wk: "well_keyed ?cmp t" using m by (simp add: map_shows_def)
  have H_eq: "H\<lparr>map_nodes := map_nodes H\<rparr> = H" by simp
  show ?thesis
  proof (cases p)
    case (Some a)
    then obtain L k' v' R where e: "entries t = L @ (a, (k', v')) # R" "?cmp k' k = 0" using p(2) by auto
    obtain h' t' where o: "modify (map_nodes H) (Some a) (node_data_update (\<lambda>_. (k, v))) = Some h'"
      "map_shows m (H\<lparr>map_nodes := h'\<rparr>) t'" "addrs t' = addrs t"
      "contents ?cmp (pairs t') = put_content ?cmp k (Some v) (contents ?cmp (pairs t))"
      "only_changes m H (H\<lparr>map_nodes := h'\<rparr>) (addrs t)"
      using overwrite_map [OF m e] by blast
    have "contents ?cmp (pairs t) k \<noteq> None" using contents_entry [OF wk e] by simp
    moreover have "VXMap_insert al k v m H = Some (True, m, H\<lparr>map_nodes := h'\<rparr>)"
      using p(1) Some o(1) detach_unshared [OF un] by (simp add: VXMap_insert_def)
    moreover have "placed al m H m H" by (simp add: placed_def)
    ultimately show ?thesis using o(2-5)
      by (intro exI [of _ m] exI [of _ "H\<lparr>map_nodes := h'\<rparr>"] exI [of _ t'] exI [of _ m] exI [of _ H]) simp
  next
    case None
    then have other: "\<forall>q\<in>set (pairs t). ?cmp (fst q) k \<noteq> 0" using p(2) by simp
    then have none: "contents ?cmp (pairs t) k = None"
      by (intro key_laws.contents_none [OF well_keyedD(1) [OF wk]]) auto
    show ?thesis
    proof (cases "m_pairBuffer m \<or> buffer_ok al")
      case False
      then have "VXMap_insert al k v m H = Some (False, m, H)"
        using p(1) None detach_unshared [OF un] by (simp add: VXMap_insert_def)
      then show ?thesis using m none False by (auto simp: placed_def intro!: exI [of _ m] exI [of _ H] exI [of _ t])
    next
      case True
      obtain m3 H3 where mH: "ensure_block al (m\<lparr>m_pairBuffer := True\<rparr>) H = (m3, H3)" by fastforce
      have pl: "placed al m H m3 H3" "map_nodes H3 = map_nodes H" "m_compare m3 = ?cmp"
        using mH fresh by (auto simp: ensure_block_def XSharedData_create_ex_def placed_def fresh_for_insert_def split: if_splits)
      have m3: "map_shows m3 H3 t"
        using m mH fresh
        by (auto simp: ensure_block_def XSharedData_create_ex_def map_shows_def fresh_for_insert_def XMap_root_def
          XMap_root_ptr_def read_root_def split: if_splits option.splits)
      have "XMap_root_ptr m3 \<noteq> None"
        using mH fresh by (auto simp: ensure_block_def XSharedData_create_ex_def XMap_root_ptr_def fresh_for_insert_def
          split: if_splits)
      then obtain r where r: "XMap_root_ptr m3 = Some r" by blast
      have step: "VXMap_insert al k v m H = link_new_node al k v m3 H3"
        using p(1) None True mH detach_unshared [OF un] by (simp add: VXMap_insert_def)
      show ?thesis
      proof (cases "new_node al")
        case None
        then have "VXMap_insert al k v m H = Some (False, m3, H3)" unfolding step by (simp add: link_new_node_def XRBTree_create_ex_def)
        then show ?thesis using None m3 none pl
          by (intro exI [of _ m3] exI [of _ H3] exI [of _ t]) simp
      next
        case (Some a)
        then have "map_nodes H3 a = None" using fresh pl(2) by (simp add: fresh_for_insert_def)
        from insert_new_map [OF m3 r this, of k v] other obtain root root1 h5 m' H' t' where
          i: "read_root m3 H3 r = Some root"
          "XRBTree_insertNode (XCompareRuleTwo_XMap ?cmp) (Some root) a ((map_nodes H3)(a \<mapsto> XRBTree_init (k, v))) =
            Some (Some a, Some root1, h5)"
          "write_root root1 m3 (H3\<lparr>map_nodes := h5\<rparr>) r = Some (m', H')"
          "map_shows (m'\<lparr>m_capacity := m_capacity m' + 1, m_size := m_size m' + 1\<rparr>) H' t'"
          "addrs t' = insert a (addrs t)"
          "contents ?cmp (pairs t') = put_content ?cmp k (Some v) (contents ?cmp (pairs t))"
          "only_changes m3 H3 H' (insert a (addrs t))" "same_place m' m3"
          unfolding pl(3) by blast
        then have "VXMap_insert al k v m H =
            Some (True, m'\<lparr>m_capacity := m_capacity m' + 1, m_size := m_size m' + 1\<rparr>, H')"
          unfolding step using Some pl(3) r by (simp add: link_new_node_def XRBTree_create_ex_def)
        then show ?thesis using i True Some none pl(1)
          by (intro exI [of _ "m'\<lparr>m_capacity := m_capacity m' + 1, m_size := m_size m' + 1\<rparr>"] exI [of _ H']
            exI [of _ t'] exI [of _ m3] exI [of _ H3]) (simp, blast)
      qed
    qed
  qed
qed

lemma remove_unshared:
  "unshared m H \<Longrightarrow> VXMap_remove al k m H = tree_remove al k m H"
  by (simp add: VXMap_remove_def detach_unshared)

lemma delete_nodes_tree:
  assumes "rb_holds (map_nodes H) root t"
  shows "delete_nodes root H = Some (H\<lparr>map_nodes := \<lambda>x. if x \<in> addrs t then None else map_nodes H x\<rparr>)"
  using XTree_delete_tree [OF assms] by (auto simp: delete_nodes_def)

lemma clear_unshared:
  assumes m: "map_shows m H t" and un: "unshared m H"
  shows "\<exists>m' H'. VXMap_clear m H = Some (m', H') \<and> map_shows m' H' Leaf \<and> (\<forall>x\<in>addrs t. map_nodes H' x = None) \<and>
    only_changes m H H' (addrs t) \<and> same_place m' m"
proof -
  obtain root where root: "XMap_root m H = Some root" "rb_holds (map_nodes H) root t" "well_keyed (m_compare m) t"
    "m_size m = length (entries t)"
    using m by (auto simp: map_shows_def)
  show ?thesis
  proof (cases "t = Leaf")
    case True
    then have "VXMap_clear m H = Some (m, H)" using root(4) by (simp add: VXMap_clear_def entries_def)
    then show ?thesis using m True by auto
  next
    case False
    then have "m_size m \<noteq> 0" "root \<noteq> None" using root(2,4) by (simp, cases root, simp_all add: rb_holds_Leaf)
    then obtain r where r: "XMap_root_ptr m = Some r" "read_root m H r = Some root"
      using root(1) by (auto simp: XMap_root_def split: option.splits)
    let ?h = "\<lambda>x. if x \<in> addrs t then None else map_nodes H x"
    obtain m' H' where w: "write_root None m (H\<lparr>map_nodes := ?h\<rparr>) r = Some (m', H')" "map_nodes H' = ?h"
      "XMap_root m' H' = Some None" "m' = m\<lparr>m_data := m_data m'\<rparr>" "m_useCow m \<longrightarrow> m' = m"
      "\<forall>b. map_option refCount (map_blocks H' b) = map_option refCount (map_blocks H b)"
      "\<forall>b. m_useCow m \<longrightarrow> m_data m \<noteq> Some b \<longrightarrow> map_blocks H' b = map_blocks H b"
      "\<not> m_useCow m \<longrightarrow> map_blocks H' = map_blocks H"
      using write_root_shows [OF r, of None ?h] by blast
    let ?m = "m'\<lparr>m_capacity := 0, m_size := 0\<rparr>"
    have eq: "m_compare m' = m_compare m" "m_useCow m' = m_useCow m"
      using arg_cong [OF w(4), of m_compare] arg_cong [OF w(4), of m_useCow] by simp_all
    have "(if m_useCow m then XSharedData_isShared (m_data m) H else Some False) = Some False"
      using un by (simp add: unshared_def)
    then have "VXMap_clear m H = Some (?m, H')"
      using \<open>m_size m \<noteq> 0\<close> root(1) delete_nodes_tree [OF root(2)] r(1) w(1) by (simp add: VXMap_clear_def)
    moreover have "map_shows ?m H' Leaf"
      using w(3) eq(1) well_keyedD(1) [OF root(3)]
      by (simp add: map_shows_def rb_holds_Leaf entries_def well_keyed_Leaf key_laws_def)
    moreover have "only_changes m H H' (addrs t)"
      using w(2,6,7,8) by (auto simp: only_changes_def same_outside_def)
    moreover have "same_place ?m m" using eq w(5) by (simp add: same_place_def)
    ultimately show ?thesis using w(2) by (intro exI [of _ ?m] exI [of _ H']) simp
  qed
qed

section \<open>The contract of a map\<close>

text \<open>
  \<open>shows_pairs s ps\<close>: the map \<open>s\<close> holds the pairs \<open>ps\<close>, in order. A removal may be refused for lack of memory, which
  does not happen as long as the map is \<open>granted\<close> what it asks for.
\<close>

locale ordered_map = key_laws cmp
  for cmp :: "'k \<Rightarrow> 'k \<Rightarrow> int" +
  fixes shows_pairs :: "'s \<Rightarrow> ('k \<times> 'v) list \<Rightarrow> bool"
    and granted :: "'s \<Rightarrow> bool"
    and keys_op :: "'s \<Rightarrow> 'k list option"
    and value_op :: "'s \<Rightarrow> 'k \<Rightarrow> 'v option option"
    and remove_op :: "'k \<Rightarrow> 's \<Rightarrow> (bool \<times> 's) option"
  assumes pairs_sorted: "shows_pairs s ps \<Longrightarrow> keys_sorted cmp ps"
    and keys_law: "shows_pairs s ps \<Longrightarrow> keys_op s = Some (map fst ps)"
    and value_law: "shows_pairs s ps \<Longrightarrow> value_op s k = Some (contents cmp ps k)"
    and remove_law: "shows_pairs s ps \<Longrightarrow>
      \<exists>r s'. remove_op k s = Some (r, s') \<and> (r \<longrightarrow> contents cmp ps k \<noteq> None) \<and>
        (granted s \<longrightarrow> r = (contents cmp ps k \<noteq> None) \<and> granted s') \<and>
        shows_pairs s' (if r then filter (\<lambda>p. cmp (fst p) k \<noteq> 0) ps else ps)"
begin

lemma filter_key:
  assumes "keys_sorted cmp (L @ (k, v) # R)"
  shows "filter (\<lambda>p. cmp (fst p) k \<noteq> 0) (L @ (k, v) # R) = L @ R" and "(k, v) \<notin> set R"
proof -
  have "cmp (fst p) k \<noteq> 0" if "p \<in> set L \<union> set R" for p
    using that keys_sorted_split(1,2) [OF assms, of p] cmp_swap [of k "fst p"] by auto
  note ne = this
  show "filter (\<lambda>p. cmp (fst p) k \<noteq> 0) (L @ (k, v) # R) = L @ R" using ne by (simp add: filter_id_conv)
  show "(k, v) \<notin> set R" using ne [of "(k, v)"] by auto
qed

lemma removeIf_loop_filter:
  "shows_pairs s (L @ R) \<Longrightarrow>
    \<exists>G s'. G \<subseteq> {p \<in> set R. pred (fst p) (snd p)} \<and> (granted s \<longrightarrow> G = {p \<in> set R. pred (fst p) (snd p)}) \<and>
      removeIf_loop value_op remove_op pred (map fst R) n s = Some (n + length (filter (\<lambda>p. p \<in> G) R), s') \<and>
      shows_pairs s' (L @ filter (\<lambda>p. p \<notin> G) R)"
proof (induction R arbitrary: L n s)
  case Nil
  then show ?case by (intro exI [of _ "{}"] exI [of _ s]) simp
next
  case (Cons p R)
  obtain k v where p: "p = (k, v)" by (cases p)
  have sorted: "keys_sorted cmp (L @ (k, v) # R)" using pairs_sorted Cons.prems p by simp
  have val: "value_op s k = Some (Some v)"
    using value_law [OF Cons.prems, of k] contents_in [OF sorted, of k] p by simp
  note rest = filter_key [OF sorted]
  have stays: ?case if "shows_pairs s1 (L @ p # R)" "granted s \<longrightarrow> granted s1 \<and> \<not> pred k v"
      "removeIf_loop value_op remove_op pred (map fst (p # R)) n s = removeIf_loop value_op remove_op pred (map fst R) n s1" for s1
  proof -
    from Cons.IH [of s1 "L @ [p]" n] that(1) obtain G s' where
      G: "G \<subseteq> {p \<in> set R. pred (fst p) (snd p)}" "granted s1 \<longrightarrow> G = {p \<in> set R. pred (fst p) (snd p)}"
      "removeIf_loop value_op remove_op pred (map fst R) n s1 = Some (n + length (filter (\<lambda>p. p \<in> G) R), s')"
      "shows_pairs s' (L @ [p] @ filter (\<lambda>p. p \<notin> G) R)"
      by auto
    moreover have "p \<notin> G" using G(1) rest(2) p by auto
    ultimately show ?thesis using that(2,3) p by (intro exI [of _ G] exI [of _ s']) auto
  qed
  show ?case
  proof (cases "pred k v")
    case True
    obtain r s1 where r: "remove_op k s = Some (r, s1)" "granted s \<longrightarrow> r \<and> granted s1"
      "shows_pairs s1 (if r then L @ R else L @ p # R)"
      using remove_law [OF Cons.prems, of k] contents_in [OF sorted, of k] unfolding p rest(1) by auto
    show ?thesis
    proof (cases r)
      case True
      from Cons.IH [of s1 L "n + 1"] r(3) True obtain G s' where
        G: "G \<subseteq> {p \<in> set R. pred (fst p) (snd p)}" "granted s1 \<longrightarrow> G = {p \<in> set R. pred (fst p) (snd p)}"
        "removeIf_loop value_op remove_op pred (map fst R) (n + 1) s1 = Some (n + 1 + length (filter (\<lambda>p. p \<in> G) R), s')"
        "shows_pairs s' (L @ filter (\<lambda>p. p \<notin> G) R)"
        by auto
      have "filter (\<lambda>q. q \<in> insert p G) R = filter (\<lambda>q. q \<in> G) R" "filter (\<lambda>q. q \<notin> insert p G) R = filter (\<lambda>q. q \<notin> G) R"
        using rest(2) p by (auto intro!: filter_cong)
      then show ?thesis using G r(1,2) True \<open>pred k v\<close> val p
        by (intro exI [of _ "insert p G"] exI [of _ s']) auto
    next
      case False
      then show ?thesis using r True val p by (intro stays [of s1]) auto
    qed
  next
    case False
    then show ?thesis using Cons.prems val p by (intro stays [of s]) auto
  qed
qed

lemma removeIf_filter:
  assumes "shows_pairs s ps"
  shows "\<exists>G s'. G \<subseteq> {p \<in> set ps. pred (fst p) (snd p)} \<and> (granted s \<longrightarrow> G = {p \<in> set ps. pred (fst p) (snd p)}) \<and>
    XMapBase_removeIf keys_op value_op remove_op pred s = Some (length (filter (\<lambda>p. p \<in> G) ps), s') \<and>
    shows_pairs s' (filter (\<lambda>p. p \<notin> G) ps)"
  using removeIf_loop_filter [of s "[]" ps pred 0] keys_law [OF assms] assms
  by (simp add: XMapBase_removeIf_def)

end

text \<open>
  The map of the library keeps the contract when it shares its tree with no other map. Each removal has
  allocations of its own: a map comes with those of the removals to come.
\<close>

type_synonym ('k, 'v) supplied_map = "'k XMap \<times> ('k, 'v) map_memory \<times> (nat \<Rightarrow> map_alloc)"

fun own_pairs :: "('k \<Rightarrow> 'k \<Rightarrow> int) \<Rightarrow> ('k, 'v) supplied_map \<Rightarrow> ('k \<times> 'v) list \<Rightarrow> bool" where
  "own_pairs cmp (m, H, al) ps \<longleftrightarrow> m_compare m = cmp \<and> unshared m H \<and> (\<exists>t. map_shows m H t \<and> pairs t = ps)"

fun all_room :: "('k, 'v) supplied_map \<Rightarrow> bool" where
  "all_room (m, H, al) = (\<forall>i. room_ok (al i))"

fun supplied_keys :: "('k, 'v) supplied_map \<Rightarrow> 'k list option" where
  "supplied_keys (m, H, al) = VXMapBase_keys m H"

fun supplied_value :: "('k, 'v) supplied_map \<Rightarrow> 'k \<Rightarrow> 'v option option" where
  "supplied_value (m, H, al) k = VXMap_value m H k"

fun supplied_remove :: "'k \<Rightarrow> ('k, 'v) supplied_map \<Rightarrow> (bool \<times> ('k, 'v) supplied_map) option" where
  "supplied_remove k (m, H, al) = map_option (\<lambda>(r, m', H'). (r, m', H', \<lambda>i. al (Suc i))) (VXMap_remove (al 0) k m H)"

lemma isShared_count:
  "XSharedData_isShared (Some b) H = map_option (\<lambda>r. 1 <s r) (map_option refCount (map_blocks H b))"
  by (simp add: XSharedData_isShared_def option.map_comp comp_def)

lemma unshared_changes:
  assumes "unshared m H" and "only_changes m H H' A" and "same_place m' m"
  shows "unshared m' H'"
proof (cases "m_useCow m")
  case True
  then have "m_data m' = m_data m" "m_useCow m'" using assms(3) by (auto simp: same_place_def)
  moreover have "map_option refCount (map_blocks H' b) = map_option refCount (map_blocks H b)" for b
    using assms(2) by (simp add: only_changes_def)
  ultimately show ?thesis using assms(1) True
    by (cases "m_data m") (simp_all add: unshared_def isShared_count, simp add: XSharedData_isShared_def)
next
  case False
  then show ?thesis using assms(3) by (simp add: unshared_def same_place_def)
qed

lemma own_pairs_contract:
  assumes "total_compare cmp"
  shows "ordered_map cmp (own_pairs cmp) all_room supplied_keys supplied_value supplied_remove"
proof unfold_locales
  show "total_compare cmp" by (rule assms)
next
  fix s :: "('a, 'b) supplied_map" and ps
  assume "own_pairs cmp s ps"
  then show "keys_sorted cmp ps" by (cases s) (auto simp: map_shows_def well_keyed_def)
next
  fix s :: "('a, 'b) supplied_map" and ps
  assume "own_pairs cmp s ps"
  then show "supplied_keys s = Some (map fst ps)" by (cases s) (auto dest: keys_shows)
next
  fix s :: "('a, 'b) supplied_map" and ps k
  assume "own_pairs cmp s ps"
  then show "supplied_value s k = Some (contents cmp ps k)" by (cases s) (auto dest: value_shows)
next
  fix s :: "('a, 'b) supplied_map" and ps k
  assume own: "own_pairs cmp s ps"
  obtain m H al where s: "s = (m, H, al)" by (cases s)
  then obtain t where t: "map_shows m H t" "pairs t = ps" "unshared m H" "m_compare m = cmp"
    using own by auto
  obtain r m' H' t' where r: "tree_remove (al 0) k m H = Some (r, m', H')" "r \<longrightarrow> contents cmp ps k \<noteq> None"
    "room_ok (al 0) \<longrightarrow> r = (contents cmp ps k \<noteq> None)" "map_shows m' H' t'"
    "pairs t' = (if r then filter (\<lambda>p. cmp (fst p) k \<noteq> 0) ps else ps)"
    "only_changes m H H' (addrs t)" "same_place m' m"
    using tree_remove_map [OF t(1), of "al 0" k] unfolding t(2,4) by blast
  have "unshared m' H'" "m_compare m' = cmp"
    using unshared_changes [OF t(3) r(6,7)] r(7) t(4) by (simp_all add: same_place_def)
  then have "own_pairs cmp (m', H', \<lambda>i. al (Suc i)) (if r then filter (\<lambda>p. cmp (fst p) k \<noteq> 0) ps else ps)"
    using r(4,5) by auto
  then show "\<exists>r s'. supplied_remove k s = Some (r, s') \<and> (r \<longrightarrow> contents cmp ps k \<noteq> None) \<and>
      (all_room s \<longrightarrow> r = (contents cmp ps k \<noteq> None) \<and> all_room s') \<and>
      own_pairs cmp s' (if r then filter (\<lambda>p. cmp (fst p) k \<noteq> 0) ps else ps)"
    using r(1,2,3) remove_unshared [OF t(3)] s by (intro exI [of _ r] exI [of _ "(m', H', \<lambda>i. al (Suc i))"]) simp
qed

interpretation int_map: ordered_map int_compare "own_pairs int_compare" all_room supplied_keys supplied_value supplied_remove
  by (rule own_pairs_contract [OF int_compare_total])

end
