(* ===== verification/MapCopy.thy ===== *)
theory MapCopy
  imports MapOps
begin

text \<open>
  The copy of a tree, node by node in preorder, as a map that detaches itself and the copying of a map make it:
  the new tree holds the same pairs in the same order in new nodes.
\<close>

section \<open>The copy of a tree\<close>

definition fresh_nodes :: "(nat \<Rightarrow> ptr) \<Rightarrow> nat \<Rightarrow> 'n store \<Rightarrow> bool" where
  "fresh_nodes new i h \<longleftrightarrow>
     (\<forall>j a. i \<le> j \<longrightarrow> new j = Some a \<longrightarrow> h a = None) \<and>
     (\<forall>j k a. new j = Some a \<longrightarrow> new k = Some a \<longrightarrow> j = k)"

text \<open>The nodes to copy hold the data \<open>ds\<close>; the new tree holds the pairs copied so far.\<close>

lemma copy_nodes_tree:
  assumes "total_compare cmp" and "list_all2 (\<lambda>p d. \<exists>n. deref h p = Some n \<and> node_data n = d) olds ds"
    and "rb_holds h root t" and "keys_sorted cmp (pairs t)" and "fresh_nodes new i h"
    and "\<forall>p\<in>set olds. \<forall>a\<in>addrs t. p \<noteq> Some a"
    and "\<forall>d\<in>set ds. \<forall>q\<in>set (pairs t). cmp (fst q) (fst d) \<noteq> 0"
    and "distinct ds" and "\<forall>d\<in>set ds. \<forall>e\<in>set ds. d \<noteq> e \<longrightarrow> cmp (fst d) (fst e) \<noteq> 0"
  shows "\<exists>ok root' h' t'. copy_nodes cmp new i olds root h = Some (ok, root', h') \<and> rb_holds h' root' t' \<and>
    keys_sorted cmp (pairs t') \<and> addrs t \<subseteq> addrs t' \<and> (\<forall>a\<in>addrs t'. a \<in> addrs t \<or> h a = None \<and> (\<exists>j. new j = Some a)) \<and>
    same_outside h' h (addrs t') \<and> (ok \<longrightarrow> mset (pairs t') = mset (pairs t) + mset ds) \<and>
    (ok \<longleftrightarrow> (\<forall>j<length olds. new (i + j) \<noteq> None))"
  using assms(2-9)
proof (induction olds arbitrary: i ds root h t)
  case Nil
  then show ?case by auto
next
  case (Cons p olds)
  note laws = key_laws.intro [OF assms(1)]
  obtain d ds' n where d: "ds = d # ds'" "deref h p = Some n" "node_data n = d"
    "list_all2 (\<lambda>p d. \<exists>n. deref h p = Some n \<and> node_data n = d) olds ds'"
    using Cons.prems(1) by (auto simp: list_all2_Cons1)
  show ?case
  proof (cases "new i")
    case None
    then have "copy_nodes cmp new i (p # olds) root h = Some (False, root, h)"
      using d(2) by (simp add: XRBTree_create_ex_def)
    moreover have "\<not> (\<forall>j<length (p # olds). new (i + j) \<noteq> None)" using None by (intro notI) (auto dest: spec [of _ 0])
    ultimately show ?thesis using Cons.prems(2,3) by (intro exI [of _ False] exI [of _ root] exI [of _ h] exI [of _ t]) simp
  next
    case (Some a)
    then have a: "h a = None" using Cons.prems(4) by (auto simp: fresh_nodes_def)
    obtain root1 h1 t1 L R where i: "XRBTree_insert (XCompareRuleTwo_XMap cmp) (Some root) (Some a) d h =
        Some (Some a, Some root1, h1)"
      "rb_holds h1 root1 t1" "entries t = L @ R" "entries t1 = L @ (a, d) # R"
      "splits_at (XCompareRuleTwo_XMap cmp) d L R" "same_outside h1 h (insert a (addrs t))"
      using XRBTree_insert_red_black [OF key_laws.rule_two_total [OF laws] Cons.prems(2)
        key_laws.keys_sorted_sequence [OF laws Cons.prems(3)] a, of d] by blast
    have addrs1: "addrs t1 = insert a (addrs t)" using i(3,4) by (auto simp: addrs_entries)
    have sorted: "keys_sorted cmp (pairs t1)"
    proof -
      have "cmp (fst q) (fst d) = - 1" if q: "q \<in> set (map snd L)" for q
      proof -
        have "cmp (fst d) (fst q) \<noteq> - 1" using q i(5) by (auto simp: splits_at_def XCompareRuleTwo_XMap_def)
        moreover have "cmp (fst q) (fst d) \<noteq> 0" using q Cons.prems(6) i(3) d(1) by auto
        ultimately show ?thesis
          using key_laws.cmp_cases [OF laws, of "fst q" "fst d"] key_laws.cmp_swap [OF laws, of "fst q" "fst d"] by auto
      qed
      moreover have "cmp (fst d) (fst q) = - 1" if "q \<in> set (map snd R)" for q
        using that i(5) by (auto simp: splits_at_def XCompareRuleTwo_XMap_def)
      ultimately have "keys_sorted cmp (map snd L @ (fst d, snd d) # map snd R)"
        using Cons.prems(3) i(3) by (intro key_laws.keys_sorted_insert [OF laws]) simp_all
      then show ?thesis using i(4) by simp
    qed
    have h1: "h1 x = h x" if "x \<noteq> a" "x \<notin> addrs t" for x using i(6) that by (auto simp: same_outside_def)
    have a_old: "Some a \<notin> set olds"
    proof
      assume "Some a \<in> set olds"
      then obtain j where j: "j < length olds" "olds ! j = Some a" by (auto simp: in_set_conv_nth)
      then have "\<exists>n. deref h (olds ! j) = Some n" using list_all2_nthD [OF d(4) j(1)] by blast
      then show False using a j(2) by simp
    qed
    have olds1: "list_all2 (\<lambda>p d. \<exists>n. deref h1 p = Some n \<and> node_data n = d) olds ds'"
    proof (rule list.rel_mono_strong [OF d(4)], elim exE conjE)
      fix p e m assume p: "p \<in> set olds" "deref h p = Some m" "node_data m = e"
      obtain x where x: "p = Some x" using p(2) by (cases "p :: ptr") simp_all
      then have "x \<noteq> a" "x \<notin> addrs t" using p(1) a_old Cons.prems(5) by auto
      then show "\<exists>n. deref h1 p = Some n \<and> node_data n = e" using h1 p(2,3) x by auto
    qed
    have fresh1: "fresh_nodes new (i + 1) h1"
    proof -
      have "h1 a' = None" if "i + 1 \<le> j" "new j = Some a'" for j a'
      proof -
        have "i \<le> j" "j \<noteq> i" using that(1) by simp_all
        then have "h a' = None" using that(2) Cons.prems(4) unfolding fresh_nodes_def by blast
        moreover have "a' \<noteq> a" using \<open>j \<noteq> i\<close> that(2) Some Cons.prems(4) unfolding fresh_nodes_def by blast
        moreover have "a' \<notin> addrs t" using rb_holds_dom [OF Cons.prems(2), of a'] calculation(1) by auto
        ultimately show ?thesis using h1 by simp
      qed
      then show ?thesis using Cons.prems(4) by (simp add: fresh_nodes_def)
    qed
    have olds_t1: "\<forall>p\<in>set olds. \<forall>x\<in>addrs t1. p \<noteq> Some x"
      using Cons.prems(5) a_old addrs1 by auto
    have keys1: "\<forall>e\<in>set ds'. \<forall>q\<in>set (pairs t1). cmp (fst q) (fst e) \<noteq> 0"
      using Cons.prems(6,7,8) d(1) i(3,4) by auto
    have "distinct ds'" "\<forall>d\<in>set ds'. \<forall>e\<in>set ds'. d \<noteq> e \<longrightarrow> cmp (fst d) (fst e) \<noteq> 0"
      using Cons.prems(7,8) d(1) by auto
    from Cons.IH [OF olds1 i(2) sorted fresh1 olds_t1 keys1 this] obtain ok root' h' t' where
      r: "copy_nodes cmp new (i + 1) olds root1 h1 = Some (ok, root', h')" "rb_holds h' root' t'"
      "keys_sorted cmp (pairs t')" "addrs t1 \<subseteq> addrs t'" "\<forall>a\<in>addrs t'. a \<in> addrs t1 \<or> h1 a = None \<and> (\<exists>j. new j = Some a)"
      "same_outside h' h1 (addrs t')" "ok \<longrightarrow> mset (pairs t') = mset (pairs t1) + mset ds'"
      "ok \<longleftrightarrow> (\<forall>j<length olds. new (i + 1 + j) \<noteq> None)"
      by blast
    have "copy_nodes cmp new i (p # olds) root h = Some (ok, root', h')"
      using Some d(2,3) i(1) r(1) by (simp add: XRBTree_create_ex_def XRBTree_insert_def)
    moreover have "\<forall>x\<in>addrs t'. x \<in> addrs t \<or> h x = None \<and> (\<exists>j. new j = Some x)"
    proof
      fix x assume "x \<in> addrs t'"
      then show "x \<in> addrs t \<or> h x = None \<and> (\<exists>j. new j = Some x)"
        using r(5) addrs1 h1 [of x] a Some by (cases "x = a \<or> x \<in> addrs t") auto
    qed
    moreover have "same_outside h' h (addrs t')"
      using r(4,6) i(6) addrs1 by (auto simp: same_outside_def)
    moreover have "ok \<longrightarrow> mset (pairs t') = mset (pairs t) + mset ds" using r(7) i(3,4) d(1) by simp
    moreover have "ok \<longleftrightarrow> (\<forall>j<length (p # olds). new (i + j) \<noteq> None)"
      using r(8) Some by (auto simp: less_Suc_eq_0_disj)
    ultimately show ?thesis using r(2,3,4) addrs1 by blast
  qed
qed

text \<open>Copying a whole tree in preorder gives a tree with the same pairs in the same order.\<close>

lemma preorder_data:
  assumes "rb_holds h root t"
  shows "list_all2 (\<lambda>p d. \<exists>n. deref h p = Some n \<and> node_data n = d)
    (map (\<lambda>x. Some (fst x)) (preorder t)) (map (\<lambda>x. snd (snd x)) (preorder t))"
proof -
  have "\<exists>n. h (fst x) = Some n \<and> node_data n = snd (snd x)" if "x \<in> set (preorder t)" for x
  proof -
    have "(fst x, snd (snd x)) \<in> set (entries t)" 
      using that by (auto simp: entries_def split_def intro!: image_eqI [where x = x])
    then show ?thesis by (rule node_of_entry [OF assms])
  qed
  then show ?thesis by (simp add: list_all2_map1 list_all2_map2 list_all2_same)
qed

lemma mset_preorder_pairs: "mset (map (\<lambda>x. snd (snd x)) (preorder t)) = mset (pairs t)"
proof -
  have "mset (preorder t) = mset (inorder t)" by (induction t) auto
  then have "image_mset (\<lambda>x. snd (snd x)) (mset (preorder t)) = image_mset (\<lambda>x. snd (snd x)) (mset (inorder t))" by simp
  moreover have "pairs t = map (\<lambda>x. snd (snd x)) (inorder t)" by (simp add: entries_def split_def)
  ultimately show ?thesis by simp
qed

lemma keys_sorted_apart:
  assumes "key_laws cmp" and "keys_sorted cmp ps"
  shows "distinct ps" and "\<forall>d\<in>set ps. \<forall>e\<in>set ps. d \<noteq> e \<longrightarrow> cmp (fst d) (fst e) \<noteq> 0"
proof -
  show "distinct ps"
    using assms(2) by (induction ps) (use key_laws.cmp_refl [OF assms(1)] in \<open>auto simp: keys_sorted_def\<close>)
  show "\<forall>d\<in>set ps. \<forall>e\<in>set ps. d \<noteq> e \<longrightarrow> cmp (fst d) (fst e) \<noteq> 0"
    using assms(2)
  proof (induction ps)
    case (Cons p ps)
    have "cmp (fst e) (fst p) = 1" "cmp (fst p) (fst e) = - 1" if "e \<in> set ps" for e
      using that Cons.prems key_laws.cmp_swap [OF assms(1), of "fst p" "fst e"] by (auto simp: keys_sorted_def)
    then show ?case using Cons by (auto simp: keys_sorted_def)
  qed simp
qed

lemma copy_tree:
  assumes h: "rb_holds h root t" and wk: "well_keyed cmp t" and fresh: "fresh_nodes new 0 h"
  shows "\<exists>ok root' h' t'. copy_nodes cmp new 0 (map (\<lambda>x. Some (fst x)) (preorder t)) None h = Some (ok, root', h') \<and>
    rb_holds h' root' t' \<and> well_keyed cmp t' \<and> (\<forall>a\<in>addrs t'. h a = None \<and> (\<exists>j. new j = Some a)) \<and> same_outside h' h (addrs t') \<and>
    (ok \<longrightarrow> pairs t' = pairs t) \<and> (ok \<longleftrightarrow> (\<forall>j < size t. new j \<noteq> None))"
proof -
  note laws = well_keyedD(1) [OF wk]
  let ?ds = "map (\<lambda>x. snd (snd x)) (preorder t)"
  have "distinct ?ds" "set ?ds = set (pairs t)"
    using keys_sorted_apart(1) [OF laws well_keyedD(2) [OF wk]] mset_preorder_pairs [of t]
    by (metis mset_eq_imp_distinct_iff, metis mset_eq_setD)
  then have ds: "distinct ?ds" "\<forall>d\<in>set ?ds. \<forall>e\<in>set ?ds. d \<noteq> e \<longrightarrow> cmp (fst d) (fst e) \<noteq> 0"
    using keys_sorted_apart(2) [OF laws well_keyedD(2) [OF wk]] by simp_all
  have tc: "total_compare cmp" using laws by (simp add: key_laws_def)
  have leaf: "rb_holds h None Leaf" by (simp add: rb_holds_Leaf)
  obtain ok root' h' t' where 1:
    "copy_nodes cmp new 0 (map (\<lambda>x. Some (fst x)) (preorder t)) None h = Some (ok, root', h')"
    "rb_holds h' root' t'" "keys_sorted cmp (pairs t')" "\<forall>a\<in>addrs t'. a \<in> addrs Leaf \<or> h a = None \<and> (\<exists>j. new j = Some a)"
    "same_outside h' h (addrs t')" "ok \<longrightarrow> mset (pairs t') = mset (pairs Leaf) + mset ?ds"
    "ok \<longleftrightarrow> (\<forall>j<length (preorder t). new j \<noteq> None)"
    using copy_nodes_tree [OF tc preorder_data [OF h] leaf _ fresh _ _ ds]
    by (force simp: entries_def keys_sorted_def)
  have "pairs t' = pairs t" if ok
    by (rule key_laws.keys_sorted_unique [OF laws 1(3) well_keyedD(2) [OF wk]])
      (use 1(6) that mset_preorder_pairs [of t] in \<open>simp add: entries_def\<close>)
  then show ?thesis using 1 tc by (intro exI [of _ ok] exI [of _ root'] exI [of _ h'] exI [of _ t'])
    (auto simp: well_keyed_def)
qed

end
