(* ===== verification/MapShare.thy ===== *)
theory MapShare
  imports MapCopy
begin

text \<open>
  Maps that copy on write and share trees: what all maps together promise. Every block counts the maps that
  point to it and holds a tree of its own, every node belongs to the tree of one block. \<open>T\<close> gives the
  tree of a block.
\<close>

section \<open>Counts\<close>

definition users :: "'k XMap list \<Rightarrow> addr \<Rightarrow> nat" where
  "users ms b = length (filter (\<lambda>m. m_data m = Some b) ms)"

lemma users_update:
  "i < length ms \<Longrightarrow> users (ms[i := m]) b + (if m_data (ms ! i) = Some b then 1 else 0) =
    users ms b + (if m_data m = Some b then 1 else 0)"
proof (induction ms arbitrary: i)
  case (Cons m0 ms)
  then show ?case by (cases i) (auto simp: users_def)
qed simp

lemma users_append [simp]: "users (ms @ [m]) b = users ms b + (if m_data m = Some b then 1 else 0)"
  by (simp add: users_def)

lemma users_pos: "i < length ms \<Longrightarrow> m_data (ms ! i) = Some b \<Longrightarrow> 0 < users ms b"
  by (auto simp: users_def length_greater_0_conv filter_empty_conv simp del: length_0_conv)

lemma users_le: "users ms b \<le> length ms"
  by (simp add: users_def)

lemma users_one:
  assumes "users ms b = 1" and "i < length ms" and "m_data (ms ! i) = Some b" and "j < length ms" and "j \<noteq> i"
  shows "m_data (ms ! j) \<noteq> Some b"
proof
  assume j: "m_data (ms ! j) = Some b"
  have "users (ms[i := (ms ! i)\<lparr>m_data := None\<rparr>]) b = 0" using users_update [of i ms "(ms ! i)\<lparr>m_data := None\<rparr>" b] assms by simp
  moreover have "0 < users (ms[i := (ms ! i)\<lparr>m_data := None\<rparr>]) b"
    using assms(4,5) j by (intro users_pos [of j]) simp_all
  ultimately show False by simp
qed

lemma sint_count: "n < 2 ^ 31 \<Longrightarrow> sint (word_of_nat n :: 32 word) = int n"
  by (simp add: signed_of_nat signed_take_bit_int_eq_self)

lemma count_shared: "n < 2 ^ 31 \<Longrightarrow> 1 <s (word_of_nat n :: 32 word) \<longleftrightarrow> 1 < n"
  using sint_count [of n] by (simp add: word_sless_alt)

lemma count_last: "n < 2 ^ 31 \<Longrightarrow> (word_of_nat n :: 32 word) \<le>s 1 \<longleftrightarrow> n \<le> 1"
  using sint_count [of n] by (simp add: word_sle_eq)

section \<open>The invariant\<close>

definition tree_of :: "(addr \<Rightarrow> ('k \<times> 'v) rb_tree) \<Rightarrow> 'k XMap \<Rightarrow> ('k \<times> 'v) rb_tree" where
  "tree_of T m = (case m_data m of None \<Rightarrow> Leaf | Some b \<Rightarrow> T b)"

definition map_ok :: "('k, 'v) map_memory \<Rightarrow> (addr \<Rightarrow> ('k \<times> 'v) rb_tree) \<Rightarrow> 'k XMap \<Rightarrow> bool" where
  "map_ok H T m \<longleftrightarrow>
     m_useCow m \<and> well_keyed (m_compare m) (tree_of T m) \<and> m_size m = length (entries (tree_of T m)) \<and>
     (\<forall>b. m_data m = Some b \<longrightarrow> map_blocks H b \<noteq> None)"

text \<open>A block that several maps share is not empty: see the last condition.\<close>

definition block_ok :: "('k, 'v) map_memory \<Rightarrow> ('k \<times> 'v) rb_tree \<Rightarrow> XSharedData \<Rightarrow> nat \<Rightarrow> bool" where
  "block_ok H t s n \<longleftrightarrow>
     rb_holds (map_nodes H) (shared_data s) t \<and> 0 < n \<and> refCount s = word_of_nat n \<and> (1 < n \<longrightarrow> t \<noteq> Leaf)"

definition maps_ok :: "('k, 'v) map_memory \<Rightarrow> (addr \<Rightarrow> ('k \<times> 'v) rb_tree) \<Rightarrow> 'k XMap list \<Rightarrow> bool" where
  "maps_ok H T ms \<longleftrightarrow>
     (\<forall>m\<in>set ms. map_ok H T m) \<and>
     (\<forall>b s. map_blocks H b = Some s \<longrightarrow> block_ok H (T b) s (users ms b)) \<and>
     (\<forall>b b'. map_blocks H b \<noteq> None \<longrightarrow> map_blocks H b' \<noteq> None \<longrightarrow> b \<noteq> b' \<longrightarrow> addrs (T b) \<inter> addrs (T b') = {}) \<and>
     (\<forall>a. map_nodes H a \<noteq> None \<longrightarrow> (\<exists>b. map_blocks H b \<noteq> None \<and> a \<in> addrs (T b))) \<and>
     length ms < 2 ^ 31"

text \<open>The contents of a map, as a function.\<close>

definition map_view :: "(addr \<Rightarrow> ('k \<times> 'v) rb_tree) \<Rightarrow> 'k XMap \<Rightarrow> 'k \<Rightarrow> 'v option" where
  "map_view T m = contents (m_compare m) (pairs (tree_of T m))"

lemma maps_okD:
  assumes "maps_ok H T ms"
  shows "m \<in> set ms \<Longrightarrow> map_ok H T m"
    and "map_blocks H b = Some s \<Longrightarrow> block_ok H (T b) s (users ms b)"
    and "map_blocks H b \<noteq> None \<Longrightarrow> map_blocks H b' \<noteq> None \<Longrightarrow> b \<noteq> b' \<Longrightarrow> addrs (T b) \<inter> addrs (T b') = {}"
    and "map_nodes H a \<noteq> None \<Longrightarrow> \<exists>b. map_blocks H b \<noteq> None \<and> a \<in> addrs (T b)"
    and "length ms < 2 ^ 31"
  using assms unfolding maps_ok_def by blast+

lemma maps_ok_block:
  assumes "maps_ok H T ms" and "m \<in> set ms" and "m_data m = Some b"
  shows "\<exists>s. map_blocks H b = Some s \<and> block_ok H (T b) s (users ms b)"
  using maps_okD(1,2) [OF assms(1)] assms(2,3) by (force simp: map_ok_def)

lemma map_ok_shows:
  assumes "maps_ok H T ms" and "m \<in> set ms"
  shows "map_shows m H (tree_of T m)"
proof (cases "m_data m")
  case None
  then show ?thesis
    using maps_okD(1) [OF assms]
    by (simp add: map_shows_def map_ok_def tree_of_def XMap_root_def XMap_root_ptr_def rb_holds_Leaf)
next
  case (Some b)
  then show ?thesis
    using maps_okD(1) [OF assms] maps_ok_block [OF assms Some]
    by (auto simp: map_shows_def map_ok_def tree_of_def XMap_root_def XMap_root_ptr_def read_root_def block_ok_def)
qed

lemma map_ok_shared:
  assumes "maps_ok H T ms" and "m \<in> set ms" and "m_data m = Some b"
  shows "XSharedData_isShared (m_data m) H = Some (1 < users ms b)"
proof -
  obtain s where "map_blocks H b = Some s" "refCount s = word_of_nat (users ms b)"
    using maps_ok_block [OF assms] by (auto simp: block_ok_def)
  moreover have "users ms b < 2 ^ 31" using users_le [of ms b] maps_okD(5) [OF assms(1)] by simp
  ultimately show ?thesis using count_shared assms(3) by (simp add: XSharedData_isShared_def)
qed

lemma map_ok_unshared:
  assumes "maps_ok H T ms" and "m \<in> set ms" and "\<And>b. m_data m = Some b \<Longrightarrow> users ms b = 1"
  shows "unshared m H"
proof (cases "m_data m")
  case None
  then show ?thesis by (simp add: unshared_def XSharedData_isShared_def)
next
  case (Some b)
  then show ?thesis using map_ok_shared [OF assms(1,2) Some] assms(3) [OF Some] by (simp add: unshared_def)
qed

section \<open>Changes of one map\<close>

text \<open>A map that is the only user of its block changes its tree.\<close>

lemma maps_ok_change:
  assumes ok: "maps_ok H T ms" and i: "i < length ms" "m_data (ms ! i) = Some b" "users ms b = 1"
    and m': "map_shows m' H' t'" "same_place m' (ms ! i)"
    and ch: "only_changes (ms ! i) H H' A" "addrs t' \<subseteq> A" "A \<subseteq> addrs (T b) \<union> {a. map_nodes H a = None}"
      "\<forall>x\<in>A. x \<notin> addrs t' \<longrightarrow> map_nodes H' x = None" "addrs (T b) \<subseteq> A"
  shows "maps_ok H' (T(b := t')) (ms[i := m'])"
    and "\<And>j. j < length ms \<Longrightarrow> j \<noteq> i \<Longrightarrow> map_view (T(b := t')) (ms ! j) = map_view T (ms ! j)"
    and "map_view (T(b := t')) m' = contents (m_compare m') (pairs t')"
proof -
  let ?m = "ms ! i"
  have mi: "?m \<in> set ms" using i(1) by simp
  have cow: "m_useCow ?m" using maps_okD(1) [OF ok mi] by (simp add: map_ok_def)
  then have d': "m_data m' = Some b" "m_useCow m'" using m'(2) i(2) by (simp_all add: same_place_def)
  have others: "m_data (ms ! j) \<noteq> Some b" if "j < length ms" "j \<noteq> i" for j
    using users_one [OF i(3,1,2) that] .
  have nodes: "map_nodes H' x = map_nodes H x" if "x \<notin> A" for x
    using ch(1) that by (simp add: only_changes_def same_outside_def)
  have refs: "map_option refCount (map_blocks H' c) = map_option refCount (map_blocks H c)" for c
    using ch(1) by (simp add: only_changes_def)
  have dom: "map_blocks H' c \<noteq> None \<longleftrightarrow> map_blocks H c \<noteq> None" for c
    using refs [of c] by (cases "map_blocks H c"; cases "map_blocks H' c") simp_all
  have blocks: "map_blocks H' c = map_blocks H c" if "c \<noteq> b" for c
    using ch(1) that i(2) by (simp add: only_changes_def)
  have us: "users (ms[i := m']) c = users ms c" for c
    using users_update [of i ms m' c] i(1,2) d'(1) by (simp split: if_splits)
  have apart: "A \<inter> addrs (T c) = {}" if c: "c \<noteq> b" "map_blocks H c \<noteq> None" for c
  proof -
    obtain s where "map_blocks H b = Some s" using maps_ok_block [OF ok mi i(2)] by blast
    then have "addrs (T b) \<inter> addrs (T c) = {}" using maps_okD(3) [OF ok, of b c] c by auto
    moreover obtain s' where "map_blocks H c = Some s'" using c by auto
    then have "map_nodes H x \<noteq> None" if "x \<in> addrs (T c)" for x
      using maps_okD(2) [OF ok, of c s'] rb_holds_dom that by (fastforce simp: block_ok_def)
    ultimately show ?thesis using ch(3) by blast
  qed
  have "map_ok H' (T(b := t')) m" if m: "m \<in> set (ms[i := m'])" for m
  proof -
    obtain j where j: "j < length ms" "m = ms[i := m'] ! j" using m by (auto simp: in_set_conv_nth)
    show ?thesis
    proof (cases "j = i")
      case True
      then show ?thesis using j m'(1) d' dom [of b] maps_okD(1) [OF ok mi] i(1,2)
        by (auto simp: map_ok_def map_shows_def tree_of_def)
    next
      case False
      then have "m = ms ! j" "m_data m \<noteq> Some b" using j others by simp_all
      moreover from this have "tree_of (T(b := t')) m = tree_of T m"
        by (auto simp: tree_of_def split: option.splits)
      moreover have "map_ok H T m" using maps_okD(1) [OF ok] calculation(1) j(1) by simp
      moreover have "map_blocks H' c \<noteq> None" if "m_data m = Some c" for c
        using \<open>map_ok H T m\<close> \<open>m_data m \<noteq> Some b\<close> that blocks [of c] by (cases "c = b") (simp_all add: map_ok_def)
      ultimately show ?thesis by (simp only: map_ok_def simp_thms) blast
    qed
  qed
  moreover have "block_ok H' ((T(b := t')) c) s (users (ms[i := m']) c)" if s: "map_blocks H' c = Some s" for c s
  proof (cases "c = b")
    case True
    obtain root where "XMap_root m' H' = Some root" "rb_holds (map_nodes H') root t'" using m'(1) by (auto simp: map_shows_def)
    then have "rb_holds (map_nodes H') (shared_data s) t'"
      using d' s True by (simp add: XMap_root_def XMap_root_ptr_def read_root_def)
    moreover obtain s0 where "map_blocks H b = Some s0" "refCount s0 = word_of_nat (users ms b)"
      using maps_ok_block [OF ok mi i(2)] by (auto simp: block_ok_def)
    then have "refCount s = word_of_nat (users ms b)" using refs [of b] s True by simp
    ultimately show ?thesis using us i(3) True by (simp add: block_ok_def)
  next
    case False
    then have h: "map_blocks H c = Some s" using blocks s by simp
    have "rb_holds (map_nodes H') (shared_data s) (T c)"
    proof (rule rb_holds_same)
      show "rb_holds (map_nodes H) (shared_data s) (T c)" using maps_okD(2) [OF ok h] by (simp add: block_ok_def)
      fix x assume "x \<in> addrs (T c)"
      then show "map_nodes H' x = map_nodes H x" using apart [OF False] h by (intro nodes) auto
    qed
    then show ?thesis using maps_okD(2) [OF ok h] us False by (simp add: block_ok_def)
  qed
  moreover have "addrs ((T(b := t')) c) \<inter> addrs ((T(b := t')) c') = {}"
    if "map_blocks H' c \<noteq> None" "map_blocks H' c' \<noteq> None" "c \<noteq> c'" for c c'
  proof -
    have "addrs t' \<inter> addrs (T c) = {}" if "c \<noteq> b" using apart [OF that] dom [of c] \<open>map_blocks H' c \<noteq> None\<close> ch(2) by blast
    moreover have "addrs t' \<inter> addrs (T c') = {}" if "c' \<noteq> b"
      using apart [OF that] dom [of c'] \<open>map_blocks H' c' \<noteq> None\<close> ch(2) by blast
    moreover have "addrs (T c) \<inter> addrs (T c') = {}" using maps_okD(3) [OF ok, of c c'] that dom by blast
    ultimately show ?thesis using \<open>c \<noteq> c'\<close> by (cases "c = b"; cases "c' = b") (simp_all add: Int_commute)
  qed
  moreover have "\<exists>c. map_blocks H' c \<noteq> None \<and> x \<in> addrs ((T(b := t')) c)" if x: "map_nodes H' x \<noteq> None" for x
  proof (cases "x \<in> A")
    case True
    then show ?thesis using ch(4) x dom [of b] maps_ok_block [OF ok mi i(2)] by (intro exI [of _ b]) auto
  next
    case False
    then obtain c where c: "map_blocks H c \<noteq> None" "x \<in> addrs (T c)" using maps_okD(4) [OF ok, of x] x nodes by auto
    then have "c \<noteq> b" using False ch(5) by auto
    then show ?thesis using c dom by (intro exI [of _ c]) simp
  qed
  ultimately show "maps_ok H' (T(b := t')) (ms[i := m'])"
    using maps_okD(5) [OF ok] unfolding maps_ok_def by simp
  show "map_view (T(b := t')) (ms ! j) = map_view T (ms ! j)" if "j < length ms" "j \<noteq> i" for j
    using others [OF that] by (auto simp: map_view_def tree_of_def split: option.splits)
  show "map_view (T(b := t')) m' = contents (m_compare m') (pairs t')"
    using d'(1) by (simp add: map_view_def tree_of_def)
qed

text \<open>A map without a block stays empty.\<close>

lemma maps_ok_empty:
  assumes "maps_ok H T ms" and "i < length ms" and "m_data (ms ! i) = None" and "m_data m' = None"
    and "map_ok H T m'"
  shows "maps_ok H T (ms[i := m'])"
proof -
  have "users (ms[i := m']) c = users ms c" for c
    using users_update [of i ms m' c] assms(2-4) by simp
  then show ?thesis using assms(1,5) unfolding maps_ok_def by (auto dest: set_update_subset_insert [THEN subsetD])
qed

text \<open>A map without a block gets an empty one.\<close>

lemma maps_ok_attach:
  assumes ok: "maps_ok H T ms" and i: "i < length ms" "m_data (ms ! i) = None" and b: "map_blocks H b = None"
    and m: "m' = (ms ! i)\<lparr>m_pairBuffer := p, m_data := Some b\<rparr>"
    and H': "H' = H\<lparr>map_blocks := (map_blocks H)(b \<mapsto> \<lparr>refCount = 1, shared_data = None\<rparr>)\<rparr>"
  shows "maps_ok H' (T(b := Leaf)) (ms[i := m'])" and "users (ms[i := m']) b = 1"
    and "\<And>j. j < length ms \<Longrightarrow> map_view (T(b := Leaf)) ((ms[i := m']) ! j) = map_view T (ms ! j)"
proof -
  have none: "m_data (ms ! j) \<noteq> Some b" if "j < length ms" for j
    using maps_ok_block [OF ok, of "ms ! j" b] b that by auto
  then have "users ms b = 0" by (auto simp: users_def filter_empty_conv in_set_conv_nth)
  then have us: "users (ms[i := m']) c = (if c = b then 1 else users ms c)" for c
    using users_update [of i ms m' c] i by (auto simp: m)
  then show "users (ms[i := m']) b = 1" by simp
  have m0: "map_ok H T (ms ! i)" using maps_okD(1) [OF ok] i(1) by simp
  have tree: "tree_of (T(b := Leaf)) (ms[i := m'] ! j) = tree_of T (ms ! j)" if "j < length ms" for j
    using none [OF that] i by (cases "j = i") (auto simp: tree_of_def m split: option.splits)
  have "map_ok H' (T(b := Leaf)) x" if x: "x \<in> set (ms[i := m'])" for x
  proof -
    obtain j where j: "j < length ms" "x = ms[i := m'] ! j" using x by (auto simp: in_set_conv_nth)
    then show ?thesis
      using tree [OF j(1)] maps_okD(1) [OF ok, of "ms ! j"] i none [OF j(1)]
      by (cases "j = i") (auto simp: map_ok_def m H')
  qed
  moreover have "block_ok H' ((T(b := Leaf)) c) s (users (ms[i := m']) c)" if "map_blocks H' c = Some s" for c s
    using that maps_okD(2) [OF ok, of c s] us [of c]
    by (auto simp: H' block_ok_def rb_holds_Leaf split: if_splits)
  moreover have "addrs ((T(b := Leaf)) c) \<inter> addrs ((T(b := Leaf)) c') = {}"
    if "map_blocks H' c \<noteq> None" "map_blocks H' c' \<noteq> None" "c \<noteq> c'" for c c'
    using that maps_okD(3) [OF ok, of c c'] by (auto simp: H')
  moreover have "\<exists>c. map_blocks H' c \<noteq> None \<and> x \<in> addrs ((T(b := Leaf)) c)" if x: "map_nodes H' x \<noteq> None" for x
  proof -
    obtain c where "map_blocks H c \<noteq> None" "x \<in> addrs (T c)" using maps_okD(4) [OF ok, of x] x by (auto simp: H')
    then show ?thesis using b by (intro exI [of _ c]) (auto simp: H')
  qed
  ultimately show "maps_ok H' (T(b := Leaf)) (ms[i := m'])"
    using maps_okD(5) [OF ok] unfolding maps_ok_def by simp
  show "map_view (T(b := Leaf)) ((ms[i := m']) ! j) = map_view T (ms ! j)" if "j < length ms" for j
    using tree [OF that] i that by (cases "j = i") (simp_all add: map_view_def m)
qed

end
