(* ===== verification/MapCow.thy ===== *)
theory MapCow
  imports MapShare
begin

text \<open>
  Detaching, releasing and sharing a block keep what all maps promise, and the operations of one map change
  the contents of no other.
\<close>

section \<open>Sharing and unsharing a block\<close>

lemma block_nodes:
  assumes "maps_ok H T ms" and "map_blocks H c \<noteq> None" and "x \<in> addrs (T c)"
  shows "map_nodes H x \<noteq> None"
proof -
  obtain s where "map_blocks H c = Some s" using assms(2) by blast
  then show ?thesis using maps_okD(2) [OF assms(1), of c s] rb_holds_dom assms(3) by (fastforce simp: block_ok_def)
qed

lemma count_pred: "0 < n \<Longrightarrow> (word_of_nat n :: 32 word) - 1 = word_of_nat (n - 1)"
  by (simp add: of_nat_diff)

text \<open>A map leaves its block for a copy of its tree in a new block.\<close>

lemma maps_ok_detach:
  assumes ok: "maps_ok H T ms" and i: "i < length ms" "m_data (ms ! i) = Some b" "1 < users ms b"
    and b': "map_blocks H b' = None" and s: "map_blocks H b = Some s"
    and t': "rb_holds h' root' t'" "well_keyed (m_compare (ms ! i)) t'" "pairs t' = pairs (T b)"
      "\<forall>a\<in>addrs t'. map_nodes H a = None" "same_outside h' (map_nodes H) (addrs t')"
    and m': "m' = (ms ! i)\<lparr>m_data := Some b'\<rparr>"
    and H': "map_nodes H' = h'"
      "map_blocks H' = (map_blocks H)(b' \<mapsto> \<lparr>refCount = 1, shared_data = root'\<rparr>, b \<mapsto> s\<lparr>refCount := refCount s - 1\<rparr>)"
  shows "maps_ok H' (T(b' := t')) (ms[i := m'])" and "users (ms[i := m']) b' = 1"
    and "\<And>j. j < length ms \<Longrightarrow> map_view (T(b' := t')) ((ms[i := m']) ! j) = map_view T (ms ! j)"
proof -
  have mi: "ms ! i \<in> set ms" using i(1) by simp
  have none: "m_data (ms ! j) \<noteq> Some b'" if "j < length ms" for j
    using maps_ok_block [OF ok, of "ms ! j" b'] b' that by auto
  have bb: "b' \<noteq> b" using b' s by auto
  have "users ms b' = 0" using none by (auto simp: users_def filter_empty_conv in_set_conv_nth)
  then have us: "users (ms[i := m']) c = (if c = b' then 1 else if c = b then users ms b - 1 else users ms c)" for c
    using users_update [of i ms m' c] i bb by (auto simp: m' split: if_splits)
  then show "users (ms[i := m']) b' = 1" by simp
  have nodes: "h' x = map_nodes H x" if "map_blocks H c \<noteq> None" "x \<in> addrs (T c)" for c x
  proof -
    have "x \<notin> addrs t'" using block_nodes [OF ok that] t'(4) by metis
    then show ?thesis using t'(5) by (simp add: same_outside_def)
  qed
  have size: "length (entries t') = length (entries (T b))" using arg_cong [OF t'(3), of length] by simp
  have mi_ok: "map_ok H T (ms ! i)" using maps_okD(1) [OF ok mi] .
  have "map_ok H' (T(b' := t')) x" if x: "x \<in> set (ms[i := m'])" for x
  proof -
    obtain j where j: "j < length ms" "x = ms[i := m'] ! j" using x by (auto simp: in_set_conv_nth)
    show ?thesis
    proof (cases "j = i")
      case True
      then show ?thesis using j mi_ok t'(2) size i(2) by (simp add: m' map_ok_def tree_of_def H'(2))
    next
      case False
      then have x: "x = ms ! j" using j by simp
      then have "tree_of (T(b' := t')) x = tree_of T x"
        using none [OF j(1)] by (simp add: tree_of_def split: option.splits)
      moreover have "map_ok H T x" using maps_okD(1) [OF ok] x j(1) by simp
      ultimately show ?thesis by (simp add: map_ok_def H'(2))
    qed
  qed
  moreover have "block_ok H' ((T(b' := t')) c) s' (users (ms[i := m']) c)" if s': "map_blocks H' c = Some s'" for c s'
  proof -
    have old: "block_ok H (T d) s0 (users ms d)" "rb_holds h' (shared_data s0) (T d)" if d: "map_blocks H d = Some s0" for d s0
    proof -
      show b: "block_ok H (T d) s0 (users ms d)" by (rule maps_okD(2) [OF ok d])
      show "rb_holds h' (shared_data s0) (T d)"
        by (rule rb_holds_same [of "map_nodes H"]) (use b d nodes [of d] in \<open>auto simp: block_ok_def\<close>)
    qed
    consider "c = b'" | "c = b" | "c \<noteq> b'" "c \<noteq> b" "map_blocks H c = Some s'" using s' by (auto simp: H'(2) split: if_splits)
    then show ?thesis
    proof cases
      case 1
      then show ?thesis using s' us bb t'(1) by (auto simp: block_ok_def H')
    next
      case 2
      then have "s' = s\<lparr>refCount := refCount s - 1\<rparr>" using s' by (simp add: H'(2))
      then show ?thesis using old [OF s] us 2 bb i(3) count_pred [of "users ms b"]
        by (auto simp: block_ok_def H'(1))
    next
      case 3
      then show ?thesis using old [OF 3(3)] us by (simp add: block_ok_def H'(1))
    qed
  qed
  moreover have "addrs ((T(b' := t')) c) \<inter> addrs ((T(b' := t')) c') = {}"
    if c: "map_blocks H' c \<noteq> None" "map_blocks H' c' \<noteq> None" "c \<noteq> c'" for c c'
  proof -
    have dom: "map_blocks H d \<noteq> None" if "map_blocks H' d \<noteq> None" "d \<noteq> b'" for d
      using that s by (auto simp: H'(2) split: if_splits)
    have new: "addrs t' \<inter> addrs (T d) = {}" if "map_blocks H' d \<noteq> None" "d \<noteq> b'" for d
      using block_nodes [OF ok dom [OF that]] t'(4) by blast
    show ?thesis
      using c new [of c] new [of c'] maps_okD(3) [OF ok dom [of c] dom [of c'] c(3)] by (cases "c = b'"; cases "c' = b'") (auto simp: Int_commute)
  qed
  moreover have "\<exists>c. map_blocks H' c \<noteq> None \<and> x \<in> addrs ((T(b' := t')) c)" if x: "map_nodes H' x \<noteq> None" for x
  proof (cases "x \<in> addrs t'")
    case True
    then show ?thesis by (intro exI [of _ b']) (simp add: H'(2))
  next
    case False
    then have "map_nodes H x \<noteq> None" using x t'(5) by (simp add: H'(1) same_outside_def)
    then obtain c where "map_blocks H c \<noteq> None" "x \<in> addrs (T c)" using maps_okD(4) [OF ok] by blast
    then show ?thesis using b' by (intro exI [of _ c]) (auto simp: H'(2))
  qed
  ultimately show "maps_ok H' (T(b' := t')) (ms[i := m'])"
    using maps_okD(5) [OF ok] unfolding maps_ok_def by simp
  show "map_view (T(b' := t')) ((ms[i := m']) ! j) = map_view T (ms ! j)" if "j < length ms" for j
    using none [OF that] that i(2) t'(3)
    by (cases "j = i") (auto simp: map_view_def tree_of_def m' split: option.splits)
qed

text \<open>A map gives up its block, which goes when it was the last one.\<close>

lemma maps_ok_release:
  assumes ok: "maps_ok H T ms" and i: "i < length ms" "m_data (ms ! i) = Some b" and s: "map_blocks H b = Some s"
    and m': "m_data m' = None" "map_ok H T m'"
    and H': "if users ms b = 1
      then H' = H\<lparr>map_nodes := \<lambda>x. if x \<in> addrs (T b) then None else map_nodes H x, map_blocks := (map_blocks H)(b := None)\<rparr>
      else H' = H\<lparr>map_blocks := (map_blocks H)(b \<mapsto> s\<lparr>refCount := refCount s - 1\<rparr>)\<rparr>"
  shows "maps_ok H' T (ms[i := m'])"
proof -
  have pos: "0 < users ms b" using users_pos [OF i] .
  have us: "users (ms[i := m']) c = (if c = b then users ms b - 1 else users ms c)" for c
    using users_update [of i ms m' c] i m'(1) by (auto split: if_splits)
  have dom: "map_blocks H' c \<noteq> None \<longleftrightarrow> map_blocks H c \<noteq> None \<and> \<not> (c = b \<and> users ms b = 1)" for c
    using H' s by (cases "users ms b = 1"; cases "c = b") simp_all
  have nodes: "map_nodes H' x = map_nodes H x" if "map_blocks H' c \<noteq> None" "x \<in> addrs (T c)" for c x
  proof (cases "users ms b = 1")
    case True
    then have "addrs (T c) \<inter> addrs (T b) = {}" using maps_okD(3) [OF ok, of c b] dom [of c] that(1) s by auto
    then show ?thesis using H' True that(2) by auto
  next
    case False
    then show ?thesis using H' by simp
  qed
  have "map_ok H' T x" if x: "x \<in> set (ms[i := m'])" for x
  proof -
    obtain j where j: "j < length ms" "x = ms[i := m'] ! j" using x by (auto simp: in_set_conv_nth)
    show ?thesis
    proof (cases "j = i")
      case True
      then show ?thesis using j m' by (simp add: map_ok_def)
    next
      case False
      then have x: "x = ms ! j" using j by simp
      have "map_ok H T x" using maps_okD(1) [OF ok] x j(1) by simp
      moreover have "map_blocks H' c \<noteq> None" if "m_data x = Some c" for c
      proof -
        have "0 < users (ms[i := m']) c" using users_pos [of j "ms[i := m']" c] j False that by simp
        then have "\<not> (c = b \<and> users ms b = 1)" using us [of c] by auto
        then show ?thesis using dom [of c] \<open>map_ok H T x\<close> that by (simp add: map_ok_def)
      qed
      ultimately show ?thesis by (simp only: map_ok_def simp_thms) blast
    qed
  qed
  moreover have "block_ok H' (T c) s' (users (ms[i := m']) c)" if s': "map_blocks H' c = Some s'" for c s'
  proof -
    obtain s0 where s0: "map_blocks H c = Some s0" using dom [of c] s' by auto
    note b0 = maps_okD(2) [OF ok s0]
    have r: "rb_holds (map_nodes H') (shared_data s0) (T c)"
      by (rule rb_holds_same [of "map_nodes H"]) (use b0 s' nodes [of c] in \<open>auto simp: block_ok_def\<close>)
    show ?thesis
    proof (cases "c = b")
      case True
      then have "users ms b \<noteq> 1" using dom [of c] s' by auto
      then have "s' = s\<lparr>refCount := refCount s - 1\<rparr>" "s0 = s" using H' s' s0 s True by auto
      then show ?thesis using b0 r us True pos \<open>users ms b \<noteq> 1\<close> count_pred [OF pos] by (auto simp: block_ok_def)
    next
      case False
      then have "s' = s0" using H' s' s0 by (auto split: if_splits)
      then show ?thesis using b0 r us False by (simp add: block_ok_def)
    qed
  qed
  moreover have "addrs (T c) \<inter> addrs (T c') = {}"
    if "map_blocks H' c \<noteq> None" "map_blocks H' c' \<noteq> None" "c \<noteq> c'" for c c'
    using that dom maps_okD(3) [OF ok, of c c'] by blast
  moreover have "\<exists>c. map_blocks H' c \<noteq> None \<and> x \<in> addrs (T c)" if x: "map_nodes H' x \<noteq> None" for x
  proof -
    have "map_nodes H x \<noteq> None" using x H' by (cases "users ms b = 1") (auto split: if_splits)
    then obtain c where c: "map_blocks H c \<noteq> None" "x \<in> addrs (T c)" using maps_okD(4) [OF ok] by blast
    have "\<not> (c = b \<and> users ms b = 1)" using c(2) x H' by auto
    then show ?thesis using c dom by blast
  qed
  ultimately show ?thesis
    using maps_okD(5) [OF ok] unfolding maps_ok_def by simp
qed

text \<open>A map comes to point to the block of another one.\<close>

lemma maps_ok_share:
  assumes ok: "maps_ok H T ms" and b: "map_blocks H b = Some s" "T b \<noteq> Leaf"
    and us: "\<And>c. users ms' c = (if c = b then users ms b + 1 else users ms c)" and len: "length ms' < 2 ^ 31"
    and set: "\<And>x. x \<in> set ms' \<Longrightarrow> x \<in> set ms \<or> x = m'" and m': "map_ok H T m'"
  shows "maps_ok (H\<lparr>map_blocks := (map_blocks H)(b \<mapsto> s\<lparr>refCount := refCount s + 1\<rparr>)\<rparr>) T ms'"
proof -
  let ?H = "H\<lparr>map_blocks := (map_blocks H)(b \<mapsto> s\<lparr>refCount := refCount s + 1\<rparr>)\<rparr>"
  have dom: "map_blocks ?H c \<noteq> None \<longleftrightarrow> map_blocks H c \<noteq> None" for c using b(1) by simp
  have "map_ok ?H T x" if "x \<in> set ms'" for x
    using set [OF that] m' maps_okD(1) [OF ok, of x] by (auto simp: map_ok_def)
  moreover have "block_ok ?H (T c) s' (users ms' c)" if s': "map_blocks ?H c = Some s'" for c s'
  proof (cases "c = b")
    case True
    then show ?thesis using s' maps_okD(2) [OF ok b(1)] us b(2) by (auto simp: block_ok_def)
  next
    case False
    then show ?thesis using s' maps_okD(2) [OF ok, of c s'] us by (simp add: block_ok_def)
  qed
  moreover have "addrs (T c) \<inter> addrs (T c') = {}"
    if "map_blocks ?H c \<noteq> None" "map_blocks ?H c' \<noteq> None" "c \<noteq> c'" for c c'
    using that dom maps_okD(3) [OF ok, of c c'] by blast
  moreover have "\<exists>c. map_blocks ?H c \<noteq> None \<and> x \<in> addrs (T c)" if x: "map_nodes ?H x \<noteq> None" for x
    using maps_okD(4) [OF ok, of x] x dom by simp
  ultimately show ?thesis using len unfolding maps_ok_def by blast
qed

section \<open>The operations\<close>

text \<open>Detaching: it fails and changes nothing, or the map is alone with its tree.\<close>

definition fresh_alloc :: "map_alloc \<Rightarrow> ('k, 'v) map_memory \<Rightarrow> bool" where
  "fresh_alloc al H \<longleftrightarrow>
     fresh_nodes (copy_node al) 0 (map_nodes H) \<and>
     (\<forall>a. new_node al = Some a \<longrightarrow> map_nodes H a = None \<and> (\<forall>j. copy_node al j \<noteq> Some a)) \<and>
     (\<forall>b. new_block al = Some b \<longrightarrow> map_blocks H b = None)"

lemma detach_cases:
  assumes ok: "maps_ok H T ms" and i: "i < length ms" and fresh: "fresh_alloc al H"
  shows "VXMapDetachIfNeeded al (ms ! i) H = Some (False, ms ! i, H) \<or>
    (\<exists>m' H' T'. VXMapDetachIfNeeded al (ms ! i) H = Some (True, m', H') \<and> maps_ok H' T' (ms[i := m']) \<and>
      (\<forall>b. m_data m' = Some b \<longrightarrow> users (ms[i := m']) b = 1) \<and> m' = (ms ! i)\<lparr>m_data := m_data m'\<rparr> \<and>
      (\<forall>j<length ms. map_view T' ((ms[i := m']) ! j) = map_view T (ms ! j)) \<and>
      (\<forall>a. new_node al = Some a \<longrightarrow> map_nodes H' a = None) \<and>
      (m_data m' = None \<longrightarrow> H' = H \<and> m_data (ms ! i) = None))"
proof -
  let ?m = "ms ! i"
  have mi: "?m \<in> set ms" using i by simp
  have cow: "m_useCow ?m" using maps_okD(1) [OF ok mi] by (simp add: map_ok_def)
  show ?thesis
  proof (cases "\<exists>b. m_data ?m = Some b \<and> 1 < users ms b")
    case False
    have "users ms b = 1" if "m_data ?m = Some b" for b
      using users_pos [OF i that] False that by force
    moreover from this have "VXMapDetachIfNeeded al ?m H = Some (True, ?m, H)"
      by (intro detach_unshared map_ok_unshared [OF ok mi])
    moreover have "ms[i := ?m] = ms" by simp
    ultimately show ?thesis using ok fresh by (intro disjI2 exI [of _ ?m] exI [of _ H] exI [of _ T]) (auto simp: fresh_alloc_def)
  next
    case True
    then obtain b where b: "m_data ?m = Some b" "1 < users ms b" by blast
    obtain s where s: "map_blocks H b = Some s" "rb_holds (map_nodes H) (shared_data s) (T b)" "T b \<noteq> Leaf"
      using maps_ok_block [OF ok mi b(1)] b(2) by (auto simp: block_ok_def)
    have wk: "well_keyed (m_compare ?m) (T b)" using maps_okD(1) [OF ok mi] b(1) by (simp add: map_ok_def tree_of_def)
    have root: "XMap_root ?m H = Some (shared_data s)" "shared_data s \<noteq> None"
      using cow b(1) s by (simp_all add: XMap_root_def XMap_root_ptr_def read_root_def, cases "shared_data s", simp_all add: rb_holds_Leaf)
    have shared: "XSharedData_isShared (m_data ?m) H = Some True" using map_ok_shared [OF ok mi b(1)] b(2) by simp
    have trav: "XBTree_TraversingToXVector (map_nodes H) (shared_data s) XBTreePreorder =
        Some (Some (map (\<lambda>x. Some (fst x)) (preorder (T b))))"
      using TraversingToXVector_tree [OF s(2)] root(2) by simp
    obtain success root' h' t' where c:
      "copy_nodes (m_compare ?m) (copy_node al) 0 (map (\<lambda>x. Some (fst x)) (preorder (T b))) None (map_nodes H) =
        Some (success, root', h')"
      "rb_holds h' root' t'" "well_keyed (m_compare ?m) t'"
      "\<forall>a\<in>addrs t'. map_nodes H a = None \<and> (\<exists>j. copy_node al j = Some a)"
      "same_outside h' (map_nodes H) (addrs t')" "success \<longrightarrow> pairs t' = pairs (T b)"
      using copy_tree [OF s(2) wk, of "copy_node al"] fresh unfolding fresh_alloc_def by blast
    obtain log where del: "XTree_delete root' h' = Some (\<lambda>x. if x \<in> addrs t' then None else h' x, log)"
      using XTree_delete_tree [OF c(2)] by blast
    have undone: "(\<lambda>x. if x \<in> addrs t' then None else h' x) = map_nodes H"
      using c(4,5) by (auto simp: fun_eq_iff same_outside_def)
    show ?thesis
    proof (cases "vector_ok al \<and> success \<and> new_block al \<noteq> None")
      case False
      then have "VXMapDetachIfNeeded al ?m H = Some (False, ?m, H)"
        using cow shared root trav c(1) del undone
        by (auto simp: VXMapDetachIfNeeded_def XSharedData_create_ex_def Let_def)
      then show ?thesis by simp
    next
      case True
      then obtain b' where b': "new_block al = Some b'" "map_blocks H b' = None" using fresh by (auto simp: fresh_alloc_def)
      then have bb: "b' \<noteq> b" using s(1) by auto
      let ?m' = "?m\<lparr>m_data := Some b'\<rparr>"
      let ?H = "H\<lparr>map_nodes := h', map_blocks := (map_blocks H)(b' \<mapsto> \<lparr>refCount = 1, shared_data = root'\<rparr>,
        b \<mapsto> s\<lparr>refCount := refCount s - 1\<rparr>)\<rparr>"
      have last: "\<not> refCount s \<le>s 1"
        using maps_ok_block [OF ok mi b(1)] s(1) b(2) count_last [of "users ms b"] users_le [of ms b] maps_okD(5) [OF ok]
        by (auto simp: block_ok_def)
      have "VXMapDetachIfNeeded al ?m H = Some (True, ?m', ?H)"
        using cow shared root trav c(1) True b' bb b(1) s(1) last
        by (auto simp: VXMapDetachIfNeeded_def XSharedData_create_ex_def XSharedData_release_def Let_def)
      moreover have p: "pairs t' = pairs (T b)" "\<forall>a\<in>addrs t'. map_nodes H a = None" using c(4,6) True by auto
      moreover note maps_ok_detach [OF ok i b b'(2) s(1) c(2,3) p c(5), of ?m' ?H]
      moreover have "\<forall>a. new_node al = Some a \<longrightarrow> map_nodes ?H a = None"
      proof (intro allI impI)
        fix a assume "new_node al = Some a"
        then have n: "map_nodes H a = None" "\<forall>j. copy_node al j \<noteq> Some a" using fresh by (simp_all add: fresh_alloc_def)
        then have "a \<notin> addrs t'" using c(4) by metis
        then show "map_nodes ?H a = None" using n(1) c(5) by (simp add: same_outside_def)
      qed
      ultimately show ?thesis
        by (intro disjI2 exI [of _ ?m'] exI [of _ ?H] exI [of _ "T(b' := t')"]) simp
    qed
  qed
qed

text \<open>Any change of a map that is alone with its tree, or has none.\<close>

definition alone :: "'k XMap list \<Rightarrow> nat \<Rightarrow> bool" where
  "alone ms i \<longleftrightarrow> (\<forall>b. m_data (ms ! i) = Some b \<longrightarrow> users ms b = 1)"

lemma maps_ok_step:
  assumes ok: "maps_ok H T ms" and i: "i < length ms" and al: "alone ms i"
    and m': "map_shows m' H' t'" "same_place m' (ms ! i)"
    and ch: "only_changes (ms ! i) H H' A" "addrs t' \<subseteq> A"
      "A \<subseteq> addrs (tree_of T (ms ! i)) \<union> {a. map_nodes H a = None}"
      "\<forall>x\<in>A. x \<notin> addrs t' \<longrightarrow> map_nodes H' x = None" "addrs (tree_of T (ms ! i)) \<subseteq> A"
  shows "\<exists>T'. maps_ok H' T' (ms[i := m']) \<and> map_view T' m' = contents (m_compare m') (pairs t') \<and>
    (\<forall>j<length ms. j \<noteq> i \<longrightarrow> map_view T' (ms ! j) = map_view T (ms ! j))"
proof (cases "m_data (ms ! i)")
  case (Some b)
  then have t: "tree_of T (ms ! i) = T b" "users ms b = 1" using al by (simp_all add: tree_of_def alone_def)
  note maps_ok_change [OF ok i Some t(2) m' ch(1,2) _ ch(4)]
  then show ?thesis using ch(3,5) t(1) by (intro exI [of _ "T(b := t')"]) simp
next
  case None
  have m0: "map_ok H T (ms ! i)" using maps_okD(1) [OF ok] i by simp
  then have d: "m_data m' = None" "m_useCow m'" using m'(2) None by (simp_all add: same_place_def map_ok_def)
  then have t': "t' = Leaf" using m'(1) by (auto simp: map_shows_def XMap_root_def XMap_root_ptr_def rb_holds_Leaf)
  have "map_nodes H' x = map_nodes H x" for x
  proof (cases "x \<in> A")
    case True
    then show ?thesis using ch(3,4) t' None by (auto simp: tree_of_def)
  next
    case False
    then show ?thesis using ch(1) by (simp add: only_changes_def same_outside_def)
  qed
  then have "map_nodes H' = map_nodes H" by blast
  moreover have "map_blocks H' = map_blocks H" using ch(1) None by (simp add: only_changes_def fun_eq_iff)
  ultimately have "H' = H" by simp
  moreover have "map_ok H T m'" using m'(1) d t' by (simp add: map_ok_def map_shows_def tree_of_def)
  ultimately show ?thesis using maps_ok_empty [OF ok i None d(1)] d(1) t'
    by (intro exI [of _ T]) (simp add: map_view_def tree_of_def)
qed

lemma same_place_trans: "same_place m3 m2 \<Longrightarrow> same_place m2 m1 \<Longrightarrow> same_place m3 m1"
  by (simp add: same_place_def)

lemma only_changes_place: "same_place m3 m \<Longrightarrow> only_changes m3 H H' A = only_changes m H H' A"
  by (auto simp: only_changes_def same_place_def)

lemma insert_alone:
  assumes ok: "maps_ok H T ms" and i: "i < length ms" and al: "alone ms i" and fresh: "fresh_for_insert a (ms ! i) H"
  shows "\<exists>r m' H' T'. VXMap_insert a k v (ms ! i) H = Some (r, m', H') \<and> maps_ok H' T' (ms[i := m']) \<and>
    map_view T' m' = (if r then put_content (m_compare (ms ! i)) k (Some v) (map_view T (ms ! i)) else map_view T (ms ! i)) \<and>
    m_compare m' = m_compare (ms ! i) \<and>
    (\<forall>j<length ms. j \<noteq> i \<longrightarrow> map_view T' (ms ! j) = map_view T (ms ! j))"
proof -
  let ?m = "ms ! i" and ?t = "tree_of T (ms ! i)"
  have mi: "?m \<in> set ms" using i by simp
  have un: "unshared ?m H" using al by (intro map_ok_unshared [OF ok mi]) (simp add: alone_def)
  define r where "r \<longleftrightarrow> contents (m_compare ?m) (pairs ?t) k \<noteq> None \<or> (m_pairBuffer ?m \<or> buffer_ok a) \<and> new_node a \<noteq> None"
  obtain m' H' t' m3 H3 where o: "VXMap_insert a k v ?m H = Some (r, m', H')" "map_shows m' H' t'"
    "contents (m_compare ?m) (pairs t') =
      (if r then put_content (m_compare ?m) k (Some v) (contents (m_compare ?m) (pairs ?t)) else contents (m_compare ?m) (pairs ?t))"
    "addrs ?t \<subseteq> addrs t'" "addrs t' \<subseteq> addrs ?t \<union> set_option (new_node a)" "placed a ?m H m3 H3"
    "only_changes m3 H3 H' (addrs t')" "same_place m' m3"
    using insert_unshared [OF map_ok_shows [OF ok mi] un fresh, of k v, folded r_def] by blast
  have new: "set_option (new_node a) \<subseteq> {x. map_nodes H x = None}" using fresh by (auto simp: fresh_for_insert_def)
  consider (here) "H3 = H" "same_place m3 ?m"
    | (attached) b where "m_data ?m = None" "new_block a = Some b" "m3 = ?m\<lparr>m_pairBuffer := True, m_data := Some b\<rparr>"
      "H3 = H\<lparr>map_blocks := (map_blocks H)(b \<mapsto> \<lparr>refCount = 1, shared_data = None\<rparr>)\<rparr>" "map_blocks H b = None"
    using o(6) fresh by (auto simp: placed_def fresh_for_insert_def)
  then show ?thesis
  proof cases
    case here
    have place: "same_place m' ?m" using same_place_trans [OF o(8) here(2)] .
    have "only_changes ?m H H' (addrs t')" using o(7) here by (simp add: only_changes_place)
    from maps_ok_step [OF ok i al o(2) place this _ _ _ o(4)] o(5) new obtain T' where
      "maps_ok H' T' (ms[i := m'])" "map_view T' m' = contents (m_compare m') (pairs t')"
      "\<forall>j<length ms. j \<noteq> i \<longrightarrow> map_view T' (ms ! j) = map_view T (ms ! j)"
      by blast
    moreover have "m_compare m' = m_compare ?m" using place by (simp add: same_place_def)
    ultimately show ?thesis using o(1,3) by (intro exI [of _ r] exI [of _ m'] exI [of _ H'] exI [of _ T']) (simp add: map_view_def)
  next
    case attached
    let ?ms = "ms[i := m3]" and ?T = "T(b := Leaf)"
    note at = maps_ok_attach [OF ok i attached(1,5,3,4)]
    have leaf: "?t = Leaf" using attached(1) by (simp add: tree_of_def)
    have l3: "i < length ?ms" "?ms ! i = m3" using i by simp_all
    have "alone ?ms i" using at(2) attached(3) l3(2) by (simp add: alone_def)
    moreover have "same_place m' (?ms ! i)" "only_changes (?ms ! i) H3 H' (addrs t')" using o(7,8) l3(2) by simp_all
    moreover have "tree_of ?T (?ms ! i) = Leaf" using attached(3) l3(2) by (simp add: tree_of_def)
    moreover have "addrs t' \<subseteq> {x. map_nodes H3 x = None}" using o(5) new leaf attached(4) by auto
    ultimately obtain T' where T': "maps_ok H' T' (?ms[i := m'])" "map_view T' m' = contents (m_compare m') (pairs t')"
      "\<forall>j<length ?ms. j \<noteq> i \<longrightarrow> map_view T' (?ms ! j) = map_view ?T (?ms ! j)"
      using maps_ok_step [OF at(1) l3(1) _ o(2), of "addrs t'"] by auto
    have "m_compare m' = m_compare ?m" using o(8) attached(3) by (simp add: same_place_def)
    moreover have "map_view T' (ms ! j) = map_view T (ms ! j)" if "j < length ms" "j \<noteq> i" for j
      using T'(3) at(3) [OF that(1)] that by simp
    moreover have "maps_ok H' T' (ms[i := m'])" using T'(1) by simp
    ultimately show ?thesis using o(1,3) T'(2)
      by (intro exI [of _ r] exI [of _ m'] exI [of _ H'] exI [of _ T']) (simp add: map_view_def)
  qed
qed

text \<open>Once detached, a map works as one that was alone.\<close>

lemma detached_insert:
  assumes "VXMapDetachIfNeeded a m H = Some (True, m1, H1)" and "unshared m1 H1"
  shows "VXMap_insert a k v m H = VXMap_insert a k v m1 H1"
  using assms detach_unshared [OF assms(2), of a] by (simp add: VXMap_insert_def)

lemma detached_remove:
  assumes "VXMapDetachIfNeeded a m H = Some (True, m1, H1)" and "unshared m1 H1"
  shows "VXMap_remove a k m H = VXMap_remove a k m1 H1"
  using assms detach_unshared [OF assms(2), of a] by (simp add: VXMap_remove_def)

lemma insert_ok:
  assumes ok: "maps_ok H T ms" and i: "i < length ms" and fresh: "fresh_alloc a H"
    and block: "m_data (ms ! i) = None \<longrightarrow> new_block a \<noteq> None"
  shows "\<exists>r m' H' T'. VXMap_insert a k v (ms ! i) H = Some (r, m', H') \<and> maps_ok H' T' (ms[i := m']) \<and>
    map_view T' m' = (if r then put_content (m_compare (ms ! i)) k (Some v) (map_view T (ms ! i)) else map_view T (ms ! i)) \<and>
    m_compare m' = m_compare (ms ! i) \<and>
    (\<forall>j<length ms. j \<noteq> i \<longrightarrow> map_view T' (ms ! j) = map_view T (ms ! j))"
proof -
  let ?m = "ms ! i"
  from detach_cases [OF ok i fresh] show ?thesis
  proof (elim disjE exE conjE)
    assume "VXMapDetachIfNeeded a ?m H = Some (False, ?m, H)"
    then have "VXMap_insert a k v ?m H = Some (False, ?m, H)" by (simp add: VXMap_insert_def)
    then show ?thesis using ok by (intro exI [of _ False] exI [of _ ?m] exI [of _ H] exI [of _ T]) simp
  next
    fix m1 H1 T1
    assume d: "VXMapDetachIfNeeded a ?m H = Some (True, m1, H1)" "maps_ok H1 T1 (ms[i := m1])"
      "\<forall>b. m_data m1 = Some b \<longrightarrow> users (ms[i := m1]) b = 1" "m1 = ?m\<lparr>m_data := m_data m1\<rparr>"
      "\<forall>j<length ms. map_view T1 (ms[i := m1] ! j) = map_view T (ms ! j)"
      "\<forall>x. new_node a = Some x \<longrightarrow> map_nodes H1 x = None" "m_data m1 = None \<longrightarrow> H1 = H \<and> m_data ?m = None"
    let ?ms = "ms[i := m1]"
    have l1: "i < length ?ms" "?ms ! i = m1" using i by simp_all
    have al: "alone ?ms i" using d(3) l1(2) by (simp add: alone_def)
    have "unshared m1 H1" using d(3) i by (intro map_ok_unshared [OF d(2)]) (auto simp: set_update_memI)
    note eq = detached_insert [OF d(1) this, of k v]
    have "fresh_for_insert a (?ms ! i) H1"
      using fresh block d(6,7) l1(2) by (auto simp: fresh_for_insert_def fresh_alloc_def)
    from insert_alone [OF d(2) l1(1) al this, of k v] obtain r m' H' T' where
      r: "VXMap_insert a k v m1 H1 = Some (r, m', H')" "maps_ok H' T' (?ms[i := m'])"
      "map_view T' m' = (if r then put_content (m_compare m1) k (Some v) (map_view T1 m1) else map_view T1 m1)"
      "m_compare m' = m_compare m1" "\<forall>j<length ?ms. j \<noteq> i \<longrightarrow> map_view T' (?ms ! j) = map_view T1 (?ms ! j)"
      unfolding l1(2) by blast
    have cmp: "m_compare m1 = m_compare ?m" using arg_cong [OF d(4), of m_compare] by simp
    have "map_view T1 m1 = map_view T ?m" using d(5) i l1(2) by force
    moreover have "map_view T' (ms ! j) = map_view T (ms ! j)" if "j < length ms" "j \<noteq> i" for j
      using r(5) d(5) that by (metis length_list_update nth_list_update_neq)
    ultimately show ?thesis using r eq cmp
      by (intro exI [of _ r] exI [of _ m'] exI [of _ H'] exI [of _ T']) simp
  qed
qed

lemma remove_alone:
  assumes ok: "maps_ok H T ms" and i: "i < length ms" and al: "alone ms i"
  shows "\<exists>r m' H' T'. VXMap_remove a k (ms ! i) H = Some (r, m', H') \<and>
    (r \<longrightarrow> map_view T (ms ! i) k \<noteq> None) \<and> (room_ok a \<longrightarrow> r = (map_view T (ms ! i) k \<noteq> None)) \<and>
    maps_ok H' T' (ms[i := m']) \<and>
    map_view T' m' = (if r then put_content (m_compare (ms ! i)) k None (map_view T (ms ! i)) else map_view T (ms ! i)) \<and>
    m_compare m' = m_compare (ms ! i) \<and>
    (\<forall>j<length ms. j \<noteq> i \<longrightarrow> map_view T' (ms ! j) = map_view T (ms ! j))"
proof -
  let ?m = "ms ! i" and ?t = "tree_of T (ms ! i)"
  have mi: "?m \<in> set ms" using i by simp
  have un: "unshared ?m H" using al by (intro map_ok_unshared [OF ok mi]) (simp add: alone_def)
  obtain r m' H' t' where o: "tree_remove a k ?m H = Some (r, m', H')"
    "r \<longrightarrow> contents (m_compare ?m) (pairs ?t) k \<noteq> None" "room_ok a \<longrightarrow> r = (contents (m_compare ?m) (pairs ?t) k \<noteq> None)"
    "map_shows m' H' t'"
    "contents (m_compare ?m) (pairs t') = (if r then put_content (m_compare ?m) k None (contents (m_compare ?m) (pairs ?t))
      else contents (m_compare ?m) (pairs ?t))"
    "addrs t' \<subseteq> addrs ?t" "\<forall>x\<in>addrs ?t - addrs t'. map_nodes H' x = None" "only_changes ?m H H' (addrs ?t)"
    "same_place m' ?m"
    using tree_remove_map [OF map_ok_shows [OF ok mi], of a k] by blast
  have "\<forall>x\<in>addrs ?t. x \<notin> addrs t' \<longrightarrow> map_nodes H' x = None" using o(7) by blast
  from maps_ok_step [OF ok i al o(4,9,8,6) _ this] obtain T' where
    "maps_ok H' T' (ms[i := m'])" "map_view T' m' = contents (m_compare m') (pairs t')"
    "\<forall>j<length ms. j \<noteq> i \<longrightarrow> map_view T' (ms ! j) = map_view T (ms ! j)"
    by blast
  moreover have "m_compare m' = m_compare ?m" using o(9) by (simp add: same_place_def)
  ultimately show ?thesis using o(1,2,3,5) remove_unshared [OF un, of a k]
    by (intro exI [of _ r] exI [of _ m'] exI [of _ H'] exI [of _ T']) (simp add: map_view_def)
qed

text \<open>
  A removal is refused, and leaves the entry, when the map cannot be detached or there is no memory for the
  exchange of two nodes; otherwise the entry goes.
\<close>

lemma remove_ok:
  assumes ok: "maps_ok H T ms" and i: "i < length ms" and fresh: "fresh_alloc a H"
  shows "\<exists>r m' H' T'. VXMap_remove a k (ms ! i) H = Some (r, m', H') \<and> maps_ok H' T' (ms[i := m']) \<and>
    (r \<longrightarrow> map_view T (ms ! i) k \<noteq> None) \<and>
    map_view T' m' = (if r then put_content (m_compare (ms ! i)) k None (map_view T (ms ! i)) else map_view T (ms ! i)) \<and>
    m_compare m' = m_compare (ms ! i) \<and>
    (\<forall>j<length ms. j \<noteq> i \<longrightarrow> map_view T' (ms ! j) = map_view T (ms ! j))"
proof -
  let ?m = "ms ! i"
  from detach_cases [OF ok i fresh] show ?thesis
  proof (elim disjE exE conjE)
    assume "VXMapDetachIfNeeded a ?m H = Some (False, ?m, H)"
    then have "VXMap_remove a k ?m H = Some (False, ?m, H)" by (simp add: VXMap_remove_def)
    then show ?thesis using ok by (intro exI [of _ False] exI [of _ ?m] exI [of _ H] exI [of _ T]) simp
  next
    fix m1 H1 T1
    assume d: "VXMapDetachIfNeeded a ?m H = Some (True, m1, H1)" "maps_ok H1 T1 (ms[i := m1])"
      "\<forall>b. m_data m1 = Some b \<longrightarrow> users (ms[i := m1]) b = 1" "m1 = ?m\<lparr>m_data := m_data m1\<rparr>"
      "\<forall>j<length ms. map_view T1 (ms[i := m1] ! j) = map_view T (ms ! j)"
    let ?ms = "ms[i := m1]"
    have l1: "i < length ?ms" "?ms ! i = m1" using i by simp_all
    have al: "alone ?ms i" using d(3) l1(2) by (simp add: alone_def)
    have "unshared m1 H1" using d(3) i by (intro map_ok_unshared [OF d(2)]) (auto simp: set_update_memI)
    note eq = detached_remove [OF d(1) this, of k]
    from remove_alone [OF d(2) l1(1) al, of a k] obtain r m' H' T' where
      r: "VXMap_remove a k m1 H1 = Some (r, m', H')" "r \<longrightarrow> map_view T1 m1 k \<noteq> None"
      "maps_ok H' T' (?ms[i := m'])"
      "map_view T' m' = (if r then put_content (m_compare m1) k None (map_view T1 m1) else map_view T1 m1)"
      "m_compare m' = m_compare m1" "\<forall>j<length ?ms. j \<noteq> i \<longrightarrow> map_view T' (?ms ! j) = map_view T1 (?ms ! j)"
      unfolding l1(2) by blast
    have cmp: "m_compare m1 = m_compare ?m" using arg_cong [OF d(4), of m_compare] by simp
    have v: "map_view T1 m1 = map_view T ?m" using d(5) i l1(2) by force
    have "map_view T' (ms ! j) = map_view T (ms ! j)" if "j < length ms" "j \<noteq> i" for j
      using r(6) d(5) that by (metis length_list_update nth_list_update_neq)
    then show ?thesis using r eq cmp v
      by (intro exI [of _ r] exI [of _ m'] exI [of _ H'] exI [of _ T']) simp
  qed
qed

end
