(* ===== verification/MapSystem.thy ===== *)
theory MapSystem
  imports MapCow
begin

text \<open>
  Several maps that copy on write, with the copying, clearing and destroying of one of them, as a system of
  steps; its contents are those of maps that share nothing.
\<close>

section \<open>Clearing, copying and destroying\<close>

lemma map_ok_blank:
  assumes "m_data m' = None" and "m_size m' = 0" and "m_useCow m'" and "total_compare (m_compare m')"
  shows "map_ok H T m'" and "map_view T m' = (\<lambda>_. None)"
  using assms by (auto simp: map_ok_def map_view_def tree_of_def well_keyed_Leaf entries_def contents_def)

lemma contents_Nil [simp]: "contents cmp [] = (\<lambda>_. None)"
  by (simp add: fun_eq_iff contents_def)

lemma keys_sorted_Nil [simp]: "keys_sorted cmp []"
  by (simp add: keys_sorted_def)

lemma entries_of_Leaf [simp]: "entries Leaf = []"
  by (simp add: entries_def)

lemma clear_ok:
  assumes ok: "maps_ok H T ms" and i: "i < length ms"
  shows "\<exists>m' H' T'. VXMap_clear (ms ! i) H = Some (m', H') \<and> maps_ok H' T' (ms[i := m']) \<and>
    map_view T' m' = (\<lambda>_. None) \<and> m_compare m' = m_compare (ms ! i) \<and>
    (\<forall>j<length ms. j \<noteq> i \<longrightarrow> map_view T' (ms ! j) = map_view T (ms ! j))"
proof -
  let ?m = "ms ! i" and ?t = "tree_of T (ms ! i)"
  have mi: "?m \<in> set ms" using i by simp
  have m0: "map_ok H T ?m" using maps_okD(1) [OF ok mi] .
  show ?thesis
  proof (cases "alone ms i")
    case True
    have un: "unshared ?m H" using True by (intro map_ok_unshared [OF ok mi]) (simp add: alone_def)
    obtain m' H' where c: "VXMap_clear ?m H = Some (m', H')" "map_shows m' H' Leaf" "\<forall>x\<in>addrs ?t. map_nodes H' x = None"
      "only_changes ?m H H' (addrs ?t)" "same_place m' ?m"
      using clear_unshared [OF map_ok_shows [OF ok mi] un] by blast
    have a: "addrs Leaf \<subseteq> addrs ?t" "\<forall>x\<in>addrs ?t. x \<notin> addrs Leaf \<longrightarrow> map_nodes H' x = None" using c(3) by simp_all
    from maps_ok_step [OF ok i True c(2,5,4) a(1) _ a(2)] obtain T' where
      "maps_ok H' T' (ms[i := m'])" "map_view T' m' = contents (m_compare m') (pairs Leaf)"
      "\<forall>j<length ms. j \<noteq> i \<longrightarrow> map_view T' (ms ! j) = map_view T (ms ! j)"
      by blast
    then show ?thesis using c(1,5) by (intro exI [of _ m'] exI [of _ H'] exI [of _ T']) (simp add: same_place_def)
  next
    case False
    then obtain b where b: "m_data ?m = Some b" "users ms b \<noteq> 1" by (auto simp: alone_def)
    then have more: "1 < users ms b" using users_pos [OF i, of b] by simp
    obtain s where s: "map_blocks H b = Some s" "refCount s = word_of_nat (users ms b)" "T b \<noteq> Leaf"
      using maps_ok_block [OF ok mi b(1)] more by (auto simp: block_ok_def)
    let ?m' = "?m\<lparr>m_data := None, m_capacity := 0, m_size := 0\<rparr>"
    let ?H = "H\<lparr>map_blocks := (map_blocks H)(b \<mapsto> s\<lparr>refCount := refCount s - 1\<rparr>)\<rparr>"
    have blank: "map_ok H T ?m'" "map_view T ?m' = (\<lambda>_. None)"
      using map_ok_blank(1) [of ?m' H T] map_ok_blank(2) [of ?m' T] m0 by (simp_all add: map_ok_def well_keyed_def)
    have "\<not> refCount s \<le>s 1"
      using s(2) more count_last [of "users ms b"] users_le [of ms b] maps_okD(5) [OF ok] by simp
    moreover have "m_size ?m \<noteq> 0" using m0 b(1) s(3) by (simp add: map_ok_def tree_of_def)
    moreover have "XSharedData_isShared (m_data ?m) H = Some True" using map_ok_shared [OF ok mi b(1)] more by simp
    ultimately have "VXMap_clear ?m H = Some (?m', ?H)"
      using m0 b(1) s(1) by (simp add: VXMap_clear_def XSharedData_release_def Let_def map_ok_def)
    moreover have "maps_ok ?H T (ms[i := ?m'])"
      by (rule maps_ok_release [OF ok i b(1) s(1)]) (use blank more in simp_all)
    ultimately show ?thesis using blank(2) by (intro exI [of _ ?m'] exI [of _ ?H] exI [of _ T]) simp
  qed
qed

text \<open>What a map points to is given up: its place in the list takes any empty map.\<close>

lemma release_ok:
  assumes ok: "maps_ok H T ms" and i: "i < length ms"
  shows "\<exists>m1 H1. release_data (ms ! i) H = Some (m1, H1) \<and> m_useCow m1 \<and> m_compare m1 = m_compare (ms ! i) \<and>
    (\<forall>m'. m_data m' = None \<longrightarrow> map_ok H T m' \<longrightarrow> maps_ok H1 T (ms[i := m']))"
proof -
  let ?m = "ms ! i"
  have mi: "?m \<in> set ms" using i by simp
  have m0: "map_ok H T ?m" using maps_okD(1) [OF ok mi] .
  show ?thesis
  proof (cases "m_data ?m")
    case None
    then have "release_data ?m H = Some (?m, H)"
      using m0 by (simp add: release_data_def XSharedData_release_with_def map_ok_def)
    then show ?thesis using m0 maps_ok_empty [OF ok i None] by (simp add: map_ok_def)
  next
    case (Some b)
    obtain s where s: "map_blocks H b = Some s" "refCount s = word_of_nat (users ms b)"
      "rb_holds (map_nodes H) (shared_data s) (T b)"
      using maps_ok_block [OF ok mi Some] by (auto simp: block_ok_def)
    have last: "refCount s \<le>s 1 \<longleftrightarrow> users ms b = 1"
      using s(2) users_pos [OF i Some] count_last [of "users ms b"] users_le [of ms b] maps_okD(5) [OF ok] by auto
    note rel = maps_ok_release [OF ok i Some s(1)]
    show ?thesis
    proof (cases "users ms b = 1")
      case True
      let ?m1 = "?m\<lparr>m_data := None, m_capacity := 0, m_size := 0\<rparr>"
      let ?H = "H\<lparr>map_nodes := \<lambda>x. if x \<in> addrs (T b) then None else map_nodes H x, map_blocks := (map_blocks H)(b := None)\<rparr>"
      have "delete_nodes (shared_data s) (H\<lparr>map_blocks := B\<rparr>) =
          Some (H\<lparr>map_blocks := B, map_nodes := \<lambda>x. if x \<in> addrs (T b) then None else map_nodes H x\<rparr>)" for B
        using delete_nodes_tree [of "H\<lparr>map_blocks := B\<rparr>" "shared_data s" "T b"] s(3) by (simp cong: if_cong)
      then have "release_data ?m H = Some (?m1, ?H)"
        using m0 Some s(1) last True
        by (simp add: release_data_def XSharedData_release_with_def VXMapDataDelete_def map_ok_def Let_def)
      then show ?thesis using m0 rel [of _ ?H] True by (auto simp: map_ok_def)
    next
      case False
      let ?H = "H\<lparr>map_blocks := (map_blocks H)(b \<mapsto> s\<lparr>refCount := refCount s - 1\<rparr>)\<rparr>"
      have "release_data ?m H = Some (?m, ?H)"
        using m0 Some s(1) last False by (simp add: release_data_def XSharedData_release_with_def map_ok_def Let_def)
      then show ?thesis using m0 rel [of _ ?H] False by (auto simp: map_ok_def)
    qed
  qed
qed

lemma deinit_ok:
  assumes ok: "maps_ok H T ms" and i: "i < length ms" and tc: "total_compare cmp"
  shows "\<exists>m' H'. VXMap_deinit (ms ! i) H = Some (m', H') \<and> maps_ok H' T (ms[i := XMap_init cmp True])"
proof -
  obtain m1 H1 where "release_data (ms ! i) H = Some (m1, H1)"
    "\<forall>m'. m_data m' = None \<longrightarrow> map_ok H T m' \<longrightarrow> maps_ok H1 T (ms[i := m'])"
    using release_ok [OF ok i] by blast
  then show ?thesis using map_ok_blank(1) [of "XMap_init cmp True" H T] tc by (auto simp: VXMap_deinit_def XMap_init_def)
qed

lemma share_ok:
  assumes ok: "maps_ok H T ms1" and src: "src \<in> set ms1" and some: "m_data src \<noteq> None \<longrightarrow> tree_of T src \<noteq> Leaf"
    and m': "m_data m' = m_data src" "m_size m' = m_size src" "m_useCow m'" "m_compare m' = m_compare src"
    and us: "\<And>c. users ms' c = users ms1 c + (if m_data src = Some c then 1 else 0)" and len: "length ms' < 2 ^ 31"
    and set: "\<And>x. x \<in> set ms' \<Longrightarrow> x \<in> set ms1 \<or> x = m'"
  shows "\<exists>H'. XSharedData_addRef (m_data src) H = Some H' \<and> maps_ok H' T ms' \<and> map_view T m' = map_view T src"
proof -
  have m0: "map_ok H T src" using maps_okD(1) [OF ok src] .
  have mok: "map_ok H T m'" using m0 m' by (simp add: map_ok_def tree_of_def)
  have v: "map_view T m' = map_view T src" using m' by (simp add: map_view_def tree_of_def)
  show ?thesis
  proof (cases "m_data src")
    case None
    then have "users ms' c = users ms1 c" for c using us by simp
    then have "maps_ok H T ms'" using ok mok set len unfolding maps_ok_def by (auto dest: set)
    then show ?thesis using None v by (simp add: XSharedData_addRef_def)
  next
    case (Some b)
    obtain s where s: "map_blocks H b = Some s" using maps_ok_block [OF ok src Some] by blast
    have "T b \<noteq> Leaf" using some Some by (simp add: tree_of_def)
    from maps_ok_share [OF ok s this _ len set mok] us Some
    have "maps_ok (H\<lparr>map_blocks := (map_blocks H)(b \<mapsto> s\<lparr>refCount := refCount s + 1\<rparr>)\<rparr>) T ms'" by auto
    then show ?thesis using Some s v by (simp add: XSharedData_addRef_def)
  qed
qed

text \<open>A source with a block must not be empty.\<close>

lemma copy_new_ok:
  assumes ok: "maps_ok H T ms" and i: "i < length ms" and some: "m_data (ms ! i) \<noteq> None \<longrightarrow> tree_of T (ms ! i) \<noteq> Leaf"
    and len: "length ms + 1 < 2 ^ 31"
  shows "\<exists>m' H'. VXClass_copy a same None (ms ! i) H = Some (m', H') \<and> maps_ok H' T (ms @ [m']) \<and>
    map_view T m' = map_view T (ms ! i) \<and> m_compare m' = m_compare (ms ! i)"
proof -
  let ?src = "ms ! i"
  let ?m = "(XMap_init (m_compare ?src) True)\<lparr>m_data := m_data ?src, m_capacity := m_capacity ?src, m_size := m_size ?src\<rparr>"
  have src: "?src \<in> set ms" using i by simp
  have cow: "m_useCow ?src" using maps_okD(1) [OF ok src] by (simp add: map_ok_def)
  obtain H' where H': "XSharedData_addRef (m_data ?src) H = Some H'" "maps_ok H' T (ms @ [?m])" "map_view T ?m = map_view T ?src"
    using share_ok [OF ok src some, of ?m "ms @ [?m]"] len by (auto simp: XMap_init_def)
  have "VXClass_copy a same None ?src H = Some (?m, H')"
    using cow H'(1) by (simp add: VXClass_copy_def)
  then show ?thesis using H'(2,3) by (intro exI [of _ ?m] exI [of _ H']) (simp add: XMap_init_def)
qed

lemma copy_into_ok:
  assumes ok: "maps_ok H T ms" and i: "i < length ms" and j: "j < length ms" "j \<noteq> i"
    and some: "m_data (ms ! i) \<noteq> None \<longrightarrow> tree_of T (ms ! i) \<noteq> Leaf" and cmp: "m_compare (ms ! j) = m_compare (ms ! i)"
  shows "\<exists>m' H'. VXClass_copy a True (Some (ms ! j)) (ms ! i) H = Some (m', H') \<and> maps_ok H' T (ms[j := m']) \<and>
    map_view T m' = map_view T (ms ! i) \<and> m_compare m' = m_compare (ms ! i)"
proof -
  let ?src = "ms ! i"
  have src: "?src \<in> set ms" "ms ! j \<in> set ms" using i j by simp_all
  have cow: "m_useCow ?src" using maps_okD(1) [OF ok src(1)] by (simp add: map_ok_def)
  obtain m1 H1 where r: "release_data (ms ! j) H = Some (m1, H1)" "m_useCow m1" "m_compare m1 = m_compare (ms ! j)"
    "\<forall>m'. m_data m' = None \<longrightarrow> map_ok H T m' \<longrightarrow> maps_ok H1 T (ms[j := m'])"
    using release_ok [OF ok j(1)] by blast
  define e where "e = XMap_init (m_compare ?src) True"
  have "map_ok H T e"
    using map_ok_blank(1) [of e H T] maps_okD(1) [OF ok src(1)] by (simp add: e_def XMap_init_def map_ok_def well_keyed_def)
  then have ok1: "maps_ok H1 T (ms[j := e])" using r(4) by (simp add: e_def XMap_init_def)
  let ?m = "m1\<lparr>m_data := m_data ?src, m_capacity := m_capacity ?src, m_size := m_size ?src\<rparr>"
  have "m_data e = None" by (simp add: e_def XMap_init_def)
  then have us: "users (ms[j := ?m]) c = users (ms[j := e]) c + (if m_data ?src = Some c then 1 else 0)" for c
    using users_update [of j "ms[j := e]" ?m c] j(1) by simp
  have src1: "?src \<in> set (ms[j := e])" using i j nth_mem [of i "ms[j := e]"] by simp
  have "x \<in> set (ms[j := e]) \<or> x = ?m" if x: "x \<in> set (ms[j := ?m])" for x
  proof -
    have "ms[j := ?m] = (ms[j := e])[j := ?m]" by simp
    then show ?thesis using x set_update_subset_insert [of "ms[j := e]" j ?m] by auto
  qed
  from share_ok [OF ok1 src1 some, of ?m "ms[j := ?m]", OF _ _ _ _ us _ this] obtain H' where
    H': "XSharedData_addRef (m_data ?src) H1 = Some H'" "maps_ok H' T (ms[j := ?m])" "map_view T ?m = map_view T ?src"
    using r(2,3) cmp maps_okD(5) [OF ok] by auto
  have "VXClass_copy a True (Some (ms ! j)) ?src H = Some (?m, H')"
    using cow r(1) H'(1) by (simp add: VXClass_copy_def)
  then show ?thesis using H'(2,3) r(3) cmp by (intro exI [of _ ?m] exI [of _ H']) simp
qed

text \<open>A created map has nothing to give up, so a copy into it is a copy into new memory; a moved map leaves an
  empty one.\<close>

lemma release_data_init: "release_data (XMap_init cmp useCow) H = Some (XMap_init cmp useCow, H)"
  by (cases H) (simp add: release_data_def XMap_init_def XSharedData_release_with_def delete_nodes_def XTree_delete_def)

lemma XMap_create_copy_new: "XMap_create_copy al m H = VXClass_copy al same None m H"
  by (simp add: XMap_create_copy_def VXClass_copy_def release_data_init)

lemma XMap_create_move_leaves_empty:
  "XMap_create_move m H = Some (m, XMap_init (m_compare m) (m_useCow m), H)"
  by (simp add: XMap_create_move_def VXClass_move_def release_data_init) (simp add: XMap_init_def)

text \<open>A detached map that keeps its promises shares its tree with no other.\<close>

lemma XMap_isDetached_alone:
  assumes "maps_ok H T ms" and "i < length ms"
  shows "XMap_isDetached (ms ! i) H = Some (alone ms i)"
proof (cases "m_data (ms ! i)")
  case None
  then show ?thesis by (simp add: XMap_isDetached_def XSharedData_isShared_def alone_def)
next
  case (Some b)
  have "m_useCow (ms ! i)" using maps_okD(1) [OF assms(1)] assms(2) by (simp add: map_ok_def)
  then show ?thesis
    using map_ok_shared [OF assms(1) _ Some] assms(2) Some users_pos [OF assms(2) Some]
    by (auto simp: XMap_isDetached_def alone_def)
qed

section \<open>The system\<close>

text \<open>
  Maps with one comparison, in a list. Created maps are empty and copy on write; a destroyed map is initialised
  again before it is used. Every operation has allocations of its own, any of which may be refused, but for one:
  an insertion into a map that has no block is given the block. A map that has a block and is empty is not
  copied. What happens otherwise is stated with the properties of the map. The vector of the nodes grows when a
  map is detached.
\<close>

datatype ('k, 'v) map_event =
    Created
  | Inserted nat 'k 'v bool
  | Removed nat 'k bool
  | Cleared nat
  | Copied nat
  | Assigned nat nat
  | Destroyed nat

type_synonym ('k, 'v) maps_state = "'k XMap list \<times> ('k, 'v) map_memory"

definition no_memory :: "('k, 'v) map_memory" where
  "no_memory = \<lparr>map_nodes = Map.empty, map_blocks = Map.empty\<rparr>"

inductive map_step ::
  "('k \<Rightarrow> 'k \<Rightarrow> int) \<Rightarrow> ('k, 'v) maps_state \<Rightarrow> ('k, 'v) map_event \<Rightarrow> ('k, 'v) maps_state \<Rightarrow> bool"
  for cmp :: "'k \<Rightarrow> 'k \<Rightarrow> int" where
  created: "length ms + 1 < 2 ^ 31 \<Longrightarrow> map_step cmp (ms, H) Created (ms @ [XMap_init cmp True], H)"
| inserted: "i < length ms \<Longrightarrow> fresh_alloc a H \<Longrightarrow> (m_data (ms ! i) = None \<longrightarrow> new_block a \<noteq> None) \<Longrightarrow>
    VXMap_insert a k v (ms ! i) H = Some (r, m', H') \<Longrightarrow> map_step cmp (ms, H) (Inserted i k v r) (ms[i := m'], H')"
| removed: "i < length ms \<Longrightarrow> fresh_alloc a H \<Longrightarrow>
    VXMap_remove a k (ms ! i) H = Some (r, m', H') \<Longrightarrow> map_step cmp (ms, H) (Removed i k r) (ms[i := m'], H')"
| cleared: "i < length ms \<Longrightarrow> VXMap_clear (ms ! i) H = Some (m', H') \<Longrightarrow>
    map_step cmp (ms, H) (Cleared i) (ms[i := m'], H')"
| copied: "i < length ms \<Longrightarrow> m_data (ms ! i) = None \<or> m_size (ms ! i) \<noteq> 0 \<Longrightarrow> length ms + 1 < 2 ^ 31 \<Longrightarrow>
    VXClass_copy a True None (ms ! i) H = Some (m', H') \<Longrightarrow> map_step cmp (ms, H) (Copied i) (ms @ [m'], H')"
| assigned: "i < length ms \<Longrightarrow> j < length ms \<Longrightarrow> j \<noteq> i \<Longrightarrow> m_data (ms ! i) = None \<or> m_size (ms ! i) \<noteq> 0 \<Longrightarrow>
    VXClass_copy a True (Some (ms ! j)) (ms ! i) H = Some (m', H') \<Longrightarrow>
    map_step cmp (ms, H) (Assigned j i) (ms[j := m'], H')"
| destroyed: "i < length ms \<Longrightarrow> VXMap_deinit (ms ! i) H = Some (m', H') \<Longrightarrow>
    map_step cmp (ms, H) (Destroyed i) (ms[i := XMap_init cmp True], H')"

inductive map_trace :: "('k \<Rightarrow> 'k \<Rightarrow> int) \<Rightarrow> ('k, 'v) map_event list \<Rightarrow> ('k, 'v) maps_state \<Rightarrow> bool"
  for cmp :: "'k \<Rightarrow> 'k \<Rightarrow> int" where
  start: "map_trace cmp [] ([], no_memory)"
| step: "map_trace cmp es st \<Longrightarrow> map_step cmp st e st' \<Longrightarrow> map_trace cmp (es @ [e]) st'"

text \<open>The same events on independent maps.\<close>

fun spec_step :: "('k \<Rightarrow> 'k \<Rightarrow> int) \<Rightarrow> ('k, 'v) map_event \<Rightarrow> ('k \<Rightarrow> 'v option) list \<Rightarrow> ('k \<Rightarrow> 'v option) list" where
  "spec_step cmp Created fs = fs @ [\<lambda>_. None]"
| "spec_step cmp (Inserted i k v r) fs = (if r then fs[i := put_content cmp k (Some v) (fs ! i)] else fs)"
| "spec_step cmp (Removed i k r) fs = (if r then fs[i := put_content cmp k None (fs ! i)] else fs)"
| "spec_step cmp (Cleared i) fs = fs[i := (\<lambda>_. None)]"
| "spec_step cmp (Copied i) fs = fs @ [fs ! i]"
| "spec_step cmp (Assigned j i) fs = fs[j := fs ! i]"
| "spec_step cmp (Destroyed i) fs = fs[i := (\<lambda>_. None)]"

definition spec_trace :: "('k \<Rightarrow> 'k \<Rightarrow> int) \<Rightarrow> ('k, 'v) map_event list \<Rightarrow> ('k \<Rightarrow> 'v option) list" where
  "spec_trace cmp es = fold (spec_step cmp) es []"

lemma spec_trace_snoc: "spec_trace cmp (es @ [e]) = spec_step cmp e (spec_trace cmp es)"
  by (simp add: spec_trace_def)

definition refines :: "('k \<Rightarrow> 'k \<Rightarrow> int) \<Rightarrow> ('k, 'v) maps_state \<Rightarrow> ('k \<Rightarrow> 'v option) list \<Rightarrow> bool" where
  "refines cmp st fs \<longleftrightarrow>
     (\<exists>T. maps_ok (snd st) T (fst st) \<and> (\<forall>m\<in>set (fst st). m_compare m = cmp) \<and> map (map_view T) (fst st) = fs)"

text \<open>One map of the list is replaced.\<close>

lemma refines_update:
  assumes "i < length ms" and "map (map_view T) ms = fs" and "\<forall>m\<in>set ms. m_compare m = cmp"
    and "maps_ok H' T' (ms[i := m'])" and "m_compare m' = cmp" and "map_view T' m' = f"
    and "\<forall>j<length ms. j \<noteq> i \<longrightarrow> map_view T' (ms ! j) = map_view T (ms ! j)"
  shows "refines cmp (ms[i := m'], H') (fs[i := f])"
proof -
  have "map (map_view T') (ms[i := m']) = fs[i := f]"
    using assms(1,2,6,7) by (auto intro!: nth_equalityI simp: nth_list_update)
  moreover have "\<forall>m\<in>set (ms[i := m']). m_compare m = cmp"
    using assms(3,5) set_update_subset_insert [of ms i m'] by auto
  ultimately show ?thesis using assms(4) by (auto simp: refines_def)
qed

lemma copy_condition:
  assumes "maps_ok H T ms" and "i < length ms" and "m_data (ms ! i) = None \<or> m_size (ms ! i) \<noteq> 0"
  shows "m_data (ms ! i) \<noteq> None \<longrightarrow> tree_of T (ms ! i) \<noteq> Leaf"
  using maps_okD(1) [OF assms(1), of "ms ! i"] assms(2,3) by (auto simp: map_ok_def)

lemma map_step_refines:
  assumes "map_step cmp st e st'" and "refines cmp st fs" and tc: "total_compare cmp"
  shows "refines cmp st' (spec_step cmp e fs)"
proof -
  obtain T where T: "maps_ok (snd st) T (fst st)" "\<forall>m\<in>set (fst st). m_compare m = cmp" "map (map_view T) (fst st) = fs"
    using assms(2) by (auto simp: refines_def)
  show ?thesis using assms(1)
  proof cases
    case (created ms H)
    have e: "map_ok H T (XMap_init cmp True)" "map_view T (XMap_init cmp True) = (\<lambda>_. None)"
      using tc by (intro map_ok_blank; simp add: XMap_init_def)+
    have "users (ms @ [XMap_init cmp True]) c = users ms c" for c by (simp add: XMap_init_def)
    then have "maps_ok H T (ms @ [XMap_init cmp True])" using T(1) created e(1) unfolding maps_ok_def by auto
    then show ?thesis using T(2,3) created e(2) by (auto simp: refines_def XMap_init_def)
  next
    case (inserted i ms a H k v r m' H')
    have ok: "maps_ok H T ms" using T(1) inserted(1) by simp
    obtain T' where T': "maps_ok H' T' (ms[i := m'])"
      "map_view T' m' = (if r then put_content (m_compare (ms ! i)) k (Some v) (map_view T (ms ! i)) else map_view T (ms ! i))"
      "m_compare m' = m_compare (ms ! i)" "\<forall>j<length ms. j \<noteq> i \<longrightarrow> map_view T' (ms ! j) = map_view T (ms ! j)"
      using insert_ok [OF ok inserted(4-6), of k v] inserted(7) by auto
    have c: "m_compare (ms ! i) = cmp" using T(2) inserted by simp
    have f: "fs ! i = map_view T (ms ! i)" using T(3) inserted by auto
    then have "fs[i := map_view T (ms ! i)] = fs" by (metis list_update_id)
    then show ?thesis
      using refines_update [OF inserted(4) _ _ T'(1) _ T'(2,4), of fs cmp] T(2,3) T'(3) c inserted(1,2,3)
      f by (simp split: if_splits)
  next
    case (removed i ms a H k r m' H')
    have ok: "maps_ok H T ms" using T(1) removed(1) by simp
    obtain T' where T': "maps_ok H' T' (ms[i := m'])"
      "map_view T' m' = (if r then put_content (m_compare (ms ! i)) k None (map_view T (ms ! i)) else map_view T (ms ! i))"
      "m_compare m' = m_compare (ms ! i)" "\<forall>j<length ms. j \<noteq> i \<longrightarrow> map_view T' (ms ! j) = map_view T (ms ! j)"
      using remove_ok [OF ok removed(4,5), of k] removed(6) by auto
    have c: "m_compare (ms ! i) = cmp" using T(2) removed by simp
    have f: "fs ! i = map_view T (ms ! i)" using T(3) removed by auto
    then have "fs[i := map_view T (ms ! i)] = fs" by (metis list_update_id)
    then show ?thesis
      using refines_update [OF removed(4) _ _ T'(1) _ T'(2,4), of fs cmp] T(2,3) T'(3) c removed(1,2,3)
      f by (simp split: if_splits)
  next
    case (cleared i ms H m' H')
    have ok: "maps_ok H T ms" using T(1) cleared(1) by simp
    obtain T' where T': "maps_ok H' T' (ms[i := m'])" "map_view T' m' = (\<lambda>_. None)"
      "m_compare m' = m_compare (ms ! i)" "\<forall>j<length ms. j \<noteq> i \<longrightarrow> map_view T' (ms ! j) = map_view T (ms ! j)"
      using clear_ok [OF ok cleared(4)] cleared(5) by auto
    have c: "m_compare (ms ! i) = cmp" using T(2) cleared by simp
    show ?thesis
      using refines_update [OF cleared(4) _ _ T'(1) _ T'(2,4), of fs cmp] T(2,3) T'(3) c cleared(1,2,3) by simp
  next
    case (copied i ms a H m' H')
    have ok: "maps_ok H T ms" using T(1) copied(1) by simp
    have m': "maps_ok H' T (ms @ [m'])" "map_view T m' = map_view T (ms ! i)" "m_compare m' = m_compare (ms ! i)"
      using copy_new_ok [OF ok copied(4) copy_condition [OF ok copied(4,5)] copied(6), of a True] copied(7) by auto
    then show ?thesis using T(2,3) copied by (auto simp: refines_def intro!: exI [of _ T])
  next
    case (assigned i ms j a H m' H')
    have ok: "maps_ok H T ms" using T(1) assigned(1) by simp
    have c: "m_compare (ms ! i) = cmp" "m_compare (ms ! j) = cmp" using T(2) assigned by simp_all
    have m': "maps_ok H' T (ms[j := m'])" "map_view T m' = map_view T (ms ! i)" "m_compare m' = m_compare (ms ! i)"
      using copy_into_ok [OF ok assigned(4,5,6) copy_condition [OF ok assigned(4,7)], of a] c assigned(8) by auto
    have "fs ! i = map_view T (ms ! i)" using T(3) assigned by auto
    then show ?thesis
      using refines_update [OF assigned(5) _ _ m'(1) _ m'(2), of T fs cmp] T(2,3) m'(3) c assigned(1,2,3) by simp
  next
    case (destroyed i ms H m' H')
    have ok: "maps_ok H T ms" using T(1) destroyed(1) by simp
    have m: "maps_ok H' T (ms[i := XMap_init cmp True])"
      using deinit_ok [OF ok destroyed(4) tc] destroyed(5) by auto
    have "map_view T (XMap_init cmp True) = (\<lambda>_. None)" by (intro map_ok_blank(2)) (simp_all add: XMap_init_def tc)
    then show ?thesis
      using refines_update [OF destroyed(4) _ _ m _ _, of T fs cmp "\<lambda>_. None"] T(2,3) destroyed(1,2,3)
      by (simp add: XMap_init_def)
  qed
qed

lemma map_trace_refines:
  assumes "map_trace cmp es st" and "total_compare cmp"
  shows "refines cmp st (spec_trace cmp es)"
  using assms(1)
proof induction
  case start
  then show ?case by (auto simp: refines_def spec_trace_def maps_ok_def no_memory_def)
next
  case (step es st e st')
  then show ?case using map_step_refines [OF step.hyps(2) step.IH assms(2)] by (simp add: spec_trace_snoc)
qed

end
