(* ===== verification/MapFaults.thy ===== *)
theory MapFaults
  imports MapSystem
begin

text \<open>
  That the operations of a shared map return, whatever the allocator does, and what happens where the sharing
  fails: an empty tree with two maps, a map moved into a sharing one, and a map that gets no block.
\<close>

section \<open>A map without a block\<close>

lemma find_blank: "m_size m = 0 \<Longrightarrow> VXMap_find m H k = Some None"
  by (simp add: VXMap_find_def)

lemma root_ptr_blank: "m_useCow m \<Longrightarrow> m_data m = None \<Longrightarrow> XMap_root_ptr m = None"
  by (simp add: XMap_root_ptr_def)

text \<open>The node of the first insertion is linked nowhere when the block is refused.\<close>

lemma insert_without_block:
  assumes m: "m_useCow m" "m_data m = None" "m_size m = 0" and refused: "new_block al = None"
  shows "VXMap_insert al k v m H =
    (if \<not> (m_pairBuffer m \<or> buffer_ok al) then Some (False, m, H)
     else case new_node al of
         None \<Rightarrow> Some (False, m\<lparr>m_pairBuffer := True\<rparr>, H)
       | Some a \<Rightarrow> Some (True, m\<lparr>m_pairBuffer := True, m_capacity := m_capacity m + 1, m_size := 1\<rparr>,
           H\<lparr>map_nodes := (map_nodes H)(a \<mapsto> (XRBTree_init (k, v))\<lparr>color := XRBTreeBlack\<rparr>)\<rparr>))"
proof -
  have "m\<lparr>m_data := None\<rparr> = m" using m(2) by simp
  then show ?thesis
  using m refused
  by (auto simp: VXMap_insert_def VXMapDetachIfNeeded_def XSharedData_isShared_def find_blank ensure_block_def
    XSharedData_create_ex_def link_new_node_def XRBTree_create_ex_def root_ptr_blank XRBTree_insertNode_def
    XBBTree_insertAlign_def XRBTree_SetColor_def modify_def split: option.splits)
qed

section \<open>The operations return\<close>

lemma insert_returns:
  assumes ok: "maps_ok H T ms" and i: "i < length ms" and fresh: "fresh_alloc a H"
  shows "VXMap_insert a k v (ms ! i) H \<noteq> None"
proof (cases "m_data (ms ! i) = None \<and> new_block a = None")
  case True
  then have "m_useCow (ms ! i)" "m_size (ms ! i) = 0"
    using maps_okD(1) [OF ok, of "ms ! i"] i by (simp_all add: map_ok_def tree_of_def)
  then show ?thesis using insert_without_block [of "ms ! i" a k v H] True by (auto split: option.split)
next
  case False
  then show ?thesis using insert_ok [OF ok i fresh, of k v] by auto
qed

lemma erase_returns:
  assumes ok: "maps_ok H T ms" and i: "i < length ms" and fresh: "fresh_alloc a H"
  shows "\<exists>p. VXMap_find (ms ! i) H k = Some p \<and> VXMap_erase a p (ms ! i) H \<noteq> None"
proof -
  let ?m = "ms ! i"
  have m: "map_shows ?m H (tree_of T ?m)" using map_ok_shows [OF ok] i by simp
  then obtain root where root: "rb_holds (map_nodes H) root (tree_of T ?m)" by (auto simp: map_shows_def)
  obtain p where p: "VXMap_find ?m H k = Some p"
    "case p of None \<Rightarrow> True | Some b \<Rightarrow> \<exists>L k' v R. entries (tree_of T ?m) = L @ (b, (k', v)) # R \<and> m_compare ?m k' k = 0"
    using find_shows [OF m, of k] by (fastforce split: option.splits)
  have "VXMap_erase a p ?m H \<noteq> None"
  proof (cases p)
    case (Some b)
    then obtain d where "(b, d) \<in> set (entries (tree_of T ?m))" using p(2) by fastforce
    then obtain n where n: "map_nodes H b = Some n" using node_of_entry [OF root] by blast
    from detach_cases [OF ok i fresh] show ?thesis
    proof (elim disjE exE conjE)
      assume "VXMapDetachIfNeeded a ?m H = Some (False, ?m, H)"
      then show ?thesis using Some n by (simp add: VXMap_erase_def)
    next
      fix m1 H1 T1
      assume d: "VXMapDetachIfNeeded a ?m H = Some (True, m1, H1)" "maps_ok H1 T1 (ms[i := m1])"
      have "map_shows m1 H1 (tree_of T1 m1)" using map_ok_shows [OF d(2)] i by (auto simp: set_update_memI)
      from tree_remove_map [OF this, of a "fst (node_data n)"] show ?thesis
        using Some n d(1) by (auto simp: VXMap_erase_def)
    qed
  qed (simp add: VXMap_erase_def)
  then show ?thesis using p(1) by blast
qed

lemma addRef_returns:
  assumes "map_ok H T m"
  shows "XSharedData_addRef (m_data m) H \<noteq> None"
  using assms by (auto simp: map_ok_def XSharedData_addRef_def split: option.splits)

lemma copy_returns:
  assumes ok: "maps_ok H T ms" and i: "i < length ms"
  shows "VXClass_copy a same None (ms ! i) H \<noteq> None"
    and "j < length ms \<Longrightarrow> j \<noteq> i \<Longrightarrow> VXClass_copy a same (Some (ms ! j)) (ms ! i) H \<noteq> None"
proof -
  have m: "map_ok H T (ms ! i)" using maps_okD(1) [OF ok] i by simp
  then have cow: "m_useCow (ms ! i)" by (simp add: map_ok_def)
  then show "VXClass_copy a same None (ms ! i) H \<noteq> None"
    using addRef_returns [OF m] by (auto simp: VXClass_copy_def)
  assume j: "j < length ms" "j \<noteq> i"
  obtain m1 H1 where r: "release_data (ms ! j) H = Some (m1, H1)"
    "\<forall>m'. m_data m' = None \<longrightarrow> map_ok H T m' \<longrightarrow> maps_ok H1 T (ms[j := m'])"
    using release_ok [OF ok j(1)] by blast
  have "map_ok H T (XMap_init (m_compare (ms ! i)) True)"
    using m by (intro map_ok_blank(1)) (simp_all add: XMap_init_def map_ok_def well_keyed_def)
  then have "maps_ok H1 T (ms[j := XMap_init (m_compare (ms ! i)) True])" using r(2) by (simp add: XMap_init_def)
  then have "map_ok H1 T (ms ! i)"
    using maps_okD(1) i j nth_mem [of i "ms[j := XMap_init (m_compare (ms ! i)) True]"] by fastforce
  from addRef_returns [OF this] show "VXClass_copy a same (Some (ms ! j)) (ms ! i) H \<noteq> None"
    using cow r(1) by (auto simp: VXClass_copy_def)
qed

lemma move_returns:
  assumes ok: "maps_ok H T ms" and j: "j < length ms"
  shows "VXClass_move (Some (ms ! j)) src H \<noteq> None"
  using release_ok [OF ok j] by (auto simp: VXClass_move_def)

lemma detach_returns:
  assumes ok: "maps_ok H T ms" and i: "i < length ms" and fresh: "fresh_alloc a H"
  shows "XMap_detach a (ms ! i) H \<noteq> None"
  using detach_cases [OF ok i fresh] by (auto simp: XMap_detach_def)

section \<open>A shared empty tree\<close>

text \<open>The keys depend on the place of the root alone.\<close>

lemma keys_place: "m_useCow m = m_useCow m' \<Longrightarrow> m_data m = m_data m' \<Longrightarrow> VXMapBase_keys m H = VXMapBase_keys m' H"
  by (simp add: VXMapBase_keys_def XMap_begin_def XMap_root_def XMap_root_ptr_def read_root_def split: option.splits)

lemma empty_block:
  assumes ok: "maps_ok H T ms" and i: "i < length ms" "m_data (ms ! i) = Some b" "m_size (ms ! i) = 0"
  shows "map_blocks H b = Some \<lparr>refCount = 1, shared_data = None\<rparr>"
proof -
  have mi: "ms ! i \<in> set ms" using i(1) by simp
  have leaf: "T b = Leaf" using maps_okD(1) [OF ok mi] i(2,3) by (simp add: map_ok_def tree_of_def)
  obtain s where s: "map_blocks H b = Some s" "rb_holds (map_nodes H) (shared_data s) (T b)" "refCount s = word_of_nat (users ms b)"
    "1 < users ms b \<longrightarrow> T b \<noteq> Leaf"
    using maps_ok_block [OF ok mi i(2)] by (auto simp: block_ok_def)
  then have "users ms b = 1" using leaf users_pos [OF i(1,2)] by auto
  moreover have "shared_data s = None"
    using s(2) leaf by (cases "shared_data s") (simp_all add: rb_holds_def holds_def)
  ultimately show ?thesis using s(1,3) by (cases s) simp
qed

lemma empty_copy_insert:
  assumes ok: "maps_ok H T ms" and i: "i < length ms" "m_data (ms ! i) = Some b" "m_size (ms ! i) = 0"
    and a: "new_node al = Some a" "map_nodes H a = None" "buffer_ok al"
  shows "\<exists>m2 H2 m3 H3. VXClass_copy al True None (ms ! i) H = Some (m2, H2) \<and>
    VXMap_insert al k v m2 H2 = Some (True, m3, H3) \<and> VXMap_value m3 H3 k = Some (Some v) \<and>
    VXMapBase_keys (ms ! i) H3 = Some [k]"
proof -
  let ?m = "ms ! i" and ?cmp = "m_compare (ms ! i)"
  let ?H2 = "H\<lparr>map_blocks := (map_blocks H)(b \<mapsto> \<lparr>refCount = 2, shared_data = None\<rparr>)\<rparr>"
  let ?m2 = "(XMap_init ?cmp True)\<lparr>m_data := Some b, m_capacity := m_capacity ?m, m_size := 0\<rparr>"
  let ?m3 = "?m2\<lparr>m_pairBuffer := True\<rparr>"
  have m0: "m_useCow ?m" "total_compare ?cmp"
    using maps_okD(1) [OF ok, of ?m] i(1) by (simp_all add: map_ok_def well_keyed_def)
  note block = empty_block [OF ok i]
  have copy: "VXClass_copy al True None ?m H = Some (?m2, ?H2)"
    using m0(1) i(2,3) block by (simp add: VXClass_copy_def XSharedData_addRef_def XMap_init_def)
  have shows_Leaf: "map_shows ?m3 ?H2 Leaf"
    using m0(2) by (simp add: map_shows_def XMap_init_def XMap_root_def XMap_root_ptr_def read_root_def rb_holds_Leaf
      well_keyed_Leaf)
  have ptr: "XMap_root_ptr ?m3 = Some (BlockRoot b)" by (simp add: XMap_root_ptr_def XMap_init_def)
  have cmp: "m_compare ?m3 = ?cmp" by (simp add: XMap_init_def)
  obtain root root1 h5 m' H' t' where n: "read_root ?m3 ?H2 (BlockRoot b) = Some root"
    "XRBTree_insertNode (XCompareRuleTwo_XMap ?cmp) (Some root) a ((map_nodes ?H2)(a \<mapsto> XRBTree_init (k, v))) =
      Some (Some a, Some root1, h5)"
    "write_root root1 ?m3 (?H2\<lparr>map_nodes := h5\<rparr>) (BlockRoot b) = Some (m', H')"
    "map_shows (m'\<lparr>m_capacity := m_capacity m' + 1, m_size := m_size m' + 1\<rparr>) H' t'"
    "contents ?cmp (pairs t') = put_content ?cmp k (Some v) (contents ?cmp (pairs Leaf))" "same_place m' ?m3"
    "entries t' = [(a, (k, v))]"
    using insert_new_map [OF shows_Leaf ptr, of a k v] a(2) unfolding cmp by auto
  let ?m4 = "m'\<lparr>m_capacity := m_capacity m' + 1, m_size := m_size m' + 1\<rparr>"
  have "VXMapDetachIfNeeded al ?m2 ?H2 = Some (True, ?m2, ?H2)"
    by (simp add: VXMapDetachIfNeeded_def XMap_init_def XSharedData_isShared_def XMap_root_def XMap_root_ptr_def
      read_root_def)
  moreover have "link_new_node al k v ?m3 ?H2 = Some (True, ?m4, H')"
    using n(1,2,3) a(1) ptr cmp by (simp add: link_new_node_def XRBTree_create_ex_def)
  moreover have "ensure_block al ?m3 ?H2 = (?m3, ?H2)" by (simp add: ensure_block_def)
  ultimately have ins: "VXMap_insert al k v ?m2 ?H2 = Some (True, ?m4, H')"
    using a(3) by (simp add: VXMap_insert_def find_blank)
  have "m_compare m' = ?cmp" "m_useCow m'" "m_data m' = Some b"
    using n(6) cmp by (simp_all add: same_place_def XMap_init_def)
  then have "VXMap_value ?m4 H' k = Some (Some v)" "VXMapBase_keys ?m4 H' = Some [k]"
    using value_shows [OF n(4), of k] keys_shows [OF n(4)] n(5,7) key_laws.cmp_refl [of ?cmp k] m0(2)
    by (simp_all add: put_content_def key_laws_def)
  moreover have "VXMapBase_keys ?m H' = VXMapBase_keys ?m4 H'"
    using \<open>m_useCow m'\<close> \<open>m_data m' = Some b\<close> m0(1) i(2) by (intro keys_place) simp_all
  ultimately show ?thesis using copy ins by auto
qed

section \<open>Moving into a sharing map\<close>

lemma move_into_shared:
  assumes ok: "maps_ok H T ms" and ij: "i < length ms" "j < length ms"
    and b: "m_data (ms ! i) = Some b" "m_data (ms ! j) = Some b" "users ms b = 2"
  shows "\<exists>C' H1 C'' H2. VXClass_move (Some (ms ! i)) src H = Some (src, C', H1) \<and> m_data C' = Some b \<and> m_size C' = 0 \<and>
    VXMap_value (ms ! j) H1 k = VXMap_value (ms ! j) H k \<and>
    VXMap_deinit C' H1 = Some (C'', H2) \<and> VXMap_value (ms ! j) H2 k = None"
proof -
  have mi: "ms ! i \<in> set ms" "ms ! j \<in> set ms" using ij by simp_all
  obtain s where s: "map_blocks H b = Some s" "rb_holds (map_nodes H) (shared_data s) (T b)" "refCount s = 2" "T b \<noteq> Leaf"
    using maps_ok_block [OF ok mi(1) b(1)] b(3) by (auto simp: block_ok_def)
  have cow: "m_useCow (ms ! i)" "m_useCow (ms ! j)" "m_size (ms ! j) \<noteq> 0"
    using maps_okD(1) [OF ok mi(1)] maps_okD(1) [OF ok mi(2)] b(2) s(4) by (simp_all add: map_ok_def tree_of_def)
  let ?C = "(ms ! i)\<lparr>m_capacity := 0, m_size := 0\<rparr>"
  let ?H1 = "H\<lparr>map_blocks := (map_blocks H)(b \<mapsto> s\<lparr>refCount := 1\<rparr>)\<rparr>"
  have two: "\<not> (2 :: 32 word) \<le>s 1" "(2 :: 32 word) - 1 = 1" "(1 :: 32 word) \<le>s 1" by (simp_all add: word_sle_eq)
  have "release_data (ms ! i) H = Some (ms ! i, ?H1)"
    using cow(1) b(1) s(1,3) two by (simp add: release_data_def XSharedData_release_with_def Let_def)
  then have move: "VXClass_move (Some (ms ! i)) src H = Some (src, ?C, ?H1)" by (simp add: VXClass_move_def)
  have "VXMap_find (ms ! j) ?H1 k = VXMap_find (ms ! j) H k"
    using cow(2) b(2) s(1) by (simp add: VXMap_find_def XMap_root_def XMap_root_ptr_def read_root_def)
  moreover have "map_nodes ?H1 = map_nodes H" by simp
  ultimately have same: "VXMap_value (ms ! j) ?H1 k = VXMap_value (ms ! j) H k"
    by (simp only: VXMap_value_def)
  have del: "delete_nodes (shared_data s) (H\<lparr>map_blocks := B\<rparr>) =
      Some (H\<lparr>map_blocks := B, map_nodes := \<lambda>x. if x \<in> addrs (T b) then None else map_nodes H x\<rparr>)" for B
    using delete_nodes_tree [of "H\<lparr>map_blocks := B\<rparr>" "shared_data s" "T b"] s(2) by (simp cong: if_cong)
  obtain C'' H2 where deinit: "VXMap_deinit ?C ?H1 = Some (C'', H2)" "map_blocks H2 b = None"
    using cow(1) b(1) s(1) two del
    by (simp add: VXMap_deinit_def release_data_def XSharedData_release_with_def VXMapDataDelete_def Let_def)
  then have "VXMap_value (ms ! j) H2 k = None"
    using cow(2,3) b(2) by (simp add: VXMap_value_def VXMap_find_def XMap_root_def XMap_root_ptr_def read_root_def)
  then show ?thesis using move same deinit(1) b(1) by (intro exI [of _ ?C] exI [of _ ?H1] exI [of _ C''] exI [of _ H2]) simp
qed

end
