(* ===== verification/RedBlackProps.thy ===== *)
theory RedBlackProps
  imports RedBlackWalk
begin

text \<open>
  The properties of the red-black tree: what insertion and removal do to the entries and to the balance,
  what the traversals and the successor give, and what deletion frees.
\<close>

section \<open>Height\<close>

lemma black_height_size: "heights_ok t \<Longrightarrow> 2 ^ black_height t \<le> size1 t"
proof (induction t rule: colors_ok.induct)
  case (2 l a c d r)
  then have "2 ^ black_height l \<le> size1 l" "2 ^ black_height r \<le> size1 r" "black_height l = black_height r"
    by auto
  then show ?case by simp
qed simp

lemma height_black_height:
  "balanced_rb t \<Longrightarrow> height t \<le> 2 * black_height t + (if tree_color t = XRBTreeRed then 1 else 0)"
proof (induction t rule: colors_ok.induct)
  case (2 l a c d r)
  then have "height l \<le> 2 * black_height l + (if tree_color l = XRBTreeRed then 1 else 0)"
    "height r \<le> 2 * black_height r + (if tree_color r = XRBTreeRed then 1 else 0)"
    "black_height l = black_height r" "c = XRBTreeRed \<Longrightarrow> tree_color l = XRBTreeBlack \<and> tree_color r = XRBTreeBlack"
    by (auto simp: balanced_rb_def)
  then show ?case by (cases c) (auto split: if_splits)
qed simp

lemma red_black_height:
  assumes "red_black t"
  shows "2 ^ ((height t + 1) div 2) \<le> length (entries t) + 1"
proof -
  have "(height t + 1) div 2 \<le> black_height t"
    using height_black_height [of t] assms by (simp add: red_black_def)
  then have "(2 :: nat) ^ ((height t + 1) div 2) \<le> 2 ^ black_height t" by (intro power_increasing) simp_all
  also have "\<dots> \<le> size1 t" using assms by (intro black_height_size) (simp add: red_black_def balanced_rb_def)
  finally show ?thesis by (simp add: entries_def size1_size)
qed

section \<open>Samples\<close>

definition rb_node :: "ptr \<Rightarrow> ptr \<Rightarrow> ptr \<Rightarrow> XRBTreeColor \<Rightarrow> 'a \<Rightarrow> 'a XRBTreeNode" where
  "rb_node p l r c d = \<lparr>parentNode = p, LChild = l, RChild = r, node_data = d, color = c\<rparr>"

definition sample_store :: "int rb_store" where
  "sample_store = [0 \<mapsto> rb_node None (Some 1) (Some 2) XRBTreeBlack 5, 1 \<mapsto> rb_node (Some 0) None None XRBTreeRed 3,
     2 \<mapsto> rb_node (Some 0) None None XRBTreeRed 8]"

definition sample_tree :: "int rb_tree" where
  "sample_tree = Node (Node Leaf (1, XRBTreeRed, 3) Leaf) (0, XRBTreeBlack, 5) (Node Leaf (2, XRBTreeRed, 8) Leaf)"

lemma sample_holds: "rb_holds sample_store (Some 0) sample_tree"
  by (simp add: sample_store_def sample_tree_def rb_node_def rb_holds_def holds_def rb_label_def red_black_def balanced_Node)

lemma sample_entries: "entries sample_tree = [(1, 3), (0, 5), (2, 8)]"
  by (simp add: sample_tree_def entries_def)

lemma sample_order: "in_sequence int_compare (entries sample_tree)" "key_order int_compare 5 (entries sample_tree)"
  by (simp_all add: sample_entries key_order_def int_compare_def XCompare_defs)

section \<open>Properties\<close>

text \<open>
  C5: Insertion into a red-black tree. The new node, with its address, goes behind the entries that are
  not greater and before the others; the tree stays red-black, so its height stays logarithmic, and nodes
  outside the tree keep their contents.
\<close>

lemma rb_insert_keeps_order_and_balance:
  assumes "total_compare cmp" and "rb_holds h root t" and "in_sequence cmp (entries t)" and "h a = None"
  shows "\<exists>root' h' t' L R. XRBTree_insert cmp (Some root) (Some a) x h = Some (Some a, Some root', h') \<and>
    rb_holds h' root' t' \<and> entries t = L @ R \<and> entries t' = L @ (a, x) # R \<and> splits_at cmp x L R \<and>
    in_sequence cmp (entries t') \<and> 2 ^ ((height t' + 1) div 2) \<le> length (entries t') + 1 \<and>
    same_outside h' h (insert a (addrs t))"
proof -
  obtain root' h' t' L R where 1: "XRBTree_insert cmp (Some root) (Some a) x h = Some (Some a, Some root', h')"
    "rb_holds h' root' t'" "entries t = L @ R" "entries t' = L @ (a, x) # R" "splits_at cmp x L R"
    "same_outside h' h (insert a (addrs t))"
    using XRBTree_insert_red_black [OF assms, of x] by blast
  moreover have "in_sequence cmp (entries t')"
    using in_sequence_insert [OF assms(1) _ 1(5), of a] assms(3) 1(3,4) by simp
  moreover have "2 ^ ((height t' + 1) div 2) \<le> length (entries t') + 1"
    using 1(2) by (intro red_black_height) (simp add: rb_holds_def)
  ultimately show ?thesis by blast
qed

lemma rb_insert_keeps_order_and_balance_witness:
  "\<exists>root' h' t' L R. XRBTree_insert int_compare (Some (Some 0)) (Some 7) 5 sample_store = Some (Some 7, Some root', h') \<and>
    rb_holds h' root' t' \<and> entries sample_tree = L @ R \<and> entries t' = L @ (7, 5) # R \<and> splits_at int_compare 5 L R \<and>
    in_sequence int_compare (entries t') \<and> 2 ^ ((height t' + 1) div 2) \<le> length (entries t') + 1 \<and>
    same_outside h' sample_store (insert 7 (addrs sample_tree))"
  by (rule rb_insert_keeps_order_and_balance [OF int_compare_total sample_holds sample_order(1)]) (simp add: sample_store_def)

text \<open>
  C6: Removal by key. When some entry matches, exactly one matching entry leaves, the other entries keep their
  order and the tree stays red-black. The node returned is no longer in the tree and still holds the entry that
  left, so the caller can destroy and free it. When no entry matches, nothing changes. The one exception is a
  matching node with two children while the buffer for the exchange of its data cannot be allocated: then nothing
  changes and NULL is returned, as when no entry matches.
\<close>

lemma rb_remove_removes_one:
  assumes "rb_holds h root t" and "key_order rule k (entries t)"
  shows "if \<forall>e\<in>set (entries t). rule (snd e) k \<noteq> XCompare_Equality
    then XRBTree_remove rule room root k h = Some (None, root, h)
    else (\<exists>b d root' h' t' X Y. XRBTree_remove rule room root k h = Some (Some b, root', h') \<and>
        map snd (entries t) = X @ d # Y \<and> rule d k = XCompare_Equality \<and> map snd (entries t') = X @ Y \<and>
        rb_holds h' root' t' \<and> 2 ^ ((height t' + 1) div 2) \<le> length (entries t') + 1 \<and>
        addrs t = insert b (addrs t') \<and> b \<notin> addrs t' \<and>
        map_option node_data (h' b) = Some d \<and> same_outside h' h (addrs t)) \<or>
      (\<exists>a n. \<not> room \<and> XRBTree_remove rule room root k h = Some (None, root, h) \<and>
        a \<in> addrs t \<and> h a = Some n \<and> LChild n \<noteq> None \<and> RChild n \<noteq> None \<and> rule (node_data n) k = XCompare_Equality)"
proof (cases "\<forall>e\<in>set (entries t). rule (snd e) k \<noteq> XCompare_Equality")
  case True
  then show ?thesis using XRBTree_remove_red_black [OF assms] XRBTree_remove_room [OF assms, of room] by auto
next
  case False
  from XRBTree_remove_room [OF assms, of room] show ?thesis
  proof (elim disjE)
    assume same: "XRBTree_remove rule room root k h = XRBTree_remove rule True root k h"
    obtain b d root' h' t' X Y where 1: "XRBTree_remove rule True root k h = Some (Some b, root', h')"
      "map snd (entries t) = X @ d # Y" "rule d k = XCompare_Equality" "map snd (entries t') = X @ Y"
      "rb_holds h' root' t'" "addrs t = insert b (addrs t')" "b \<notin> addrs t'"
      "map_option node_data (h' b) = Some d" "same_outside h' h (addrs t)"
      using XRBTree_remove_red_black [OF assms] unfolding if_not_P [OF False] by blast
    moreover have "2 ^ ((height t' + 1) div 2) \<le> length (entries t') + 1"
      using 1(5) by (intro red_black_height) (simp add: rb_holds_def)
    ultimately show ?thesis unfolding if_not_P [OF False] same by blast
  next
    assume "\<not> room \<and> XRBTree_remove rule room root k h = Some (None, root, h) \<and>
      (\<exists>a n. a \<in> addrs t \<and> h a = Some n \<and> LChild n \<noteq> None \<and> RChild n \<noteq> None \<and> rule (node_data n) k = XCompare_Equality)"
    then show ?thesis unfolding if_not_P [OF False] by blast
  qed
qed

lemma rb_remove_removes_one_witness:
  "\<exists>b d root' h' t' X Y. XRBTree_remove int_compare True (Some 0) 5 sample_store = Some (Some b, root', h') \<and>
      map snd (entries sample_tree) = X @ d # Y \<and> int_compare d 5 = XCompare_Equality \<and> map snd (entries t') = X @ Y \<and>
      rb_holds h' root' t' \<and> 2 ^ ((height t' + 1) div 2) \<le> length (entries t') + 1 \<and>
      addrs sample_tree = insert b (addrs t') \<and> b \<notin> addrs t' \<and>
      map_option node_data (h' b) = Some d \<and> same_outside h' sample_store (addrs sample_tree)"
proof -
  have "\<not> (\<forall>e\<in>set (entries sample_tree). int_compare (snd e) 5 \<noteq> XCompare_Equality)"
    by (simp add: sample_entries int_compare_def XCompare_defs)
  from rb_remove_removes_one [OF sample_holds sample_order(2), of True, unfolded if_not_P [OF this]]
  show ?thesis by simp
qed

text \<open>
  C26: The traversals collect the nodes of a tree in preorder, inorder and postorder, each node once; there is
  nothing to collect from no tree.
\<close>

lemma traversal_orders:
  assumes "rb_holds h root t"
  shows "XBTree_TraversingToXVector h root order = Some (if root = None then None
    else Some (map (\<lambda>x. Some (fst x)) (case order of XBTreePreorder \<Rightarrow> preorder t
      | XBTreeInorder \<Rightarrow> inorder t | XBTreePostorder \<Rightarrow> postorder t)))"
  using TraversingToXVector_tree [OF assms] by simp

lemma traversal_orders_witness:
  "XBTree_TraversingToXVector sample_store (Some 0) XBTreePostorder = Some (Some [Some 1, Some 2, Some 0])"
  using traversal_orders [OF sample_holds, of XBTreePostorder] by (simp add: sample_tree_def)

text \<open>
  C27: The successor of a node is the node of the next entry in order, and NULL for the last one.
\<close>

lemma rb_successor_is_next:
  assumes "rb_holds h root t" and "entries t = L @ (a, d) # R"
  shows "XRBTree_findSuccessor h (Some a) = Some (case R of [] \<Rightarrow> None | e # es \<Rightarrow> Some (fst e))"
  by (rule findSuccessor_entries [OF assms])

lemma rb_successor_is_next_witness: "XRBTree_findSuccessor sample_store (Some 1) = Some (Some 0)"
  using rb_successor_is_next [OF sample_holds, of "[]" 1 3 "[(0, 5), (2, 8)]"] by (simp add: sample_entries)

text \<open>
  C28: When a node with two children is removed, the node returned, which the caller frees, is the one its
  successor was: a successor computed before the removal is a pointer to freed memory.
\<close>

lemma rb_removal_returns_successor:
  assumes "rb_holds h root t" and "h a = Some n" and "a \<in> addrs t" and "LChild n \<noteq> None" and "RChild n \<noteq> None"
  shows "\<exists>b root' h'. XRBTree_removeNode True root (Some a) h = Some (Some b, root', h') \<and> b \<noteq> a \<and>
    XRBTree_findSuccessor h (Some a) = Some (Some b)"
proof -
  obtain l c d r ps where t_eq: "t = plug (Node l (a, c, d) r) ps" using addr_focus [OF assms(3)] by blast
  have v: "view h h root (Node l (a, c, d) r) ps"
    using assms(1) view_plug [of h h root "Node l (a, c, d) r" ps] by (simp add: rb_holds_def view_holds t_eq)
  have "l \<noteq> Leaf" "r \<noteq> Leaf" using view_node [OF v] assms by auto
  moreover have rb: "red_black (plug (Node l (a, c, d) r) ps)" using assms(1) by (simp add: rb_holds_def t_eq)
  ultimately obtain b d' R root' h' where 1: "rb_TwoChild_erase True root (Some a) h = Some (Some b, root', h')"
    "leftmost h (RChild (the (h a))) = Some (Some b)"
    "entries t = strip (before ps) @ entries l @ (a, d) # (b, d') # R"
    using TwoChild_red_black [OF v _ _ rb] unfolding t_eq by blast
  have "distinct (map fst (entries t))"
    using assms(1) by (simp add: rb_holds_def holds_def no_sharing_distinct entries_def comp_def split_def)
  then have "b \<noteq> a" using 1(3) by auto
  then show ?thesis using 1(1,2) assms(2,4,5) by (simp add: XRBTree_removeNode_def XRBTree_findSuccessor_def)
qed

lemma rb_removal_returns_successor_witness:
  "\<exists>b root' h'. XRBTree_removeNode True (Some 0) (Some 0) sample_store = Some (Some b, root', h') \<and> b \<noteq> 0 \<and>
    XRBTree_findSuccessor sample_store (Some 0) = Some (Some b)"
  by (rule rb_removal_returns_successor [OF sample_holds, of 0 "rb_node None (Some 1) (Some 2) XRBTreeBlack 5"])
    (simp_all add: sample_store_def sample_tree_def rb_node_def)

text \<open>
  Deleting a tree frees every node of it and no other, and destroys the data of every node once.
\<close>

lemma tree_delete_frees_all:
  assumes "rb_holds h root t"
  shows "\<exists>log. XTree_delete root h = Some (\<lambda>x. if x \<in> addrs t then None else h x, log) \<and>
    mset log = mset (map snd (entries t))"
  by (rule XTree_delete_tree [OF assms])

lemma tree_delete_frees_all_witness:
  "\<exists>log. XTree_delete (Some 0) sample_store = Some (\<lambda>x. if x \<in> {0, 1, 2} then None else sample_store x, log) \<and>
    mset log = {#3, 5, 8#}"
  using tree_delete_frees_all [OF sample_holds] by (simp add: sample_entries sample_tree_def insert_commute add_mset_commute)

end
