(* ===== verification/MapProps.thy ===== *)
theory MapProps
  imports MapFaults RedBlackProps
begin

text \<open>
  The properties of the ordered map: what sharing on write promises, what is freed, that the operations
  return, the removal by a predicate, and three ways in which the sharing fails.
\<close>

declare insert_align_loop.simps [code] insert_adjust_loop.simps [code] erase_adjust_loop.simps [code]
  XBBTree_findNode.simps [code] leftmost.simps [code] ascend.simps [code] preorder_loop.simps [code]
  delete_loop.simps [code] for_each_iterator.simps [code]

section \<open>Samples\<close>

text \<open>Allocation that gives the node \<open>a\<close>, the block \<open>b\<close>, and the nodes from \<open>c\<close> on for copies.\<close>

definition some_alloc :: "addr \<Rightarrow> addr \<Rightarrow> addr \<Rightarrow> map_alloc" where
  "some_alloc a b c = \<lparr>vector_ok = True, copy_node = (\<lambda>j. if j = 0 then Some c else None), new_node = Some a,
     new_block = Some b, buffer_ok = True, room_ok = True, key_ok = True\<rparr>"

abbreviation empty_map :: "int XMap" where
  "empty_map \<equiv> XMap_init int_compare True"

definition one_map :: "(bool \<times> int XMap \<times> (int, int) map_memory) option" where
  "one_map = VXMap_insert (some_alloc 0 10 100) 5 7 empty_map no_memory"

definition two_maps :: "(int XMap \<times> int XMap \<times> (int, int) map_memory) option" where
  "two_maps = do {
     (_, m, H) \<leftarrow> one_map;
     (m2, H2) \<leftarrow> VXClass_copy (some_alloc 0 10 100) True None m H;
     Some (m, m2, H2)
   }"

lemma two_maps_values:
  "map_option (\<lambda>(m, m2, H). (map_nodes H 1, map_nodes H 2, map_blocks H 11, m_size m,
     map_option (\<lambda>(r, m3, H3). (r, VXMap_value m H3 5, VXMap_value m3 H3 5)) (VXMap_insert (some_alloc 1 11 2) 5 9 m2 H)))
     two_maps = Some (None, None, None, 1, Some (True, Some (Some 7), Some (Some 9)))"
  by code_simp

lemma fresh_some_alloc:
  assumes "map_nodes H a = None" and "map_nodes H c = None" and "map_blocks H b = None" and "a \<noteq> c"
  shows "fresh_alloc (some_alloc a b c) H"
  using assms by (auto simp: fresh_alloc_def some_alloc_def fresh_nodes_def split: if_splits)

lemma trace_one:
  "\<exists>m H. map_trace int_compare [Created, Inserted 0 5 (7 :: int) True] ([m], H) \<and> one_map = Some (True, m, H)"
proof -
  have "map_option fst one_map = Some True" by code_simp
  then obtain m H where one: "one_map = Some (True, m, H)" by auto
  have "fresh_alloc (some_alloc 0 10 100) no_memory" by (rule fresh_some_alloc) (simp_all add: no_memory_def)
  moreover have "new_block (some_alloc 0 10 100) \<noteq> None" by (simp add: some_alloc_def)
  ultimately have "map_step int_compare ([empty_map], no_memory) (Inserted 0 5 7 True) ([empty_map][0 := m], H)"
    by (intro map_step.inserted [where a = "some_alloc 0 10 100"]) (use one in \<open>simp_all add: one_map_def\<close>)
  moreover have "map_trace int_compare [Created] ([empty_map], no_memory)"
    using map_trace.step [OF map_trace.start map_step.created [of "[]"]] by simp
  ultimately have "map_trace int_compare ([Created] @ [Inserted 0 5 (7 :: int) True]) ([m], H)"
    by (intro map_trace.step [of _ "[Created]" "([empty_map], no_memory)"]) simp_all
  then show ?thesis using one by auto
qed

lemma trace_shared:
  "\<exists>m m2 H. map_trace int_compare [Created, Inserted 0 5 (7 :: int) True, Copied 0] ([m, m2], H) \<and>
    two_maps = Some (m, m2, H) \<and> m_data m = Some 10 \<and> m_data m2 = Some 10"
proof -
  obtain m H where 1: "map_trace int_compare [Created, Inserted 0 5 (7 :: int) True] ([m], H)" "one_map = Some (True, m, H)"
    using trace_one by blast
  have "two_maps = map_option (\<lambda>(m2, H2). (m, m2, H2)) (VXClass_copy (some_alloc 0 10 100) True None m H)"
    unfolding two_maps_def 1(2) by (cases "VXClass_copy (some_alloc 0 10 100) True None m H") auto
  then obtain m2 H2 where 2: "VXClass_copy (some_alloc 0 10 100) True None m H = Some (m2, H2)" "two_maps = Some (m, m2, H2)"
    using two_maps_values by (cases "VXClass_copy (some_alloc 0 10 100) True None m H") auto
  have "map_option (\<lambda>(m, m2, H). (m_size m, m_data m, m_data m2)) two_maps = Some (1, Some 10, Some 10)" by code_simp
  then have data: "m_size m = 1" "m_data m = Some 10" "m_data m2 = Some 10"
    unfolding 2(2) by (simp_all only: option.map prod.case option.inject prod.inject)
  have "map_step int_compare ([m], H) (Copied 0) ([m] @ [m2], H2)"
    by (rule map_step.copied [where a = "some_alloc 0 10 100"]) (use 2 data in simp_all)
  from map_trace.step [OF 1(1) this] show ?thesis using 2(2) data by auto
qed


lemma trace_emptied:
  "\<exists>m H. map_trace int_compare [Created, Inserted 0 5 (7 :: int) True, Removed 0 5 True] ([m], H) \<and>
    m_data m = Some 10 \<and> m_size m = 0 \<and> map_nodes H 3 = None"
proof -
  obtain m H where 1: "map_trace int_compare [Created, Inserted 0 5 (7 :: int) True] ([m], H)" "one_map = Some (True, m, H)"
    using trace_one by blast
  have "map_option (\<lambda>(_, m, H). (map_nodes H 1, map_nodes H 2, map_blocks H 11,
      map_option (\<lambda>(r, m1, H1). (r, m_data m1, m_size m1, map_nodes H1 3)) (VXMap_remove (some_alloc 1 11 2) 5 m H))) one_map =
    Some (None, None, None, Some (True, Some 10, 0, None))"
    by code_simp
  then have free: "map_nodes H 1 = None" "map_nodes H 2 = None" "map_blocks H 11 = None"
    and rem: "map_option (\<lambda>(r, m1, H1). (r, m_data m1, m_size m1, map_nodes H1 3)) (VXMap_remove (some_alloc 1 11 2) 5 m H) =
      Some (True, Some 10, 0, None)"
    unfolding 1(2) by (simp_all only: option.map prod.case option.inject prod.inject)
  from rem obtain m1 H1 where r: "VXMap_remove (some_alloc 1 11 2) 5 m H = Some (True, m1, H1)"
    "m_data m1 = Some 10" "m_size m1 = 0" "map_nodes H1 3 = None"
    by auto
  have "map_step int_compare ([m], H) (Removed 0 5 True) ([m][0 := m1], H1)"
    by (rule map_step.removed [where a = "some_alloc 1 11 2"]) (use free fresh_some_alloc [of H 1 2 11] r in simp_all)
  from map_trace.step [OF 1(1) this] show ?thesis using r by auto
qed

definition pair_map :: "int XMap" where
  "pair_map = \<lparr>m_useCow = False, m_compare = int_compare, m_data = Some 0, m_capacity = 3, m_size = 3, m_pairBuffer = True\<rparr>"

definition pair_memory :: "(int, int) map_memory" where
  "pair_memory =
     \<lparr>map_nodes = [0 \<mapsto> rb_node None (Some 1) (Some 2) XRBTreeBlack (5, 50), 1 \<mapsto> rb_node (Some 0) None None XRBTreeRed (3, 30),
        2 \<mapsto> rb_node (Some 0) None None XRBTreeRed (8, 80)],
      map_blocks = Map.empty\<rparr>"

lemma pair_map_own: "own_pairs int_compare (pair_map, pair_memory, al) [(3, 30), (5, 50), (8, 80)]"
proof -
  let ?t = "Node (Node Leaf (1, XRBTreeRed, 3, 30) Leaf) (0, XRBTreeBlack, 5, 50) (Node Leaf (2, XRBTreeRed, 8, 80) Leaf)"
  have e: "entries ?t = [(1, 3, 30), (0, 5, 50), (2, 8, 80)]" by (simp add: entries_def)
  have "rb_holds (map_nodes pair_memory) (Some 0) ?t"
    by (simp add: pair_memory_def rb_node_def rb_holds_def holds_def rb_label_def red_black_def balanced_Node)
  moreover have "well_keyed int_compare ?t"
    using int_compare_total by (simp add: well_keyed_def e keys_sorted_def int_compare_def XCompare_defs)
  ultimately have "map_shows pair_map pair_memory ?t"
    by (simp add: map_shows_def pair_map_def XMap_root_def XMap_root_ptr_def read_root_def e)
  then show ?thesis using e by (auto simp: pair_map_def unshared_def intro!: exI [of _ ?t])
qed

section \<open>Properties\<close>









text \<open>
  C25: Removing by a predicate from a map that shares its tree with no other one, once its keys are listed (the
  vector of the keys is taken to be had and to grow): of the pairs the predicate holds for, those of a set \<open>G\<close> go and are counted, every other pair stays, in order. When
  each removal is given the buffer for the exchange of two nodes, \<open>G\<close> is all of them; a pair whose removal is
  refused it may stay, and is not counted.
\<close>

lemma removeIf_keeps_the_rest:
  assumes "total_compare cmp" and "own_pairs cmp (m, H, al) ps"
  shows "\<exists>G m' H' al'. G \<subseteq> {p \<in> set ps. pred (fst p) (snd p)} \<and>
    ((\<forall>i. room_ok (al i)) \<longrightarrow> G = {p \<in> set ps. pred (fst p) (snd p)}) \<and>
    XMapBase_removeIf supplied_keys supplied_value supplied_remove pred (m, H, al) =
      Some (length (filter (\<lambda>p. p \<in> G) ps), m', H', al') \<and>
    own_pairs cmp (m', H', al') (filter (\<lambda>p. p \<notin> G) ps)"
proof -
  obtain G s' where "G \<subseteq> {p \<in> set ps. pred (fst p) (snd p)}" "all_room (m, H, al) \<longrightarrow> G = {p \<in> set ps. pred (fst p) (snd p)}"
    "XMapBase_removeIf supplied_keys supplied_value supplied_remove pred (m, H, al) =
      Some (length (filter (\<lambda>p. p \<in> G) ps), s')" "own_pairs cmp s' (filter (\<lambda>p. p \<notin> G) ps)"
    using ordered_map.removeIf_filter [OF own_pairs_contract [OF assms(1)] assms(2), of pred] by blast
  then show ?thesis by (cases s') auto
qed

lemma removeIf_keeps_the_rest_witness:
  "\<exists>m' H' al'. XMapBase_removeIf supplied_keys supplied_value supplied_remove (\<lambda>k v. 40 < v)
      (pair_map, pair_memory, \<lambda>_. some_alloc 3 12 4) = Some (2, m', H', al') \<and>
    own_pairs int_compare (m', H', al') [(3, 30)]"
proof -
  have "{p \<in> set [(3, 30), (5, 50), (8, 80)]. 40 < snd p} = {(5 :: int, 50 :: int), (8, 80)}" by auto
  then show ?thesis
    using removeIf_keeps_the_rest [OF int_compare_total pair_map_own [of "\<lambda>_. some_alloc 3 12 4"], of "\<lambda>k v. 40 < v"]
    by (auto simp: some_alloc_def numeral_2_eq_2)
qed

text \<open>
  C36: A shared empty tree is not detached. After any sequence, a map that has a block but no entry (its entries
  were removed or cleared) is copied, and an entry is inserted into the copy, its node and pair buffer granted: it goes into the tree
  of the original too, which counts no entry and finds none, but whose list of keys has the new one.
\<close>

lemma emptied_map_is_not_detached:
  assumes "map_trace cmp es (ms, H)" and "total_compare cmp" and "i < length ms"
    and "m_data (ms ! i) \<noteq> None" and "m_size (ms ! i) = 0"
    and "new_node al = Some a" and "map_nodes H a = None" and "buffer_ok al"
  shows "\<exists>m2 H2 m3 H3. VXClass_copy al True None (ms ! i) H = Some (m2, H2) \<and>
    VXMap_insert al k v m2 H2 = Some (True, m3, H3) \<and> VXMap_value m3 H3 k = Some (Some v) \<and>
    (\<forall>k'. VXMap_value (ms ! i) H3 k' = Some None) \<and> VXMapBase_keys (ms ! i) H3 = Some [k]"
proof -
  obtain T where T: "maps_ok H T ms" using map_trace_refines [OF assms(1,2)] by (auto simp: refines_def)
  obtain b where "m_data (ms ! i) = Some b" using assms(4) by blast
  have "VXMap_value (ms ! i) H3 k' = Some None" for H3 :: "('a, 'b) map_memory" and k'
    by (simp add: VXMap_value_def find_blank [OF assms(5)])
  then show ?thesis using empty_copy_insert [OF T assms(3) \<open>m_data (ms ! i) = Some b\<close> assms(5-8), of k v] by blast
qed

lemma emptied_map_is_not_detached_witness:
  "\<exists>m H m2 H2 m3 H3. map_trace int_compare [Created, Inserted 0 5 (7 :: int) True, Removed 0 5 True] ([m], H) \<and>
    VXClass_copy (some_alloc 3 12 4) True None m H = Some (m2, H2) \<and>
    VXMap_insert (some_alloc 3 12 4) 6 8 m2 H2 = Some (True, m3, H3) \<and>
    VXMap_value m H3 6 = Some None \<and> VXMapBase_keys m H3 = Some [6]"
proof -
  obtain m and H :: "(int, int) map_memory"
    where t: "map_trace int_compare [Created, Inserted 0 5 7 True, Removed 0 5 True] ([m], H)"
      "m_data m = Some 10" "m_size m = 0" "map_nodes H 3 = None"
    using trace_emptied by blast
  show ?thesis
    using emptied_map_is_not_detached [OF t(1) int_compare_total, of 0 "some_alloc 3 12 4" 3 6 8] t
    by (simp add: some_alloc_def) blast
qed

text \<open>
  C37: Moving any map into one of two maps that share a tree leaves the source pointing at the tree without a
  count. The other sharer works as before, until the source is destroyed: then the tree is freed although that
  other map uses it, and every look-up in it follows a pointer to nowhere.
\<close>

lemma move_into_shared_map_frees_other:
  assumes "map_trace cmp es (ms, H)" and "total_compare cmp" and "i < length ms" and "j < length ms"
    and "m_data (ms ! i) = Some b" and "m_data (ms ! j) = Some b" and "users ms b = 2"
  shows "\<exists>C' H1 C'' H2. VXClass_move (Some (ms ! i)) C H = Some (C, C', H1) \<and> m_data C' = Some b \<and> m_size C' = 0 \<and>
    VXMap_value (ms ! j) H1 k = Some ((spec_trace cmp es ! j) k) \<and>
    VXMap_deinit C' H1 = Some (C'', H2) \<and> VXMap_value (ms ! j) H2 k = None"
proof -
  obtain T where T: "maps_ok H T ms" "map (map_view T) ms = spec_trace cmp es"
    using map_trace_refines [OF assms(1,2)] by (auto simp: refines_def)
  have "map_shows (ms ! j) H (tree_of T (ms ! j))" using map_ok_shows [OF T(1)] assms(4) by simp
  then have "VXMap_value (ms ! j) H k = Some ((spec_trace cmp es ! j) k)"
    using assms(4) unfolding T(2) [symmetric] by (simp add: value_shows map_view_def)
  then show ?thesis using move_into_shared [OF T(1) assms(3-7), of C k] by auto
qed

lemma move_into_shared_map_frees_other_witness:
  "\<exists>A B H C' H1 C'' H2. two_maps = Some (A, B, H) \<and> VXClass_move (Some A) empty_map H = Some (empty_map, C', H1) \<and>
    VXMap_value B H1 5 = Some (Some 7) \<and> VXMap_deinit C' H1 = Some (C'', H2) \<and> VXMap_value B H2 5 = None"
proof -
  obtain m m2 and H :: "(int, int) map_memory"
    where t: "map_trace int_compare [Created, Inserted 0 5 7 True, Copied 0] ([m, m2], H)" "two_maps = Some (m, m2, H)"
      "m_data m = Some 10" "m_data m2 = Some 10"
    using trace_shared by blast
  obtain C' H1 C'' H2 where r: "VXClass_move (Some m) empty_map H = Some (empty_map, C', H1)"
    "VXMap_value m2 H1 5 = Some (Some 7)" "VXMap_deinit C' H1 = Some (C'', H2)" "VXMap_value m2 H2 5 = None"
    using move_into_shared_map_frees_other [OF t(1) int_compare_total, of 0 1 10 empty_map 5] t(3,4)
    by (auto simp: users_def spec_trace_def put_content_def int_compare_def XCompare_defs)
  show ?thesis using t(2) r by (intro exI conjI)
qed

text \<open>
  C38: When a map that copies on write has no block and the block of an insertion cannot be had, but the node
  can, the insertion reports success and counts the entry, which is linked nowhere: no key is found, the list
  of keys is empty, clearing the map writes through NULL, and destroying it leaves the node allocated.
\<close>

lemma insert_without_block_reports_success:
  assumes "m_useCow m" and "m_data m = None" and "m_size m = 0" and "new_block al = None" and "new_node al = Some a"
    and "m_pairBuffer m \<or> buffer_ok al"
  shows "\<exists>m' H' m''. VXMap_insert al k v m H = Some (True, m', H') \<and> m_size m' = 1 \<and>
    (\<forall>k'. VXMap_value m' H' k' = Some None) \<and> VXMapBase_keys m' H' = Some [] \<and> VXMap_clear m' H' = None \<and>
    VXMap_deinit m' H' = Some (m'', H') \<and> map_option node_data (map_nodes H' a) = Some (k, v)"
proof -
  let ?m = "m\<lparr>m_pairBuffer := True, m_capacity := m_capacity m + 1, m_size := 1\<rparr>"
  let ?H = "H\<lparr>map_nodes := (map_nodes H)(a \<mapsto> (XRBTree_init (k, v))\<lparr>color := XRBTreeBlack\<rparr>)\<rparr>"
  have "VXMap_insert al k v m H = Some (True, ?m, ?H)"
    using insert_without_block [OF assms(1-4), of k v H] assms(5,6) by simp
  moreover have "VXMap_value ?m ?H k' = Some None" for k'
    using assms(1,2) by (simp add: VXMap_value_def VXMap_find_def XMap_root_def XMap_root_ptr_def XBBTree_findNode.simps)
  moreover have "VXMapBase_keys ?m ?H = Some []"
    using assms(2) for_each_iterator.simps [of ?H None "[]"] by (simp add: VXMapBase_keys_def XMap_begin_def)
  moreover have "VXMap_clear ?m ?H = None"
    using assms(1,2) delete_nodes_tree [of ?H None Leaf]
    by (simp add: VXMap_clear_def XSharedData_isShared_def XMap_root_def XMap_root_ptr_def rb_holds_Leaf)
  moreover have "VXMap_deinit ?m ?H = Some (?m\<lparr>m_capacity := 0, m_size := 0, m_pairBuffer := False\<rparr>, ?H)"
    using assms(1,2) by (simp add: VXMap_deinit_def release_data_def XSharedData_release_with_def)
  moreover have "map_option node_data (map_nodes ?H a) = Some (k, v)" by (simp add: XRBTree_init_def)
  ultimately show ?thesis by (intro exI [of _ ?m] exI [of _ ?H] exI conjI allI) simp_all
qed

lemma insert_without_block_reports_success_witness:
  "\<exists>m' H'. VXMap_insert ((some_alloc 0 10 100)\<lparr>new_block := None\<rparr>) 5 7 empty_map (no_memory :: (int, int) map_memory) =
      Some (True, m', H') \<and> VXMap_value m' H' 5 = Some None \<and> VXMap_clear m' H' = None"
  using insert_without_block_reports_success
    [of empty_map "(some_alloc 0 10 100)\<lparr>new_block := None\<rparr>" 0 5 7 "no_memory :: (int, int) map_memory"]
  by (auto simp: XMap_init_def some_alloc_def)

end
