(* ===== verification/Buffers.thy ===== *)
theory Buffers
  imports XPrelude
begin

text \<open>
  Blocks that are written through a pointer and an index: a write outside the block is \<open>None\<close>. The length of an
  input that ends at a zero or at a given count.
\<close>

section \<open>Writing\<close>

definition put_at :: "'a list \<Rightarrow> nat \<Rightarrow> 'a \<Rightarrow> 'a list option" where
  "put_at buf i v = (if i < length buf then Some (buf[i := v]) else None)"

fun put_all :: "'a list \<Rightarrow> nat \<Rightarrow> 'a list \<Rightarrow> 'a list option" where
  "put_all buf i [] = Some buf"
| "put_all buf i (v # vs) = Option.bind (put_at buf i v) (\<lambda>buf1. put_all buf1 (i + 1) vs)"

lemma put_at_Some [simp]: "i < length buf \<Longrightarrow> put_at buf i v = Some (buf[i := v])"
  by (simp add: put_at_def)

lemma put_all_Some: "i + length vs \<le> length buf \<Longrightarrow> put_all buf i vs = Some (take i buf @ vs @ drop (i + length vs) buf)"
proof (induction vs arbitrary: buf i)
  case (Cons v vs)
  then have "put_all buf i (v # vs) = Some (take (i + 1) (buf[i := v]) @ vs @ drop (i + 1 + length vs) (buf[i := v]))" by simp
  moreover have "take (i + 1) (buf[i := v]) = take i buf @ [v]" using Cons.prems by (simp add: take_Suc_conv_app_nth)
  ultimately show ?case by simp
qed simp

lemma take_put: "take (i + length vs) (take i buf @ vs @ drop (i + length vs) buf) = take i buf @ vs" if "i \<le> length buf"
  using that by simp

section \<open>The length of an input\<close>

fun nul_position :: "'a::zero list \<Rightarrow> nat option" where
  "nul_position [] = None"
| "nul_position (x # xs) = (if x = 0 then Some 0 else map_option Suc (nul_position xs))"

fun nul_within :: "'a::zero list \<Rightarrow> nat \<Rightarrow> nat option" where
  "nul_within xs 0 = Some 0"
| "nul_within [] (Suc n) = None"
| "nul_within (x # xs) (Suc n) = (if x = 0 then Some 0 else map_option Suc (nul_within xs n))"

definition stream_input_len :: "'a::zero list \<Rightarrow> nat \<Rightarrow> nat option" where
  "stream_input_len data count = (if count = 0 then nul_position data else nul_within data count)"

lemma nul_within_all: "0 \<notin> set (take n xs) \<Longrightarrow> n \<le> length xs \<Longrightarrow> nul_within xs n = Some n"
  by (induction xs n rule: nul_within.induct) auto

lemma nul_within_le: "nul_within xs n = Some k \<Longrightarrow> k \<le> n \<and> k \<le> length xs"
  by (induction xs n arbitrary: k rule: nul_within.induct) (fastforce split: if_splits)+

lemma nul_position_append: "0 \<notin> set xs \<Longrightarrow> nul_position (xs @ 0 # ys) = Some (length xs)"
  by (induction xs) auto

lemma nul_within_append: "0 \<notin> set xs \<Longrightarrow> length xs < n \<Longrightarrow> nul_within (xs @ 0 # ys) n = Some (length xs)"
  by (induction xs arbitrary: n; case_tac n) auto

lemma nul_within_Some: "n \<le> length xs \<Longrightarrow> \<exists>k\<le>n. nul_within xs n = Some k"
  by (induction xs n rule: nul_within.induct) auto

lemma stream_input_len_all:
  "0 \<notin> set (take n xs) \<Longrightarrow> n \<le> length xs \<Longrightarrow> 0 < n \<Longrightarrow> stream_input_len xs n = Some n"
  by (simp add: stream_input_len_def nul_within_all)

end
