(* ===== verification/XChar.thy ===== *)
theory XChar
  imports Buffers "HOL-Library.Word" "HOL-Library.Monad_Syntax"
begin

unbundle bit_operations_syntax

text \<open>
  Characters of 16 bits (\<open>XData/XChar/XChar.c\<close>): the conversions between UTF-8, UTF-16, UTF-32, Latin-1
  and characters, and between numbers and digits. A pointer to an output is \<open>None\<close> when it is NULL; then a
  conversion only counts. A result \<open>None\<close> is an access outside a block.
\<close>

type_synonym XChar = "16 word"

section \<open>Surrogates\<close>

definition XChar_isHighSurrogate :: "XChar \<Rightarrow> bool" where
  "XChar_isHighSurrogate ch \<longleftrightarrow> 0xD800 \<le> ch \<and> ch \<le> 0xDBFF"

definition XChar_isLowSurrogate :: "XChar \<Rightarrow> bool" where
  "XChar_isLowSurrogate ch \<longleftrightarrow> 0xDC00 \<le> ch \<and> ch \<le> 0xDFFF"

definition XChar_isSurrogate :: "XChar \<Rightarrow> bool" where
  "XChar_isSurrogate ch \<longleftrightarrow> XChar_isHighSurrogate ch \<or> XChar_isLowSurrogate ch"

definition XChar_requiresSurrogates :: "32 word \<Rightarrow> bool" where
  "XChar_requiresSurrogates ucs4 \<longleftrightarrow> 0x10000 \<le> ucs4"

definition XChar_surrogateToUcs4 :: "XChar \<Rightarrow> XChar \<Rightarrow> 32 word" where
  "XChar_surrogateToUcs4 high low =
     (if \<not> XChar_isHighSurrogate high \<or> \<not> XChar_isLowSurrogate low then 0
      else push_bit 10 (ucast high - 0xD800) + (ucast low - 0xDC00) + 0x10000)"

definition XChar_fromUnicode :: "32 word \<Rightarrow> XChar" where
  "XChar_fromUnicode unicode =
     (if 0x10FFFF < unicode then 0
      else if unicode \<le> 0xFFFF then
        (if 0xD800 \<le> unicode \<and> unicode \<le> 0xDBFF \<or> 0xDC00 \<le> unicode \<and> unicode \<le> 0xDFFF then 0 else ucast unicode)
      else ucast (0xD800 + drop_bit 10 (unicode - 0x10000)))"

definition XChar_from_unicode_low :: "32 word \<Rightarrow> XChar" where
  "XChar_from_unicode_low unicode =
     (if unicode < 0x10000 \<or> 0x10FFFF < unicode then 0 else ucast (0xDC00 + ((unicode - 0x10000) AND 0x3FF)))"

definition XChar_highSurrogate :: "32 word \<Rightarrow> XChar" where
  "XChar_highSurrogate ucs4 = XChar_fromUnicode ucs4"

definition XChar_lowSurrogate :: "32 word \<Rightarrow> XChar" where
  "XChar_lowSurrogate ucs4 = XChar_from_unicode_low ucs4"

section \<open>Input lengths\<close>

definition stream_input_len_u8 :: "8 word list \<Rightarrow> nat \<Rightarrow> nat option" where
  "stream_input_len_u8 = stream_input_len"

definition stream_input_len_u16 :: "16 word list \<Rightarrow> nat \<Rightarrow> nat option" where
  "stream_input_len_u16 = stream_input_len"

definition stream_input_len_u32 :: "32 word list \<Rightarrow> nat \<Rightarrow> nat option" where
  "stream_input_len_u32 = stream_input_len"

definition stream_input_len_xchar :: "XChar list \<Rightarrow> nat \<Rightarrow> nat option" where
  "stream_input_len_xchar = stream_input_len"

definition XChar_getInputLength :: "XChar list option \<Rightarrow> nat \<Rightarrow> nat option" where
  "XChar_getInputLength xchars input_count =
     (case xchars of None \<Rightarrow> Some 0 | Some data \<Rightarrow> stream_input_len data input_count)"

lemmas stream_input_len_defs =
  stream_input_len_u8_def stream_input_len_u16_def stream_input_len_u32_def stream_input_len_xchar_def

text \<open>The end of a conversion: the terminator, if there is room.\<close>

definition finish_stream :: "'a::zero list \<Rightarrow> nat \<Rightarrow> nat \<Rightarrow> (int \<times> 'a list) option" where
  "finish_stream out out_idx max_out =
     (if out_idx < max_out then map_option (Pair (int out_idx)) (put_at out out_idx 0) else Some (-1, out))"

section \<open>UTF-8\<close>

text \<open>One code point from the bytes; none for a first byte that starts no sequence or too few bytes.\<close>

fun read_utf8 :: "8 word list \<Rightarrow> (32 word \<times> 8 word list) option" where
  "read_utf8 [] = None"
| "read_utf8 (c # rest) =
     (if c AND 0x80 = 0 then Some (ucast c, rest)
      else if c AND 0xE0 = 0xC0 then
        (case rest of
           b1 # r \<Rightarrow> Some (push_bit 6 (ucast c AND 0x1F) OR (ucast b1 AND 0x3F), r)
         | _ \<Rightarrow> None)
      else if c AND 0xF0 = 0xE0 then
        (case rest of
           b1 # b2 # r \<Rightarrow>
             Some (push_bit 12 (ucast c AND 0x0F) OR push_bit 6 (ucast b1 AND 0x3F) OR (ucast b2 AND 0x3F), r)
         | _ \<Rightarrow> None)
      else if c AND 0xF8 = 0xF0 then
        (case rest of
           b1 # b2 # b3 # r \<Rightarrow>
             Some (push_bit 18 (ucast c AND 0x07) OR push_bit 12 (ucast b1 AND 0x3F) OR
               push_bit 6 (ucast b2 AND 0x3F) OR (ucast b3 AND 0x3F), r)
         | _ \<Rightarrow> None)
      else None)"

lemma read_utf8_shorter: "read_utf8 bs = Some (code, rest) \<Longrightarrow> length rest < length bs"
  by (cases bs) (auto split: if_splits list.splits)

text \<open>Counting stops at a sequence that is cut off.\<close>

fun count_utf8 :: "8 word list \<Rightarrow> int \<Rightarrow> int" where
  "count_utf8 [] count = count"
| "count_utf8 (c # rest) count =
     (if c AND 0x80 = 0 then count_utf8 rest (count + 1)
      else if c AND 0xE0 = 0xC0 then (case rest of b1 # r \<Rightarrow> count_utf8 r (count + 1) | _ \<Rightarrow> count)
      else if c AND 0xF0 = 0xE0 then (case rest of b1 # b2 # r \<Rightarrow> count_utf8 r (count + 1) | _ \<Rightarrow> count)
      else if c AND 0xF8 = 0xF0 then (case rest of b1 # b2 # b3 # r \<Rightarrow> count_utf8 r (count + 2) | _ \<Rightarrow> count)
      else -1)"

function from_utf8_loop :: "8 word list \<Rightarrow> XChar list \<Rightarrow> nat \<Rightarrow> nat \<Rightarrow> (int \<times> XChar list) option" where
  "from_utf8_loop utf8 out out_idx max_out =
     (if utf8 = [] \<or> \<not> out_idx + 1 < max_out then finish_stream out out_idx max_out
      else (case read_utf8 utf8 of
          None \<Rightarrow> Some (-1, out)
        | Some (code, rest) \<Rightarrow>
            if code \<le> 0xFFFF then
              do {
                out1 \<leftarrow> put_at out out_idx (ucast code);
                from_utf8_loop rest out1 (out_idx + 1) max_out
              }
            else if max_out \<le> out_idx + 1 then Some (-1, out)
            else do {
              out2 \<leftarrow> put_all out out_idx [XChar_fromUnicode code, XChar_from_unicode_low code];
              from_utf8_loop rest out2 (out_idx + 2) max_out
            }))"
  by pat_completeness auto
termination
  by (relation "measure (\<lambda>(utf8, _). length utf8)") (auto dest!: read_utf8_shorter)

declare from_utf8_loop.simps [simp del]

definition XChar_fromUtf8Stream ::
  "8 word list option \<Rightarrow> nat \<Rightarrow> XChar list option \<Rightarrow> nat \<Rightarrow> (int \<times> XChar list option) option" where
  "XChar_fromUtf8Stream utf8 input_size out max_out =
     (case utf8 of
        None \<Rightarrow> Some (-1, out)
      | Some data \<Rightarrow> do {
          utf8_len \<leftarrow> stream_input_len_u8 data input_size;
          (case (out, max_out) of
             (Some buf, Suc _) \<Rightarrow> map_option (map_prod id Some) (from_utf8_loop (take utf8_len data) buf 0 max_out)
           | _ \<Rightarrow> Some (count_utf8 (take utf8_len data) 0, out))
        })"

text \<open>One code point from the characters: a high surrogate takes the next character with it.\<close>

fun read_utf16 :: "XChar list \<Rightarrow> 32 word \<times> XChar list" where
  "read_utf16 [] = (0, [])"
| "read_utf16 [ch] = (ucast ch, [])"
| "read_utf16 (ch # low # rest) =
     (if XChar_isHighSurrogate ch then (XChar_surrogateToUcs4 ch low, rest) else (ucast ch, low # rest))"

lemma read_utf16_shorter: "(code, rest) = read_utf16 chs \<Longrightarrow> chs \<noteq> [] \<Longrightarrow> length rest < length chs"
  by (cases chs rule: read_utf16.cases) (auto split: if_splits)

definition utf8_bytes :: "32 word \<Rightarrow> 8 word list option" where
  "utf8_bytes code =
     (if code \<le> 0x7F then Some [ucast code]
      else if code \<le> 0x7FF then Some [ucast (0xC0 OR drop_bit 6 code), ucast (0x80 OR (code AND 0x3F))]
      else if code \<le> 0xFFFF then
        Some [ucast (0xE0 OR drop_bit 12 code), ucast (0x80 OR (drop_bit 6 code AND 0x3F)), ucast (0x80 OR (code AND 0x3F))]
      else if code \<le> 0x10FFFF then
        Some [ucast (0xF0 OR drop_bit 18 code), ucast (0x80 OR (drop_bit 12 code AND 0x3F)),
          ucast (0x80 OR (drop_bit 6 code AND 0x3F)), ucast (0x80 OR (code AND 0x3F))]
      else None)"

function count_utf16 :: "XChar list \<Rightarrow> int \<Rightarrow> int" where
  "count_utf16 ch bytes =
     (if ch = [] then bytes
      else let (code, rest) = read_utf16 ch in
        if code \<le> 0x7F then count_utf16 rest (bytes + 1)
        else if code \<le> 0x7FF then count_utf16 rest (bytes + 2)
        else if code \<le> 0xFFFF then count_utf16 rest (bytes + 3)
        else if code \<le> 0x10FFFF then count_utf16 rest (bytes + 4)
        else -1)"
  by pat_completeness auto
termination
  by (relation "measure (\<lambda>(ch, _). length ch)") (auto dest: read_utf16_shorter)

function to_utf8_loop :: "XChar list \<Rightarrow> 8 word list \<Rightarrow> nat \<Rightarrow> nat \<Rightarrow> (int \<times> 8 word list) option" where
  "to_utf8_loop ch utf8 out_idx max_utf8 =
     (if ch = [] \<or> \<not> out_idx + 1 < max_utf8 then finish_stream utf8 out_idx max_utf8
      else let (code, rest) = read_utf16 ch in
        (case utf8_bytes code of
           None \<Rightarrow> Some (-1, utf8)
         | Some bytes \<Rightarrow>
             if max_utf8 \<le> out_idx + length bytes then Some (-1, utf8)
             else do {
               utf8' \<leftarrow> put_all utf8 out_idx bytes;
               to_utf8_loop rest utf8' (out_idx + length bytes) max_utf8
             }))"
  by pat_completeness auto
termination
  by (relation "measure (\<lambda>(ch, _). length ch)") (auto dest: read_utf16_shorter)

declare count_utf16.simps [simp del] to_utf8_loop.simps [simp del]

definition XChar_toUtf8Stream ::
  "XChar list option \<Rightarrow> nat \<Rightarrow> 8 word list option \<Rightarrow> nat \<Rightarrow> (int \<times> 8 word list option) option" where
  "XChar_toUtf8Stream ch input_count utf8 max_utf8 =
     (case ch of
        None \<Rightarrow> Some (-1, utf8)
      | Some data \<Rightarrow> do {
          ch_count \<leftarrow> stream_input_len_xchar data input_count;
          (case (utf8, max_utf8) of
             (Some buf, Suc _) \<Rightarrow> map_option (map_prod id Some) (to_utf8_loop (take ch_count data) buf 0 max_utf8)
           | _ \<Rightarrow> Some (count_utf16 (take ch_count data) 0, utf8))
        })"

section \<open>UTF-16, UTF-32 and Latin-1\<close>

text \<open>Copying units one by one; the rest of an input that does not fit is dropped.\<close>

fun copy_units :: "('a \<Rightarrow> 'b::zero) \<Rightarrow> 'a list \<Rightarrow> 'b list \<Rightarrow> nat \<Rightarrow> nat \<Rightarrow> (int \<times> 'b list) option" where
  "copy_units conv [] out out_idx max_out = finish_stream out out_idx max_out"
| "copy_units conv (x # xs) out out_idx max_out =
     (if \<not> out_idx + 1 < max_out then finish_stream out out_idx max_out
      else do {
        out1 \<leftarrow> put_at out out_idx (conv x);
        copy_units conv xs out1 (out_idx + 1) max_out
      })"

definition XChar_fromUtf16Stream ::
  "16 word list option \<Rightarrow> nat \<Rightarrow> XChar list option \<Rightarrow> nat \<Rightarrow> (int \<times> XChar list option) option" where
  "XChar_fromUtf16Stream utf16_str input_size out max_count =
     (case utf16_str of
        None \<Rightarrow> Some (-1, out)
      | Some data \<Rightarrow> do {
          len \<leftarrow> stream_input_len_u16 data input_size;
          (case (out, max_count) of
             (Some buf, Suc _) \<Rightarrow> map_option (map_prod id Some) (copy_units id (take len data) buf 0 max_count)
           | _ \<Rightarrow> Some (int len, out))
        })"

definition XChar_toUtf16Stream ::
  "XChar list option \<Rightarrow> nat \<Rightarrow> 16 word list option \<Rightarrow> nat \<Rightarrow> (int \<times> 16 word list option) option" where
  "XChar_toUtf16Stream xchars input_count out_buf buf_size =
     (case xchars of
        None \<Rightarrow> Some (-1, out_buf)
      | Some data \<Rightarrow> do {
          count \<leftarrow> stream_input_len_xchar data input_count;
          (case (out_buf, buf_size) of
             (Some buf, Suc _) \<Rightarrow> map_option (map_prod id Some) (copy_units id (take count data) buf 0 buf_size)
           | _ \<Rightarrow> Some (int count, out_buf))
        })"

fun count_utf32 :: "32 word list \<Rightarrow> int \<Rightarrow> int" where
  "count_utf32 [] n = n"
| "count_utf32 (code # codes) n = count_utf32 codes (n + (if 0xFFFF < code then 2 else 1))"

fun from_utf32_loop :: "32 word list \<Rightarrow> XChar list \<Rightarrow> nat \<Rightarrow> nat \<Rightarrow> (int \<times> XChar list) option" where
  "from_utf32_loop [] out out_idx max_out = finish_stream out out_idx max_out"
| "from_utf32_loop (code # codes) out out_idx max_out =
     (if \<not> out_idx + 1 < max_out then finish_stream out out_idx max_out
      else if 0x10FFFF < code then Some (-1, out)
      else if code \<le> 0xFFFF then do {
        out1 \<leftarrow> put_at out out_idx (ucast code);
        from_utf32_loop codes out1 (out_idx + 1) max_out
      }
      else if max_out \<le> out_idx + 1 then Some (-1, out)
      else do {
        out2 \<leftarrow> put_all out out_idx [XChar_fromUnicode code, XChar_from_unicode_low code];
        from_utf32_loop codes out2 (out_idx + 2) max_out
      })"

definition XChar_fromUtf32Stream ::
  "32 word list option \<Rightarrow> nat \<Rightarrow> XChar list option \<Rightarrow> nat \<Rightarrow> (int \<times> XChar list option) option" where
  "XChar_fromUtf32Stream utf32 input_count out max_out =
     (case utf32 of
        None \<Rightarrow> Some (-1, out)
      | Some data \<Rightarrow> do {
          count \<leftarrow> stream_input_len_u32 data input_count;
          (case (out, max_out) of
             (Some buf, Suc _) \<Rightarrow> map_option (map_prod id Some) (from_utf32_loop (take count data) buf 0 max_out)
           | _ \<Rightarrow> Some (count_utf32 (take count data) 0, out))
        })"

function count_code_points :: "XChar list \<Rightarrow> int \<Rightarrow> int" where
  "count_code_points ch n = (if ch = [] then n else count_code_points (snd (read_utf16 ch)) (n + 1))"
  by pat_completeness auto
termination
  by (relation "measure (\<lambda>(ch, _). length ch)") (auto intro: read_utf16_shorter [OF prod.collapse])

function to_utf32_loop :: "XChar list \<Rightarrow> 32 word list \<Rightarrow> nat \<Rightarrow> nat \<Rightarrow> (int \<times> 32 word list) option" where
  "to_utf32_loop ch utf32 out_idx max_utf32 =
     (if ch = [] \<or> \<not> out_idx + 1 < max_utf32 then finish_stream utf32 out_idx max_utf32
      else do {
        utf32' \<leftarrow> put_at utf32 out_idx (fst (read_utf16 ch));
        to_utf32_loop (snd (read_utf16 ch)) utf32' (out_idx + 1) max_utf32
      })"
  by pat_completeness auto
termination
  by (relation "measure (\<lambda>(ch, _). length ch)") (auto intro: read_utf16_shorter [OF prod.collapse])

declare count_code_points.simps [simp del] to_utf32_loop.simps [simp del]

definition XChar_toUtf32Stream ::
  "XChar list option \<Rightarrow> nat \<Rightarrow> 32 word list option \<Rightarrow> nat \<Rightarrow> (int \<times> 32 word list option) option" where
  "XChar_toUtf32Stream ch input_count utf32 max_utf32 =
     (case ch of
        None \<Rightarrow> Some (-1, utf32)
      | Some data \<Rightarrow> do {
          ch_count \<leftarrow> stream_input_len_xchar data input_count;
          (case (utf32, max_utf32) of
             (Some buf, Suc _) \<Rightarrow> map_option (map_prod id Some) (to_utf32_loop (take ch_count data) buf 0 max_utf32)
           | _ \<Rightarrow> Some (count_code_points (take ch_count data) 0, utf32))
        })"

definition XChar_fromLatin1Stream ::
  "8 word list option \<Rightarrow> nat \<Rightarrow> XChar list option \<Rightarrow> nat \<Rightarrow> (int \<times> XChar list option) option" where
  "XChar_fromLatin1Stream latin1 input_size out max_out =
     (case latin1 of
        None \<Rightarrow> Some (-1, out)
      | Some data \<Rightarrow> do {
          len \<leftarrow> stream_input_len_u8 data input_size;
          (case (out, max_out) of
             (Some buf, Suc _) \<Rightarrow> map_option (map_prod id Some) (copy_units ucast (take len data) buf 0 max_out)
           | _ \<Rightarrow> Some (int len, out))
        })"

definition XChar_toLatin1Stream ::
  "XChar list option \<Rightarrow> nat \<Rightarrow> 8 word list option \<Rightarrow> nat \<Rightarrow> (int \<times> 8 word list option) option" where
  "XChar_toLatin1Stream ch input_count latin1 max_latin1 =
     (case ch of
        None \<Rightarrow> Some (-1, latin1)
      | Some data \<Rightarrow> do {
          count \<leftarrow> stream_input_len_xchar data input_count;
          if list_ex (\<lambda>c. 0xFF < c) (take count data) then Some (-1, latin1)
          else (case (latin1, max_latin1) of
             (Some buf, Suc _) \<Rightarrow> map_option (map_prod id Some) (copy_units ucast (take count data) buf 0 max_latin1)
           | _ \<Rightarrow> Some (int count, latin1))
        })"

section \<open>Numbers\<close>

definition XChar_digit_to_value :: "XChar \<Rightarrow> int" where
  "XChar_digit_to_value ch =
     (if 0x30 \<le> ch \<and> ch \<le> 0x39 then uint ch - 0x30
      else if 0x61 \<le> ch \<and> ch \<le> 0x7A then 10 + (uint ch - 0x61)
      else if 0x41 \<le> ch \<and> ch \<le> 0x5A then 10 + (uint ch - 0x41)
      else -1)"

definition XChar_value_to_digit :: "int \<Rightarrow> bool \<Rightarrow> XChar" where
  "XChar_value_to_digit v uppercase =
     (if 0 \<le> v \<and> v \<le> 9 then word_of_int (0x30 + v)
      else if 10 \<le> v \<and> v \<le> 35 then word_of_int ((if uppercase then 0x41 else 0x61) + (v - 10))
      else 0)"

definition is_blank :: "XChar \<Rightarrow> bool" where
  "is_blank ch \<longleftrightarrow> ch = 0x20 \<or> ch = 0x09 \<or> ch = 0x0A"

text \<open>The digits of a number; \<open>None\<close> when it would pass the largest one.\<close>

fun parse_digits :: "int \<Rightarrow> XChar list \<Rightarrow> 64 word \<Rightarrow> bool \<Rightarrow> (64 word \<times> bool) option" where
  "parse_digits base [] result has_digit = Some (result, has_digit)"
| "parse_digits base (ch # chs) result has_digit =
     (let d = XChar_digit_to_value ch in
        if d = -1 \<or> base \<le> d then Some (result, has_digit)
        else if (- 1 - word_of_int d) div word_of_int base < result then None
        else parse_digits base chs (result * word_of_int base + word_of_int d) True)"

text \<open>The number and whether there was one; \<open>success\<close> is taken to point somewhere.\<close>

definition XChar_parse_unsigned :: "XChar list option \<Rightarrow> nat \<Rightarrow> int \<Rightarrow> (64 word \<times> bool) option" where
  "XChar_parse_unsigned xchars input_count base =
     (case xchars of
        None \<Rightarrow> Some (0, False)
      | Some data \<Rightarrow>
          if base < 2 \<or> 36 < base then Some (0, False)
          else do {
            len \<leftarrow> XChar_getInputLength xchars input_count;
            Some (case parse_digits base (dropWhile is_blank (take len data)) 0 False of
                None \<Rightarrow> (0, False)
              | Some (result, has_digit) \<Rightarrow> (result, has_digit))
          })"

definition XChar_parse_signed :: "XChar list option \<Rightarrow> nat \<Rightarrow> int \<Rightarrow> (int \<times> bool) option" where
  "XChar_parse_signed xchars input_count base =
     (case xchars of
        None \<Rightarrow> Some (0, False)
      | Some data \<Rightarrow>
          if base < 2 \<or> 36 < base then Some (0, False)
          else do {
            len \<leftarrow> XChar_getInputLength xchars input_count;
            let i = length (takeWhile is_blank (take len data));
            if len \<le> i then Some (0, False)
            else do {
              let negative = (data ! i = 0x2D);
              let i = (if negative \<or> data ! i = 0x2B then i + 1 else i);
              (abs_val, success) \<leftarrow> XChar_parse_unsigned (Some (drop i data)) (len - i) base;
              if \<not> success then Some (0, False)
              else if (if negative then 0x8000000000000000 < abs_val else 0x7FFFFFFFFFFFFFFF < abs_val)
              then Some (0, False)
              else Some (sint (if negative then abs_val * (- 1) else abs_val), True)
            }
          })"

text \<open>The number of digits, and the digits from the last to the first.\<close>

function digit_count :: "nat \<Rightarrow> nat \<Rightarrow> nat" where
  "digit_count base t = (if t = 0 \<or> base < 2 then 0 else Suc (digit_count base (t div base)))"
  by pat_completeness auto
termination
  by (relation "measure snd") auto

declare digit_count.simps [simp del]

fun write_digits :: "nat \<Rightarrow> bool \<Rightarrow> nat \<Rightarrow> XChar list \<Rightarrow> nat \<Rightarrow> XChar list option" where
  "write_digits base uppercase t out 0 = Some out"
| "write_digits base uppercase t out (Suc k) = do {
     out1 \<leftarrow> put_at out k (XChar_value_to_digit (int (t mod base)) uppercase);
     write_digits base uppercase (t div base) out1 k
   }"

definition XChar_from_unsigned_num ::
  "64 word \<Rightarrow> int \<Rightarrow> XChar list option \<Rightarrow> nat \<Rightarrow> bool \<Rightarrow> (int \<times> XChar list option) option" where
  "XChar_from_unsigned_num v base out max_out uppercase =
     (if base < 2 \<or> 36 < base then Some (-1, out)
      else if v = 0 then
        (case out of
           None \<Rightarrow> Some (1, None)
         | Some buf \<Rightarrow>
             if max_out < 1 then Some (-1, out)
             else do {
               buf1 \<leftarrow> put_at buf 0 0x30;
               buf2 \<leftarrow> (if 2 \<le> max_out then put_at buf1 1 0 else Some buf1);
               Some (1, Some buf2)
             })
      else let req = digit_count (nat base) (unat v) in
        (case out of
           None \<Rightarrow> Some (int req, None)
         | Some buf \<Rightarrow>
             if max_out < req then Some (-1, out)
             else do {
               buf1 \<leftarrow> write_digits (nat base) uppercase (unat v) buf req;
               buf2 \<leftarrow> (if req < max_out then put_at buf1 req 0 else Some buf1);
               Some (int req, Some buf2)
             }))"

text \<open>The least number has no negation: for it the behaviour is not defined.\<close>

definition XChar_from_signed_num ::
  "int \<Rightarrow> int \<Rightarrow> XChar list option \<Rightarrow> nat \<Rightarrow> bool \<Rightarrow> (int \<times> XChar list option) option" where
  "XChar_from_signed_num v base out max_out uppercase =
     (if base < 2 \<or> 36 < base then Some (-1, out)
      else if v < 0 then
        (if v = - (2 ^ 63) then None
         else do {
           (abs_len, _) \<leftarrow> XChar_from_unsigned_num (word_of_int (- v)) base None 0 uppercase;
           let req = 1 + abs_len;
           (case out of
              None \<Rightarrow> Some (req, None)
            | Some buf \<Rightarrow>
                if int max_out < req then Some (-1, out)
                else do {
                  buf1 \<leftarrow> put_at buf 0 0x2D;
                  (w, rest) \<leftarrow> XChar_from_unsigned_num (word_of_int (- v)) base (Some (tl buf1)) (max_out - 1) uppercase;
                  let buf2 = hd buf1 # the rest;
                  if w = -1 then Some (-1, Some buf2)
                  else do {
                    buf3 \<leftarrow> (if req < int max_out then put_at buf2 (nat req) 0 else Some buf2);
                    Some (req, Some buf3)
                  }
                })
         })
      else XChar_from_unsigned_num (word_of_int v) base out max_out uppercase)"

definition XChar_toInt :: "XChar list option \<Rightarrow> nat \<Rightarrow> int \<Rightarrow> (int \<times> bool) option" where
  "XChar_toInt x n b = do {
     (v, s) \<leftarrow> XChar_parse_signed x n b;
     Some (if v < - (2 ^ 31) \<or> 2 ^ 31 - 1 < v then (0, False) else (v, s))
   }"

definition XChar_toShort :: "XChar list option \<Rightarrow> nat \<Rightarrow> int \<Rightarrow> (int \<times> bool) option" where
  "XChar_toShort x n b = do {
     (v, s) \<leftarrow> XChar_parse_signed x n b;
     Some (if \<not> s then (0, False) else if v < - (2 ^ 15) \<or> 2 ^ 15 - 1 < v then (0, False) else (v, s))
   }"

definition XChar_toLongLong :: "XChar list option \<Rightarrow> nat \<Rightarrow> int \<Rightarrow> (int \<times> bool) option" where
  "XChar_toLongLong x n b = XChar_parse_signed x n b"

definition XChar_toUInt :: "XChar list option \<Rightarrow> nat \<Rightarrow> int \<Rightarrow> (32 word \<times> bool) option" where
  "XChar_toUInt x n b = do {
     (v, s) \<leftarrow> XChar_parse_unsigned x n b;
     Some (if \<not> s then (0, False) else if 0xFFFFFFFF < v then (0, False) else (ucast v, s))
   }"

definition XChar_toULongLong :: "XChar list option \<Rightarrow> nat \<Rightarrow> int \<Rightarrow> (64 word \<times> bool) option" where
  "XChar_toULongLong x n b = XChar_parse_unsigned x n b"

definition XChar_fromInt ::
  "32 word \<Rightarrow> int \<Rightarrow> XChar list option \<Rightarrow> nat \<Rightarrow> bool \<Rightarrow> (int \<times> XChar list option) option" where
  "XChar_fromInt v b out m u = XChar_from_signed_num (sint v) b out m u"

definition XChar_fromLongLong ::
  "64 word \<Rightarrow> int \<Rightarrow> XChar list option \<Rightarrow> nat \<Rightarrow> bool \<Rightarrow> (int \<times> XChar list option) option" where
  "XChar_fromLongLong v b out m u = XChar_from_signed_num (sint v) b out m u"

definition XChar_fromUInt ::
  "32 word \<Rightarrow> int \<Rightarrow> XChar list option \<Rightarrow> nat \<Rightarrow> bool \<Rightarrow> (int \<times> XChar list option) option" where
  "XChar_fromUInt v b out m u = XChar_from_unsigned_num (ucast v) b out m u"

definition XChar_fromULongLong ::
  "64 word \<Rightarrow> int \<Rightarrow> XChar list option \<Rightarrow> nat \<Rightarrow> bool \<Rightarrow> (int \<times> XChar list option) option" where
  "XChar_fromULongLong v b out m u = XChar_from_unsigned_num v b out m u"

end
