(* ===== verification/XCharCodec.thy ===== *)
theory XCharCodec
  imports XChar
begin

unbundle bit_operations_syntax

text \<open>
  What the conversions of characters do to well-formed text: the bytes of a code point and the surrogates of a
  code point are read back, and the loops are conversions of lists.
\<close>

section \<open>Bits of bytes and code points\<close>

lemma byte_eqI: "list_all (\<lambda>n. bit a n \<longleftrightarrow> bit b n) [0, 1, 2, 3, 4, 5, 6, 7] \<Longrightarrow> a = (b :: 8 word)"
proof (rule bit_word_eqI)
  let ?ns = "[0, 1, 2, 3, 4, 5, 6, 7]"
  fix n :: nat assume all: "list_all (\<lambda>n. bit a n \<longleftrightarrow> bit b n) ?ns" and n: "n < LENGTH(8)"
  have "?ns = [0 ..< 8 :: nat]" by (simp add: upt_rec)
  then have "n \<in> set ?ns" using n by (simp only: set_upt) simp
  then show "bit a n = bit b n" using all by (simp only: list_all_iff)
qed

lemma code_eqI:
  "list_all (\<lambda>n. bit a n \<longleftrightarrow> bit b n) [0, 1, 2, 3, 4, 5, 6, 7, 8, 9, 10, 11, 12, 13, 14, 15,
     16, 17, 18, 19, 20, 21, 22, 23, 24, 25, 26, 27, 28, 29, 30, 31] \<Longrightarrow> a = (b :: 32 word)"
proof (rule bit_word_eqI)
  let ?ns = "[0, 1, 2, 3, 4, 5, 6, 7, 8, 9, 10, 11, 12, 13, 14, 15,
     16, 17, 18, 19, 20, 21, 22, 23, 24, 25, 26, 27, 28, 29, 30, 31]"
  fix n :: nat assume all: "list_all (\<lambda>n. bit a n \<longleftrightarrow> bit b n) ?ns" and n: "n < LENGTH(32)"
  have "?ns = [0 ..< 32 :: nat]" by (simp add: upt_rec)
  then have "n \<in> set ?ns" using n by (simp only: set_upt) simp
  then show "bit a n = bit b n" using all by (simp only: list_all_iff)
qed

lemma high_bits:
  assumes "c < 2 ^ k" and "k \<le> n"
  shows "\<not> bit (c :: 32 word) n"
proof -
  have "c AND mask k = c" by (rule less_mask_eq [OF assms(1)])
  then have "bit c n = bit (c AND mask k) n" by simp
  then show ?thesis using assms(2) by (simp add: bit_simps)
qed

section \<open>Code points as bytes\<close>

lemma lead_1:
  assumes "(c :: 32 word) < 2 ^ 7"
  shows "(ucast c :: 8 word) AND 0x80 = 0" and "ucast (ucast c :: 8 word) = c"
  by (rule byte_eqI code_eqI; use high_bits [OF assms] in \<open>simp add: bit_simps\<close>)+

lemma lead_2:
  assumes "(c :: 32 word) < 2 ^ 11"
  shows "(ucast (0xC0 OR drop_bit 6 c) :: 8 word) AND 0x80 = 0x80"
    and "(ucast (0xC0 OR drop_bit 6 c) :: 8 word) AND 0xE0 = 0xC0"
    and "push_bit 6 (ucast (ucast (0xC0 OR drop_bit 6 c) :: 8 word) AND 0x1F) OR
      (ucast (ucast (0x80 OR (c AND 0x3F)) :: 8 word) AND 0x3F) = c"
  by (rule byte_eqI code_eqI; use high_bits [OF assms] in \<open>simp add: bit_simps\<close>)+

lemma lead_3:
  assumes "(c :: 32 word) < 2 ^ 16"
  shows "(ucast (0xE0 OR drop_bit 12 c) :: 8 word) AND 0x80 = 0x80"
    and "(ucast (0xE0 OR drop_bit 12 c) :: 8 word) AND 0xE0 = 0xE0"
    and "(ucast (0xE0 OR drop_bit 12 c) :: 8 word) AND 0xF0 = 0xE0"
    and "push_bit 12 (ucast (ucast (0xE0 OR drop_bit 12 c) :: 8 word) AND 0x0F) OR
      push_bit 6 (ucast (ucast (0x80 OR (drop_bit 6 c AND 0x3F)) :: 8 word) AND 0x3F) OR
      (ucast (ucast (0x80 OR (c AND 0x3F)) :: 8 word) AND 0x3F) = c"
  by (rule byte_eqI code_eqI; use high_bits [OF assms] in \<open>simp add: bit_simps\<close>)+

lemma lead_4:
  assumes "(c :: 32 word) < 2 ^ 21"
  shows "(ucast (0xF0 OR drop_bit 18 c) :: 8 word) AND 0x80 = 0x80"
    and "(ucast (0xF0 OR drop_bit 18 c) :: 8 word) AND 0xE0 = 0xE0"
    and "(ucast (0xF0 OR drop_bit 18 c) :: 8 word) AND 0xF0 = 0xF0"
    and "(ucast (0xF0 OR drop_bit 18 c) :: 8 word) AND 0xF8 = 0xF0"
    and "push_bit 18 (ucast (ucast (0xF0 OR drop_bit 18 c) :: 8 word) AND 0x07) OR
      push_bit 12 (ucast (ucast (0x80 OR (drop_bit 12 c AND 0x3F)) :: 8 word) AND 0x3F) OR
      push_bit 6 (ucast (ucast (0x80 OR (drop_bit 6 c AND 0x3F)) :: 8 word) AND 0x3F) OR
      (ucast (ucast (0x80 OR (c AND 0x3F)) :: 8 word) AND 0x3F) = c"
  by (rule byte_eqI code_eqI; use high_bits [OF assms] in \<open>simp add: bit_simps\<close>)+

lemma read_utf8_bytes:
  assumes "utf8_bytes code = Some bs"
  shows "read_utf8 (bs @ r) = Some (code, r)"
    and "count_utf8 (bs @ r) n = count_utf8 r (n + (if code \<le> 0xFFFF then 1 else 2))"
proof -
  consider (1) "code < 2 ^ 7" | (2) "\<not> code \<le> 0x7F" "code < 2 ^ 11" | (3) "\<not> code \<le> 0x7F" "\<not> code \<le> 0x7FF" "code < 2 ^ 16"
    | (4) "\<not> code \<le> 0x7F" "\<not> code \<le> 0x7FF" "\<not> code \<le> 0xFFFF" "code \<le> 0x10FFFF" "code < 2 ^ 21"
    using assms by (simp add: utf8_bytes_def word_le_nat_alt word_less_nat_alt split: if_splits)
  then have "read_utf8 (bs @ r) = Some (code, r) \<and> count_utf8 (bs @ r) n = count_utf8 r (n + (if code \<le> 0xFFFF then 1 else 2))"
  proof cases
    case 1
    then show ?thesis using assms lead_1 [OF 1] by (auto simp: utf8_bytes_def word_le_nat_alt word_less_nat_alt)
  next
    case 2
    then show ?thesis using assms lead_2 [OF 2(2)] by (auto simp: utf8_bytes_def word_le_nat_alt word_less_nat_alt)
  next
    case 3
    then show ?thesis using assms lead_3 [OF 3(3)] by (auto simp: utf8_bytes_def word_le_nat_alt word_less_nat_alt)
  next
    case 4
    then show ?thesis using assms lead_4 [OF 4(5)] by (auto simp: utf8_bytes_def word_le_nat_alt word_less_nat_alt)
  qed
  then show "read_utf8 (bs @ r) = Some (code, r)"
    and "count_utf8 (bs @ r) n = count_utf8 r (n + (if code \<le> 0xFFFF then 1 else 2))" by blast+
qed

lemma utf8_bytes_some:
  assumes "code \<le> 0x10FFFF"
  shows "\<exists>b bs. utf8_bytes code = Some (b # bs)"
  using assms by (simp add: utf8_bytes_def)

lemma utf8_bytes_nonzero:
  assumes "utf8_bytes code = Some bs" and "code \<noteq> 0"
  shows "0 \<notin> set bs"
proof -
  have or: "ucast (0x80 OR x) \<noteq> (0 :: 8 word)" "ucast (0xC0 OR x) \<noteq> (0 :: 8 word)"
    "ucast (0xE0 OR x) \<noteq> (0 :: 8 word)" "ucast (0xF0 OR x) \<noteq> (0 :: 8 word)" for x :: "32 word"
    by (auto dest!: arg_cong [where f = "\<lambda>w. bit w 7"] simp: bit_simps)
  have "ucast code \<noteq> (0 :: 8 word)" if "code \<le> 0x7F"
  proof
    assume "ucast code = (0 :: 8 word)"
    moreover have "ucast (ucast code :: 8 word) = code" using that by (intro lead_1(2)) (simp add: word_le_nat_alt word_less_nat_alt)
    ultimately show False using assms(2) by simp
  qed
  then show ?thesis using assms(1) or [symmetric] by (auto simp: utf8_bytes_def split: if_splits)
qed

section \<open>Surrogates\<close>

lemma surrogate_split:
  assumes "XChar_isHighSurrogate h" and "XChar_isLowSurrogate l"
  obtains x y where "x < 1024" and "y < 1024" and "h = word_of_nat (0xD800 + x)" and "l = word_of_nat (0xDC00 + y)"
    and "XChar_surrogateToUcs4 h l = word_of_nat (1024 * x + y + 0x10000)"
proof -
  define x y where "x = unat h - 0xD800" and "y = unat l - 0xDC00"
  have b: "x < 1024" "y < 1024" "unat h = 0xD800 + x" "unat l = 0xDC00 + y"
    using assms
    unfolding x_def y_def XChar_isHighSurrogate_def XChar_isLowSurrogate_def word_le_nat_alt by (simp_all, linarith+)
  have hl: "h = word_of_nat (0xD800 + x)" "l = word_of_nat (0xDC00 + y)"
    using b by (simp_all only: word_unat_eq_iff unat_of_nat) simp_all
  have "(ucast h :: 32 word) = word_of_nat (0xD800 + x)" "(ucast l :: 32 word) = word_of_nat (0xDC00 + y)"
    using b by (simp_all only: hl word_unat_eq_iff unsigned_ucast_eq unsigned_of_nat) (simp_all add: take_bit_eq_mod)
  then have "XChar_surrogateToUcs4 h l = word_of_nat (1024 * x + y + 0x10000)"
    using assms by (simp add: XChar_surrogateToUcs4_def push_bit_eq_mult algebra_simps)
  then show ?thesis using that b hl by blast
qed

lemma surrogate_pair:
  assumes "XChar_isHighSurrogate h" and "XChar_isLowSurrogate l"
  shows "\<not> XChar_surrogateToUcs4 h l \<le> 0xFFFF" and "XChar_surrogateToUcs4 h l \<le> 0x10FFFF"
    and "XChar_fromUnicode (XChar_surrogateToUcs4 h l) = h" and "XChar_from_unicode_low (XChar_surrogateToUcs4 h l) = l"
proof -
  obtain x y where xy: "x < 1024" "y < 1024" "h = word_of_nat (0xD800 + x)" "l = word_of_nat (0xDC00 + y)"
    "XChar_surrogateToUcs4 h l = word_of_nat (1024 * x + y + 0x10000)"
    using surrogate_split [OF assms] .
  let ?c = "XChar_surrogateToUcs4 h l"
  have c: "unat ?c = 1024 * x + y + 0x10000" using xy(1,2) by (simp only: xy(5) unat_of_nat) simp
  show b: "\<not> ?c \<le> 0xFFFF" "?c \<le> 0x10FFFF" using c xy(1,2) by (simp_all add: word_le_nat_alt)
  have d: "?c - 0x10000 = word_of_nat (1024 * x + y)" using xy(5) by simp
  have n: "unat (?c - 0x10000) = 1024 * x + y" using xy(1,2) by (simp only: d unat_of_nat) simp
  have mask: "0x3FF = (mask 10 :: 32 word)" by (simp add: mask_eq_exp_minus_1)
  have "unat (drop_bit 10 (?c - 0x10000)) = x"
    using xy(1,2) by (simp only: unat_drop_bit_eq n) (simp add: drop_bit_eq_div)
  then have hi: "drop_bit 10 (?c - 0x10000) = word_of_nat x" using xy(1) by (simp only: word_unat_eq_iff unat_of_nat) simp
  have "unat ((?c - 0x10000) AND 0x3FF) = y"
    using xy(1,2) by (simp only: mask take_bit_eq_mask [symmetric] unsigned_take_bit_eq n) (simp add: take_bit_eq_mod)
  then have lo: "(?c - 0x10000) AND 0x3FF = word_of_nat y" using xy(2) by (simp only: word_unat_eq_iff unat_of_nat) simp
  have "(ucast (word_of_nat (0xD800 + x) :: 32 word) :: 16 word) = h" "(ucast (word_of_nat (0xDC00 + y) :: 32 word) :: 16 word) = l"
    using xy(1,2) by (simp_all only: xy(3,4) word_unat_eq_iff unsigned_ucast_eq unsigned_of_nat) (simp_all add: take_bit_eq_mod)
  then show "XChar_fromUnicode ?c = h" "XChar_from_unicode_low ?c = l"
    using b hi lo by (simp_all add: XChar_fromUnicode_def XChar_from_unicode_low_def not_less word_le_nat_alt word_less_nat_alt)
qed

section \<open>Text\<close>

text \<open>Well-formed text has no terminator inside and its surrogates in pairs.\<close>

fun well_formed_utf16 :: "XChar list \<Rightarrow> bool" where
  "well_formed_utf16 [] \<longleftrightarrow> True"
| "well_formed_utf16 [ch] \<longleftrightarrow> ch \<noteq> 0 \<and> \<not> XChar_isSurrogate ch"
| "well_formed_utf16 (ch # low # rest) \<longleftrightarrow>
     (if XChar_isHighSurrogate ch then XChar_isLowSurrogate low \<and> well_formed_utf16 rest
      else ch \<noteq> 0 \<and> \<not> XChar_isSurrogate ch \<and> well_formed_utf16 (low # rest))"

text \<open>The characters of a code point.\<close>

definition code_units :: "32 word \<Rightarrow> XChar list" where
  "code_units code = (if code \<le> 0xFFFF then [ucast code] else [XChar_fromUnicode code, XChar_from_unicode_low code])"

lemma code_units_not_Nil [simp]: "code_units code \<noteq> []"
  by (simp add: code_units_def)

lemma read_well_formed:
  assumes "well_formed_utf16 ch" and "ch \<noteq> []"
  obtains code rest where "read_utf16 ch = (code, rest)" and "ch = code_units code @ rest" and "well_formed_utf16 rest"
    and "code \<noteq> 0" and "code \<le> 0x10FFFF"
proof -
  have one: "(ucast u :: 32 word) \<le> 0xFFFF" "ucast (ucast u :: 32 word) = u" "u \<noteq> 0 \<Longrightarrow> (ucast u :: 32 word) \<noteq> 0" for u :: XChar
  proof -
    have "unat u < 2 ^ LENGTH(16)" by (rule unsigned_less)
    then have u: "unat u < 65536" by simp
    have e: "unat (ucast u :: 32 word) = unat u" by transfer simp
    show "(ucast u :: 32 word) \<le> 0xFFFF" using u by (simp only: word_le_nat_alt e) simp
    show "ucast (ucast u :: 32 word) = u" by transfer simp
    show "(ucast u :: 32 word) \<noteq> 0" if "u \<noteq> 0" using that e by (metis unsigned_eq_0_iff)
  qed
  have le: "code \<le> 0x10FFFF" if "code \<le> 0xFFFF" for code :: "32 word" using that by (simp add: word_le_nat_alt)
  from assms show ?thesis
  proof (cases ch rule: well_formed_utf16.cases)
    case (2 c)
    then show ?thesis using assms(1) one [of c] by (intro that [of "ucast c" "[]"]) (auto simp: code_units_def intro: le)
  next
    case (3 c low rest)
    show ?thesis
    proof (cases "XChar_isHighSurrogate c")
      case True
      then have l: "XChar_isLowSurrogate low" using assms(1) 3 by simp
      note p = surrogate_pair [OF True l]
      have "XChar_surrogateToUcs4 c low \<noteq> 0" using p(1) by auto
      then show ?thesis
        using assms(1) 3 True p by (intro that [of "XChar_surrogateToUcs4 c low" rest]) (simp_all add: code_units_def)
    next
      case False
      then show ?thesis using assms(1) 3 one [of c] by (intro that [of "ucast c" "low # rest"]) (auto simp: code_units_def intro: le)
    qed
  qed simp
qed

text \<open>The bytes of well-formed text, and induction over its code points.\<close>

function utf8_of :: "XChar list \<Rightarrow> 8 word list" where
  "utf8_of ch = (if ch = [] then [] else the (utf8_bytes (fst (read_utf16 ch))) @ utf8_of (snd (read_utf16 ch)))"
  by pat_completeness auto
termination
  by (relation "measure length") (auto intro: read_utf16_shorter [OF prod.collapse])

declare utf8_of.simps [simp del]

lemma utf8_of_Nil [simp]: "utf8_of [] = []"
  by (simp add: utf8_of.simps)

lemma text_induct [consumes 1, case_names end_of_text code_point]:
  assumes "well_formed_utf16 ch" and "P []"
    and step: "\<And>ch code b bs rest. well_formed_utf16 ch \<Longrightarrow> ch \<noteq> [] \<Longrightarrow> read_utf16 ch = (code, rest) \<Longrightarrow>
      ch = code_units code @ rest \<Longrightarrow> utf8_bytes code = Some (b # bs) \<Longrightarrow> utf8_of ch = b # bs @ utf8_of rest \<Longrightarrow>
      0 \<notin> set (b # bs) \<Longrightarrow> P rest \<Longrightarrow> P ch"
  shows "P ch"
  using assms(1)
proof (induction ch rule: length_induct)
  case (1 ch)
  show ?case
  proof (cases "ch = []")
    case False
    obtain code rest where r: "read_utf16 ch = (code, rest)" "ch = code_units code @ rest" "well_formed_utf16 rest" "code \<noteq> 0"
      "code \<le> 0x10FFFF"
      using read_well_formed [OF 1(2) False] .
    obtain b bs where b: "utf8_bytes code = Some (b # bs)" using utf8_bytes_some [OF r(5)] by blast
    have "utf8_of ch = b # bs @ utf8_of rest" using False r(1) b by (simp add: utf8_of.simps [of ch])
    moreover have "length rest < length ch" using read_utf16_shorter r(1) False by metis
    ultimately show ?thesis using step [OF 1(2) False r(1,2) b] utf8_bytes_nonzero [OF b r(4)] 1(1) r(3) by blast
  qed (simp add: assms(2))
qed

lemma utf8_of_nonzero: "well_formed_utf16 ch \<Longrightarrow> 0 \<notin> set (utf8_of ch)"
  by (induction rule: text_induct) auto

lemma text_nonzero: "well_formed_utf16 ch \<Longrightarrow> 0 \<notin> set ch"
  by (induction ch rule: well_formed_utf16.induct)
    (auto simp: XChar_isHighSurrogate_def XChar_isLowSurrogate_def word_le_nat_alt split: if_splits)

lemma utf8_of_text: "well_formed_utf16 ch \<Longrightarrow> length ch \<le> length (utf8_of ch)"
proof (induction rule: text_induct)
  case (code_point ch code b bs rest)
  then show ?case by (auto simp: code_units_def utf8_bytes_def word_le_nat_alt split: if_splits)
qed simp

section \<open>The loops on well-formed text\<close>

lemma count_utf16_text: "well_formed_utf16 ch \<Longrightarrow> count_utf16 ch n = n + int (length (utf8_of ch))"
proof (induction arbitrary: n rule: text_induct)
  case (code_point ch code b bs rest)
  then have "length (b # bs) = (if code \<le> 0x7F then 1 else if code \<le> 0x7FF then 2 else if code \<le> 0xFFFF then 3 else 4)"
    "code \<le> 0x10FFFF"
    by (auto simp: utf8_bytes_def word_le_nat_alt split: if_splits)
  then show ?case using code_point(2,3,6,8) by (subst count_utf16.simps) (auto split: if_splits)
qed (simp add: count_utf16.simps)

lemma count_utf8_text: "well_formed_utf16 ch \<Longrightarrow> count_utf8 (utf8_of ch) n = n + int (length ch)"
proof (induction arbitrary: n rule: text_induct)
  case (code_point ch code b bs rest)
  show ?case using read_utf8_bytes(2) [OF code_point(5), of "utf8_of rest" n] code_point by (simp add: code_units_def)
qed simp

lemma finish_stream_Some:
  "out_idx < max_out \<Longrightarrow> max_out \<le> length out \<Longrightarrow>
    finish_stream out out_idx max_out = Some (int out_idx, take out_idx out @ 0 # drop (out_idx + 1) out)"
  by (simp add: finish_stream_def upd_conv_take_nth_drop)

lemma to_utf8_loop_text:
  "well_formed_utf16 ch \<Longrightarrow> out_idx + length (utf8_of ch) < max_out \<Longrightarrow> max_out \<le> length out \<Longrightarrow>
    to_utf8_loop ch out out_idx max_out =
      Some (int (out_idx + length (utf8_of ch)),
        take out_idx out @ utf8_of ch @ 0 # drop (out_idx + length (utf8_of ch) + 1) out)"
proof (induction arbitrary: out out_idx rule: text_induct)
  case (code_point ch code b bs rest)
  let ?k = "out_idx + length (b # bs)" and ?out = "take out_idx out @ (b # bs) @ drop (out_idx + length (b # bs)) out"
  have p: "put_all out out_idx (b # bs) = Some ?out" using code_point.prems code_point(6) by (intro put_all_Some) simp
  have "to_utf8_loop ch out out_idx max_out = to_utf8_loop rest ?out ?k max_out"
    using code_point p by (subst to_utf8_loop.simps) (simp del: put_all.simps)
  also have "\<dots> = Some (int (?k + length (utf8_of rest)), take ?k ?out @ utf8_of rest @ 0 # drop (?k + length (utf8_of rest) + 1) ?out)"
    using code_point.prems code_point(6) by (intro code_point.IH) simp_all
  finally show ?case using code_point.prems code_point(6) by (simp add: ac_simps)
qed (simp add: to_utf8_loop.simps finish_stream_Some)

lemma from_utf8_loop_text:
  "well_formed_utf16 ch \<Longrightarrow> out_idx + length ch < max_out \<Longrightarrow> max_out \<le> length out \<Longrightarrow>
    from_utf8_loop (utf8_of ch) out out_idx max_out =
      Some (int (out_idx + length ch), take out_idx out @ ch @ 0 # drop (out_idx + length ch + 1) out)"
proof (induction arbitrary: out out_idx rule: text_induct)
  case (code_point ch code b bs rest)
  let ?us = "code_units code"
  let ?k = "out_idx + length ?us" and ?out = "take out_idx out @ ?us @ drop (out_idx + length ?us) out"
  have len: "length ch = length ?us + length rest" "0 < length ?us" using code_point(4) by (simp_all add: code_units_def)
  have p: "put_all out out_idx ?us = Some ?out" using code_point.prems len by (intro put_all_Some) simp
  have "from_utf8_loop (utf8_of ch) out out_idx max_out = from_utf8_loop (utf8_of rest) ?out ?k max_out"
    using code_point(6) read_utf8_bytes(1) [OF code_point(5), of "utf8_of rest"] p code_point.prems len
    by (subst from_utf8_loop.simps) (auto simp: code_units_def split: if_splits)
  also have "\<dots> = Some (int (?k + length rest), take ?k ?out @ rest @ 0 # drop (?k + length rest + 1) ?out)"
    using code_point.prems len by (intro code_point.IH) simp_all
  finally show ?case using code_point.prems len code_point(4) by (simp add: ac_simps)
qed (simp add: from_utf8_loop.simps finish_stream_Some)

end
