(* ===== verification/XCharProps.thy ===== *)
theory XCharProps
  imports XCharCodec
begin

unbundle bit_operations_syntax

text \<open>
  The properties of the conversions of characters: text survives the way through UTF-8, no conversion writes
  outside its buffer, numbers survive the way through digits.
\<close>

section \<open>Buffers\<close>

text \<open>What a conversion promises of its buffer: it keeps its length and all that lies beyond the bound; the
  result counts the units before a terminator or reports failure.\<close>

definition within_buffer :: "'a::zero list \<Rightarrow> nat \<Rightarrow> (int \<times> 'a list) option \<Rightarrow> bool" where
  "within_buffer out max_out res \<longleftrightarrow>
     (\<exists>r out'. res = Some (r, out') \<and> length out' = length out \<and> drop max_out out' = drop max_out out \<and>
       (r = -1 \<or> 0 \<le> r \<and> r < int max_out \<and> out' ! nat r = 0))"

lemma within_buffer_fail [simp]: "within_buffer out max_out (Some (-1, out))"
  by (simp add: within_buffer_def)

lemma within_buffer_finish [simp]: "max_out \<le> length out \<Longrightarrow> within_buffer out max_out (finish_stream out out_idx max_out)"
  by (auto simp: within_buffer_def finish_stream_def drop_update_swap)

lemma within_buffer_trans:
  assumes "length buf = length out" and "drop max_out buf = drop max_out out" and "within_buffer buf max_out res"
  shows "within_buffer out max_out res"
  using assms by (auto simp: within_buffer_def)

lemma within_buffer_put_all:
  assumes "out_idx + length vs \<le> max_out" and "max_out \<le> length out"
    and "\<And>buf. length buf = length out \<Longrightarrow> within_buffer buf max_out (f buf)"
  shows "within_buffer out max_out (do { buf \<leftarrow> put_all out out_idx vs; f buf })"
proof -
  let ?buf = "take out_idx out @ vs @ drop (out_idx + length vs) out"
  have "put_all out out_idx vs = Some ?buf" using assms(1,2) by (intro put_all_Some) simp
  moreover have "within_buffer out max_out (f ?buf)"
    using assms by (intro within_buffer_trans [OF _ _ assms(3)]) simp_all
  ultimately show ?thesis by simp
qed

lemma within_buffer_put_at:
  assumes "out_idx < max_out" and "max_out \<le> length out"
    and "\<And>buf. length buf = length out \<Longrightarrow> within_buffer buf max_out (f buf)"
  shows "within_buffer out max_out (do { buf \<leftarrow> put_at out out_idx v; f buf })"
  using within_buffer_put_all [of out_idx "[v]" max_out out f] assms by simp

lemma from_utf8_loop_within: "max_out \<le> length out \<Longrightarrow> within_buffer out max_out (from_utf8_loop utf8 out out_idx max_out)"
proof (induction utf8 arbitrary: out out_idx rule: length_induct)
  case (1 utf8)
  then have "read_utf8 utf8 = Some (code, rest) \<Longrightarrow> length buf = length out \<Longrightarrow>
      within_buffer buf max_out (from_utf8_loop rest buf k max_out)" for code rest buf k
    using read_utf8_shorter by auto
  then show ?case
    using 1(2) by (subst from_utf8_loop.simps)
      (auto split: option.split intro!: within_buffer_put_at within_buffer_put_all simp del: put_all.simps put_at_Some)
qed

lemma to_utf8_loop_within: "max_utf8 \<le> length utf8 \<Longrightarrow> within_buffer utf8 max_utf8 (to_utf8_loop ch utf8 out_idx max_utf8)"
proof (induction ch arbitrary: utf8 out_idx rule: length_induct)
  case (1 ch)
  then have "read_utf16 ch = (code, rest) \<Longrightarrow> ch \<noteq> [] \<Longrightarrow> length buf = length utf8 \<Longrightarrow>
      within_buffer buf max_utf8 (to_utf8_loop rest buf k max_utf8)" for code rest buf k
    using read_utf16_shorter [of code rest ch] by auto
  then show ?case
    using 1(2) by (subst to_utf8_loop.simps) (auto split: option.split prod.split intro!: within_buffer_put_all)
qed

lemma to_utf32_loop_within: "max_out \<le> length out \<Longrightarrow> within_buffer out max_out (to_utf32_loop ch out out_idx max_out)"
proof (induction ch arbitrary: out out_idx rule: length_induct)
  case (1 ch)
  then have "ch \<noteq> [] \<Longrightarrow> length buf = length out \<Longrightarrow>
      within_buffer buf max_out (to_utf32_loop (snd (read_utf16 ch)) buf k max_out)" for buf k
    using read_utf16_shorter [of "fst (read_utf16 ch)" "snd (read_utf16 ch)" ch] by auto
  then show ?case using 1(2) by (subst to_utf32_loop.simps) (auto intro!: within_buffer_put_at simp del: put_at_Some)
qed

lemma from_utf32_loop_within: "max_out \<le> length out \<Longrightarrow> within_buffer out max_out (from_utf32_loop codes out out_idx max_out)"
  by (induction codes arbitrary: out out_idx)
    (auto intro!: within_buffer_put_at within_buffer_put_all simp del: put_all.simps put_at_Some)

lemma copy_units_within: "max_out \<le> length out \<Longrightarrow> within_buffer out max_out (copy_units conv xs out out_idx max_out)"
  by (induction xs arbitrary: out out_idx) (auto intro!: within_buffer_put_at simp del: put_at_Some)

text \<open>An input that can be read to its end: there is a terminator, or as many units as the count says.\<close>

definition readable :: "nat \<Rightarrow> 'a::zero list \<Rightarrow> bool" where
  "readable n data \<longleftrightarrow> 0 \<in> set data \<or> 0 < n \<and> n \<le> length data"

lemma readable_length: "readable n data \<Longrightarrow> \<exists>k. stream_input_len data n = Some k"
proof (cases "0 \<in> set data")
  case True
  then have "\<exists>k. nul_position data = Some k" "\<exists>k. nul_within data n = Some k" for n
    by (induction data arbitrary: n; case_tac n; auto)+
  then show ?thesis by (simp add: stream_input_len_def)
next
  case False
  assume "readable n data"
  then show ?thesis using False nul_within_Some [of n data] by (auto simp: readable_def stream_input_len_def)
qed

text \<open>The same for a conversion that is given a buffer.\<close>

definition stays_within :: "'a::zero list \<Rightarrow> nat \<Rightarrow> (int \<times> 'a list option) option \<Rightarrow> bool" where
  "stays_within out max_out res \<longleftrightarrow>
     (\<exists>r out'. res = Some (r, Some out') \<and> length out' = length out \<and> drop max_out out' = drop max_out out \<and>
       (r = -1 \<or> 0 \<le> r \<and> r < int max_out \<and> out' ! nat r = 0))"

lemma stays_within_map: "within_buffer out max_out res \<Longrightarrow> stays_within out max_out (map_option (map_prod id Some) res)"
  by (auto simp: within_buffer_def stays_within_def)

lemma stays_within_fail [simp]: "stays_within out max_out (Some (-1, Some out))"
  by (simp add: stays_within_def)

section \<open>Digits\<close>

fun num_digits :: "nat \<Rightarrow> nat \<Rightarrow> nat list" where
  "num_digits base t = (if t = 0 \<or> base < 2 then [] else num_digits base (t div base) @ [t mod base])"

declare num_digits.simps [simp del]

abbreviation digit_chars :: "bool \<Rightarrow> nat list \<Rightarrow> XChar list" where
  "digit_chars uppercase ds \<equiv> map (\<lambda>d. XChar_value_to_digit (int d) uppercase) ds"

lemma length_num_digits: "length (num_digits base t) = digit_count base t"
  by (induction base t rule: num_digits.induct) (simp add: num_digits.simps digit_count.simps)

lemma num_digits_less: "d \<in> set (num_digits base t) \<Longrightarrow> d < base"
proof (induction base t rule: num_digits.induct)
  case (1 base t)
  then show ?case by (auto simp: num_digits.simps [of base t] split: if_splits)
qed

lemma write_digits_text:
  "2 \<le> base \<Longrightarrow> k = digit_count base t \<Longrightarrow> k \<le> length out \<Longrightarrow>
    write_digits base uppercase t out k = Some (digit_chars uppercase (num_digits base t) @ drop k out)"
proof (induction k arbitrary: t out)
  case 0
  then show ?case by (simp add: digit_count.simps [of base t] num_digits.simps split: if_splits)
next
  case (Suc k)
  then have t: "t \<noteq> 0" "k = digit_count base (t div base)" by (auto simp: digit_count.simps [of base t] split: if_splits)
  let ?d = "XChar_value_to_digit (int (t mod base)) uppercase"
  have "write_digits base uppercase t out (Suc k) =
      Some (digit_chars uppercase (num_digits base (t div base)) @ drop k (out[k := ?d]))"
    using Suc.IH [OF Suc.prems(1) t(2), of "out[k := ?d]"] Suc.prems(3) by simp
  also have "drop k (out[k := ?d]) = ?d # drop (Suc k) out"
    using Suc.prems(3) by (simp add: drop_update_swap Cons_nth_drop_Suc [symmetric])
  finally show ?case using t(1) Suc.prems(1) by (simp add: num_digits.simps [of base t])
qed

lemma digit_to_value_to_digit:
  assumes "v < 36"
  shows "XChar_digit_to_value (XChar_value_to_digit (int v) uppercase) = int v"
    and "\<not> is_blank (XChar_value_to_digit (int v) uppercase)"
    and "XChar_value_to_digit (int v) uppercase \<noteq> 0"
    and "XChar_value_to_digit (int v) uppercase \<noteq> 0x2D" and "XChar_value_to_digit (int v) uppercase \<noteq> 0x2B"
proof -
  define z where "z = (if v < 10 then 0x30 + int v else if uppercase then 0x37 + int v else 0x57 + int v)"
  have z: "XChar_value_to_digit (int v) uppercase = word_of_int z" using assms by (auto simp: XChar_value_to_digit_def z_def)
  have "0 \<le> z" "z < 0x10000" using assms by (auto simp: z_def)
  then have u: "uint (word_of_int z :: XChar) = z" by (simp add: uint_word_of_int)
  show "XChar_digit_to_value (XChar_value_to_digit (int v) uppercase) = int v"
    using assms unfolding z XChar_digit_to_value_def word_le_def u by (auto simp: z_def)
  have "z \<noteq> uint w" if "w \<in> {0x20, 0x09, 0x0A, 0, 0x2D, 0x2B :: XChar}" for w using that assms by (auto simp: z_def)
  then have "XChar_value_to_digit (int v) uppercase \<notin> {0x20, 0x09, 0x0A, 0, 0x2D, 0x2B}" using u z by metis
  then show "\<not> is_blank (XChar_value_to_digit (int v) uppercase)"
    and "XChar_value_to_digit (int v) uppercase \<noteq> 0"
    and "XChar_value_to_digit (int v) uppercase \<noteq> 0x2D" and "XChar_value_to_digit (int v) uppercase \<noteq> 0x2B"
    by (auto simp: is_blank_def)
qed

lemma parse_digits_chars:
  assumes "2 \<le> base" and "base \<le> 36"
  shows "\<forall>d\<in>set ds. d < base \<Longrightarrow> fold (\<lambda>d r. r * base + d) ds (unat r) < 2 ^ 64 \<Longrightarrow>
    parse_digits (int base) (digit_chars uppercase ds) r b =
      Some (word_of_nat (fold (\<lambda>d r. r * base + d) ds (unat r)), b \<or> ds \<noteq> [])"
proof (induction ds arbitrary: r b)
  case (Cons d ds)
  let ?r = "r * word_of_int (int base) + word_of_int (int d)"
  have d: "d < base" "d < 36" using Cons.prems(1) assms(2) by auto
  have mono: "x \<le> fold (\<lambda>d r. r * base + d) ds x" for x
  proof (induction ds arbitrary: x)
    case (Cons a ds)
    have "x \<le> x * base + a" using assms(1) by (simp add: trans_le_add1)
    then show ?case using Cons.IH [of "x * base + a"] by simp
  qed simp
  have small: "unat r * base + d < 2 ^ 64" using Cons.prems(2) mono [of "unat r * base + d"] by simp
  have w: "unat (word_of_nat d :: 64 word) = d" "unat (word_of_nat base :: 64 word) = base"
    using d(2) assms(2) by (simp_all add: unsigned_of_nat take_bit_nat_eq_self)
  have "unat r * base < 2 ^ 64" using small by simp
  then have r: "unat ?r = unat r * base + d" using small w by (simp add: unat_word_ariths)
  have "unat r \<le> (2 ^ 64 - 1 - d) div base" using small assms(1) by (simp add: less_eq_div_iff_mult_less_eq)
  moreover have "unat (- 1 - word_of_nat d :: 64 word) = 2 ^ 64 - 1 - d"
  proof -
    have m: "unat (- 1 :: 64 word) = 2 ^ 64 - 1" by (simp add: unsigned_minus_1_eq_mask mask_eq_exp_minus_1)
    have "(word_of_nat d :: 64 word) \<le> - 1" by simp
    then show ?thesis using unat_sub [of "word_of_nat d :: 64 word" "- 1"] w(1) m by simp
  qed
  ultimately have "\<not> (- 1 - word_of_int (int d)) div word_of_int (int base) < r"
    using w(2) by (simp add: word_less_nat_alt unat_div)
  then show ?case using Cons.IH [of ?r True] Cons.prems r d digit_to_value_to_digit [of d uppercase] by simp
qed simp

lemma num_digits_value: "2 \<le> base \<Longrightarrow> fold (\<lambda>d r. r * base + d) (num_digits base t) 0 = t"
proof (induction base t rule: num_digits.induct)
  case (1 base t)
  then show ?case by (subst num_digits.simps) simp
qed

text \<open>The text of a number.\<close>

definition num_text :: "nat \<Rightarrow> bool \<Rightarrow> 64 word \<Rightarrow> XChar list" where
  "num_text base uppercase v = digit_chars uppercase (if v = 0 then [0] else num_digits base (unat v))"

lemma num_digits_Nil: "2 \<le> base \<Longrightarrow> num_digits base t = [] \<longleftrightarrow> t = 0"
  by (subst num_digits.simps) auto

lemma num_text_digits:
  assumes "2 \<le> base" and "base \<le> 36"
  obtains ds where "num_text base uppercase v = digit_chars uppercase ds" and "\<forall>d\<in>set ds. d < base" and "ds \<noteq> []"
    and "fold (\<lambda>d r. r * base + d) ds 0 = unat v"
proof (cases "v = 0")
  case True
  then show ?thesis using that [of "[0]"] assms(1) by (simp add: num_text_def)
next
  case False
  then show ?thesis
    using that [of "num_digits base (unat v)"] assms num_digits_less num_digits_value [of base "unat v"]
    by (simp add: num_text_def num_digits_Nil unat_gt_0)
qed

lemma num_text_chars:
  assumes "2 \<le> base" and "base \<le> 36" and "c \<in> set (num_text base uppercase v)"
  shows "\<not> is_blank c" and "c \<noteq> 0" and "c \<noteq> 0x2D" and "c \<noteq> 0x2B"
proof -
  obtain ds where ds: "num_text base uppercase v = digit_chars uppercase ds" "\<forall>d\<in>set ds. d < base"
    using num_text_digits [OF assms(1,2)] by metis
  then obtain d where "c = XChar_value_to_digit (int d) uppercase" "d < 36" using assms(2,3) by auto
  then show "\<not> is_blank c" and "c \<noteq> 0" and "c \<noteq> 0x2D" and "c \<noteq> 0x2B"
    using digit_to_value_to_digit [of d uppercase] by simp_all
qed

lemma num_text_not_Nil: "2 \<le> base \<Longrightarrow> num_text base uppercase v \<noteq> []"
  by (simp add: num_text_def num_digits_Nil unat_gt_0)

lemma from_unsigned_size:
  assumes "2 \<le> base" and "base \<le> 36"
  shows "XChar_from_unsigned_num v (int base) None m uppercase = Some (int (length (num_text base uppercase v)), None)"
  using assms by (simp add: XChar_from_unsigned_num_def num_text_def length_num_digits Let_def)

lemma from_unsigned_text:
  assumes "2 \<le> base" and "base \<le> 36" and "length (num_text base uppercase v) \<le> m" and "m \<le> length buf"
  shows "\<exists>buf'. XChar_from_unsigned_num v (int base) (Some buf) m uppercase =
      Some (int (length (num_text base uppercase v)), Some buf') \<and> length buf' = length buf \<and>
    take (length (num_text base uppercase v)) buf' = num_text base uppercase v"
proof (cases "v = 0")
  case True
  then show ?thesis
    using assms by (cases buf; cases "tl buf") (auto simp: XChar_from_unsigned_num_def num_text_def XChar_value_to_digit_def)
next
  case False
  let ?k = "digit_count base (unat v)" and ?t = "num_text base uppercase v"
  have k: "length ?t = ?k" using False by (simp add: num_text_def length_num_digits)
  have w: "write_digits base uppercase (unat v) buf ?k = Some (?t @ drop ?k buf)"
    using write_digits_text [OF assms(1) refl, of "unat v" buf uppercase] assms(3,4) k False by (simp add: num_text_def)
  show ?thesis using assms False w k by (auto simp: XChar_from_unsigned_num_def Let_def)
qed

lemma parse_unsigned_text:
  assumes "2 \<le> base" and "base \<le> 36" and "take (length (num_text base uppercase v)) data = num_text base uppercase v"
  shows "XChar_parse_unsigned (Some data) (length (num_text base uppercase v)) (int base) = Some (v, True)"
proof -
  let ?t = "num_text base uppercase v"
  have le: "length ?t \<le> length data" using arg_cong [OF assms(3), of length] by simp
  have "?t \<noteq> []" by (rule num_text_not_Nil [OF assms(1)])
  then have len: "stream_input_len data (length ?t) = Some (length ?t)"
    using assms(3) le num_text_chars(2) [OF assms(1,2)] by (intro stream_input_len_all) auto
  obtain ds where ds: "?t = digit_chars uppercase ds" "\<forall>d\<in>set ds. d < base" "ds \<noteq> []"
    "fold (\<lambda>d r. r * base + d) ds 0 = unat v"
    using num_text_digits [OF assms(1,2)] by metis
  have "\<not> is_blank (hd ?t)" using num_text_chars(1) [OF assms(1,2) hd_in_set] \<open>?t \<noteq> []\<close> by blast
  then have "dropWhile is_blank ?t = ?t" using \<open>?t \<noteq> []\<close> by (cases ?t) simp_all
  moreover have "unat v < 2 ^ 64" using unsigned_less [of v] by simp
  ultimately show ?thesis
    using assms parse_digits_chars [OF assms(1,2) ds(2), of 0 uppercase False] ds len
    by (simp add: XChar_parse_unsigned_def XChar_getInputLength_def)
qed

lemma sint_of_int: "- (2 ^ 63) \<le> v \<Longrightarrow> v < 2 ^ 63 \<Longrightarrow> sint (word_of_int v :: 64 word) = v"
  by (simp add: signed_of_int signed_take_bit_int_eq_self)

lemma parse_signed_text:
  assumes "2 \<le> base" and "base \<le> 36" and "- (2 ^ 63) < v" and "v < 2 ^ 63"
    and t: "t = (if v < 0 then 0x2D # num_text base uppercase (word_of_int (- v)) else num_text base uppercase (word_of_int v))"
    and "take (length t) data = t"
  shows "XChar_parse_signed (Some data) (length t) (int base) = Some (v, True)"
proof -
  let ?u = "num_text base uppercase (word_of_int \<bar>v\<bar>)"
  have le: "length t \<le> length data" using arg_cong [OF assms(6), of length] by simp
  have u: "?u \<noteq> []" by (rule num_text_not_Nil [OF assms(1)])
  note chars = num_text_chars [OF assms(1,2)]
  have "0 \<notin> set t" using chars(2) by (auto simp: t)
  then have len: "stream_input_len data (length t) = Some (length t)"
    using assms(6) le u by (intro stream_input_len_all) (auto simp: t)
  obtain c cs where c: "t = c # cs" "\<not> is_blank c" "v < 0 \<longleftrightarrow> c = 0x2D" "c \<noteq> 0x2B"
  proof (cases t)
    case (Cons c cs)
    have "v \<ge> 0 \<Longrightarrow> c \<in> set (num_text base uppercase (word_of_int v))" using Cons t by (metis leD list.set_intros(1))
    then have "0 \<le> v \<Longrightarrow> \<not> is_blank c \<and> c \<noteq> 0x2D \<and> c \<noteq> 0x2B" using chars by blast
    then show ?thesis using that [OF Cons] Cons t by (cases "v < 0") (auto simp: is_blank_def)
  qed (use u t in \<open>auto split: if_splits\<close>)
  have d: "data ! 0 = c" using assms(6) c(1) le by (metis length_Cons nth_Cons_0 nth_take zero_less_Suc)
  have blanks: "takeWhile is_blank t = []" using c(1,2) by simp
  have small: "unat (word_of_int \<bar>v\<bar> :: 64 word) = nat \<bar>v\<bar>" using assms(3,4) by (simp add: unat_eq_nat_uint uint_word_of_int)
  have tail: "take (length ?u) (drop (if v < 0 then 1 else 0) data) = ?u" "length t - (if v < 0 then 1 else 0) = length ?u"
    using assms(6) t by (auto simp: take_drop abs_if)
  have p: "XChar_parse_unsigned (Some (drop (if v < 0 then 1 else 0) data)) (length t - (if v < 0 then 1 else 0)) (int base) =
      Some (word_of_int \<bar>v\<bar>, True)"
    using parse_unsigned_text [OF assms(1,2) tail(1)] tail(2) by simp
  have "sint (if v < 0 then word_of_int \<bar>v\<bar> * (- 1) else word_of_int \<bar>v\<bar> :: 64 word) = v"
    using sint_of_int [of v] assms(3,4) by (simp add: abs_if)
  moreover have "\<not> (if v < 0 then 0x8000000000000000 < (word_of_int \<bar>v\<bar> :: 64 word) else 0x7FFFFFFFFFFFFFFF < (word_of_int \<bar>v\<bar> :: 64 word))"
    using small assms(3,4) by (auto simp: word_less_nat_alt)
  ultimately show ?thesis
    using assms(1,2) len assms(6) blanks c d p
    by (cases "v < 0") (simp_all add: XChar_parse_signed_def XChar_getInputLength_def Let_def)
qed

lemma from_signed_text:
  assumes "2 \<le> base" and "base \<le> 36" and "- (2 ^ 63) < v" and "v < 2 ^ 63"
    and t: "t = (if v < 0 then 0x2D # num_text base uppercase (word_of_int (- v)) else num_text base uppercase (word_of_int v))"
    and "length t \<le> m" and "m \<le> length buf"
  shows "\<exists>buf'. XChar_from_signed_num v (int base) (Some buf) m uppercase = Some (int (length t), Some buf') \<and>
    take (length t) buf' = t"
proof (cases "v < 0")
  case True
  let ?u = "num_text base uppercase (word_of_int (- v))"
  obtain c buf0 where b: "buf = c # buf0" using assms(6,7) True t by (cases buf) auto
  have m: "length ?u \<le> m - 1" "m - 1 \<le> length buf0" using assms(6,7) b True t by simp_all
  obtain rest where r: "XChar_from_unsigned_num (word_of_int (- v)) (int base) (Some buf0) (m - 1) uppercase =
      Some (int (length ?u), Some rest)" "length rest = length buf0" "take (length ?u) rest = ?u"
    using from_unsigned_text [OF assms(1,2) m] by blast
  show ?thesis
    using assms(1,2,3,6,7) True t b r from_unsigned_size [OF assms(1,2), of "word_of_int (- v)" 0 uppercase]
    by (auto simp: XChar_from_signed_num_def Let_def nat_add_distrib)
next
  case False
  then show ?thesis
    using from_unsigned_text [OF assms(1,2), of uppercase "word_of_int v" m buf] assms by (auto simp: XChar_from_signed_num_def)
qed

section \<open>Properties\<close>

text \<open>
  C9: Well-formed text survives the way through UTF-8: the conversion to UTF-8 writes exactly as many bytes as it
  announces, the bytes are announced to be as many characters as the text has, and converting them back gives
  the text and a terminator.
\<close>

lemma utf8_roundtrip:
  assumes "well_formed_utf16 ch" and "ch \<noteq> []" and "XChar_toUtf8Stream (Some ch) (length ch) None 0 = Some (n, None)"
    and "n < int max_utf8" and "max_utf8 \<le> length utf8" and "length ch < max_out" and "max_out \<le> length out"
  shows "\<exists>utf8' out'. XChar_toUtf8Stream (Some ch) (length ch) (Some utf8) max_utf8 = Some (n, Some utf8') \<and>
    XChar_fromUtf8Stream (Some utf8') (nat n) None 0 = Some (int (length ch), None) \<and>
    XChar_fromUtf8Stream (Some utf8') (nat n) (Some out) max_out = Some (int (length ch), Some out') \<and>
    take (length ch + 1) out' = ch @ [0]"
proof -
  have ch: "stream_input_len ch (length ch) = Some (length ch)"
    using assms(1,2) text_nonzero by (intro stream_input_len_all) auto
  have n: "n = int (length (utf8_of ch))"
    using assms(3) ch count_utf16_text [OF assms(1)] by (simp add: XChar_toUtf8Stream_def stream_input_len_defs)
  have max: "length (utf8_of ch) < max_utf8" "0 < max_utf8" "0 < max_out" using assms(4,6) n by simp_all
  then obtain j k where jk: "max_utf8 = Suc j" "max_out = Suc k" by (metis gr0_conv_Suc)
  let ?utf8 = "utf8_of ch @ 0 # drop (length (utf8_of ch) + 1) utf8" and ?out = "ch @ 0 # drop (length ch + 1) out"
  have "XChar_toUtf8Stream (Some ch) (length ch) (Some utf8) max_utf8 = Some (n, Some ?utf8)"
    using to_utf8_loop_text [OF assms(1), of 0 max_utf8 utf8] max assms(5) ch n jk
    by (simp add: XChar_toUtf8Stream_def stream_input_len_defs)
  moreover have "stream_input_len ?utf8 (length (utf8_of ch)) = Some (length (utf8_of ch))"
    using utf8_of_text [OF assms(1)] utf8_of_nonzero [OF assms(1)] assms(2) by (intro stream_input_len_all) auto
  then have "XChar_fromUtf8Stream (Some ?utf8) (nat n) None 0 = Some (int (length ch), None)"
    "XChar_fromUtf8Stream (Some ?utf8) (nat n) (Some out) max_out = Some (int (length ch), Some ?out)"
    using from_utf8_loop_text [OF assms(1), of 0 max_out out] assms(6,7) n jk count_utf8_text [OF assms(1), of 0]
    by (simp_all add: XChar_fromUtf8Stream_def stream_input_len_defs)
  ultimately show ?thesis by (intro exI [of _ ?utf8] exI [of _ ?out]) simp
qed

lemma utf8_roundtrip_witness:
  "\<exists>utf8' out'. XChar_toUtf8Stream (Some [0x68, 0xE9, 0x4E2D, 0xD83D, 0xDE00]) 5 (Some (replicate 13 1)) 13 = Some (10, Some utf8') \<and>
    XChar_fromUtf8Stream (Some utf8') 10 (Some (replicate 6 1)) 6 = Some (5, Some out') \<and>
    take 6 out' = [0x68, 0xE9, 0x4E2D, 0xD83D, 0xDE00, 0]"
proof -
  let ?ch = "[0x68, 0xE9, 0x4E2D, 0xD83D, 0xDE00] :: XChar list"
  have n: "XChar_toUtf8Stream (Some ?ch) (length ?ch) None 0 = Some (10, None)" by code_simp
  have w: "well_formed_utf16 ?ch" by code_simp
  have k: "length ?ch = 5" "length ?ch + 1 = 6" by simp_all
  show ?thesis using utf8_roundtrip [OF w _ n, of 13 "replicate 13 1" 6 "replicate 6 1", unfolded k] by auto
qed

text \<open>
  C10: No conversion writes outside its buffer: each of the eight conversions of a stream (from and to UTF-8, UTF-16,
  UTF-32 and Latin-1), on any input, well formed or not, that can be read up to the given count or up to a
  terminator (with the count 0, up to a terminator), returns, leaves everything from the given capacity on as it
  was, and unless it reports failure a terminator follows the units it counts.
\<close>

lemma conversions_stay_in_buffer:
  assumes "readable n8 bytes" and "readable n16 units" and "readable n32 codes"
    and "0 < max_out" and "max_out \<le> length out8" and "max_out \<le> length out16" and "max_out \<le> length out32"
  shows "stays_within out16 max_out (XChar_fromUtf8Stream (Some bytes) n8 (Some out16) max_out) \<and>
    stays_within out8 max_out (XChar_toUtf8Stream (Some units) n16 (Some out8) max_out) \<and>
    stays_within out16 max_out (XChar_fromUtf16Stream (Some units) n16 (Some out16) max_out) \<and>
    stays_within out16 max_out (XChar_toUtf16Stream (Some units) n16 (Some out16) max_out) \<and>
    stays_within out16 max_out (XChar_fromUtf32Stream (Some codes) n32 (Some out16) max_out) \<and>
    stays_within out32 max_out (XChar_toUtf32Stream (Some units) n16 (Some out32) max_out) \<and>
    stays_within out16 max_out (XChar_fromLatin1Stream (Some bytes) n8 (Some out16) max_out) \<and>
    stays_within out8 max_out (XChar_toLatin1Stream (Some units) n16 (Some out8) max_out)"
proof -
  obtain k where k: "max_out = Suc k" using assms(4) by (cases max_out) auto
  obtain i1 i2 i3 where i: "stream_input_len bytes n8 = Some i1" "stream_input_len units n16 = Some i2"
    "stream_input_len codes n32 = Some i3"
    using readable_length [OF assms(1)] readable_length [OF assms(2)] readable_length [OF assms(3)] by blast
  note buffers = assms(5-7) [unfolded k]
  show ?thesis
    unfolding k XChar_fromUtf8Stream_def XChar_toUtf8Stream_def XChar_fromUtf16Stream_def XChar_toUtf16Stream_def
      XChar_fromUtf32Stream_def XChar_toUtf32Stream_def XChar_fromLatin1Stream_def XChar_toLatin1Stream_def
    using i buffers
    by (intro conjI) (simp_all add: stream_input_len_defs stays_within_map from_utf8_loop_within to_utf8_loop_within
      copy_units_within from_utf32_loop_within to_utf32_loop_within)
qed

lemma conversions_stay_in_buffer_witness:
  "stays_within [1, 1] 2 (XChar_fromUtf8Stream (Some [0xF0, 0x9F, 0x98, 0x80, 0]) 0 (Some [1, 1]) 2)"
  using conversions_stay_in_buffer [of 0 "[0xF0, 0x9F, 0x98, 0x80, 0]" 4 "[1, 1, 1, 1]" 1 "[1]" 2 "[1, 1]" "[1, 1]" "[1, 1]"]
  by (simp add: readable_def)

text \<open>
  C29: Numbers survive the way through digits, in every base and either case: the digits are as many as announced
  and read back as the number. The least number is excluded, for which the conversion is not defined.
\<close>

lemma number_roundtrip:
  assumes "2 \<le> base" and "base \<le> 36" and "- (2 ^ 63) < v" and "v < 2 ^ 63"
  shows "\<exists>n. XChar_from_signed_num v (int base) None 0 uppercase = Some (int n, None) \<and>
    (\<forall>buf m. n \<le> m \<longrightarrow> m \<le> length buf \<longrightarrow>
      (\<exists>buf'. XChar_from_signed_num v (int base) (Some buf) m uppercase = Some (int n, Some buf') \<and>
        XChar_parse_signed (Some buf') n (int base) = Some (v, True)))"
proof -
  define t where t: "t = (if v < 0 then 0x2D # num_text base uppercase (word_of_int (- v)) else num_text base uppercase (word_of_int v))"
  have "XChar_from_signed_num v (int base) None 0 uppercase = Some (int (length t), None)"
    using assms from_unsigned_size [OF assms(1,2)] by (auto simp: t XChar_from_signed_num_def)
  then show ?thesis
    using from_signed_text [OF assms t] parse_signed_text [OF assms t] by (intro exI [of _ "length t"]) blast
qed

lemma number_roundtrip_witness:
  "\<exists>n buf'. XChar_from_signed_num (- 255) 16 (Some (replicate 20 0)) 20 True = Some (int n, Some buf') \<and>
    XChar_parse_signed (Some buf') n 16 = Some (- 255, True)"
proof -
  obtain n where n: "XChar_from_signed_num (- 255) (int 16) None 0 True = Some (int n, None)"
    "\<And>buf m. n \<le> m \<Longrightarrow> m \<le> length buf \<Longrightarrow>
      (\<exists>buf'. XChar_from_signed_num (- 255) (int 16) (Some buf) m True = Some (int n, Some buf') \<and>
        XChar_parse_signed (Some buf') n (int 16) = Some (- 255, True))"
    using number_roundtrip [of 16 "- 255" True] by auto
  moreover have "XChar_from_signed_num (- 255) (int 16) None 0 True = Some (3, None)" by code_simp
  ultimately have "n = 3" by simp
  then show ?thesis using n(2) [of 20 "replicate 20 0"] by auto
qed

end
