(* ===== verification/Spec2Isabelle.thy ===== *)
theory Spec2Isabelle
  imports CircularQueueProps RingChunkProps RingBufferProps CrcTableProps CrcDetection ModbusServeProps
    FixedPoolProps QuickProps HeapProps PriorityQueueProps MapProps XCharProps
begin

text \<open>
  XinYueC: a verified model of its queues, byte buffers, cyclic redundancy checks, Modbus server,
  lock-free memory pool, sorting routines, priority queue, red-black trees, ordered map and character
  conversions.

  The program. XinYueC is a C framework in the manner of Qt for hosts and microcontrollers: a class
  system with virtual tables (\<open>Src/XClass\<close>), containers (\<open>Src/XContainer\<close>), memory
  pools, algorithms and runtime services (\<open>Src/XCode\<close>), data types, devices and protocols.
  Byte streams pass from devices into an \<open>XRingBuffer\<close>, a vector of \<open>XRingChunk\<close>
  blocks; objects and events pass through the \<open>XCircularQueue\<close>; the protocol layer frames
  units and checks them with \<open>XCrc\<close>. Fixed-size objects come from
  \<open>XFixedPool\<close>. The development models these parts:

  \<^item> \<open>XPrelude\<close>: lists read and written by index, blocks moved inside a list, wrapped
    positions, the heap as an argument. \<open>FifoQueue\<close> and \<open>ByteStream\<close>: the contracts of a
    first-in first-out queue and of a byte store, as locales with the lemmas on whole scripts of
    operations.
  \<^item> \<open>CircularQueue\<close>, \<open>CircularQueueProps\<close>:
    \<open>XContainer/XQueue/XCircularQueue/XCircularQueue.c\<close>. The record is the structure; the block is a
    list of slots, one of which stays empty, and has as many slots as fit in the bytes that were asked for, a
    product that may wrap; each \<open>VX...\<close> function of the source is a definition of the
    same name. An operation that divides by zero, goes through NULL or leaves the block is \<open>None\<close>; the
    destructor calls are a log. The operations refine enqueue, dequeue, clear and filter on the list of elements
    where the product does not wrap; where it does, pushing writes outside the block.
  \<^item> \<open>RingChunk\<close>, \<open>RingChunkProps\<close>: \<open>XContainer/XRingChunk/XRingChunk.c\<close>, the
    bounded byte ring with a mark; it is an instance of the bounded byte buffer contract.
  \<^item> \<open>RingBuffer\<close>, \<open>RingBufferProps\<close>: \<open>XContainer/XRingBuffer/XRingBuffer.c\<close>, the
    vector of chunks; its loops over chunks are proved against the bytes held. In the stream theorems each write
    has allocations of its own, which may fail in any pattern with which the write returns, the data blocks of
    chunks included; a write that is refused data blocks only is proved not to return.
  \<^item> \<open>Gf2\<close>, \<open>Crc\<close>, \<open>CrcTables\<close>, \<open>CrcTableProps\<close>, \<open>CrcProps\<close>,
    \<open>CrcDetection\<close>: \<open>XCode/XAlgorithm/XCrc/XCrc.c\<close>. \<open>Gf2\<close> is the theory of shift
    registers; \<open>CrcTables\<close> holds the twelve tables as the source writes them, \<open>CrcTableProps\<close>
    proves every entry from the bitwise register; \<open>CrcProps\<close> proves the sixteen algorithms, the
    update in pieces and the combination by repeated squaring; \<open>CrcDetection\<close> that a changed byte
    changes the check.
  \<^item> \<open>ModbusPdu\<close>, \<open>ModbusAdu\<close>, \<open>ModbusProps\<close>:
    \<open>XProtocol/XModbus/XModbusPdu.c\<close> and \<open>XModbusAdu.c\<close>: the data unit, the registries of
    size calculators, field encoding, and the RTU and ASCII frames, which call \<open>XCrc\<close>; the round trips
    cover every outcome of the allocations on both sides.

  \<^item> \<open>ModbusServer\<close>, \<open>ModbusServe\<close>, \<open>RegisterBank\<close>, \<open>ModbusBank\<close>,
    \<open>ModbusServeProps\<close>: \<open>XModbusDataUnit.c\<close> and \<open>XModbusServer.c\<close>. The server's data
    map holds one data unit for each register type; every function code of
    \<open>VXModbusServer_processRequest\<close> is a definition \<open>serve_...\<close> that answers a request unit with a
    response or exception unit, the server afterwards and the signals emitted. \<open>RegisterBank\<close> is the
    contract of a store of numbered values as a locale, which \<open>ModbusBank\<close> interprets on the data map.
  \<^item> \<open>FixedPool\<close>, \<open>FixedPoolInv\<close>, \<open>FixedPoolProps\<close>:
    \<open>XMemory/XFixedPool/XFixedPool.c\<close> with the packed words of \<open>XCode/XAtomic/XAtomic_pack.c\<close>.
    Allocation and release are sequences of atomic steps of any number of threads
    (\<open>pool_step\<close>); the invariant splits the blocks between the free list and the threads. It holds
    while the number of exchanges is below the range of the version (at least 2 ^ 16), the bound beyond
    which the source itself accepts a risk.

  \<^item> \<open>SortOrder\<close>, \<open>XSort\<close>, \<open>SortProps\<close>, \<open>HeapProps\<close>, \<open>QuickProps\<close>:
    \<open>XCode/XAlgorithm/XSort\<close> and \<open>XFind.c\<close>. An array is a list, a pointer into it an index; an
    access outside it and a loop that does not end are \<open>None\<close>. The buffer through which \<open>XSwap\<close> exchanges two
    elements is taken to be had: without it the source ends the program. The contract of a comparison callback is
    the locale \<open>comparison\<close>, in which the routines are proved to permute and to sort.
  \<^item> \<open>PriorityQueue\<close>, \<open>PriorityQueueProps\<close>:
    \<open>XContainer/XQueue/XPriorityQueue\<close>, the heap in a vector.

  \<^item> \<open>XTree\<close>, \<open>XRedBlackTree\<close>: \<open>XCode/XAlgorithm/XTree\<close>. Nodes with links to
    their children and parent lie in a store, a map from addresses; links are written one at a time as the
    source does. \<open>TreeShape\<close> says when a store holds a tree of addresses and data, \<open>TreeSpin\<close> what the
    rotations do to it, \<open>RedBlackShape\<close>, \<open>RedBlackInsert\<close>, \<open>RedBlackErase\<close>,
    \<open>RedBlackRemove\<close> and \<open>RedBlackWalk\<close> that the loops of insertion and removal restore
    colours and heights, and what traversal, successor and deletion give; \<open>RedBlackProps\<close> states it of
    whole operations. A removal exchanges the data of two nodes through a buffer, and takes nothing out when it
    needs the buffer and is refused it. The stacks and vectors of the traversals are taken to grow.
  \<^item> \<open>XMap\<close>: \<open>XContainer/XMap\<close> and \<open>XData/XSharedData\<close>, the ordered map with
    copy on write. \<open>MapSpec\<close> is its contract on ordered lists of pairs, as a locale;
    \<open>MapTree\<close> proves the operations of an unshared map against its tree, \<open>MapOps\<close> interprets the
    contract and derives the removal by a predicate. \<open>MapCopy\<close> proves that detaching copies the tree,
    \<open>MapShare\<close> states what all maps and blocks of a memory promise together (the count of each block is
    the number of maps that point to it), \<open>MapCow\<close> and \<open>MapSystem\<close> that every operation keeps
    it, and that any sequence of operations on any number of maps is simulated by maps that share nothing, for
    any outcomes of the allocations but two: an insertion into a map without a block is given the block, and the
    vector of the nodes grows when a tree is copied. \<open>MapFaults\<close> has that the operations return in any case, and
    what goes wrong in the excluded ones; \<open>MapProps\<close> draws the conclusions.
  \<^item> \<open>Buffers\<close>, \<open>XChar\<close>, \<open>XCharCodec\<close>, \<open>XCharProps\<close>:
    \<open>XData/XChar/XChar.c\<close>, the conversions between UTF-8, UTF-16, UTF-32, Latin-1 and characters, and
    between numbers and digits. \<open>Buffers\<close> are blocks written by index, where a write outside is
    \<open>None\<close>; \<open>XCharCodec\<close> reads the loops as functions on lists, with an induction over the code
    points of well-formed text.

  Conventions. A machine word that may wrap is a word of its width; a size that cannot is a natural
  number, with the bound where a lemma needs it. Allocation is an argument: a function from the requested
  count to a block or \<open>None\<close>, or the outcome itself, so that every theorem holds for every
  behaviour of the allocator that its hypotheses allow. Element callbacks (copy, destroy, compare) are
  functions. Virtual calls are resolved to the functions that the class tables name. There is no fuel:
  every loop is a recursive function with a termination proof, except the write loop of the buffer, which
  does not end while the allocator refuses data blocks and is a partial function, and the loops of the sorting
  routines, of the priority queue and of the trees; the properties state that they return. In the trees and the
  map, following NULL, an address that was freed or a loop that does not end is \<open>None\<close> too. A map is shared
  by fewer than 2 ^ 31 others, the range of its count.

  Not modelled: the vector, string and list containers, the hash map, the sets, the variable-size memory
  pools, merge sort, the random shuffle and dates; of the characters, their classes, case tables and
  floating-point numbers; of the trees, the AVL insertion and removal; of the map, the callbacks of keys and
  values, the conversions to variants and the reverse iterator; of the priority queue, copy, move and the
  fullness test of the vector. The memory orders of atomic operations are not
  represented; those on the count of a shared block are single steps of one thread.
  Platform code, devices, network, event loop, threads, shell and user interfaces are input
  and output; cryptography, SQL, regular expressions and compression wrap vendored libraries. The code
  under \<open>Library\<close> is third-party.
\<close>

end
